(* ===== verification/Aros_Prelude.thy ===== *)
theory Aros_Prelude
  imports Main "HOL-Library.Word" "HOL-Library.Code_Target_Nat"
begin

text \<open>
  The shared ground of the development: machine integers and byte buffers as the Rust
  code has them, results with errors as values, the checked reads and the checked
  arithmetic of the standard library, little- and big-endian integers, and the two
  interfaces (locales) that the binary formats of the workspace have in common: a
  reader that consumes a prefix of its input, and a self-delimiting record codec.
\<close>

section \<open>Types\<close>

type_synonym u8 = "8 word"
type_synonym u16 = "16 word"
type_synonym u32 = "32 word"
type_synonym u64 = "64 word"

text \<open>A byte buffer or slice (\<open>&[u8]\<close>, \<open>Vec<u8>\<close>).\<close>

type_synonym bytes = "u8 list"

text \<open>
  \<open>usize\<close> is modelled by \<open>nat\<close> on the supported 64-bit hosts: every addition or
  multiplication that the source checks is checked here against \<open>2 ^ 64\<close>.
\<close>

type_synonym usize = nat

text \<open>\<open>Result<T, E>\<close>: \<open>Inl\<close> is \<open>Err\<close>, \<open>Inr\<close> is \<open>Ok\<close>.\<close>

type_synonym ('e, 'a) result = "'e + 'a"

named_theorems reader_simps "equations that evaluate the checked reads"
named_theorems codec_simps "round-trip equations of the integer encodings"

section \<open>Results\<close>

text \<open>
  The question-mark operator and the \<open>ensure!\<close> macro. Both are abbreviations of the
  \<open>case\<close> and \<open>if\<close> they stand for, so the case splitter sees through them.
\<close>

abbreviation rbind :: "('e, 'a) result \<Rightarrow> ('a \<Rightarrow> ('e, 'b) result) \<Rightarrow> ('e, 'b) result" where
  "rbind m f \<equiv> case_sum Inl f m"

abbreviation ensure :: "bool \<Rightarrow> 'e \<Rightarrow> ('e, 'a) result \<Rightarrow> ('e, 'a) result" where
  "ensure c e k \<equiv> (if c then k else Inl e)"

text \<open>\<open>Option::ok_or\<close> and \<open>anyhow::Context::context\<close> on an option.\<close>

definition ok_or :: "'a option \<Rightarrow> 'e \<Rightarrow> ('e, 'a) result" where
  "ok_or o' e = (case o' of None \<Rightarrow> Inl e | Some x \<Rightarrow> Inr x)"

text \<open>\<open>Result::map_err\<close> (also \<open>context\<close> on a result).\<close>

definition map_err :: "('e \<Rightarrow> 'f) \<Rightarrow> ('e, 'a) result \<Rightarrow> ('f, 'a) result" where
  "map_err f r = (case r of Inl e \<Rightarrow> Inl (f e) | Inr x \<Rightarrow> Inr x)"

definition is_ok :: "('e, 'a) result \<Rightarrow> bool" where
  "is_ok r = (case r of Inl _ \<Rightarrow> False | Inr _ \<Rightarrow> True)"

lemma ok_or_simps [simp]:
  "ok_or None e = Inl e"
  "ok_or (Some x) e = Inr x"
  by (simp_all add: ok_or_def)

lemma map_err_simps [simp]:
  "map_err f (Inl e) = Inl (f e)"
  "map_err f (Inr x) = Inr x"
  by (simp_all add: map_err_def)

lemma is_ok_simps [simp]:
  "is_ok (Inr x)"
  "\<not> is_ok (Inl e)"
  by (simp_all add: is_ok_def)

lemma ok_or_eq_Inr [simp]: "ok_or m e = Inr x \<longleftrightarrow> m = Some x"
  by (cases m) auto

lemma map_err_eq_Inr [simp]: "map_err f r = Inr x \<longleftrightarrow> r = Inr x"
  by (cases r) auto

lemma rbind_eq_Inr: "rbind m f = Inr y \<longleftrightarrow> (\<exists>x. m = Inr x \<and> f x = Inr y)"
  by (cases m) auto

lemma ensure_eq_Inr: "ensure c e k = Inr y \<longleftrightarrow> c \<and> k = Inr y"
  by simp

lemma is_ok_iff: "is_ok r \<longleftrightarrow> (\<exists>x. r = Inr x)"
  by (cases r) auto

lemmas result_iffs = rbind_eq_Inr ensure_eq_Inr

section \<open>Checked arithmetic on \<open>usize\<close>\<close>

definition usize_limit :: nat where
  "usize_limit = 2 ^ 64"

definition checked_add :: "usize \<Rightarrow> usize \<Rightarrow> usize option" where
  "checked_add a b = (if a + b < usize_limit then Some (a + b) else None)"

definition checked_mul :: "usize \<Rightarrow> usize \<Rightarrow> usize option" where
  "checked_mul a b = (if a * b < usize_limit then Some (a * b) else None)"

definition checked_sub :: "usize \<Rightarrow> usize \<Rightarrow> usize option" where
  "checked_sub a b = (if b \<le> a then Some (a - b) else None)"

text \<open>\<open>u32::try_from\<close> on a \<open>usize\<close>.\<close>

definition u32_try_from :: "usize \<Rightarrow> u32 option" where
  "u32_try_from n = (if n < 2 ^ 32 then Some (of_nat n) else None)"

lemma checked_add_eq_Some [simp]:
  "checked_add a b = Some c \<longleftrightarrow> c = a + b \<and> a + b < usize_limit"
  by (auto simp: checked_add_def)

lemma checked_mul_eq_Some [simp]:
  "checked_mul a b = Some c \<longleftrightarrow> c = a * b \<and> a * b < usize_limit"
  by (auto simp: checked_mul_def)

lemma checked_sub_eq_Some [simp]:
  "checked_sub a b = Some c \<longleftrightarrow> c = a - b \<and> b \<le> a"
  by (auto simp: checked_sub_def)

lemma u32_try_from_eq_Some [simp]:
  "u32_try_from n = Some w \<longleftrightarrow> w = of_nat n \<and> n < 2 ^ 32"
  by (auto simp: u32_try_from_def)

section \<open>Checked reads of slices\<close>

text \<open>
  \<open>slice.get(a..b)\<close>: \<open>None\<close> when the range is reversed or runs past the end; never
  a panic and never a byte from outside the slice. \<open>slice.get(i)\<close> is \<open>get_at\<close>.
\<close>

definition get_range :: "'a list \<Rightarrow> usize \<Rightarrow> usize \<Rightarrow> 'a list option" where
  "get_range xs a b = (if a \<le> b \<and> b \<le> length xs then Some (take (b - a) (drop a xs)) else None)"

definition get_at :: "'a list \<Rightarrow> usize \<Rightarrow> 'a option" where
  "get_at xs i = (if i < length xs then Some (xs ! i) else None)"

text \<open>\<open>slice.get(a..)\<close>.\<close>

definition get_from :: "'a list \<Rightarrow> usize \<Rightarrow> 'a list option" where
  "get_from xs a = (if a \<le> length xs then Some (drop a xs) else None)"

lemma get_range_eq_Some:
  "get_range xs a b = Some ys \<longleftrightarrow> a \<le> b \<and> b \<le> length xs \<and> ys = take (b - a) (drop a xs)"
  by (auto simp: get_range_def)

lemma get_at_eq_Some [simp]: "get_at xs i = Some x \<longleftrightarrow> i < length xs \<and> x = xs ! i"
  by (auto simp: get_at_def)

lemma get_from_eq_Some [simp]: "get_from xs a = Some ys \<longleftrightarrow> a \<le> length xs \<and> ys = drop a xs"
  by (auto simp: get_from_def)

lemma get_range_length: "get_range xs a b = Some ys \<Longrightarrow> length ys = b - a \<and> b \<le> length xs"
  by (auto simp: get_range_eq_Some)

lemma get_range_append:
  "get_range (pre @ ys @ post) (length pre) (length pre + length ys) = Some ys"
  by (simp add: get_range_def)

lemma get_range_nth: "get_range xs a b = Some ys \<Longrightarrow> i < b - a \<Longrightarrow> ys ! i = xs ! (a + i)"
  by (auto simp: get_range_eq_Some)

lemma get_range_prefix:
  "get_range xs a b = Some ys \<Longrightarrow> get_range (xs @ zs) a b = Some ys"
  by (auto simp: get_range_eq_Some)

lemma get_range_drop: "get_range xs a b = Some ys \<Longrightarrow> drop a xs = ys @ drop b xs"
  by (auto simp: get_range_eq_Some) (metis append_take_drop_id drop_drop le_add_diff_inverse2)

text \<open>\<open>iter().position(|b| b == x)\<close>.\<close>

fun position :: "('a \<Rightarrow> bool) \<Rightarrow> 'a list \<Rightarrow> usize option" where
  "position P [] = None"
| "position P (x # xs) = (if P x then Some 0 else map_option Suc (position P xs))"

lemma position_eq_Some:
  "position P xs = Some n \<longleftrightarrow> n < length xs \<and> P (xs ! n) \<and> (\<forall>i<n. \<not> P (xs ! i))"
proof (induction xs arbitrary: n)
  case Nil
  then show ?case by simp
next
  case (Cons x xs)
  show ?case
    by (cases n) (auto simp: Cons.IH less_Suc_eq_0_disj)
qed

lemma position_eq_None: "position P xs = None \<longleftrightarrow> (\<forall>x\<in>set xs. \<not> P x)"
  by (induction xs) auto

lemma position_append:
  "\<forall>x\<in>set xs. \<not> P x \<Longrightarrow> position P ys = Some n \<Longrightarrow> position P (xs @ ys) = Some (length xs + n)"
  by (induction xs) auto

lemma position_take_none:
  "position P xs = Some n \<Longrightarrow> \<forall>x\<in>set (take n xs). \<not> P x"
  by (auto simp: position_eq_Some in_set_conv_nth)

section \<open>Integers in byte buffers\<close>

fun le_nat :: "bytes \<Rightarrow> nat" where
  "le_nat [] = 0"
| "le_nat (b # bs) = unat b + 256 * le_nat bs"

fun le_bytes :: "nat \<Rightarrow> nat \<Rightarrow> bytes" where
  "le_bytes 0 x = []"
| "le_bytes (Suc n) x = of_nat x # le_bytes n (x div 256)"

definition be_nat :: "bytes \<Rightarrow> nat" where
  "be_nat bs = le_nat (rev bs)"

definition be_bytes :: "nat \<Rightarrow> nat \<Rightarrow> bytes" where
  "be_bytes n x = rev (le_bytes n x)"

lemma length_le_bytes [simp]: "length (le_bytes n x) = n"
  by (induction n x rule: le_bytes.induct) auto

lemma length_be_bytes [simp]: "length (be_bytes n x) = n"
  by (simp add: be_bytes_def)

lemma unat_u8_less: "unat (b :: u8) < 256"
  using unsigned_less [of b] by simp

lemma unat_u32_less: "unat (w :: u32) < 2 ^ 32"
  using unsigned_less [of w] by simp

lemma unat_u64_less: "unat (w :: u64) < 2 ^ 64"
  using unsigned_less [of w] by simp

lemma le_nat_bound: "le_nat bs < 256 ^ length bs"
proof (induction bs)
  case Nil
  then show ?case by simp
next
  case (Cons b bs)
  have "unat b < 256" by (rule unat_u8_less)
  moreover from Cons have "le_nat bs + 1 \<le> 256 ^ length bs" by simp
  ultimately have "unat b + 256 * le_nat bs < 256 * (256 ^ length bs)" by linarith
  then show ?case by simp
qed

lemma be_nat_bound: "be_nat bs < 256 ^ length bs"
  using le_nat_bound [of "rev bs"] by (simp add: be_nat_def)

lemma le_nat_le_bytes [codec_simps]: "le_nat (le_bytes n x) = x mod 256 ^ n"
proof (induction n x rule: le_bytes.induct)
  case (1 x)
  then show ?case by simp
next
  case (2 n x)
  have "unat (of_nat x :: u8) = x mod 256" by (simp add: unat_of_nat)
  with 2 show ?case by (simp add: mod_mult2_eq)
qed

lemma le_bytes_le_nat [codec_simps]: "le_bytes (length bs) (le_nat bs) = bs"
proof (induction bs)
  case Nil
  then show ?case by simp
next
  case (Cons b bs)
  have "unat b < 256" by (rule unat_u8_less)
  then have "(unat b + 256 * le_nat bs) div 256 = le_nat bs" by simp
  moreover have "(of_nat (unat b + 256 * le_nat bs) :: u8) = b"
  proof -
    have "(256 :: u8) = 0" by simp
    then have "(of_nat (256 * le_nat bs) :: u8) = 0" by (simp only: of_nat_mult of_nat_numeral) simp
    then show ?thesis by (simp only: of_nat_add) simp
  qed
  ultimately show ?case using Cons by simp
qed

lemma be_nat_be_bytes [codec_simps]: "be_nat (be_bytes n x) = x mod 256 ^ n"
  by (simp add: be_nat_def be_bytes_def codec_simps)

lemma be_bytes_be_nat [codec_simps]: "be_bytes (length bs) (be_nat bs) = bs"
proof -
  have "rev bs = le_bytes (length (rev bs)) (le_nat (rev bs))"
    by (simp only: le_bytes_le_nat)
  then have "rev (rev bs) = rev (le_bytes (length bs) (le_nat (rev bs)))" by simp
  then show ?thesis by (simp add: be_nat_def be_bytes_def)
qed

text \<open>\<open>uN::from_le_bytes\<close>, \<open>uN::to_le_bytes\<close> and their big-endian versions.\<close>

definition u16_from_le :: "bytes \<Rightarrow> u16" where
  "u16_from_le bs = of_nat (le_nat bs)"

definition u32_from_le :: "bytes \<Rightarrow> u32" where
  "u32_from_le bs = of_nat (le_nat bs)"

definition u64_from_le :: "bytes \<Rightarrow> u64" where
  "u64_from_le bs = of_nat (le_nat bs)"

definition u32_from_be :: "bytes \<Rightarrow> u32" where
  "u32_from_be bs = of_nat (be_nat bs)"

definition u32_to_le :: "u32 \<Rightarrow> bytes" where
  "u32_to_le w = le_bytes 4 (unat w)"

definition u32_to_be :: "u32 \<Rightarrow> bytes" where
  "u32_to_be w = be_bytes 4 (unat w)"

lemma length_u32_to [simp]:
  "length (u32_to_le w) = 4"
  "length (u32_to_be w) = 4"
  by (simp_all add: u32_to_le_def u32_to_be_def)

lemma unat_u32_mod [simp]: "unat (w :: u32) mod 4294967296 = unat w"
proof -
  have "unat w < 2 ^ 32" by (rule unat_u32_less)
  then show ?thesis by simp
qed

lemma u32_from_to_le [simp, codec_simps]: "u32_from_le (u32_to_le w) = w"
  by (simp add: u32_from_le_def u32_to_le_def le_nat_le_bytes)

lemma u32_from_to_be [simp, codec_simps]: "u32_from_be (u32_to_be w) = w"
  by (simp add: u32_from_be_def u32_to_be_def be_nat_be_bytes)

lemma unat_u32_from_be: "length bs = 4 \<Longrightarrow> unat (u32_from_be bs) = be_nat bs"
proof -
  assume "length bs = 4"
  then have "be_nat bs < 2 ^ 32" using be_nat_bound [of bs] by simp
  then show ?thesis by (simp add: u32_from_be_def unat_of_nat)
qed

lemma unat_u32_from_le: "length bs = 4 \<Longrightarrow> unat (u32_from_le bs) = le_nat bs"
proof -
  assume "length bs = 4"
  then have "le_nat bs < 2 ^ 32" using le_nat_bound [of bs] by simp
  then show ?thesis by (simp add: u32_from_le_def unat_of_nat)
qed

lemma u32_to_from_be: "length bs = 4 \<Longrightarrow> u32_to_be (u32_from_be bs) = bs"
  using be_bytes_be_nat [of bs] by (simp add: u32_to_be_def unat_u32_from_be)

lemma u32_to_from_le: "length bs = 4 \<Longrightarrow> u32_to_le (u32_from_le bs) = bs"
  using le_bytes_le_nat [of bs] by (simp add: u32_to_le_def unat_u32_from_le)

section \<open>Readers that consume a prefix\<close>

text \<open>
  Several decoders of the workspace take \<open>&mut &[u8]\<close>, read a value off the front and
  leave the rest. What every caller relies on is that the rest is a proper suffix of the
  input: that is why their loops end, and why a reader never sees bytes from outside the
  slice it was given.
\<close>

locale prefix_reader =
  fixes reader :: "bytes \<Rightarrow> ('e, 'a \<times> bytes) result"
  assumes consumes: "reader bs = Inr (v, rest) \<Longrightarrow> \<exists>used. used \<noteq> [] \<and> bs = used @ rest"
begin

lemma shrinks: "reader bs = Inr (v, rest) \<Longrightarrow> length rest < length bs"
  using consumes by fastforce

lemma within: "reader bs = Inr (v, rest) \<Longrightarrow> set rest \<subseteq> set bs"
  using consumes by fastforce

lemma is_suffix: "reader bs = Inr (v, rest) \<Longrightarrow> rest = drop (length bs - length rest) bs"
  using consumes by fastforce

lemma empty_fails: "\<exists>e. reader [] = Inl e"
proof (cases "reader []")
  case (Inr p)
  then obtain v rest where "reader [] = Inr (v, rest)" by (cases p) auto
  then show ?thesis using shrinks by fastforce
qed auto

end

section \<open>Streams of self-delimiting records\<close>

text \<open>
  A container that is a sequence of records, each read at a byte offset and returning the
  offset of the next. \<open>record raw x\<close> is the format's own definition of one record: the
  bytes \<open>raw\<close> denote the value \<open>x\<close>. The decoder of one record promises to accept
  exactly such bytes, wherever they stand in the buffer; what follows is that the loop over
  the whole buffer accepts exactly the sequences of records. \<open>loop\<close> is the component's
  own loop and \<open>loop_unfold\<close> is its code; \<open>fits\<close> bounds the buffer.
\<close>

locale record_stream =
  fixes record' :: "bytes \<Rightarrow> 'a \<Rightarrow> bool"
    and dec :: "bytes \<Rightarrow> usize \<Rightarrow> ('e, 'a \<times> usize) result"
    and loop :: "bytes \<Rightarrow> usize \<Rightarrow> ('e, 'a list) result"
    and fits :: "bytes \<Rightarrow> bool"
  assumes record_not_Nil: "record' raw x \<Longrightarrow> raw \<noteq> []"
    and dec_accepts: "record' raw x \<Longrightarrow> fits (pre @ raw @ post) \<Longrightarrow>
      dec (pre @ raw @ post) (length pre) = Inr (x, length pre + length raw)"
    and dec_sound: "dec bs pos = Inr (x, pos') \<Longrightarrow>
      \<exists>raw. record' raw x \<and> pos' = pos + length raw \<and> pos' \<le> length bs \<and> drop pos bs = raw @ drop pos' bs"
    and loop_unfold: "loop bs pos =
      (if pos < length bs
       then rbind (dec bs pos) (\<lambda>(x, pos'). rbind (loop bs pos') (\<lambda>xs. Inr (x # xs)))
       else Inr [])"
begin

lemma loop_end: "length bs \<le> pos \<Longrightarrow> loop bs pos = Inr []"
  by (simp add: loop_unfold [of bs pos])

lemma loop_accepts:
  "list_all2 record' raws xs \<Longrightarrow> fits (pre @ concat raws) \<Longrightarrow>
     loop (pre @ concat raws) (length pre) = Inr xs"
proof (induction raws xs arbitrary: pre rule: list_all2_induct)
  case Nil
  then show ?case by (simp add: loop_end)
next
  case (Cons raw raws x xs)
  have "dec (pre @ raw @ concat raws) (length pre) = Inr (x, length pre + length raw)"
    using Cons by (intro dec_accepts) simp_all
  moreover have "loop ((pre @ raw) @ concat raws) (length (pre @ raw)) = Inr xs"
    using Cons by (intro Cons.IH) simp
  ultimately show ?case
    using record_not_Nil [OF Cons(1)]
    by (simp add: loop_unfold [of "pre @ raw @ concat raws" "length pre"])
qed

lemma loop_sound:
  "loop bs pos = Inr xs \<Longrightarrow> \<exists>raws. list_all2 record' raws xs \<and> drop pos bs = concat raws"
proof (induction xs arbitrary: pos)
  case Nil
  then show ?case
    using loop_unfold [of bs pos] by (auto simp: rbind_eq_Inr split: if_splits)
next
  case (Cons x xs)
  then obtain pos' where d: "dec bs pos = Inr (x, pos')" and l: "loop bs pos' = Inr xs"
    using loop_unfold [of bs pos] by (auto simp: rbind_eq_Inr split: if_splits)
  obtain raw where raw: "record' raw x" "drop pos bs = raw @ drop pos' bs"
    using dec_sound [OF d] by blast
  obtain raws where raws: "list_all2 record' raws xs" "drop pos' bs = concat raws"
    using Cons.IH [OF l] by blast
  have "list_all2 record' (raw # raws) (x # xs) \<and> drop pos bs = concat (raw # raws)"
    using raw raws by simp
  then show ?case by blast
qed

end

section \<open>Searching lists\<close>

lemma find_SomeD: "find P xs = Some x \<Longrightarrow> x \<in> set xs \<and> P x"
  by (auto simp: find_Some_iff)

lemma find_unique:
  "distinct (map f xs) \<Longrightarrow> x \<in> set xs \<Longrightarrow> f x = k \<Longrightarrow> find (\<lambda>x. f x = k) xs = Some x"
  by (induction xs) (auto simp: image_iff)

section \<open>64-bit arithmetic\<close>

text \<open>\<open>u64::checked_add\<close>, \<open>checked_mul\<close>, \<open>is_power_of_two\<close> and \<open>is_multiple_of\<close>.\<close>

definition checked_add_u64 :: "u64 \<Rightarrow> u64 \<Rightarrow> u64 option" where
  "checked_add_u64 a b = (if unat a + unat b < 2 ^ 64 then Some (a + b) else None)"

definition checked_mul_u64 :: "u64 \<Rightarrow> u64 \<Rightarrow> u64 option" where
  "checked_mul_u64 a b = (if unat a * unat b < 2 ^ 64 then Some (a * b) else None)"

definition is_power_of_two :: "u64 \<Rightarrow> bool" where
  "is_power_of_two w = list_ex (\<lambda>k. w = push_bit k 1) [0..<64]"

definition is_multiple_of :: "u64 \<Rightarrow> u64 \<Rightarrow> bool" where
  "is_multiple_of a b = (if b = 0 then a = 0 else a mod b = 0)"

lemma checked_add_u64_eq_Some: "checked_add_u64 a b = Some c \<longleftrightarrow> unat c = unat a + unat b"
proof
  assume "unat c = unat a + unat b"
  moreover from this have "unat a + unat b < 2 ^ 64" using unat_u64_less [of c] by simp
  moreover from this have "unat (a + b) = unat a + unat b" by (simp add: unat_word_ariths)
  ultimately show "checked_add_u64 a b = Some c" by (simp add: checked_add_u64_def word_unat_eq_iff)
qed (auto simp: checked_add_u64_def unat_word_ariths split: if_splits)

lemma checked_mul_u64_eq_Some: "checked_mul_u64 a b = Some c \<longleftrightarrow> unat c = unat a * unat b"
proof
  assume "unat c = unat a * unat b"
  moreover from this have "unat a * unat b < 2 ^ 64" using unat_u64_less [of c] by simp
  moreover from this have "unat (a * b) = unat a * unat b" by (simp add: unat_word_ariths)
  ultimately show "checked_mul_u64 a b = Some c" by (simp add: checked_mul_u64_def word_unat_eq_iff)
qed (auto simp: checked_mul_u64_def unat_word_ariths split: if_splits)

lemma is_multiple_of_iff: "b \<noteq> 0 \<Longrightarrow> is_multiple_of a b \<longleftrightarrow> unat b dvd unat a"
  by (simp add: is_multiple_of_def word_unat_eq_iff unat_mod dvd_eq_mod_eq_0)

end
