(* ===== verification/Rust_Str.thy ===== *)
theory Rust_Str
  imports Aros_Prelude
begin

text \<open>
  The parts of Rust's \<open>str\<close> and \<open>char\<close> that the modelled code uses. A \<open>String\<close> is
  its UTF-8 byte sequence, as in Rust: \<open>len\<close> is the number of bytes, comparison and
  \<open>split\<close> on an ASCII character work on bytes, and \<open>chars\<close> decodes. The theory
  holds the decoder (\<open>from_utf8\<close>, \<open>chars\<close>), the replacing decoder
  (\<open>from_utf8_lossy\<close>), the encoder, ASCII classes and case, \<open>split\<close>,
  \<open>split_once\<close>, \<open>lines\<close>, \<open>trim\<close>, the integer parsers and the decimal printer,
  with the round trips between them.
\<close>

type_synonym rstring = bytes

section \<open>Literals and ASCII classes\<close>

definition ascii :: "string \<Rightarrow> rstring" where
  "ascii s = map of_char s"

abbreviation char_byte :: "char \<Rightarrow> u8" where
  "char_byte c \<equiv> of_char c"

definition is_ascii_lowercase :: "u8 \<Rightarrow> bool" where
  "is_ascii_lowercase b = (97 \<le> b \<and> b \<le> 122)"

definition is_ascii_uppercase :: "u8 \<Rightarrow> bool" where
  "is_ascii_uppercase b = (65 \<le> b \<and> b \<le> 90)"

definition is_ascii_digit :: "u8 \<Rightarrow> bool" where
  "is_ascii_digit b = (48 \<le> b \<and> b \<le> 57)"

definition is_ascii_alphanumeric :: "u8 \<Rightarrow> bool" where
  "is_ascii_alphanumeric b = (is_ascii_lowercase b \<or> is_ascii_uppercase b \<or> is_ascii_digit b)"

definition is_ascii_hexdigit :: "u8 \<Rightarrow> bool" where
  "is_ascii_hexdigit b = (is_ascii_digit b \<or> 97 \<le> b \<and> b \<le> 102 \<or> 65 \<le> b \<and> b \<le> 70)"

definition is_ascii_graphic :: "u8 \<Rightarrow> bool" where
  "is_ascii_graphic b = (33 \<le> b \<and> b \<le> 126)"

definition ascii_lower :: "u8 \<Rightarrow> u8" where
  "ascii_lower b = (if is_ascii_uppercase b then b + 32 else b)"

definition ascii_upper :: "u8 \<Rightarrow> u8" where
  "ascii_upper b = (if is_ascii_lowercase b then b - 32 else b)"

definition to_ascii_lowercase :: "rstring \<Rightarrow> rstring" where
  "to_ascii_lowercase s = map ascii_lower s"

definition to_ascii_uppercase :: "rstring \<Rightarrow> rstring" where
  "to_ascii_uppercase s = map ascii_upper s"

lemmas ascii_class_defs =
  is_ascii_lowercase_def is_ascii_uppercase_def is_ascii_digit_def is_ascii_alphanumeric_def
  is_ascii_hexdigit_def is_ascii_graphic_def

section \<open>Prefixes, suffixes and splitting\<close>

fun starts_with :: "'a list \<Rightarrow> 'a list \<Rightarrow> bool" where
  "starts_with xs [] = True"
| "starts_with [] (p # ps) = False"
| "starts_with (x # xs) (p # ps) = (x = p \<and> starts_with xs ps)"

definition ends_with :: "'a list \<Rightarrow> 'a list \<Rightarrow> bool" where
  "ends_with xs ps = starts_with (rev xs) (rev ps)"

definition strip_prefix :: "'a list \<Rightarrow> 'a list \<Rightarrow> 'a list option" where
  "strip_prefix xs ps = (if starts_with xs ps then Some (drop (length ps) xs) else None)"

definition strip_suffix :: "'a list \<Rightarrow> 'a list \<Rightarrow> 'a list option" where
  "strip_suffix xs ps =
     (if ends_with xs ps then Some (take (length xs - length ps) xs) else None)"

text \<open>\<open>slice.split(P)\<close> and \<open>str.split(c)\<close>: one piece more than there are separators.\<close>

fun split_on :: "('a \<Rightarrow> bool) \<Rightarrow> 'a list \<Rightarrow> 'a list list" where
  "split_on P [] = [[]]"
| "split_on P (x # xs) =
     (if P x then [] # split_on P xs
      else (case split_on P xs of [] \<Rightarrow> [[x]] | y # ys \<Rightarrow> (x # y) # ys))"

fun split_once :: "'a \<Rightarrow> 'a list \<Rightarrow> ('a list \<times> 'a list) option" where
  "split_once c [] = None"
| "split_once c (x # xs) =
     (if x = c then Some ([], xs)
      else map_option (\<lambda>(l, r). (x # l, r)) (split_once c xs))"

lemma starts_with_iff: "starts_with xs ps \<longleftrightarrow> (\<exists>zs. xs = ps @ zs)"
  by (induction xs ps rule: starts_with.induct) auto

lemma starts_with_append [simp]: "starts_with (ps @ zs) ps"
  by (auto simp: starts_with_iff)

lemma ends_with_iff: "ends_with xs ps \<longleftrightarrow> (\<exists>zs. xs = zs @ ps)"
proof -
  have "(\<exists>zs. rev xs = rev ps @ zs) \<longleftrightarrow> (\<exists>zs. xs = zs @ ps)"
    by (metis rev_append rev_rev_ident)
  then show ?thesis by (simp add: ends_with_def starts_with_iff)
qed

lemma strip_prefix_eq_Some: "strip_prefix xs ps = Some ys \<longleftrightarrow> xs = ps @ ys"
  by (auto simp: strip_prefix_def starts_with_iff)

lemma split_on_not_Nil [simp]: "split_on P xs \<noteq> []"
  by (induction xs) (auto split: list.splits)

lemma length_split_on: "length (split_on P xs) = Suc (length (filter P xs))"
  by (induction xs) (auto split: list.splits)

lemma split_on_free: "ys \<in> set (split_on P xs) \<Longrightarrow> y \<in> set ys \<Longrightarrow> \<not> P y \<and> y \<in> set xs"
proof (induction xs arbitrary: ys)
  case Nil
  then show ?case by simp
next
  case (Cons x xs)
  obtain z zs where "split_on P xs = z # zs" by (cases "split_on P xs") auto
  with Cons show ?case by (fastforce split: if_splits)
qed

lemma split_on_no_sep: "\<forall>x\<in>set xs. \<not> P x \<Longrightarrow> split_on P xs = [xs]"
  by (induction xs) auto

lemma split_on_append_sep:
  "\<forall>x\<in>set xs. \<not> P x \<Longrightarrow> P c \<Longrightarrow> split_on P (xs @ c # ys) = xs # split_on P ys"
  by (induction xs) auto

lemma split_once_eq_Some:
  "split_once c xs = Some (l, r) \<longleftrightarrow> xs = l @ c # r \<and> c \<notin> set l"
proof (induction xs arbitrary: l)
  case Nil
  then show ?case by simp
next
  case (Cons x xs)
  then show ?case by (cases l) auto
qed

lemma split_once_eq_None: "split_once c xs = None \<longleftrightarrow> c \<notin> set xs"
  by (induction xs) auto

section \<open>UTF-8\<close>

text \<open>
  One decoding step on a non-empty input: a scalar value and the bytes it takes, or the
  number of bytes of a maximal ill-formed sequence, which \<open>from_utf8_lossy\<close> replaces
  by one replacement character. Bytes past the end read as 0, which is no continuation
  byte.
\<close>

datatype utf8_step = Utf8Char nat nat | Utf8Bad nat

definition utf8_cont :: "nat \<Rightarrow> bool" where
  "utf8_cont y = (128 \<le> y \<and> y < 192)"

definition utf8_second3 :: "nat \<Rightarrow> nat \<Rightarrow> bool" where
  "utf8_second3 x y = (if x = 224 then 160 \<le> y \<and> y < 192
     else if x = 237 then 128 \<le> y \<and> y < 160 else utf8_cont y)"

definition utf8_second4 :: "nat \<Rightarrow> nat \<Rightarrow> bool" where
  "utf8_second4 x y = (if x = 240 then 144 \<le> y \<and> y < 192
     else if x = 244 then 128 \<le> y \<and> y < 144 else utf8_cont y)"

definition byte_or_zero :: "bytes \<Rightarrow> nat \<Rightarrow> nat" where
  "byte_or_zero bs i = (if i < length bs then unat (bs ! i) else 0)"

text \<open>Appending the six payload bits of a continuation byte.\<close>

definition push6 :: "nat \<Rightarrow> nat \<Rightarrow> nat" where
  "push6 a d = a * 64 + d"

definition utf8_next :: "u8 \<Rightarrow> bytes \<Rightarrow> utf8_step" where
  "utf8_next b rest =
     (let x = unat b; y = byte_or_zero rest 0; z = byte_or_zero rest 1; w = byte_or_zero rest 2
      in if x < 128 then Utf8Char x 1
         else if x < 194 then Utf8Bad 1
         else if x < 224 then
           (if utf8_cont y then Utf8Char (push6 (x - 192) (y - 128)) 2 else Utf8Bad 1)
         else if x < 240 then
           (if \<not> utf8_second3 x y then Utf8Bad 1
            else if \<not> utf8_cont z then Utf8Bad 2
            else Utf8Char (push6 (push6 (x - 224) (y - 128)) (z - 128)) 3)
         else if x < 245 then
           (if \<not> utf8_second4 x y then Utf8Bad 1
            else if \<not> utf8_cont z then Utf8Bad 2
            else if \<not> utf8_cont w then Utf8Bad 3
            else Utf8Char (push6 (push6 (push6 (x - 240) (y - 128)) (z - 128)) (w - 128)) 4)
         else Utf8Bad 1)"

text \<open>For evaluation: look at later bytes only when the first one is not ASCII.\<close>

lemma byte_or_zero_code [code]: "byte_or_zero bs i = (case drop i bs of [] \<Rightarrow> 0 | b # _ \<Rightarrow> unat b)"
proof (cases "i < length bs")
  case True
  then have "drop i bs = bs ! i # drop (Suc i) bs" by (simp add: Cons_nth_drop_Suc)
  with True show ?thesis by (simp add: byte_or_zero_def)
qed (simp add: byte_or_zero_def)

definition utf8_next_wide :: "u8 \<Rightarrow> bytes \<Rightarrow> utf8_step" where
  "utf8_next_wide b rest =
     (let x = unat b; y = byte_or_zero rest 0; z = byte_or_zero rest 1; w = byte_or_zero rest 2
      in if x < 128 then Utf8Char x 1
         else if x < 194 then Utf8Bad 1
         else if x < 224 then
           (if utf8_cont y then Utf8Char (push6 (x - 192) (y - 128)) 2 else Utf8Bad 1)
         else if x < 240 then
           (if \<not> utf8_second3 x y then Utf8Bad 1
            else if \<not> utf8_cont z then Utf8Bad 2
            else Utf8Char (push6 (push6 (x - 224) (y - 128)) (z - 128)) 3)
         else if x < 245 then
           (if \<not> utf8_second4 x y then Utf8Bad 1
            else if \<not> utf8_cont z then Utf8Bad 2
            else if \<not> utf8_cont w then Utf8Bad 3
            else Utf8Char (push6 (push6 (push6 (x - 240) (y - 128)) (z - 128)) (w - 128)) 4)
         else Utf8Bad 1)"

lemma utf8_next_code [code]:
  "utf8_next b rest = (if b < 128 then Utf8Char (unat b) 1 else utf8_next_wide b rest)"
  by (simp add: utf8_next_wide_def utf8_next_def word_less_nat_alt)

text \<open>\<open>str::from_utf8\<close> followed by \<open>chars\<close>: \<open>None\<close> when the bytes are not UTF-8.\<close>

fun utf8_chars :: "bytes \<Rightarrow> nat list option" where
  "utf8_chars [] = Some []"
| "utf8_chars (b # rest) =
     (case utf8_next b rest of
        Utf8Bad _ \<Rightarrow> None
      | Utf8Char c w \<Rightarrow> map_option ((#) c) (utf8_chars (drop (w - 1) rest)))"

definition utf8_valid :: "bytes \<Rightarrow> bool" where
  "utf8_valid bs = (utf8_chars bs \<noteq> None)"

text \<open>\<open>String::from_utf8_lossy\<close>.\<close>

fun from_utf8_lossy :: "bytes \<Rightarrow> rstring" where
  "from_utf8_lossy [] = []"
| "from_utf8_lossy (b # rest) =
     (case utf8_next b rest of
        Utf8Bad w \<Rightarrow> [239, 191, 189] @ from_utf8_lossy (drop (w - 1) rest)
      | Utf8Char c w \<Rightarrow> (b # take (w - 1) rest) @ from_utf8_lossy (drop (w - 1) rest))"

text \<open>\<open>char::encode_utf8\<close>.\<close>

definition utf8_encode_char :: "nat \<Rightarrow> bytes" where
  "utf8_encode_char c =
     (if c < 128 then [of_nat c]
      else if c < 2048 then [of_nat (192 + c div 64), of_nat (128 + c mod 64)]
      else if c < 65536 then
        [of_nat (224 + c div 64 div 64), of_nat (128 + c div 64 mod 64), of_nat (128 + c mod 64)]
      else [of_nat (240 + c div 64 div 64 div 64), of_nat (128 + c div 64 div 64 mod 64),
            of_nat (128 + c div 64 mod 64), of_nat (128 + c mod 64)])"

definition utf8_encode :: "nat list \<Rightarrow> rstring" where
  "utf8_encode cs = concat (map utf8_encode_char cs)"

definition scalar_value :: "nat \<Rightarrow> bool" where
  "scalar_value c = (c < 55296 \<or> 57344 \<le> c \<and> c < 1114112)"

lemma utf8_encode_simps [simp]:
  "utf8_encode [] = []"
  "utf8_encode (c # cs) = utf8_encode_char c @ utf8_encode cs"
  by (simp_all add: utf8_encode_def)

lemma push6_digits [simp]:
  "d < 64 \<Longrightarrow> push6 a d div 64 = a"
  "d < 64 \<Longrightarrow> push6 a d mod 64 = d"
  by (simp_all add: push6_def)

lemma u8_of_unat: "unat (b :: u8) = n \<Longrightarrow> b = of_nat n"
  by auto

lemma take_byte_or_zero:
  "list_all (\<lambda>i. 0 < byte_or_zero bs i) [0..<n] \<Longrightarrow>
     n \<le> length bs \<and> take n bs = map (\<lambda>i. of_nat (byte_or_zero bs i)) [0..<n]"
proof (induction n)
  case 0
  then show ?case by simp
next
  case (Suc n)
  then have "n < length bs" by (auto simp: byte_or_zero_def split: if_splits)
  with Suc show ?case by (simp add: take_Suc_conv_app_nth byte_or_zero_def)
qed

text \<open>The four ways a step can succeed, with the digits of the scalar value named.\<close>

lemma utf8_next_cases:
  assumes "utf8_next b rest = Utf8Char c w"
  obtains (one) "unat b < 128" "c = unat b" "w = 1"
  | (two) p y where "unat b = 192 + p" "2 \<le> p" "p < 32" "byte_or_zero rest 0 = 128 + y" "y < 64"
      "c = push6 p y" "w = 2"
  | (three) p y z where "unat b = 224 + p" "p < 16" "p = 0 \<Longrightarrow> 32 \<le> y" "p = 13 \<Longrightarrow> y < 32"
      "byte_or_zero rest 0 = 128 + y" "y < 64" "byte_or_zero rest 1 = 128 + z" "z < 64"
      "c = push6 (push6 p y) z" "w = 3"
  | (four) p y z v where "unat b = 240 + p" "p < 5" "p = 0 \<Longrightarrow> 16 \<le> y" "p = 4 \<Longrightarrow> y < 16"
      "byte_or_zero rest 0 = 128 + y" "y < 64" "byte_or_zero rest 1 = 128 + z" "z < 64"
      "byte_or_zero rest 2 = 128 + v" "v < 64" "c = push6 (push6 (push6 p y) z) v" "w = 4"
proof -
  let ?x = "unat b" let ?y = "byte_or_zero rest 0"
  let ?z = "byte_or_zero rest 1" let ?v = "byte_or_zero rest 2"
  note defs = utf8_next_def Let_def utf8_cont_def utf8_second3_def utf8_second4_def not_less
  consider "?x < 128" | "194 \<le> ?x" "?x < 224" | "224 \<le> ?x" "?x < 240" | "240 \<le> ?x" "?x < 245"
    using assms by (auto simp: utf8_next_def Let_def split: if_splits)
  then show thesis
  proof cases
    case 1
    with assms show thesis by (intro one) (auto simp: utf8_next_def Let_def)
  next
    case 2
    with assms show thesis
      by (intro two [of "?x - 192" "?y - 128"]) (auto simp: defs split: if_splits)
  next
    case 3
    with assms show thesis
      by (intro three [of "?x - 224" "?y - 128" "?z - 128"]) (auto simp: defs split: if_splits)
  next
    case 4
    with assms show thesis
      by (intro four [of "?x - 240" "?y - 128" "?z - 128" "?v - 128"]) (auto simp: defs split: if_splits)
  qed
qed

text \<open>What one decoding step read is the encoding of the scalar value it returns.\<close>

lemma utf8_next_encode:
  assumes "utf8_next b rest = Utf8Char c w"
  shows "utf8_encode_char c = b # take (w - 1) rest \<and> w - 1 \<le> length rest \<and> 0 < w \<and> scalar_value c"
  using assms
proof (cases rule: utf8_next_cases)
  case one
  then show ?thesis by (simp add: utf8_encode_char_def scalar_value_def)
next
  case (two p y)
  have "b = of_nat (192 + p)" by (rule u8_of_unat) (fact two(1))
  moreover have "128 \<le> c" "c < 2048" using two by (simp_all add: push6_def)
  ultimately show ?thesis using two take_byte_or_zero [of rest 1]
    by (auto simp: utf8_encode_char_def scalar_value_def)
next
  case (three p y z)
  have "b = of_nat (224 + p)" by (rule u8_of_unat) (fact three(1))
  moreover have "2048 \<le> c" "c < 65536" using three by (cases "p = 0"; simp add: push6_def)+
  moreover have "scalar_value c"
    using three by (cases "p = 13"; auto simp: scalar_value_def push6_def)
  moreover have "2 \<le> length rest \<and> take 2 rest = [of_nat (128 + y), of_nat (128 + z)]"
    using three take_byte_or_zero [of rest 2] by (simp add: numeral_2_eq_2)
  ultimately show ?thesis using three by (simp add: utf8_encode_char_def)
next
  case (four p y z v)
  have "b = of_nat (240 + p)" by (rule u8_of_unat) (fact four(1))
  moreover have "65536 \<le> c" using four by (cases "p = 0"; simp add: push6_def)
  moreover have "scalar_value c"
    using four by (cases "p = 4"; auto simp: scalar_value_def push6_def)
  moreover have "3 \<le> length rest \<and> take 3 rest = [of_nat (128 + y), of_nat (128 + z), of_nat (128 + v)]"
    using four take_byte_or_zero [of rest 3] by (simp add: numeral_3_eq_3 numeral_2_eq_2)
  ultimately show ?thesis using four by (simp add: utf8_encode_char_def)
qed

lemma utf8_next_width: "utf8_next b rest = Utf8Char c w \<Longrightarrow> w - 1 \<le> length rest"
  using utf8_next_encode by blast

text \<open>Decoding then encoding gives the bytes back; lossy decoding keeps valid text.\<close>

lemma utf8_encode_chars: "utf8_chars s = Some cs \<Longrightarrow> utf8_encode cs = s"
proof (induction s arbitrary: cs rule: utf8_chars.induct)
  case 1
  then show ?case by simp
next
  case (2 b rest)
  then obtain c w cs' where step: "utf8_next b rest = Utf8Char c w"
    and tl: "utf8_chars (drop (w - 1) rest) = Some cs'" and cs: "cs = c # cs'"
    by (auto split: utf8_step.splits)
  from 2(1) [OF step tl] utf8_next_encode [OF step] show ?case
    by (simp add: cs)
qed

lemma utf8_chars_scalar: "utf8_chars s = Some cs \<Longrightarrow> c \<in> set cs \<Longrightarrow> scalar_value c"
proof (induction s arbitrary: cs rule: utf8_chars.induct)
  case (2 b rest)
  then show ?case by (auto split: utf8_step.splits dest: utf8_next_encode)
qed simp

lemma from_utf8_lossy_valid: "utf8_valid s \<Longrightarrow> from_utf8_lossy s = s"
proof (induction s rule: from_utf8_lossy.induct)
  case (2 b rest)
  then show ?case by (cases "utf8_next b rest") (auto simp: utf8_valid_def)
qed simp

lemma from_utf8_lossy_length: "length (from_utf8_lossy s) \<le> 3 * length s"
proof (induction s rule: from_utf8_lossy.induct)
  case (2 b rest)
  then show ?case
    by (cases "utf8_next b rest") (fastforce dest: utf8_next_width)+
qed simp

text \<open>Encoding scalar values then decoding them, for the two shortest forms.\<close>

lemma utf8_next_latin1:
  assumes "c < 256"
  shows "\<exists>b r. utf8_encode_char c = b # r \<and> utf8_next b (r @ rest) = Utf8Char c (Suc (length r))"
proof (cases "c < 128")
  case True
  then show ?thesis by (simp add: utf8_encode_char_def utf8_next_def unat_of_nat)
next
  case False
  have d: "2 \<le> c div 64" "c div 64 < 4" using assms False by auto
  have "unat (of_nat (192 + c div 64) :: u8) = 192 + c div 64"
    "unat (of_nat (128 + c mod 64) :: u8) = 128 + c mod 64"
    using d by (simp_all only: unat_of_nat) auto
  with assms False d show ?thesis
    by (simp add: utf8_encode_char_def utf8_next_def byte_or_zero_def utf8_cont_def push6_def
        del: of_nat_add)
qed

lemma utf8_chars_latin1:
  "\<forall>c\<in>set cs. c < 256 \<Longrightarrow> utf8_chars (utf8_encode cs) = Some cs"
proof (induction cs)
  case (Cons c cs)
  then obtain b r where "utf8_encode_char c = b # r"
    "utf8_next b (r @ utf8_encode cs) = Utf8Char c (Suc (length r))"
    using utf8_next_latin1 [of c "utf8_encode cs"] by auto
  with Cons show ?case by simp
qed simp

text \<open>ASCII text is valid and one byte a character.\<close>

lemma utf8_chars_ascii: "\<forall>b\<in>set s. unat b < 128 \<Longrightarrow> utf8_chars s = Some (map unat s)"
  by (induction s) (auto simp: utf8_next_def)

text \<open>\<open>str::chars\<close>; a Rust \<open>String\<close> is always valid UTF-8.\<close>

definition str_chars :: "rstring \<Rightarrow> nat list" where
  "str_chars s = (case utf8_chars s of None \<Rightarrow> [] | Some cs \<Rightarrow> cs)"

lemma str_chars_ascii: "\<forall>b\<in>set s. unat b < 128 \<Longrightarrow> str_chars s = map unat s"
  by (simp add: str_chars_def utf8_chars_ascii)

text \<open>An ASCII byte never stands inside a longer character, so valid text splits at it.\<close>

lemma byte_or_zero_before_ascii:
  assumes "unat b < 128" "128 \<le> byte_or_zero (xs @ b # ys) i" "i \<le> length xs"
  shows "i < length xs" "byte_or_zero xs i = byte_or_zero (xs @ b # ys) i"
proof -
  show "i < length xs"
  proof (rule ccontr)
    assume "\<not> i < length xs"
    then have "i = length xs" using assms(3) by simp
    then show False using assms(1,2) by (simp add: byte_or_zero_def)
  qed
  then show "byte_or_zero xs i = byte_or_zero (xs @ b # ys) i" by (simp add: byte_or_zero_def nth_append)
qed

lemma utf8_next_before_ascii:
  assumes "utf8_next x (xs @ b # ys) = Utf8Char c w" "unat b < 128"
  shows "utf8_next x xs = Utf8Char c w \<and> w - 1 \<le> length xs"
proof -
  note before = byte_or_zero_before_ascii [OF assms(2), of xs ys]
  let ?s = "xs @ b # ys"
  have second: "utf8_cont y \<or> utf8_second3 n y \<or> utf8_second4 n y \<Longrightarrow> 128 \<le> y" for n y
    by (auto simp: utf8_cont_def utf8_second3_def utf8_second4_def split: if_splits)
  note defs = utf8_next_def Let_def
  show ?thesis
    using assms(1)
  proof (cases rule: utf8_next_cases)
    case one
    then show ?thesis by (simp add: defs)
  next
    case (two p y)
    then have "0 < length xs" "byte_or_zero xs 0 = byte_or_zero ?s 0" using before [of 0] by simp_all
    with assms(1) two show ?thesis by (simp add: defs Suc_le_eq split: if_splits)
  next
    case (three p y z)
    then have b0: "0 < length xs" "byte_or_zero xs 0 = byte_or_zero ?s 0" using before [of 0] by simp_all
    then have "1 < length xs" "byte_or_zero xs 1 = byte_or_zero ?s 1" using three before [of 1] by (simp_all add: Suc_le_eq)
    with b0 assms(1) three show ?thesis by (simp add: defs split: if_splits)
  next
    case (four p y z v)
    then have b0: "0 < length xs" "byte_or_zero xs 0 = byte_or_zero ?s 0" using before [of 0] by simp_all
    then have b1: "1 < length xs" "byte_or_zero xs 1 = byte_or_zero ?s 1" using four before [of 1] by (simp_all add: Suc_le_eq)
    then have "2 < length xs" "byte_or_zero xs 2 = byte_or_zero ?s 2" using four before [of 2] by simp_all
    with b0 b1 assms(1) four show ?thesis by (simp add: defs split: if_splits)
  qed
qed

lemma utf8_chars_split:
  "utf8_chars (xs @ b # ys) = Some cs \<Longrightarrow> unat b < 128 \<Longrightarrow>
     \<exists>as bs. utf8_chars xs = Some as \<and> utf8_chars ys = Some bs \<and> cs = as @ unat b # bs"
proof (induction xs arbitrary: cs rule: utf8_chars.induct)
  case 1
  then show ?case by (auto simp: utf8_next_def)
next
  case (2 x rest)
  from 2(2) obtain c w cs' where step: "utf8_next x (rest @ b # ys) = Utf8Char c w"
    and tl: "utf8_chars (drop (w - 1) (rest @ b # ys)) = Some cs'" and cs: "cs = c # cs'"
    by (auto split: utf8_step.splits)
  note n = utf8_next_before_ascii [OF step 2(3)]
  then have "drop (w - 1) (rest @ b # ys) = drop (w - 1) rest @ b # ys" by (subst drop_append) (simp only: diff_is_0_eq [THEN iffD2] drop0)
  from 2(1) [OF conjunct1 [OF n] tl [unfolded this] 2(3)] obtain as bs where
    "utf8_chars (drop (w - 1) rest) = Some as" "utf8_chars ys = Some bs" "cs' = as @ unat b # bs" by blast
  with n cs show ?case by auto
qed

lemma utf8_valid_split_on: "utf8_valid s \<Longrightarrow> unat c < 128 \<Longrightarrow> part \<in> set (split_on (\<lambda>b. b = c) s) \<Longrightarrow> utf8_valid part"
proof (induction "length s" arbitrary: s rule: less_induct)
  case less
  show ?case
  proof (cases "split_once c s")
    case None
    then have "split_on (\<lambda>b. b = c) s = [s]" by (auto simp: split_once_eq_None intro: split_on_no_sep)
    then show ?thesis using less.prems by simp
  next
    case (Some lr)
    then obtain l r where s: "s = l @ c # r" "c \<notin> set l" by (cases lr) (auto simp: split_once_eq_Some)
    then have "utf8_valid l" "utf8_valid r" using less.prems(1,2) utf8_chars_split [of l c r] by (auto simp: utf8_valid_def)
    moreover have "split_on (\<lambda>b. b = c) s = l # split_on (\<lambda>b. b = c) r" unfolding s(1) using s(2) by (intro split_on_append_sep) auto
    ultimately show ?thesis using less.hyps [of r] less.prems(2,3) s(1) by auto
  qed
qed

lemma ascii_in_chars: "utf8_chars s = Some cs \<Longrightarrow> b \<in> set s \<Longrightarrow> unat b < 128 \<Longrightarrow> unat b \<in> set cs"
  using utf8_chars_split by (fastforce dest!: split_list)

end
