(* ===== verification/Romtool_Pkg.thy ===== *)
theory Romtool_Pkg
  imports Rust_Str
begin

text \<open>
  The kickstart package container of \<open>crates/aros-romtool/src/pkg.rs\<close>: \<open>serialize\<close>,
  \<open>parse\<close>, the member helpers and the whole of \<open>create\<close> with its validation order.
  The file reads, the measurement of an existing output, the digest and the durable
  publication are arguments of \<open>create\<close>.
\<close>

section \<open>Data\<close>

text \<open>\<open>struct Entry\<close>.\<close>

record Entry =
  entry_path :: rstring
  entry_data :: bytes

definition MAGIC :: bytes where
  "MAGIC = ascii ''PKG''"

definition VERSION :: u8 where
  "VERSION = 1"

definition HEADER_LEN :: usize where
  "HEADER_LEN = 8"

datatype pkg_error =
    PathTooLong rstring
  | MemberTooLarge rstring
  | NotLatin1 rstring
  | PackageExceeds4GiB
  | ShorterThanHeader
  | BadMagic bytes
  | UnsupportedVersion u8
  | SizeMismatch usize usize
  | FieldOffsetOverflow string
  | TruncatedField string usize
  | OffsetOverflow string
  | TruncatedPath usize
  | TruncatedPayload rstring usize

definition is_elf :: "Entry \<Rightarrow> bool" where
  "is_elf e = starts_with (entry_data e) [127, 69, 76, 70]"

text \<open>\<open>rsplit(['/', '\\']).next()\<close>: the last piece.\<close>

definition entry_module_name :: "Entry \<Rightarrow> rstring" where
  "entry_module_name e = last (split_on (\<lambda>b. b = 47 \<or> b = 92) (entry_path e))"

text \<open>\<open>(path.len() + 4) & !3\<close>.\<close>

definition padded_path_len :: "rstring \<Rightarrow> usize" where
  "padded_path_len path = 4 * ((length path + 4) div 4)"

section \<open>Writing\<close>

text \<open>The body of the \<open>for\<close> loop of \<open>serialize\<close>: what one member appends to \<open>out\<close>.\<close>

definition serialize_entry :: "Entry \<Rightarrow> (pkg_error, bytes) result" where
  "serialize_entry e =
     (let padded = padded_path_len (entry_path e)
      in rbind (ok_or (u32_try_from (padded - 1)) (PathTooLong (entry_path e))) (\<lambda>path_field.
         rbind (ok_or (u32_try_from (length (entry_data e))) (MemberTooLarge (entry_path e))) (\<lambda>data_len.
         ensure (list_all (\<lambda>c. c < 256) (str_chars (entry_path e))) (NotLatin1 (entry_path e))
           (let path_bytes = map of_nat (str_chars (entry_path e))
            in Inr (u32_to_be path_field @ path_bytes @ replicate (padded - length path_bytes) 0 @
                    u32_to_be data_len @ entry_data e)))))"

fun serialize_entries :: "Entry list \<Rightarrow> (pkg_error, bytes) result" where
  "serialize_entries [] = Inr []"
| "serialize_entries (e # es) =
     rbind (serialize_entry e) (\<lambda>b. rbind (serialize_entries es) (\<lambda>bs. Inr (b @ bs)))"

definition serialize :: "Entry list \<Rightarrow> (pkg_error, bytes) result" where
  "serialize entries =
     rbind (serialize_entries entries) (\<lambda>body.
       (let out = MAGIC @ [VERSION] @ u32_to_be 0 @ body
        in rbind (ok_or (u32_try_from (length out)) PackageExceeds4GiB) (\<lambda>total.
             Inr (take 4 out @ u32_to_be total @ drop HEADER_LEN out))))"

section \<open>Reading\<close>

definition read_u32be :: "bytes \<Rightarrow> usize \<Rightarrow> string \<Rightarrow> (pkg_error, u32) result" where
  "read_u32be bs pos what =
     rbind (ok_or (checked_add pos 4) (FieldOffsetOverflow what)) (\<lambda>end'.
     rbind (ok_or (get_range bs pos end') (TruncatedField what pos)) (\<lambda>slice.
       Inr (u32_from_be slice)))"

text \<open>One iteration of the \<open>while\<close> loop of \<open>parse\<close>: the member and the new \<open>pos\<close>.\<close>

definition parse_entry :: "bytes \<Rightarrow> usize \<Rightarrow> (pkg_error, Entry \<times> usize) result" where
  "parse_entry bs pos0 =
     rbind (read_u32be bs pos0 ''path length'') (\<lambda>path_len.
     rbind (ok_or (checked_add pos0 4) (OffsetOverflow ''path length'')) (\<lambda>pos.
     rbind (ok_or (checked_add (unat path_len) 1) (OffsetOverflow ''path field length'')) (\<lambda>field.
     rbind (ok_or (checked_add pos field) (OffsetOverflow ''path field'')) (\<lambda>path_end.
     rbind (ok_or (get_range bs pos path_end) (TruncatedPath pos)) (\<lambda>raw.
       (let name_end = (case position (\<lambda>b. b = 0) raw of None \<Rightarrow> length raw | Some n \<Rightarrow> n);
            path = utf8_encode (map unat (take name_end raw))
        in rbind (read_u32be bs path_end ''data length'') (\<lambda>data_len.
           rbind (ok_or (checked_add path_end 4) (OffsetOverflow ''data length'')) (\<lambda>pos2.
           rbind (ok_or (checked_add pos2 (unat data_len)) (OffsetOverflow ''payload'')) (\<lambda>data_end.
           rbind (ok_or (get_range bs pos2 data_end) (TruncatedPayload path pos2)) (\<lambda>data.
             Inr (\<lparr>entry_path = path, entry_data = data\<rparr>, data_end)))))))))))"

lemma parse_entry_advances:
  "parse_entry bs pos = Inr (e, pos') \<Longrightarrow> pos < pos' \<and> pos' \<le> length bs"
  by (auto simp: parse_entry_def Let_def rbind_eq_Inr get_range_eq_Some)

function parse_entries :: "bytes \<Rightarrow> usize \<Rightarrow> (pkg_error, Entry list) result" where
  "parse_entries bs pos =
     (if pos < length bs
      then (case parse_entry bs pos of
              Inl e \<Rightarrow> Inl e
            | Inr (entry, pos') \<Rightarrow>
                rbind (parse_entries bs pos') (\<lambda>entries. Inr (entry # entries)))
      else Inr [])"
  by pat_completeness auto
termination
  by (relation "measure (\<lambda>(bs, pos). length bs - pos)") (auto dest: parse_entry_advances)

declare parse_entries.simps [simp del]

definition parse :: "bytes \<Rightarrow> (pkg_error, Entry list) result" where
  "parse bs =
     (if length bs < HEADER_LEN then Inl ShorterThanHeader
      else if take 3 bs \<noteq> MAGIC then Inl (BadMagic (take 3 bs))
      else if bs ! 3 \<noteq> VERSION then Inl (UnsupportedVersion (bs ! 3))
      else rbind (read_u32be bs 4 ''package size'') (\<lambda>declared_size.
        if unat declared_size \<noteq> length bs then Inl (SizeMismatch (unat declared_size) (length bs))
        else parse_entries bs HEADER_LEN))"

section \<open>Round trip\<close>

text \<open>
  What the Rust types and the packer's own rules leave of an entry: its path is a Rust
  string, and, for the container to name it unambiguously, holds no NUL.
\<close>

definition entry_ok :: "Entry \<Rightarrow> bool" where
  "entry_ok e = (utf8_valid (entry_path e) \<and> 0 \<notin> set (entry_path e))"

text \<open>The bytes of one member, for an entry that passes the checks of \<open>serialize\<close>.\<close>

definition entry_latin1 :: "Entry \<Rightarrow> bytes" where
  "entry_latin1 e = map of_nat (str_chars (entry_path e))"

definition entry_bytes :: "Entry \<Rightarrow> bytes" where
  "entry_bytes e =
     u32_to_be (of_nat (padded_path_len (entry_path e) - 1)) @ entry_latin1 e @
     replicate (padded_path_len (entry_path e) - length (entry_latin1 e)) 0 @
     u32_to_be (of_nat (length (entry_data e))) @ entry_data e"

lemma serialize_entry_eq_Inr:
  "serialize_entry e = Inr b \<longleftrightarrow>
     padded_path_len (entry_path e) - 1 < 2 ^ 32 \<and> length (entry_data e) < 2 ^ 32 \<and>
     list_all (\<lambda>c. c < 256) (str_chars (entry_path e)) \<and> b = entry_bytes e"
  by (auto simp: serialize_entry_def Let_def rbind_eq_Inr entry_bytes_def entry_latin1_def)

lemma serialize_entries_eq_Inr:
  "serialize_entries es = Inr b \<longleftrightarrow>
     (\<forall>e\<in>set es. serialize_entry e = Inr (entry_bytes e)) \<and> b = concat (map entry_bytes es)"
  by (induction es arbitrary: b) (auto simp: rbind_eq_Inr serialize_entry_eq_Inr)

text \<open>The bytes that encode one character are at least as many as its Latin-1 byte.\<close>

lemma length_utf8_encode: "length cs \<le> length (utf8_encode cs)"
  by (induction cs) (auto simp: utf8_encode_char_def)

lemma length_entry_latin1:
  "utf8_valid (entry_path e) \<Longrightarrow> length (entry_latin1 e) \<le> length (entry_path e)"
proof -
  assume "utf8_valid (entry_path e)"
  then obtain cs where "utf8_chars (entry_path e) = Some cs" by (auto simp: utf8_valid_def)
  then show ?thesis
    using length_utf8_encode [of cs] utf8_encode_chars
    by (fastforce simp: entry_latin1_def str_chars_def)
qed

lemma padded_path_len_bounds:
  "length path < padded_path_len path" "padded_path_len path \<le> length path + 4"
  "4 dvd padded_path_len path"
  by (auto simp: padded_path_len_def)

text \<open>Decoding the Latin-1 field up to its first NUL gives the path back.\<close>

lemma utf8_encode_zero: "0 \<in> set cs \<Longrightarrow> 0 \<in> set (utf8_encode cs)"
  by (induction cs) (auto simp: utf8_encode_char_def)

lemma latin1_roundtrip:
  assumes "entry_ok e" "list_all (\<lambda>c. c < 256) (str_chars (entry_path e))"
  shows "utf8_encode (map unat (entry_latin1 e)) = entry_path e" "0 \<notin> set (entry_latin1 e)"
proof -
  obtain cs where cs: "utf8_chars (entry_path e) = Some cs" "str_chars (entry_path e) = cs"
    using assms(1) by (auto simp: entry_ok_def utf8_valid_def str_chars_def)
  have small: "\<forall>c\<in>set cs. unat (of_nat c :: u8) = c"
    using assms(2) cs by (auto simp: list_all_iff unat_of_nat)
  then have "map unat (entry_latin1 e) = cs"
    by (simp add: entry_latin1_def cs(2) map_idI)
  then show "utf8_encode (map unat (entry_latin1 e)) = entry_path e"
    using utf8_encode_chars [OF cs(1)] by simp
  have "0 \<notin> set cs"
    using assms(1) utf8_encode_chars [OF cs(1)] utf8_encode_zero [of cs] by (auto simp: entry_ok_def)
  then show "0 \<notin> set (entry_latin1 e)"
    using small by (fastforce simp: entry_latin1_def cs(2))
qed

text \<open>
  The container's grammar: a member is a length field, a path field of one byte more, a length
  field and the data; the path is the text up to the field's first NUL. Which path fields are
  allowed is the argument \<open>ok\<close>: the module's header comment wants the text padded with NULs
  to a multiple of four (\<open>padded_field\<close>), the reader asks for no more than a byte
  (\<open>any_field\<close>).
\<close>

definition padded_field :: "bytes \<Rightarrow> bool" where
  "padded_field field \<longleftrightarrow>
     (\<exists>txt n. field = txt @ replicate n 0 \<and> 0 \<notin> set txt \<and> 0 < n \<and> 4 dvd length field)"

definition any_field :: "bytes \<Rightarrow> bool" where
  "any_field field \<longleftrightarrow> field \<noteq> []"

definition pkg_member :: "(bytes \<Rightarrow> bool) \<Rightarrow> bytes \<Rightarrow> Entry \<Rightarrow> bool" where
  "pkg_member ok raw e \<longleftrightarrow>
     (\<exists>field data. ok field \<and> length field \<le> 2 ^ 32 \<and> length data < 2 ^ 32 \<and>
        raw = u32_to_be (of_nat (length field - 1)) @ field @ u32_to_be (of_nat (length data)) @ data \<and>
        e = \<lparr>entry_path = utf8_encode (map unat (takeWhile (\<lambda>b. b \<noteq> 0) field)), entry_data = data\<rparr>)"

lemma pkg_member_mono: "pkg_member padded_field raw e \<Longrightarrow> pkg_member any_field raw e"
  unfolding pkg_member_def padded_field_def any_field_def by fastforce

lemma take_name_end:
  "take (case position (\<lambda>b. b = 0) raw of None \<Rightarrow> length raw | Some n \<Rightarrow> n) raw =
     takeWhile (\<lambda>b. b \<noteq> (0 :: u8)) raw"
proof (induction raw)
  case (Cons b raw)
  then show ?case by (auto split: option.splits)
qed simp

lemma get_range_at:
  "length pre = n \<Longrightarrow> m = n + length ys \<Longrightarrow> get_range (pre @ ys @ post) n m = Some ys"
  using get_range_append by blast

lemma read_u32be_at:
  "length pre = n \<Longrightarrow> length (pre @ u32_to_be w @ post) < 2 ^ 32 \<Longrightarrow>
     read_u32be (pre @ u32_to_be w @ post) n what = Inr w"
  by (simp add: read_u32be_def checked_add_def usize_limit_def get_range_at)

lemma parse_entry_member:
  assumes "pkg_member any_field raw e" and len: "length (pre @ raw @ post) < 2 ^ 32"
  shows "parse_entry (pre @ raw @ post) (length pre) = Inr (e, length pre + length raw)"
proof -
  obtain field data where f: "field \<noteq> []" "length field \<le> 2 ^ 32" "length data < 2 ^ 32"
    and raw: "raw = u32_to_be (of_nat (length field - 1)) @ field @ u32_to_be (of_nat (length data)) @ data"
    and e: "e = \<lparr>entry_path = utf8_encode (map unat (takeWhile (\<lambda>b. b \<noteq> 0) field)), entry_data = data\<rparr>"
    using assms(1) by (auto simp: pkg_member_def any_field_def)
  let ?pl = "of_nat (length field - 1) :: u32" and ?dl = "of_nat (length data) :: u32"
  let ?bs = "pre @ raw @ post" and ?n = "length pre"
  have pl: "unat ?pl = length field - 1" and dl: "unat ?dl = length data"
    using f by (simp_all add: unat_of_nat)
  have r1: "read_u32be ?bs ?n what = Inr ?pl" for what
    using read_u32be_at [of pre ?n ?pl "field @ u32_to_be ?dl @ data @ post"] len raw by simp
  have r2: "read_u32be ?bs (?n + 4 + length field) what = Inr ?dl" for what
    using read_u32be_at [of "pre @ u32_to_be ?pl @ field" "?n + 4 + length field" ?dl "data @ post"]
      len raw by simp
  have g1: "get_range ?bs (?n + 4) (?n + 4 + length field) = Some field"
    using get_range_at [of "pre @ u32_to_be ?pl" "?n + 4" _ field "u32_to_be ?dl @ data @ post"] raw
    by simp
  have g2: "get_range ?bs (?n + 4 + length field + 4) (?n + 4 + length field + 4 + length data) = Some data"
    using get_range_at [of "pre @ u32_to_be ?pl @ field @ u32_to_be ?dl" _ _ data post] raw by simp
  have [simp]: "checked_add a b = Some (a + b)" if "a + b < 2 ^ 33" for a b
    using that by (simp add: checked_add_def usize_limit_def)
  have bounds: "?n + length field + length data + 8 < 2 ^ 32" using len raw by simp
  have "unat ?pl + 1 = length field" "length raw = 8 + length field + length data"
    using pl f raw by simp_all
  then show ?thesis
    using bounds f pl dl g1 g2 r1 r2
    by (simp add: parse_entry_def Let_def take_name_end e add.assoc)
qed

lemma read_u32be_sound:
  assumes "read_u32be bs pos what = Inr w"
  shows "pos + 4 \<le> length bs \<and> drop pos bs = u32_to_be w @ drop (pos + 4) bs"
proof -
  obtain slice where g: "get_range bs pos (pos + 4) = Some slice" and w: "w = u32_from_be slice"
    using assms by (auto simp: read_u32be_def rbind_eq_Inr)
  have "length slice = 4" "pos + 4 \<le> length bs" using get_range_length [OF g] by simp_all
  then show ?thesis using get_range_drop [OF g] by (simp add: w u32_to_from_be)
qed

lemma parse_entry_sound:
  assumes "parse_entry bs pos = Inr (e, pos')"
  shows "\<exists>raw. pkg_member any_field raw e \<and> pos' = pos + length raw \<and> pos' \<le> length bs \<and>
           drop pos bs = raw @ drop pos' bs"
proof -
  obtain pl dl field data where
    r1: "read_u32be bs pos ''path length'' = Inr pl"
    and g1: "get_range bs (pos + 4) (pos + 4 + (unat pl + 1)) = Some field"
    and r2: "read_u32be bs (pos + 4 + (unat pl + 1)) ''data length'' = Inr dl"
    and g2: "get_range bs (pos + 4 + (unat pl + 1) + 4) pos' = Some data"
    and pos': "pos' = pos + 4 + (unat pl + 1) + 4 + unat dl"
    and e: "e = \<lparr>entry_path = utf8_encode (map unat (takeWhile (\<lambda>b. b \<noteq> 0) field)), entry_data = data\<rparr>"
    using assms by (auto simp: parse_entry_def Let_def rbind_eq_Inr take_name_end)
  have lens: "length field = unat pl + 1" "length data = unat dl" "pos' \<le> length bs"
    using get_range_length [OF g1] get_range_length [OF g2] pos' by auto
  let ?raw = "u32_to_be pl @ field @ u32_to_be dl @ data"
  have "drop pos bs = ?raw @ drop pos' bs"
    using read_u32be_sound [OF r1] get_range_drop [OF g1] read_u32be_sound [OF r2] get_range_drop [OF g2]
    by simp
  moreover have "pkg_member any_field ?raw e"
    unfolding pkg_member_def any_field_def
    by (rule exI [of _ field], rule exI [of _ data])
      (use lens unat_u32_less [of pl] unat_u32_less [of dl] e in auto)
  ultimately show ?thesis using lens pos' by (intro exI [of _ ?raw]) simp
qed

interpretation pkg: record_stream "pkg_member any_field" parse_entry parse_entries "\<lambda>bs. length bs < 2 ^ 32"
proof
  show "raw \<noteq> []" if "pkg_member any_field raw x" for raw x
    using that by (auto simp: pkg_member_def any_field_def)
qed (auto intro: parse_entry_member parse_entry_sound
      simp: parse_entries.simps split: sum.splits)

section \<open>The container\<close>

lemma u32_try_from_roundtrip: "n < 2 ^ 32 \<Longrightarrow> u32_to_be (of_nat n) = be_bytes 4 n"
  by (simp add: u32_to_be_def unat_of_nat)

text \<open>A package as the format's description has it, up to the shape of the path fields.\<close>

definition pkg_container :: "(bytes \<Rightarrow> bool) \<Rightarrow> bytes \<Rightarrow> Entry list \<Rightarrow> bool" where
  "pkg_container ok bs es \<longleftrightarrow>
     length bs < 2 ^ 32 \<and>
     (\<exists>raws. bs = MAGIC @ [VERSION] @ u32_to_be (of_nat (length bs)) @ concat raws \<and>
             list_all2 (pkg_member ok) raws es)"

lemma pkg_container_mono: "pkg_container padded_field bs es \<Longrightarrow> pkg_container any_field bs es"
  unfolding pkg_container_def by (meson list_all2_mono pkg_member_mono)

lemma length_MAGIC [simp]: "length MAGIC = 3"
  by (simp add: MAGIC_def ascii_def)

lemma parse_header:
  "parse bs = Inr es \<longleftrightarrow>
     (\<exists>body. length bs < 2 ^ 32 \<and> bs = (MAGIC @ [VERSION] @ u32_to_be (of_nat (length bs))) @ body \<and>
       parse_entries bs 8 = Inr es)"
proof
  assume "parse bs = Inr es"
  then have h: "8 \<le> length bs" "take 3 bs = MAGIC" "bs ! 3 = VERSION" "parse_entries bs 8 = Inr es"
    and "\<exists>w. read_u32be bs 4 ''package size'' = Inr w \<and> unat w = length bs"
    by (auto simp: parse_def HEADER_LEN_def rbind_eq_Inr split: if_splits)
  then obtain w where w: "read_u32be bs 4 ''package size'' = Inr w" "unat w = length bs" by blast
  have "w = of_nat (length bs)" by (simp add: w(2) [symmetric])
  then have r: "read_u32be bs 4 ''package size'' = Inr (of_nat (length bs))" "length bs < 2 ^ 32"
    using w unat_u32_less [of w] by simp_all
  have "bs = take 3 bs @ drop 3 bs" by simp
  also have "drop 3 bs = bs ! 3 # drop 4 bs" using h(1) by (simp add: Cons_nth_drop_Suc [symmetric])
  also have "drop 4 bs = u32_to_be (of_nat (length bs)) @ drop 8 bs"
    using read_u32be_sound [OF r(1)] by simp
  finally show "\<exists>body. length bs < 2 ^ 32 \<and>
      bs = (MAGIC @ [VERSION] @ u32_to_be (of_nat (length bs))) @ body \<and> parse_entries bs 8 = Inr es"
    using h r by (metis append.assoc append_Cons append_Nil)
next
  assume "\<exists>body. length bs < 2 ^ 32 \<and>
      bs = (MAGIC @ [VERSION] @ u32_to_be (of_nat (length bs))) @ body \<and> parse_entries bs 8 = Inr es"
  then obtain body where len: "length bs < 2 ^ 32" and
    bs: "bs = MAGIC @ [VERSION] @ u32_to_be (of_nat (length bs)) @ body" and
    p: "parse_entries bs 8 = Inr es"
    by auto
  have "take 3 bs = MAGIC" "bs ! 3 = VERSION" "8 \<le> length bs"
    by (subst bs, simp add: nth_append)+
  moreover have "read_u32be bs 4 what = Inr (of_nat (length bs))" for what
  proof -
    have bs': "(MAGIC @ [VERSION]) @ u32_to_be (of_nat (length bs)) @ body = bs"
      using bs by (metis append.assoc)
    show ?thesis
      using read_u32be_at [of "MAGIC @ [VERSION]" 4 "of_nat (length bs)" body what] len
      unfolding bs' by simp
  qed
  ultimately show "parse bs = Inr es"
    using len p by (simp add: parse_def HEADER_LEN_def unat_of_nat)
qed

lemma parse_iff_container: "parse bs = Inr es \<longleftrightarrow> pkg_container any_field bs es"
proof
  assume "parse bs = Inr es"
  then obtain body where b: "length bs < 2 ^ 32" "parse_entries bs 8 = Inr es"
    "bs = (MAGIC @ [VERSION] @ u32_to_be (of_nat (length bs))) @ body"
    unfolding parse_header by blast
  from pkg.loop_sound [OF b(2)] obtain raws where
    raws: "list_all2 (pkg_member any_field) raws es" "drop 8 bs = concat raws"
    by blast
  have "drop 8 bs = body" by (subst b(3)) simp
  then have "bs = MAGIC @ [VERSION] @ u32_to_be (of_nat (length bs)) @ concat raws"
    using b(3) raws(2) by simp
  then show "pkg_container any_field bs es"
    using raws(1) b(1) unfolding pkg_container_def by blast
next
  assume "pkg_container any_field bs es"
  then obtain raws where len: "length bs < 2 ^ 32" and raws: "list_all2 (pkg_member any_field) raws es"
    and bs: "bs = (MAGIC @ [VERSION] @ u32_to_be (of_nat (length bs))) @ concat raws"
    unfolding pkg_container_def by (metis append.assoc)
  let ?h = "MAGIC @ [VERSION] @ u32_to_be (of_nat (length bs))"
  have "parse_entries (?h @ concat raws) (length ?h) = Inr es"
    using raws len bs by (intro pkg.loop_accepts) (simp_all del: append_assoc)
  then have "parse_entries bs 8 = Inr es" using bs by (simp del: append_assoc)
  then show "parse bs = Inr es" using len bs unfolding parse_header by blast
qed

text \<open>The writer's members are members of the grammar.\<close>

lemma takeWhile_padded:
  "0 \<notin> set xs \<Longrightarrow> takeWhile (\<lambda>b. b \<noteq> (0 :: u8)) (xs @ replicate n 0) = xs"
  by (induction xs) (cases n; auto)+

lemma entry_bytes_member:
  assumes "serialize_entry e = Inr b" "entry_ok e"
  shows "pkg_member padded_field b e"
proof -
  have s: "padded_path_len (entry_path e) - 1 < 2 ^ 32" "length (entry_data e) < 2 ^ 32"
    "list_all (\<lambda>c. c < 256) (str_chars (entry_path e))" "b = entry_bytes e"
    using assms(1) by (auto simp: serialize_entry_eq_Inr)
  let ?n = "padded_path_len (entry_path e)"
  let ?field = "entry_latin1 e @ replicate (?n - length (entry_latin1 e)) 0"
  have "length (entry_latin1 e) \<le> ?n"
    using length_entry_latin1 [of e] padded_path_len_bounds [of "entry_path e"] assms(2)
    by (simp add: entry_ok_def)
  then have len: "length ?field = ?n" by simp
  have "length (entry_latin1 e) < ?n"
    using length_entry_latin1 [of e] padded_path_len_bounds(1) [of "entry_path e"] assms(2)
    by (simp add: entry_ok_def)
  then have ok: "padded_field ?field"
    using latin1_roundtrip(2) [OF assms(2) s(3)] len padded_path_len_bounds(3) [of "entry_path e"]
    unfolding padded_field_def by (metis zero_less_diff)
  have "utf8_encode (map unat (takeWhile (\<lambda>b. b \<noteq> 0) ?field)) = entry_path e"
    using latin1_roundtrip [OF assms(2) s(3)] by (simp add: takeWhile_padded)
  then show ?thesis
    unfolding pkg_member_def
    by (intro exI [of _ ?field] exI [of _ "entry_data e"])
      (use s ok len padded_path_len_bounds [of "entry_path e"] in
        \<open>auto simp: entry_bytes_def simp del: length_append\<close>)
qed

lemma serialize_eq_Inr:
  "serialize es = Inr bs \<longleftrightarrow>
     (\<forall>e\<in>set es. serialize_entry e = Inr (entry_bytes e)) \<and>
     8 + length (concat (map entry_bytes es)) < 2 ^ 32 \<and>
     bs = MAGIC @ [VERSION] @ u32_to_be (of_nat (8 + length (concat (map entry_bytes es)))) @
       concat (map entry_bytes es)"
  by (auto simp: serialize_def rbind_eq_Inr serialize_entries_eq_Inr Let_def HEADER_LEN_def)

lemma serialize_container:
  assumes "serialize es = Inr bs" and "list_all entry_ok es"
  shows "pkg_container padded_field bs es"
proof -
  have "list_all2 (pkg_member padded_field) (map entry_bytes es) es"
    using assms entry_bytes_member
    by (auto simp: serialize_eq_Inr list_all_iff list_all2_conv_all_nth)
  then show ?thesis
    using assms(1) unfolding pkg_container_def serialize_eq_Inr by fastforce
qed

text \<open>
  C2. What the reader accepts, against the format its module documents (magic, version, the
  container's own length and, byte for byte with nothing left over, one record for each entry
  in order). Every container of the documented format is accepted with the entries it holds;
  what the writer emits, for entries whose paths are Rust strings without NUL, is a container of
  the documented format; and a buffer is accepted with the entries \<open>es\<close> exactly if it is
  framed as the format says with path fields of at least one byte. The reader is thus more
  lenient than the format in one respect only, the NUL and the padding of a path field, and
  accepts no truncated, overlapping or trailing data.
\<close>

theorem parse_format:
  "(pkg_container padded_field bs es \<longrightarrow> parse bs = Inr es) \<and>
   (serialize es = Inr bs \<and> list_all entry_ok es \<longrightarrow> pkg_container padded_field bs es) \<and>
   (parse bs = Inr es \<longleftrightarrow> pkg_container any_field bs es)"
  using pkg_container_mono serialize_container by (simp add: parse_iff_container)

theorem parse_format_witness:
  "\<exists>bs. serialize [\<lparr>entry_path = ascii ''foo'', entry_data = ascii ''barba''\<rparr>] = Inr bs \<and>
     pkg_container padded_field bs [\<lparr>entry_path = ascii ''foo'', entry_data = ascii ''barba''\<rparr>] \<and>
     parse bs = Inr [\<lparr>entry_path = ascii ''foo'', entry_data = ascii ''barba''\<rparr>]"
proof -
  let ?es = "[\<lparr>entry_path = ascii ''foo'', entry_data = ascii ''barba''\<rparr>]"
  have "is_ok (serialize ?es)" by code_simp
  then obtain bs where bs: "serialize ?es = Inr bs" by (auto simp: is_ok_iff)
  have "list_all entry_ok ?es" by code_simp
  with bs parse_format [of bs ?es] show ?thesis by blast
qed

lemma drop_header: "drop 8 ((MAGIC @ [VERSION] @ u32_to_be w) @ body) = body"
  by simp

text \<open>
  The leniency is real: a container whose only path field is the single byte \<open>a\<close>, with
  neither a NUL nor padding, is read as a member \<open>a\<close>, and no list of entries makes it a
  container of the documented format.
\<close>

lemma parse_accepts_unpadded:
  defines "bs \<equiv> MAGIC @ [VERSION] @ [0, 0, 0, 17] @ [0, 0, 0, 0, 97, 0, 0, 0, 0]"
  shows "parse bs = Inr [\<lparr>entry_path = ascii ''a'', entry_data = []\<rparr>] \<and>
    \<not> pkg_container padded_field bs es"
proof
  show "parse bs = Inr [\<lparr>entry_path = ascii ''a'', entry_data = []\<rparr>]" unfolding bs_def by code_simp
  have tail: "drop 8 bs = [0, 0, 0, 0, 97, 0, 0, 0, 0]" unfolding bs_def by code_simp
  show "\<not> pkg_container padded_field bs es"
  proof
    assume "pkg_container padded_field bs es"
    then obtain raws where "bs = (MAGIC @ [VERSION] @ u32_to_be (of_nat (length bs))) @ concat raws"
      and raws: "list_all2 (pkg_member padded_field) raws es"
      unfolding pkg_container_def by (metis append.assoc)
    then have "drop 8 bs = concat raws" by (metis drop_header)
    then have c: "concat raws = [0, 0, 0, 0, 97, 0, 0, 0, 0]" by (simp add: tail)
    then obtain raw raws' where Cons: "raws = raw # raws'" by (cases raws) auto
    with raws obtain field rest where f: "padded_field field" "length field \<le> 2 ^ 32"
      and raw: "raw = u32_to_be (of_nat (length field - 1)) @ rest"
      by (auto simp: pkg_member_def list_all2_Cons1)
    have "u32_to_be (of_nat (length field - 1)) = [0, 0, 0, 0]"
      using arg_cong [OF c, of "take 4"] by (simp add: Cons raw)
    then have "(of_nat (length field - 1) :: u32) = u32_from_be [0, 0, 0, 0]"
      by (metis u32_from_to_be)
    moreover have "u32_from_be [0, 0, 0, 0] = 0" by code_simp
    ultimately have "unat (of_nat (length field - 1) :: u32) = 0" by simp
    then have "length field \<le> 1" using f(2) by (simp add: unat_of_nat)
    with f(1) show False by (auto simp: padded_field_def dest: dvd_imp_le)
  qed
qed

text \<open>
  C1. Packing then unpacking is the identity: whenever \<open>serialize\<close> succeeds on entries
  whose paths are Rust strings without NUL, \<open>parse\<close> of its output succeeds and returns
  the same entries (paths restored from ISO-8859-1 to UTF-8, payloads unchanged).
\<close>

theorem serialize_parse_roundtrip:
  assumes "serialize es = Inr bs" and "list_all entry_ok es"
  shows "parse bs = Inr es"
  using pkg_container_mono [OF serialize_container [OF assms]] by (simp add: parse_iff_container)

theorem serialize_parse_roundtrip_witness:
  "\<exists>bs. serialize [\<lparr>entry_path = ascii ''foo'', entry_data = ascii ''barbarba''\<rparr>] = Inr bs \<and>
     parse bs = Inr [\<lparr>entry_path = ascii ''foo'', entry_data = ascii ''barbarba''\<rparr>]"
proof -
  let ?es = "[\<lparr>entry_path = ascii ''foo'', entry_data = ascii ''barbarba''\<rparr>]"
  have "is_ok (serialize ?es)" by code_simp
  then obtain bs where bs: "serialize ?es = Inr bs" by (auto simp: is_ok_iff)
  have "list_all entry_ok ?es" by code_simp
  then have "parse bs = Inr ?es" by (rule serialize_parse_roundtrip [OF bs])
  with bs show ?thesis by blast
qed

section \<open>Creating a package on disk\<close>

datatype PathMode = Reference | Basename

datatype 'd CreatePolicy = NoClobber | ReplaceIfSha256 'd

datatype ('i, 'd) AtomicFilePolicy = AtomicNoClobber | AtomicReplaceIf 'i 'd

datatype CreateFailureKind = InputFailure | ValidationFailure | PublicationFailure | RollbackIncomplete

datatype 'd create_cause =
    CannotRead bytes
  | NotElfMembers "rstring list"
  | SerializeFailed pkg_error
  | StagedUnparsable pkg_error
  | StagedDiffers
  | CannotMeasure
  | NoExistingFile
  | DigestMismatch 'd 'd
  | PublishFailed

text \<open>\<open>struct CreateFailure\<close>; \<open>'c\<close> is the publication primitive's failure class.\<close>

record ('d, 'c) CreateFailure =
  failure_kind :: CreateFailureKind
  failure_path :: bytes
  failure_publication_class :: "'c option"
  failure_source :: "'d create_cause"

text \<open>\<open>struct CreateOutcome\<close>.\<close>

record 'r CreateOutcome =
  outcome_entries :: "Entry list"
  outcome_publication :: 'r

definition new_failure :: "CreateFailureKind \<Rightarrow> bytes \<Rightarrow> 'd create_cause \<Rightarrow> ('d, 'c) CreateFailure" where
  "new_failure kind p cause =
     \<lparr>failure_kind = kind, failure_path = p, failure_publication_class = None, failure_source = cause\<rparr>"

definition publication_failure ::
  "CreateFailureKind \<Rightarrow> bytes \<Rightarrow> 'c \<Rightarrow> 'd create_cause \<Rightarrow> ('d, 'c) CreateFailure" where
  "publication_failure kind p class cause =
     \<lparr>failure_kind = kind, failure_path = p, failure_publication_class = Some class,
      failure_source = cause\<rparr>"

text \<open>
  \<open>Path::is_absolute\<close> and \<open>Path::file_name\<close> on Unix: the last component, where empty and
  \<open>.\<close> components do not count and \<open>..\<close> is no name.
\<close>

definition path_is_absolute :: "bytes \<Rightarrow> bool" where
  "path_is_absolute p = starts_with p [47]"

definition path_file_name :: "bytes \<Rightarrow> bytes option" where
  "path_file_name p =
     (let comps = filter (\<lambda>c. c \<noteq> [] \<and> c \<noteq> [46]) (split_on (\<lambda>b. b = 47) p)
      in if comps = [] \<or> last comps = [46, 46] then None else Some (last comps))"

definition member_path :: "PathMode \<Rightarrow> bytes \<Rightarrow> rstring" where
  "member_path mode file =
     (let basename = (case path_file_name file of
            None \<Rightarrow> from_utf8_lossy file | Some n \<Rightarrow> from_utf8_lossy n)
      in case mode of
           Reference \<Rightarrow> if path_is_absolute file then basename else from_utf8_lossy file
         | Basename \<Rightarrow> basename)"

text \<open>The loop over the input files; the first unreadable one ends it.\<close>

fun read_members ::
  "(bytes \<Rightarrow> bytes option) \<Rightarrow> PathMode \<Rightarrow> bytes list \<Rightarrow> (('d, 'c) CreateFailure, Entry list) result" where
  "read_members fs_read mode [] = Inr []"
| "read_members fs_read mode (file # files) =
     rbind (ok_or (fs_read file) (new_failure InputFailure file (CannotRead file))) (\<lambda>data.
     rbind (read_members fs_read mode files) (\<lambda>entries.
       Inr (\<lparr>entry_path = member_path mode file, entry_data = data\<rparr> # entries)))"

definition non_elf_members :: "Entry list \<Rightarrow> (usize \<times> rstring) list" where
  "non_elf_members entries =
     map (\<lambda>(i, e). (i, entry_module_name e))
       (filter (\<lambda>(i, e). \<not> is_elf e) (zip [0..<length entries] entries))"

text \<open>Everything \<open>create\<close> checks before it looks at the destination: the staged package.\<close>

definition stage_package ::
  "(bytes \<Rightarrow> bytes option) \<Rightarrow> bytes \<Rightarrow> bytes list \<Rightarrow> PathMode \<Rightarrow> bool \<Rightarrow>
     (('d, 'c) CreateFailure, Entry list \<times> bytes) result" where
  "stage_package fs_read output files mode allow_non_elf =
     rbind (read_members fs_read mode files) (\<lambda>entries.
       (let non_elf = non_elf_members entries
        in if \<not> allow_non_elf \<and> non_elf \<noteq> []
           then Inl (new_failure ValidationFailure (files ! fst (hd non_elf)) (NotElfMembers (map snd non_elf)))
           else rbind (map_err (\<lambda>e. new_failure ValidationFailure output (SerializeFailed e)) (serialize entries)) (\<lambda>bs.
                rbind (map_err (\<lambda>e. new_failure ValidationFailure output (StagedUnparsable e)) (parse bs)) (\<lambda>reparsed.
                  if reparsed \<noteq> entries then Inl (new_failure ValidationFailure output StagedDiffers)
                  else Inr (entries, bs)))))"

text \<open>The existing-output policy turned into the primitive's compare-and-swap.\<close>

definition atomic_policy ::
  "(bytes \<Rightarrow> ('x, ('i \<times> bytes) option) result) \<Rightarrow> (bytes \<Rightarrow> 'd) \<Rightarrow> 'c \<Rightarrow> bytes \<Rightarrow> 'd CreatePolicy \<Rightarrow>
     (('d, 'c) CreateFailure, ('i, 'd) AtomicFilePolicy) result" where
  "atomic_policy measure_file sha256 conflict output policy =
     (case policy of
        NoClobber \<Rightarrow> Inr AtomicNoClobber
      | ReplaceIfSha256 expected \<Rightarrow>
          rbind (map_err (\<lambda>_. new_failure PublicationFailure output CannotMeasure) (measure_file output)) (\<lambda>measured.
            case measured of
              None \<Rightarrow> Inl (publication_failure PublicationFailure output conflict NoExistingFile)
            | Some (identity, current) \<Rightarrow>
                (let actual = sha256 current
                 in if actual \<noteq> expected
                    then Inl (publication_failure PublicationFailure output conflict (DigestMismatch expected actual))
                    else Inr (AtomicReplaceIf identity actual))))"

text \<open>
  \<open>create\<close> over a world \<open>'w\<close> that only the publication primitive changes. \<open>publish\<close>
  returns the new world and a receipt, or the failure class and whether a rollback was left
  incomplete.
\<close>

definition create ::
  "('w \<Rightarrow> bytes \<Rightarrow> bytes option) \<Rightarrow> ('w \<Rightarrow> bytes \<Rightarrow> ('x, ('i \<times> bytes) option) result) \<Rightarrow>
   (bytes \<Rightarrow> 'd) \<Rightarrow> 'c \<Rightarrow>
   (bytes \<Rightarrow> bytes \<Rightarrow> ('i, 'd) AtomicFilePolicy \<Rightarrow> 'w \<Rightarrow> 'w \<times> ('c \<times> bool, 'r) result) \<Rightarrow>
   bytes \<Rightarrow> bytes list \<Rightarrow> PathMode \<Rightarrow> bool \<Rightarrow> 'd CreatePolicy \<Rightarrow> 'w \<Rightarrow>
   'w \<times> (('d, 'c) CreateFailure, 'r CreateOutcome) result" where
  "create fs_read measure_file sha256 conflict publish output files mode allow_non_elf policy w =
     (case stage_package (fs_read w) output files mode allow_non_elf of
        Inl f \<Rightarrow> (w, Inl f)
      | Inr (entries, bs) \<Rightarrow>
          (case atomic_policy (measure_file w) sha256 conflict output policy of
             Inl f \<Rightarrow> (w, Inl f)
           | Inr pol \<Rightarrow>
               (case publish output bs pol w of
                  (w', Inl (class, rollback_incomplete)) \<Rightarrow>
                    (w', Inl (publication_failure
                       (if rollback_incomplete then RollbackIncomplete else PublicationFailure)
                       output class PublishFailed))
                | (w', Inr receipt) \<Rightarrow>
                    (w', Inr \<lparr>outcome_entries = entries, outcome_publication = receipt\<rparr>))))"

text \<open>
  The members a package is to hold, from the contents of the input files: what \<open>create\<close>
  promises to publish.
\<close>

definition input_entry :: "(bytes \<Rightarrow> bytes option) \<Rightarrow> PathMode \<Rightarrow> bytes \<Rightarrow> Entry" where
  "input_entry rd mode file = \<lparr>entry_path = member_path mode file, entry_data = the (rd file)\<rparr>"

abbreviation input_entries :: "(bytes \<Rightarrow> bytes option) \<Rightarrow> PathMode \<Rightarrow> bytes list \<Rightarrow> Entry list" where
  "input_entries rd mode files \<equiv> map (input_entry rd mode) files"

text \<open>\<open>file\<close> is the first of \<open>files\<close> that fails \<open>good\<close>.\<close>

definition first_bad :: "('a \<Rightarrow> bool) \<Rightarrow> 'a list \<Rightarrow> 'a \<Rightarrow> bool" where
  "first_bad good files file \<longleftrightarrow>
     (\<exists>earlier later. files = earlier @ file # later \<and> list_all good earlier \<and> \<not> good file)"

lemma first_bad_Cons: "good x \<Longrightarrow> first_bad good xs file \<Longrightarrow> first_bad good (x # xs) file"
  unfolding first_bad_def by (metis append_Cons list.pred_inject(2))

lemma read_members_eq_Inr:
  "read_members rd mode files = Inr es \<longleftrightarrow>
     list_all (\<lambda>file. rd file \<noteq> None) files \<and> es = input_entries rd mode files"
  by (induction files arbitrary: es) (auto simp: rbind_eq_Inr input_entry_def)

lemma read_members_eq_Inl:
  "read_members rd mode files = Inl f \<Longrightarrow>
     \<exists>file. first_bad (\<lambda>file. rd file \<noteq> None) files file \<and> f = new_failure InputFailure file (CannotRead file)"
proof (induction files)
  case (Cons x files)
  show ?case
  proof (cases "rd x")
    case None
    then have "first_bad (\<lambda>file. rd file \<noteq> None) (x # files) x"
      unfolding first_bad_def by (intro exI [of _ "[]"] exI [of _ files]) simp
    with None Cons.prems show ?thesis by (auto simp: ok_or_def)
  next
    case (Some data)
    with Cons.prems have "read_members rd mode files = Inl f" by (auto simp: ok_or_def split: sum.splits)
    with Cons.IH obtain bad where "first_bad (\<lambda>file. rd file \<noteq> None) files bad"
      "f = new_failure InputFailure bad (CannotRead bad)" by blast
    with Some show ?thesis by (metis (mono_tags, lifting) first_bad_Cons option.distinct(1))
  qed
qed simp

lemma filter_zip_upt_hd:
  assumes "filter (\<lambda>(i, x). \<not> good x) (zip [k..<k + length xs] xs) = (i, x) # rest"
  shows "k \<le> i \<and> i - k < length xs \<and> list_all good (take (i - k) xs) \<and> \<not> good (xs ! (i - k))"
  using assms
proof (induction xs arbitrary: k)
  case (Cons y xs)
  show ?case
  proof (cases "good y")
    case True
    moreover have "[k..<k + length (y # xs)] = k # [Suc k..<Suc k + length xs]"
      by (simp add: upt_conv_Cons del: upt_Suc)
    ultimately have "filter (\<lambda>(i, x). \<not> good x) (zip [Suc k..<Suc k + length xs] xs) = (i, x) # rest"
      using Cons.prems by (simp del: upt_Suc)
    from Cons.IH [OF this] have "Suc k \<le> i" and
      *: "i - Suc k < length xs \<and> list_all good (take (i - Suc k) xs) \<and> \<not> good (xs ! (i - Suc k))" by auto
    then have "i - k = Suc (i - Suc k)" by simp
    with * True \<open>Suc k \<le> i\<close> show ?thesis by simp
  next
    case False
    moreover have "[k..<k + length (y # xs)] = k # [Suc k..<Suc k + length xs]"
      by (simp add: upt_conv_Cons del: upt_Suc)
    ultimately show ?thesis using Cons.prems by (auto simp del: upt_Suc)
  qed
qed simp

lemma non_elf_first:
  assumes "non_elf_members (map entry files) \<noteq> []"
  shows "first_bad (\<lambda>file. is_elf (entry file)) files (files ! fst (hd (non_elf_members (map entry files))))"
proof -
  let ?zs = "filter (\<lambda>(i, e). \<not> is_elf e) (zip [0..<length files] (map entry files))"
  obtain i x rest where zs: "?zs = (i, x) # rest"
    using assms by (cases ?zs) (auto simp: non_elf_members_def)
  with filter_zip_upt_hd [of is_elf 0 "map entry files" i x rest]
  have i: "i < length files" "list_all is_elf (take i (map entry files))" "\<not> is_elf (entry (files ! i))"
    by auto
  have "fst (hd (non_elf_members (map entry files))) = i"
    using zs by (simp add: non_elf_members_def)
  moreover have "first_bad (\<lambda>file. is_elf (entry file)) files (files ! i)"
    unfolding first_bad_def
    by (rule exI [of _ "take i files"], rule exI [of _ "drop (Suc i) files"])
      (use i in \<open>simp add: id_take_nth_drop [symmetric] take_map list.pred_map o_def\<close>)
  ultimately show ?thesis by simp
qed

lemma non_elf_members_Nil: "non_elf_members es = [] \<longleftrightarrow> list_all is_elf es"
  by (auto simp: non_elf_members_def filter_empty_conv set_zip list_all_length)

lemma stage_package_eq_Inr:
  "stage_package rd output files mode allow = Inr (entries, bs) \<longleftrightarrow>
     list_all (\<lambda>file. rd file \<noteq> None) files \<and> entries = input_entries rd mode files \<and>
     (allow \<or> list_all is_elf entries) \<and> serialize entries = Inr bs \<and> parse bs = Inr entries"
  by (auto simp: stage_package_def Let_def rbind_eq_Inr read_members_eq_Inr non_elf_members_Nil split: if_splits)

text \<open>Why staging fails: the reason a failure reports, in terms of the inputs.\<close>

definition staging_reason ::
  "(bytes \<Rightarrow> bytes option) \<Rightarrow> bytes \<Rightarrow> bytes list \<Rightarrow> PathMode \<Rightarrow> bool \<Rightarrow> ('d, 'c) CreateFailure \<Rightarrow> bool" where
  "staging_reason rd output files mode allow f \<longleftrightarrow>
     (let es = input_entries rd mode files
      in case failure_kind f of
        InputFailure \<Rightarrow> first_bad (\<lambda>file. rd file \<noteq> None) files (failure_path f)
      | ValidationFailure \<Rightarrow>
          list_all (\<lambda>file. rd file \<noteq> None) files \<and>
          (if \<not> allow \<and> \<not> list_all is_elf es
           then first_bad (\<lambda>file. is_elf (input_entry rd mode file)) files (failure_path f)
           else failure_path f = output \<and> \<not> (\<exists>bs. serialize es = Inr bs \<and> parse bs = Inr es))
      | _ \<Rightarrow> False)"

lemma stage_package_eq_Inl:
  assumes "stage_package rd output files mode allow = Inl f"
  shows "staging_reason rd output files mode allow f"
proof (cases "read_members rd mode files :: (('a, 'b) CreateFailure, _) result")
  case (Inl g)
  with assms have "f = g" by (simp add: stage_package_def)
  with read_members_eq_Inl [OF Inl] show ?thesis
    by (auto simp: staging_reason_def new_failure_def Let_def)
next
  case (Inr es)
  then have es: "list_all (\<lambda>file. rd file \<noteq> None) files" "es = input_entries rd mode files"
    by (simp_all add: read_members_eq_Inr)
  show ?thesis
  proof (cases "\<not> allow \<and> \<not> list_all is_elf es")
    case True
    with assms Inr have "f = new_failure ValidationFailure (files ! fst (hd (non_elf_members es)))
        (NotElfMembers (map snd (non_elf_members es)))"
      by (simp add: stage_package_def Let_def non_elf_members_Nil)
    with True es non_elf_first [of "input_entry rd mode" files] show ?thesis
      by (simp add: staging_reason_def new_failure_def Let_def non_elf_members_Nil)
  next
    case False
    with assms Inr have "failure_kind f = ValidationFailure \<and> failure_path f = output \<and>
        \<not> (\<exists>bs. serialize es = Inr bs \<and> parse bs = Inr es)"
      by (auto simp: stage_package_def Let_def non_elf_members_Nil new_failure_def map_err_def
          split: sum.splits if_splits)
    moreover have "\<not> (\<not> allow \<and> \<not> list_all is_elf (input_entries rd mode files))" using False es by simp
    ultimately show ?thesis
      unfolding staging_reason_def Let_def using es by (simp only: if_False CreateFailureKind.case simp_thms)
  qed
qed

text \<open>
  What the existing-output policy asks of the destination: nothing, or a regular file with the
  expected digest, which is then the one named to the publication primitive.
\<close>

definition destination_matches ::
  "(bytes \<Rightarrow> ('x, ('i \<times> bytes) option) result) \<Rightarrow> (bytes \<Rightarrow> 'd) \<Rightarrow> bytes \<Rightarrow> 'd CreatePolicy \<Rightarrow>
     ('i, 'd) AtomicFilePolicy \<Rightarrow> bool" where
  "destination_matches measure_file sha256 output policy pol \<longleftrightarrow>
     (case policy of
        NoClobber \<Rightarrow> pol = AtomicNoClobber
      | ReplaceIfSha256 d \<Rightarrow>
          (\<exists>identity current. measure_file output = Inr (Some (identity, current)) \<and>
             sha256 current = d \<and> pol = AtomicReplaceIf identity d))"

lemma atomic_policy_eq_Inr:
  "atomic_policy mf sha conflict output policy = Inr pol \<longleftrightarrow> destination_matches mf sha output policy pol"
  by (auto simp: atomic_policy_def destination_matches_def rbind_eq_Inr Let_def
      split: CreatePolicy.splits option.splits if_splits)

lemma atomic_policy_eq_Inl:
  assumes "atomic_policy mf sha conflict output policy = Inl f"
  shows "failure_kind f = PublicationFailure" "failure_path f = output" "failure_source f \<noteq> PublishFailed"
    "\<not> (\<exists>pol. destination_matches mf sha output policy pol)"
proof -
  show "\<not> (\<exists>pol. destination_matches mf sha output policy pol)"
    using assms atomic_policy_eq_Inr by (metis Inl_Inr_False)
qed (use assms in \<open>auto simp: atomic_policy_def Let_def new_failure_def publication_failure_def map_err_def
      split: CreatePolicy.splits sum.splits option.splits if_splits\<close>)

lemma stage_package_source:
  "stage_package rd output files mode allow = Inl f \<Longrightarrow> failure_source f \<noteq> PublishFailed"
  by (auto simp: stage_package_def Let_def new_failure_def map_err_def
      dest!: read_members_eq_Inl split: sum.splits if_splits)

text \<open>
  C3. Only the verified package of the given inputs is ever published: if \<open>create\<close> reports
  success then every input file was readable, the reported entries are the input files in
  order, each under its recorded name and with the bytes read from it, all of them ELF objects
  unless non-ELF members were explicitly allowed, and the publication primitive was called
  exactly on the serialization of those entries, which parses back to them; when replacement was
  asked for, against the measured identity of an existing file whose digest is the expected one.
\<close>

theorem create_publishes_verified:
  assumes "create fs_read measure_file sha256 conflict publish output files mode allow policy w = (w', Inr out)"
  shows "list_all (\<lambda>file. fs_read w file \<noteq> None) files \<and>
    outcome_entries out =
      map (\<lambda>file. \<lparr>entry_path = member_path mode file, entry_data = the (fs_read w file)\<rparr>) files \<and>
    (allow \<or> list_all is_elf (outcome_entries out)) \<and>
    (\<exists>bs pol. serialize (outcome_entries out) = Inr bs \<and> parse bs = Inr (outcome_entries out) \<and>
       publish output bs pol w = (w', Inr (outcome_publication out)) \<and>
       (case policy of
          NoClobber \<Rightarrow> pol = AtomicNoClobber
        | ReplaceIfSha256 d \<Rightarrow> \<exists>identity current. measure_file w output = Inr (Some (identity, current)) \<and>
            sha256 current = d \<and> pol = AtomicReplaceIf identity d))"
  using assms
  by (auto simp: create_def stage_package_eq_Inr atomic_policy_eq_Inr destination_matches_def input_entry_def
      split: sum.splits prod.splits)

theorem create_publishes_verified_witness:
  "\<exists>w' out. create (\<lambda>(w :: bytes) p. Some [127, 69, 76, 70])
       (\<lambda>w p. (Inr None :: (unit, (nat \<times> bytes) option) result)) length ()
       (\<lambda>p bs pol w. (bs, Inr () :: (unit \<times> bool, unit) result)) (ascii ''out'') [ascii ''/d/m'']
       Basename False NoClobber [] = (w', Inr out) \<and>
     outcome_entries out = [\<lparr>entry_path = ascii ''m'', entry_data = [127, 69, 76, 70]\<rparr>] \<and>
     serialize (outcome_entries out) = Inr w'"
proof -
  let ?create = "create (\<lambda>(w :: bytes) p. Some [127, 69, 76, 70])
     (\<lambda>w p. (Inr None :: (unit, (nat \<times> bytes) option) result)) length ()
     (\<lambda>p bs pol w. (bs, Inr () :: (unit \<times> bool, unit) result)) (ascii ''out'') [ascii ''/d/m'']
     Basename False NoClobber []"
  have "is_ok (snd ?create)" by code_simp
  then obtain w' out where c: "?create = (w', Inr out)" by (cases ?create) (auto simp: is_ok_iff)
  moreover have "member_path Basename (ascii ''/d/m'') = ascii ''m''" by code_simp
  ultimately show ?thesis using create_publishes_verified [OF c] by auto
qed

text \<open>
  C4. The destination is not touched until every input and the whole staged package have passed
  validation. If \<open>create\<close> fails, then either the publication primitive itself failed, called
  on the serialization of the verified input entries with the policy's compare-and-swap, and its
  class and an incomplete rollback are reported; or the world is exactly as it was, and the
  failure names its reason: the first input that cannot be read, the first one that is not ELF
  where that is asked for, a staged package that does not serialize and parse back to its
  entries, or a destination that is not the file the policy wants replaced.
\<close>

theorem create_failure_untouched:
  fixes sha256 :: "bytes \<Rightarrow> 'd" and conflict :: 'c
  assumes "create fs_read measure_file sha256 conflict publish output files mode allow policy w = (w', Inl f)"
  shows "if failure_source f = PublishFailed
    then \<exists>bs pol class rollback_incomplete.
      publish output bs pol w = (w', Inl (class, rollback_incomplete)) \<and>
      serialize (input_entries (fs_read w) mode files) = Inr bs \<and>
      parse bs = Inr (input_entries (fs_read w) mode files) \<and>
      list_all (\<lambda>file. fs_read w file \<noteq> None) files \<and>
      (allow \<or> list_all is_elf (input_entries (fs_read w) mode files)) \<and>
      destination_matches (measure_file w) sha256 output policy pol \<and>
      failure_kind f = (if rollback_incomplete then RollbackIncomplete else PublicationFailure) \<and>
      failure_path f = output \<and> failure_publication_class f = Some class
    else w' = w \<and>
      (if failure_kind f = PublicationFailure
       then failure_path f = output \<and> \<not> (\<exists>pol. destination_matches (measure_file w) sha256 output policy pol)
       else staging_reason (fs_read w) output files mode allow f)"
proof (cases "stage_package (fs_read w) output files mode allow :: (('d, 'c) CreateFailure, _) result")
  case (Inl g)
  with assms have g: "f = g" "w' = w" by (simp_all add: create_def)
  have "failure_kind f \<noteq> PublicationFailure"
    using stage_package_eq_Inl [OF Inl] g by (auto simp: staging_reason_def Let_def)
  then show ?thesis
    using stage_package_eq_Inl [OF Inl] stage_package_source [OF Inl] g by simp
next
  case (Inr staged)
  then obtain bs where staged: "staged = (input_entries (fs_read w) mode files, bs)"
    and st: "list_all (\<lambda>file. fs_read w file \<noteq> None) files"
      "allow \<or> list_all is_elf (input_entries (fs_read w) mode files)"
      "serialize (input_entries (fs_read w) mode files) = Inr bs"
      "parse bs = Inr (input_entries (fs_read w) mode files)"
    by (cases staged) (auto simp: stage_package_eq_Inr)
  show ?thesis
  proof (cases "atomic_policy (measure_file w) sha256 conflict output policy :: (('d, 'c) CreateFailure, _) result")
    case (Inl g)
    with assms Inr staged have "f = g" "w' = w" by (simp_all add: create_def)
    with atomic_policy_eq_Inl [OF Inl] show ?thesis by simp
  next
    case pol: (Inr pol)
    then have "destination_matches (measure_file w) sha256 output policy pol"
      by (simp add: atomic_policy_eq_Inr)
    moreover obtain c rb where "publish output bs pol w = (w', Inl (c, rb))"
      "f = publication_failure (if rb then RollbackIncomplete else PublicationFailure) output c PublishFailed"
      using assms Inr staged pol by (auto simp: create_def split: prod.splits sum.splits)
    ultimately show ?thesis
      using st
      by (subst if_P, simp add: publication_failure_def)
        (intro exI [of _ bs] exI [of _ pol] exI [of _ c] exI [of _ rb], simp add: publication_failure_def)
  qed
qed

theorem create_failure_untouched_witness:
  "create (\<lambda>(w :: bytes) p. if p = ascii ''/b'' then Some [1, 2] else Some [127, 69, 76, 70])
     (\<lambda>w p. (Inr None :: (unit, (nat \<times> bytes) option) result)) length ()
     (\<lambda>p bs pol w. (bs, Inr () :: (unit \<times> bool, unit) result)) (ascii ''out'') [ascii ''/a'', ascii ''/b'']
     Basename False NoClobber [9] =
   ([9], Inl (new_failure ValidationFailure (ascii ''/b'') (NotElfMembers [ascii ''b''])))"
proof -
  let ?create = "create (\<lambda>(w :: bytes) p. if p = ascii ''/b'' then Some [1, 2] else Some [127, 69, 76, 70])
     (\<lambda>w p. (Inr None :: (unit, (nat \<times> bytes) option) result)) length ()
     (\<lambda>p bs pol w. (bs, Inr () :: (unit \<times> bool, unit) result)) (ascii ''out'') [ascii ''/a'', ascii ''/b'']
     Basename False NoClobber [9]"
  let ?f = "new_failure ValidationFailure (ascii ''/b'') (NotElfMembers [ascii ''b''])"
  have "snd ?create = Inl ?f" by code_simp
  then obtain w' where c: "?create = (w', Inl ?f)" by (cases ?create) auto
  then have "w' = [9]"
    using create_failure_untouched [OF c] by (simp add: new_failure_def)
  with c show ?thesis by simp
qed

lemma length_entry_bytes:
  "entry_ok e \<Longrightarrow> length (entry_bytes e) = 8 + padded_path_len (entry_path e) + length (entry_data e)"
  using length_entry_latin1 [of e] padded_path_len_bounds(1) [of "entry_path e"]
  by (simp add: entry_bytes_def entry_ok_def)

text \<open>
  The size of a package is known in advance and is the size its header declares: eight
  bytes of header and, for each member, eight bytes of length fields, the path field (padded
  to a multiple of four that leaves room for a NUL) and the payload.
\<close>

lemma serialize_size:
  assumes "serialize es = Inr bs" and "list_all entry_ok es"
  shows "length bs = 8 + (\<Sum>e\<leftarrow>es. 8 + padded_path_len (entry_path e) + length (entry_data e)) \<and>
    take 8 bs = MAGIC @ [VERSION] @ u32_to_be (of_nat (length bs)) \<and> length bs < 2 ^ 32"
proof -
  have "length (concat (map entry_bytes es)) =
      (\<Sum>e\<leftarrow>es. 8 + padded_path_len (entry_path e) + length (entry_data e))"
    using assms(2) by (induction es) (simp_all add: length_entry_bytes)
  with assms(1) show ?thesis by (auto simp: serialize_eq_Inr)
qed

lemma serialize_size_witness:
  "\<exists>bs. serialize [\<lparr>entry_path = ascii ''abcd'', entry_data = ascii ''x''\<rparr>] = Inr bs \<and> length bs = 25"
proof -
  let ?es = "[\<lparr>entry_path = ascii ''abcd'', entry_data = ascii ''x''\<rparr>]"
  have "is_ok (serialize ?es)" by code_simp
  then obtain bs where bs: "serialize ?es = Inr bs" by (auto simp: is_ok_iff)
  have ok: "list_all entry_ok ?es" by code_simp
  have "padded_path_len (ascii ''abcd'') = 8" by code_simp
  with serialize_size [OF bs ok] bs show ?thesis by (auto simp: ascii_def)
qed

end
