(* ===== verification/Elf_Reader.thy ===== *)
theory Elf_Reader
  imports Rust_Str
begin

unbundle bit_operations_syntax

text \<open>
  The format-level ELF reader of \<open>crates/aros-common/src/elf.rs\<close>: header identity, section
  headers with resolved names, symbols, and the name budget that bounds what an adversarial
  string table can make the reader copy. The checks stand in the order of the source, each
  with its own error.
\<close>

section \<open>Data\<close>

datatype Class = Elf32 | Elf64

definition OS_ABI_AROS :: u8 where
  "OS_ABI_AROS = 15"

definition AROS_ABI_VERSION :: u8 where
  "AROS_ABI_VERSION = 1"

definition pointer_bytes :: "Class \<Rightarrow> u64" where
  "pointer_bytes c = (case c of Elf32 \<Rightarrow> 4 | Elf64 \<Rightarrow> 8)"

definition pointer_directive :: "Class \<Rightarrow> rstring" where
  "pointer_directive c = (case c of Elf32 \<Rightarrow> ascii ''LONG'' | Elf64 \<Rightarrow> ascii ''QUAD'')"

datatype Home = Absolute | Undefined | InSection u16

datatype Binding = BindLocal | BindGlobal | BindWeak | BindOther u8

record Section =
  sec_index :: u16
  sec_name :: rstring
  sec_kind :: u32
  sec_flags :: u64
  sec_address :: u64
  sec_offset :: u64
  sec_size :: u64
  sec_align :: u64
  sec_link :: u32
  sec_entsize :: u64

record Symbol =
  sym_name :: rstring
  sym_value :: u64
  sym_size :: u64
  sym_home :: Home
  sym_binding :: Binding

record Object =
  obj_class :: Class
  obj_kind :: u16
  obj_machine :: u16
  obj_flags :: u32
  obj_os_abi :: u8
  obj_abi_version :: u8
  obj_sections :: "Section list"
  obj_symbols :: "Symbol list"

definition section_names :: "Object \<Rightarrow> rstring list" where
  "section_names ob = map sec_name (obj_sections ob)"

definition SHF_WRITE :: u64 where "SHF_WRITE = 1"
definition SHF_ALLOC :: u64 where "SHF_ALLOC = 2"
definition SHT_SYMTAB :: u32 where "SHT_SYMTAB = 2"
definition SHT_STRTAB :: u32 where "SHT_STRTAB = 3"
definition SHT_NOBITS :: u32 where "SHT_NOBITS = 8"
definition SHN_UNDEF :: u16 where "SHN_UNDEF = 0"
definition SHN_ABS :: u16 where "SHN_ABS = 0xfff1"
definition SHN_XINDEX :: u16 where "SHN_XINDEX = 0xffff"
definition SHN_LORESERVE :: u16 where "SHN_LORESERVE = 0xff00"

definition is_alloc :: "Section \<Rightarrow> bool" where
  "is_alloc s = (sec_flags s AND SHF_ALLOC \<noteq> 0)"

definition is_write :: "Section \<Rightarrow> bool" where
  "is_write s = (sec_flags s AND SHF_WRITE \<noteq> 0)"

definition is_nobits :: "Section \<Rightarrow> bool" where
  "is_nobits s = (sec_kind s = SHT_NOBITS)"

lemmas elf_constants =
  SHF_WRITE_def SHF_ALLOC_def SHT_SYMTAB_def SHT_STRTAB_def SHT_NOBITS_def
  SHN_UNDEF_def SHN_ABS_def SHN_XINDEX_def SHN_LORESERVE_def

datatype elf_error =
    NotElf
  | UnknownClass "u8 option"
  | NotLittleEndian
  | TruncatedElf
  | TruncatedHeader
  | UnsupportedHeaderVersion
  | UnsupportedHeaderSize
  | InconsistentAbsentTable
  | UnsupportedStride usize
  | ReservedIndices
  | UnsupportedSectionCount
  | SectionTableOverflow
  | TruncatedSectionTable
  | NameTableIndexOutOfRange usize
  | InvalidNameTableType
  | SectionHeaderOverflow
  | TruncatedSectionHeader
  | SectionIndexOutOfRange
  | TableBeyondRange
  | TruncatedTable
  | NameOffsetOutOfRange
  | UnterminatedName
  | NameBudgetExceeded
  | SymbolStringTableOutOfRange
  | InvalidSymbolStringTable
  | UnsupportedSymbolSize
  | PartialSymbolEntry
  | TruncatedSymbol

section \<open>Fixed-width reads\<close>

definition u16_at :: "bytes \<Rightarrow> usize \<Rightarrow> (elf_error, u16) result" where
  "u16_at bs at = rbind (ok_or (get_range bs at (at + 2)) TruncatedElf) (\<lambda>s. Inr (u16_from_le s))"

definition u32_at :: "bytes \<Rightarrow> usize \<Rightarrow> (elf_error, u32) result" where
  "u32_at bs at = rbind (ok_or (get_range bs at (at + 4)) TruncatedElf) (\<lambda>s. Inr (u32_from_le s))"

definition u64_at :: "bytes \<Rightarrow> usize \<Rightarrow> (elf_error, u64) result" where
  "u64_at bs at = rbind (ok_or (get_range bs at (at + 8)) TruncatedElf) (\<lambda>s. Inr (u64_from_le s))"

text \<open>\<open>u64::from(u32_at(..)?)\<close>.\<close>

definition u32_at_wide :: "bytes \<Rightarrow> usize \<Rightarrow> (elf_error, u64) result" where
  "u32_at_wide bs at = rbind (u32_at bs at) (\<lambda>w. Inr (ucast w))"

section \<open>The name budget\<close>

text \<open>\<open>file_bytes.saturating_mul(4).min(64 * 1024 * 1024)\<close>.\<close>

definition name_budget_new :: "usize \<Rightarrow> usize" where
  "name_budget_new file_bytes = min (min (file_bytes * 4) (2 ^ 64 - 1)) (64 * 1024 * 1024)"

text \<open>\<open>NameBudget::read\<close>: the name and the budget that is left.\<close>

definition name_budget_read :: "usize \<Rightarrow> bytes \<Rightarrow> usize \<Rightarrow> (elf_error, rstring \<times> usize) result" where
  "name_budget_read budget table at =
     (if table = [] \<and> at = 0 then Inr ([], budget)
      else
        rbind (ok_or (get_from table at) NameOffsetOutOfRange) (\<lambda>rest.
        rbind (ok_or (position (\<lambda>b. b = 0) rest) UnterminatedName) (\<lambda>size.
        ensure (size \<le> budget) NameBudgetExceeded
          (let value = from_utf8_lossy (take size rest)
           in rbind (ok_or (checked_sub budget (length value)) NameBudgetExceeded) (\<lambda>budget'.
                Inr (value, budget'))))))"

section \<open>Section headers\<close>

text \<open>\<open>struct RawSection\<close>: a section header before its name is resolved.\<close>

record RawSection =
  raw_index :: u16
  raw_name_offset :: u32
  raw_name :: rstring
  raw_kind :: u32
  raw_flags :: u64
  raw_address :: u64
  raw_offset :: u64
  raw_size :: u64
  raw_align :: u64
  raw_link :: u32
  raw_entsize :: u64

text \<open>\<open>impl From<RawSection> for Section\<close>.\<close>

definition section_from_raw :: "RawSection \<Rightarrow> Section" where
  "section_from_raw r =
     \<lparr>sec_index = raw_index r, sec_name = raw_name r, sec_kind = raw_kind r, sec_flags = raw_flags r,
      sec_address = raw_address r, sec_offset = raw_offset r, sec_size = raw_size r,
      sec_align = raw_align r, sec_link = raw_link r, sec_entsize = raw_entsize r\<rparr>"

definition shdr_stride :: "Class \<Rightarrow> usize" where
  "shdr_stride class = (case class of Elf64 \<Rightarrow> 64 | Elf32 \<Rightarrow> 40)"

text \<open>The fields of one header entry, read relative to the checked slice.\<close>

definition shdr_fields :: "Class \<Rightarrow> u16 \<Rightarrow> bytes \<Rightarrow> (elf_error, RawSection) result" where
  "shdr_fields class index s =
     (let word = (\<lambda>at. case class of Elf64 \<Rightarrow> u64_at s at | Elf32 \<Rightarrow> u32_at_wide s at);
          off = (\<lambda>wide narrow. case class of Elf64 \<Rightarrow> wide | Elf32 \<Rightarrow> narrow)
      in rbind (u32_at s 0) (\<lambda>name_offset.
         rbind (u32_at s 4) (\<lambda>kind.
         rbind (word 8) (\<lambda>flags.
         rbind (word (off 0x10 0xc)) (\<lambda>address.
         rbind (word (off 0x18 0x10)) (\<lambda>offset.
         rbind (word (off 0x20 0x14)) (\<lambda>size.
         rbind (u32_at s (off 0x28 0x18)) (\<lambda>link.
         rbind (word (off 0x38 0x24)) (\<lambda>table_entsize.
         rbind (word (off 0x30 0x20)) (\<lambda>align.
           Inr \<lparr>raw_index = index, raw_name_offset = name_offset, raw_name = [], raw_kind = kind,
                raw_flags = flags, raw_address = address, raw_offset = offset, raw_size = size,
                raw_align = align, raw_link = link, raw_entsize = table_entsize\<rparr>))))))))))"

definition raw_section :: "bytes \<Rightarrow> usize \<Rightarrow> usize \<Rightarrow> Class \<Rightarrow> (elf_error, RawSection) result" where
  "raw_section bs shoff index class =
     (let entsize = shdr_stride class
      in rbind (ok_or (Option.bind (checked_mul index entsize) (checked_add shoff)) SectionHeaderOverflow) (\<lambda>at.
         rbind (ok_or (checked_add at entsize) SectionHeaderOverflow) (\<lambda>end'.
         rbind (ok_or (get_range bs at end') TruncatedSectionHeader) (\<lambda>s.
         rbind (shdr_fields class (of_nat index) s) (\<lambda>raw.
           ensure (index < 2 ^ 16) SectionIndexOutOfRange (Inr raw))))))"

definition table_bytes :: "bytes \<Rightarrow> RawSection \<Rightarrow> (elf_error, bytes) result" where
  "table_bytes bs header =
     (let start = unat (raw_offset header)
      in rbind (ok_or (checked_add start (unat (raw_size header))) TableBeyondRange) (\<lambda>end'.
           ok_or (get_range bs start end') TruncatedTable))"

section \<open>Symbols\<close>

definition symbol_home :: "u16 \<Rightarrow> Home" where
  "symbol_home shndx =
     (if shndx = SHN_ABS then Absolute else if shndx = SHN_UNDEF then Undefined else InSection shndx)"

definition symbol_binding :: "u8 \<Rightarrow> Binding" where
  "symbol_binding info =
     (let b = drop_bit 4 info
      in if b = 0 then BindLocal else if b = 1 then BindGlobal else if b = 2 then BindWeak else BindOther b)"

text \<open>One iteration of the loop of \<open>read_symbols\<close>, at byte offset \<open>at\<close> of the table.\<close>

definition read_symbol :: "Class \<Rightarrow> bytes \<Rightarrow> bytes \<Rightarrow> usize \<Rightarrow> usize \<Rightarrow> (elf_error, Symbol \<times> usize) result" where
  "read_symbol class bs names at budget =
     rbind (u32_at bs at) (\<lambda>name.
     rbind (ok_or (get_at bs (at + (case class of Elf64 \<Rightarrow> 4 | Elf32 \<Rightarrow> 0xc))) TruncatedSymbol) (\<lambda>info.
     rbind (u16_at bs (at + (case class of Elf64 \<Rightarrow> 6 | Elf32 \<Rightarrow> 0xe))) (\<lambda>shndx.
     rbind (case class of Elf64 \<Rightarrow> u64_at bs (at + 8) | Elf32 \<Rightarrow> u32_at_wide bs (at + 4)) (\<lambda>value.
     rbind (case class of Elf64 \<Rightarrow> u64_at bs (at + 0x10) | Elf32 \<Rightarrow> u32_at_wide bs (at + 8)) (\<lambda>size.
     rbind (name_budget_read budget names (unat name)) (\<lambda>(text, budget').
       Inr (\<lparr>sym_name = text, sym_value = value, sym_size = size, sym_home = symbol_home shndx,
             sym_binding = symbol_binding info\<rparr>, budget')))))))"

fun read_symbol_list ::
  "Class \<Rightarrow> bytes \<Rightarrow> bytes \<Rightarrow> usize \<Rightarrow> usize list \<Rightarrow> usize \<Rightarrow> (elf_error, Symbol list \<times> usize) result" where
  "read_symbol_list class bs names entsize [] budget = Inr ([], budget)"
| "read_symbol_list class bs names entsize (index # rest) budget =
     rbind (read_symbol class bs names (index * entsize) budget) (\<lambda>(sym, budget').
     rbind (read_symbol_list class bs names entsize rest budget') (\<lambda>(syms, budget'').
       Inr (sym # syms, budget'')))"

definition symbol_stride :: "Class \<Rightarrow> usize" where
  "symbol_stride class = (case class of Elf32 \<Rightarrow> 16 | Elf64 \<Rightarrow> 24)"

definition read_symbols ::
  "bytes \<Rightarrow> usize \<Rightarrow> usize \<Rightarrow> Class \<Rightarrow> RawSection \<Rightarrow> usize \<Rightarrow> (elf_error, Symbol list \<times> usize) result" where
  "read_symbols bs shoff shnum class symtab budget =
     ensure (unat (raw_link symtab) < shnum) SymbolStringTableOutOfRange
       (rbind (raw_section bs shoff (unat (raw_link symtab)) class) (\<lambda>strtab.
        ensure (raw_kind strtab = SHT_STRTAB) InvalidSymbolStringTable
          (rbind (table_bytes bs strtab) (\<lambda>names.
           ensure (unat (raw_entsize symtab) = symbol_stride class) UnsupportedSymbolSize
             (rbind (table_bytes bs symtab) (\<lambda>table.
              ensure (length table mod unat (raw_entsize symtab) = 0) PartialSymbolEntry
                (read_symbol_list class table names (unat (raw_entsize symtab))
                   [0..<length table div unat (raw_entsize symtab)] budget)))))))"

section \<open>The reader\<close>

text \<open>The loop over the section headers: names are charged to the budget, the last
  \<open>SHT_SYMTAB\<close> header is kept.\<close>

fun read_section_list ::
  "bytes \<Rightarrow> usize \<Rightarrow> Class \<Rightarrow> bytes \<Rightarrow> usize list \<Rightarrow> usize \<Rightarrow> RawSection option \<Rightarrow>
     (elf_error, Section list \<times> usize \<times> RawSection option) result" where
  "read_section_list bs shoff class names [] budget symtab = Inr ([], budget, symtab)"
| "read_section_list bs shoff class names (index # rest) budget symtab =
     rbind (raw_section bs shoff index class) (\<lambda>raw.
     rbind (name_budget_read budget names (unat (raw_name_offset raw))) (\<lambda>(name, budget').
       (let named = raw\<lparr>raw_name := name\<rparr>;
            symtab' = (if raw_kind named = SHT_SYMTAB then Some named else symtab)
        in rbind (read_section_list bs shoff class names rest budget' symtab') (\<lambda>(sections, r).
             Inr (section_from_raw named # sections, r)))))"

text \<open>The part of \<open>read\<close> before the section table: identity and table location.\<close>

record elf_header =
  hdr_class :: Class
  hdr_kind :: u16
  hdr_machine :: u16
  hdr_flags :: u32
  hdr_shoff :: u64
  hdr_shentsize :: usize
  hdr_shnum :: usize
  hdr_shstrndx :: u16

definition read_class :: "bytes \<Rightarrow> (elf_error, Class) result" where
  "read_class bs =
     (if get_at bs 4 = Some 1 then Inr Elf32
      else if get_at bs 4 = Some 2 then Inr Elf64
      else Inl (UnknownClass (get_at bs 4)))"

definition header_size :: "Class \<Rightarrow> usize" where
  "header_size class = (case class of Elf32 \<Rightarrow> 52 | Elf64 \<Rightarrow> 64)"

definition read_header :: "bytes \<Rightarrow> (elf_error, elf_header) result" where
  "read_header bs =
     ensure (get_range bs 0 4 = Some [0x7f, 0x45, 0x4c, 0x46]) NotElf
      (rbind (read_class bs) (\<lambda>class.
       ensure (get_at bs 5 = Some 1) NotLittleEndian
       (let off = (\<lambda>narrow wide :: usize. case class of Elf32 \<Rightarrow> narrow | Elf64 \<Rightarrow> wide)
        in ensure (header_size class \<le> length bs) TruncatedHeader
           (rbind (u32_at bs 0x14) (\<lambda>version.
            ensure (bs ! 6 = 1 \<and> version = 1) UnsupportedHeaderVersion
            (rbind (u16_at bs (off 0x28 0x34)) (\<lambda>ehsize.
             ensure (unat ehsize = header_size class) UnsupportedHeaderSize
             (rbind (u16_at bs 0x10) (\<lambda>kind.
              rbind (u16_at bs 0x12) (\<lambda>machine.
              rbind (u32_at bs (off 0x24 0x30)) (\<lambda>flags.
              rbind (case class of Elf64 \<Rightarrow> u64_at bs 0x28 | Elf32 \<Rightarrow> u32_at_wide bs 0x20) (\<lambda>shoff.
              rbind (u16_at bs (off 0x2e 0x3a)) (\<lambda>shentsize.
              rbind (u16_at bs (off 0x30 0x3c)) (\<lambda>shnum.
              rbind (u16_at bs (off 0x32 0x3e)) (\<lambda>shstrndx.
                Inr \<lparr>hdr_class = class, hdr_kind = kind, hdr_machine = machine, hdr_flags = flags,
                     hdr_shoff = shoff, hdr_shentsize = unat shentsize, hdr_shnum = unat shnum,
                     hdr_shstrndx = shstrndx\<rparr>)))))))))))))))"

definition object_of :: "bytes \<Rightarrow> elf_header \<Rightarrow> Section list \<Rightarrow> Symbol list \<Rightarrow> Object" where
  "object_of bs h sections symbols =
     \<lparr>obj_class = hdr_class h, obj_kind = hdr_kind h, obj_machine = hdr_machine h,
      obj_flags = hdr_flags h, obj_os_abi = bs ! 7, obj_abi_version = bs ! 8,
      obj_sections = sections, obj_symbols = symbols\<rparr>"

text \<open>
  The rest of \<open>read\<close> when there is a section table: a file with 0xff00 sections or more
  keeps the real count and the real name-table index in section 0.
\<close>

definition section_count :: "elf_header \<Rightarrow> RawSection \<Rightarrow> usize" where
  "section_count h first = (if hdr_shnum h = 0 then unat (raw_size first) else hdr_shnum h)"

definition name_table_index :: "elf_header \<Rightarrow> RawSection \<Rightarrow> usize" where
  "name_table_index h first =
     (if hdr_shstrndx h = SHN_XINDEX then unat (raw_link first) else unat (hdr_shstrndx h))"

definition name_table :: "bytes \<Rightarrow> usize \<Rightarrow> usize \<Rightarrow> Class \<Rightarrow> (elf_error, bytes) result" where
  "name_table bs shoff shstrndx class =
     (if shstrndx = 0 then Inr []
      else rbind (raw_section bs shoff shstrndx class) (\<lambda>names_header.
             ensure (raw_kind names_header = SHT_STRTAB) InvalidNameTableType
               (table_bytes bs names_header)))"

definition optional_symbols ::
  "bytes \<Rightarrow> usize \<Rightarrow> usize \<Rightarrow> Class \<Rightarrow> RawSection option \<Rightarrow> usize \<Rightarrow> (elf_error, Symbol list \<times> usize) result" where
  "optional_symbols bs shoff shnum class symtab budget =
     (case symtab of
        Some header \<Rightarrow> read_symbols bs shoff shnum class header budget
      | None \<Rightarrow> Inr ([], budget))"

definition read_tables :: "bytes \<Rightarrow> elf_header \<Rightarrow> (elf_error, Object) result" where
  "read_tables bs h =
     (let class = hdr_class h; shoff = unat (hdr_shoff h)
      in rbind (raw_section bs shoff 0 class) (\<lambda>first.
         (let shnum = section_count h first; shstrndx = name_table_index h first
          in ensure (shnum \<le> 65535 + 1) UnsupportedSectionCount
             (rbind (ok_or (Option.bind (checked_mul shnum (hdr_shentsize h)) (checked_add shoff))
                       SectionTableOverflow) (\<lambda>table_end.
              ensure (table_end \<le> length bs) TruncatedSectionTable
              (ensure (shstrndx < shnum) (NameTableIndexOutOfRange shstrndx)
               (rbind (name_table bs shoff shstrndx class) (\<lambda>names.
                rbind (read_section_list bs shoff class names [0..<shnum]
                         (name_budget_new (length bs)) None) (\<lambda>(sections, budget, symtab).
                rbind (optional_symbols bs shoff shnum class symtab budget) (\<lambda>(symbols, _).
                  Inr (object_of bs h sections symbols)))))))))))"

definition elf_read :: "bytes \<Rightarrow> (elf_error, Object) result" where
  "elf_read bs =
     rbind (read_header bs) (\<lambda>h.
       if hdr_shoff h = 0
       then ensure ((hdr_shentsize h = 0 \<or> hdr_shentsize h = shdr_stride (hdr_class h)) \<and>
                    hdr_shnum h = 0 \<and> hdr_shstrndx h = 0) InconsistentAbsentTable
              (Inr (object_of bs h [] []))
       else ensure (hdr_shentsize h = shdr_stride (hdr_class h)) (UnsupportedStride (hdr_shentsize h))
             (ensure (hdr_shnum h < unat SHN_LORESERVE \<and>
                      (hdr_shstrndx h < SHN_LORESERVE \<or> hdr_shstrndx h = SHN_XINDEX)) ReservedIndices
               (read_tables bs h)))"

section \<open>What the reads return\<close>

lemma u16_at_eq_Inr:
  "u16_at bs at = Inr w \<longleftrightarrow> at + 2 \<le> length bs \<and> w = u16_from_le (take 2 (drop at bs))"
  by (auto simp: u16_at_def rbind_eq_Inr get_range_eq_Some)

lemma u32_at_eq_Inr:
  "u32_at bs at = Inr w \<longleftrightarrow> at + 4 \<le> length bs \<and> w = u32_from_le (take 4 (drop at bs))"
  by (auto simp: u32_at_def rbind_eq_Inr get_range_eq_Some)

lemma u64_at_eq_Inr:
  "u64_at bs at = Inr w \<longleftrightarrow> at + 8 \<le> length bs \<and> w = u64_from_le (take 8 (drop at bs))"
  by (auto simp: u64_at_def rbind_eq_Inr get_range_eq_Some)

lemmas elf_reads = u16_at_eq_Inr u32_at_eq_Inr u64_at_eq_Inr

lemma raw_section_eq_Inr:
  "raw_section bs shoff index class = Inr raw \<longleftrightarrow>
     index < 2 ^ 16 \<and> shoff + index * shdr_stride class + shdr_stride class < usize_limit \<and>
     shoff + index * shdr_stride class + shdr_stride class \<le> length bs \<and>
     shdr_fields class (of_nat index) (take (shdr_stride class) (drop (shoff + index * shdr_stride class) bs)) = Inr raw"
  by (auto simp: raw_section_def Let_def rbind_eq_Inr get_range_eq_Some bind_eq_Some_conv)

lemma shdr_fields_index: "shdr_fields class index s = Inr raw \<Longrightarrow> raw_index raw = index"
  by (auto simp: shdr_fields_def Let_def rbind_eq_Inr)

text \<open>A complete header entry always decodes: no field lies outside it.\<close>

lemma shdr_fields_total:
  "length s = shdr_stride class \<Longrightarrow> \<exists>raw. shdr_fields class index s = Inr raw"
  by (cases "class")
    (simp_all add: shdr_fields_def shdr_stride_def u32_at_wide_def u32_at_def u64_at_def get_range_def)

lemma name_budget_read_spends:
  "name_budget_read budget table at = Inr (name, budget') \<Longrightarrow> length name + budget' = budget"
  by (auto simp: name_budget_read_def Let_def rbind_eq_Inr split: if_splits)

lemma read_section_list_budget:
  "read_section_list bs shoff class names idx budget symtab = Inr (secs, budget', r) \<Longrightarrow>
     (\<Sum>s\<leftarrow>secs. length (sec_name s)) + budget' = budget"
proof (induction idx arbitrary: budget symtab secs)
  case (Cons i idx)
  then show ?case
    by (fastforce simp: Let_def rbind_eq_Inr section_from_raw_def dest: name_budget_read_spends)
qed simp

lemma read_symbol_list_budget:
  "read_symbol_list class bs names entsize idx budget = Inr (syms, budget') \<Longrightarrow>
     (\<Sum>s\<leftarrow>syms. length (sym_name s)) + budget' = budget"
proof (induction idx arbitrary: budget syms)
  case (Cons i idx)
  then show ?case
    by (fastforce simp: read_symbol_def rbind_eq_Inr dest: name_budget_read_spends)
qed simp

lemma read_symbol_list_length:
  "read_symbol_list class bs names entsize idx budget = Inr (syms, budget') \<Longrightarrow> length syms = length idx"
proof (induction idx arbitrary: budget syms)
  case (Cons i idx)
  then show ?case by (fastforce simp: rbind_eq_Inr)
qed simp

lemma read_symbols_budget:
  "read_symbols bs shoff shnum class symtab budget = Inr (syms, budget') \<Longrightarrow>
     (\<Sum>s\<leftarrow>syms. length (sym_name s)) + budget' = budget"
  by (auto simp: read_symbols_def rbind_eq_Inr split: if_splits dest: read_symbol_list_budget)

text \<open>The successful runs of \<open>elf_read\<close>, opened once.\<close>

lemma read_tables_eq_Inr:
  assumes "read_tables bs h = Inr ob"
  obtains first names secs budget symtab syms rest where
    "raw_section bs (unat (hdr_shoff h)) 0 (hdr_class h) = Inr first"
    "section_count h first \<le> 65536" "name_table_index h first < section_count h first"
    "unat (hdr_shoff h) + section_count h first * hdr_shentsize h \<le> length bs"
    "name_table bs (unat (hdr_shoff h)) (name_table_index h first) (hdr_class h) = Inr names"
    "read_section_list bs (unat (hdr_shoff h)) (hdr_class h) names [0..<section_count h first]
       (name_budget_new (length bs)) None = Inr (secs, budget, symtab)"
    "optional_symbols bs (unat (hdr_shoff h)) (section_count h first) (hdr_class h) symtab budget = Inr (syms, rest)"
    "ob = object_of bs h secs syms"
  using assms unfolding read_tables_def Let_def
  by (auto simp: rbind_eq_Inr ensure_eq_Inr bind_eq_Some_conv simp del: upt.simps)

lemma optional_symbols_budget:
  "optional_symbols bs shoff shnum class symtab budget = Inr (syms, budget') \<Longrightarrow>
     (\<Sum>s\<leftarrow>syms. length (sym_name s)) + budget' = budget"
  by (auto simp: optional_symbols_def split: option.splits dest: read_symbols_budget)

lemma elf_read_cases:
  assumes "elf_read bs = Inr ob"
  obtains (absent) h where "read_header bs = Inr h" "hdr_shoff h = 0" "ob = object_of bs h [] []"
  | (tables) h where "read_header bs = Inr h" "hdr_shoff h \<noteq> 0"
      "hdr_shentsize h = shdr_stride (hdr_class h)" "read_tables bs h = Inr ob"
proof -
  obtain h where h: "read_header bs = Inr h"
    using assms by (auto simp: elf_read_def rbind_eq_Inr)
  show thesis
  proof (cases "hdr_shoff h = 0")
    case True
    with h assms show thesis by (intro absent [of h]) (auto simp: elf_read_def split: if_splits)
  next
    case False
    with h assms show thesis by (intro tables [of h]) (auto simp: elf_read_def split: if_splits)
  qed
qed

section \<open>The section table of the ELF specification\<close>

text \<open>
  The structures of the ELF specification, as the order and width of their members: the file
  header and the section header of each class. Offsets are sums of widths.
\<close>

definition elf_ehdr :: "Class \<Rightarrow> (string \<times> nat) list" where
  "elf_ehdr class =
     (let addr = (case class of Elf32 \<Rightarrow> 4 | Elf64 \<Rightarrow> 8)
      in [(''e_ident'', 16), (''e_type'', 2), (''e_machine'', 2), (''e_version'', 4), (''e_entry'', addr),
          (''e_phoff'', addr), (''e_shoff'', addr), (''e_flags'', 4), (''e_ehsize'', 2), (''e_phentsize'', 2),
          (''e_phnum'', 2), (''e_shentsize'', 2), (''e_shnum'', 2), (''e_shstrndx'', 2)])"

definition elf_shdr :: "Class \<Rightarrow> (string \<times> nat) list" where
  "elf_shdr class =
     (let addr = (case class of Elf32 \<Rightarrow> 4 | Elf64 \<Rightarrow> 8)
      in [(''sh_name'', 4), (''sh_type'', 4), (''sh_flags'', addr), (''sh_addr'', addr), (''sh_offset'', addr),
          (''sh_size'', addr), (''sh_link'', 4), (''sh_info'', 4), (''sh_addralign'', addr), (''sh_entsize'', addr)])"

definition struct_size :: "(string \<times> nat) list \<Rightarrow> nat" where
  "struct_size layout = (\<Sum>(_, width)\<leftarrow>layout. width)"

text \<open>The little-endian number a member holds in the structure that begins at byte \<open>base\<close>.\<close>

definition struct_member :: "(string \<times> nat) list \<Rightarrow> nat \<Rightarrow> bytes \<Rightarrow> string \<Rightarrow> nat" where
  "struct_member layout base bs member =
     le_nat (take (the (map_of layout member))
       (drop (base + struct_size (takeWhile (\<lambda>(m, _). m \<noteq> member) layout)) bs))"

definition ehdr_member :: "Class \<Rightarrow> bytes \<Rightarrow> string \<Rightarrow> nat" where
  "ehdr_member class bs = struct_member (elf_ehdr class) 0 bs"

definition shdr_member :: "Class \<Rightarrow> bytes \<Rightarrow> nat \<Rightarrow> string \<Rightarrow> nat" where
  "shdr_member class bs i =
     struct_member (elf_shdr class) (ehdr_member class bs ''e_shoff'' + i * struct_size (elf_shdr class)) bs"

text \<open>
  How many sections the file has, which of them holds the section names, and the bytes of that
  table: section 0 holds the count and the index where the header's fields are too narrow.
\<close>

definition elf_section_count :: "Class \<Rightarrow> bytes \<Rightarrow> nat" where
  "elf_section_count class bs =
     (if ehdr_member class bs ''e_shoff'' = 0 then 0
      else if ehdr_member class bs ''e_shnum'' = 0 then shdr_member class bs 0 ''sh_size''
      else ehdr_member class bs ''e_shnum'')"

definition elf_name_section :: "Class \<Rightarrow> bytes \<Rightarrow> nat" where
  "elf_name_section class bs =
     (if ehdr_member class bs ''e_shstrndx'' = 0xffff then shdr_member class bs 0 ''sh_link''
      else ehdr_member class bs ''e_shstrndx'')"

definition elf_name_bytes :: "Class \<Rightarrow> bytes \<Rightarrow> bytes" where
  "elf_name_bytes class bs =
     (let i = elf_name_section class bs
      in if i = 0 then []
         else take (shdr_member class bs i ''sh_size'') (drop (shdr_member class bs i ''sh_offset'') bs))"

text \<open>
  A name at an offset of a string table: the bytes there up to a NUL that the table holds,
  replaced where they are not UTF-8. The empty table has one name, the empty one.
\<close>

definition string_at :: "bytes \<Rightarrow> nat \<Rightarrow> rstring \<Rightarrow> bool" where
  "string_at table at name \<longleftrightarrow>
     (if table = [] then at = 0 \<and> name = []
      else \<exists>pre raw rest. table = pre @ raw @ 0 # rest \<and> length pre = at \<and> 0 \<notin> set raw \<and>
        name = from_utf8_lossy raw)"

text \<open>Section \<open>i\<close> of the object is section header \<open>i\<close> of the file.\<close>

definition section_agrees :: "Class \<Rightarrow> bytes \<Rightarrow> nat \<Rightarrow> Section \<Rightarrow> bool" where
  "section_agrees class bs i s \<longleftrightarrow>
     unat (sec_index s) = i \<and>
     string_at (elf_name_bytes class bs) (shdr_member class bs i ''sh_name'') (sec_name s) \<and>
     unat (sec_kind s) = shdr_member class bs i ''sh_type'' \<and>
     unat (sec_flags s) = shdr_member class bs i ''sh_flags'' \<and>
     unat (sec_address s) = shdr_member class bs i ''sh_addr'' \<and>
     unat (sec_offset s) = shdr_member class bs i ''sh_offset'' \<and>
     unat (sec_size s) = shdr_member class bs i ''sh_size'' \<and>
     unat (sec_align s) = shdr_member class bs i ''sh_addralign'' \<and>
     unat (sec_link s) = shdr_member class bs i ''sh_link'' \<and>
     unat (sec_entsize s) = shdr_member class bs i ''sh_entsize''"

lemmas elf_layouts = ehdr_member_def shdr_member_def struct_member_def struct_size_def elf_ehdr_def elf_shdr_def

lemma unat_from_le_take:
  "unat (u16_from_le (take 2 xs)) = le_nat (take 2 xs)"
  "unat (u32_from_le (take 4 xs)) = le_nat (take 4 xs)"
  "unat (u64_from_le (take 8 xs)) = le_nat (take 8 xs)"
  "unat (ucast (u32_from_le (take 4 xs)) :: u64) = le_nat (take 4 xs)"
proof -
  have b: "le_nat (take n xs) < 256 ^ n" for n
  proof -
    have "le_nat (take n xs) < 256 ^ length (take n xs)" by (rule le_nat_bound)
    also have "... \<le> 256 ^ n" by (rule power_increasing) simp_all
    finally show ?thesis .
  qed
  show "unat (u16_from_le (take 2 xs)) = le_nat (take 2 xs)"
    using b [of 2] by (simp add: u16_from_le_def unat_of_nat)
  show *: "unat (u32_from_le (take 4 xs)) = le_nat (take 4 xs)"
    using b [of 4] by (simp add: u32_from_le_def unat_of_nat)
  show "unat (u64_from_le (take 8 xs)) = le_nat (take 8 xs)"
    using b [of 8] by (simp add: u64_from_le_def unat_of_nat)
  show "unat (ucast (u32_from_le (take 4 xs)) :: u64) = le_nat (take 4 xs)"
    using * b [of 4] by (simp add: unsigned_ucast_eq take_bit_nat_eq_self)
qed

lemma take_drop_slice: "m + n \<le> k \<Longrightarrow> take n (drop m (take k xs)) = take n (drop m xs)"
  by (simp add: drop_take min_def)

lemma shdr_members32:
  "struct_member (elf_shdr Elf32) base bs ''sh_name'' = le_nat (take 4 (drop (base + 0) bs))"
  "struct_member (elf_shdr Elf32) base bs ''sh_type'' = le_nat (take 4 (drop (base + 4) bs))"
  "struct_member (elf_shdr Elf32) base bs ''sh_flags'' = le_nat (take 4 (drop (base + 8) bs))"
  "struct_member (elf_shdr Elf32) base bs ''sh_addr'' = le_nat (take 4 (drop (base + 12) bs))"
  "struct_member (elf_shdr Elf32) base bs ''sh_offset'' = le_nat (take 4 (drop (base + 16) bs))"
  "struct_member (elf_shdr Elf32) base bs ''sh_size'' = le_nat (take 4 (drop (base + 20) bs))"
  "struct_member (elf_shdr Elf32) base bs ''sh_link'' = le_nat (take 4 (drop (base + 24) bs))"
  "struct_member (elf_shdr Elf32) base bs ''sh_addralign'' = le_nat (take 4 (drop (base + 32) bs))"
  "struct_member (elf_shdr Elf32) base bs ''sh_entsize'' = le_nat (take 4 (drop (base + 36) bs))"
  by (simp_all add: struct_member_def struct_size_def elf_shdr_def)

lemma shdr_members64:
  "struct_member (elf_shdr Elf64) base bs ''sh_name'' = le_nat (take 4 (drop (base + 0) bs))"
  "struct_member (elf_shdr Elf64) base bs ''sh_type'' = le_nat (take 4 (drop (base + 4) bs))"
  "struct_member (elf_shdr Elf64) base bs ''sh_flags'' = le_nat (take 8 (drop (base + 8) bs))"
  "struct_member (elf_shdr Elf64) base bs ''sh_addr'' = le_nat (take 8 (drop (base + 16) bs))"
  "struct_member (elf_shdr Elf64) base bs ''sh_offset'' = le_nat (take 8 (drop (base + 24) bs))"
  "struct_member (elf_shdr Elf64) base bs ''sh_size'' = le_nat (take 8 (drop (base + 32) bs))"
  "struct_member (elf_shdr Elf64) base bs ''sh_link'' = le_nat (take 4 (drop (base + 40) bs))"
  "struct_member (elf_shdr Elf64) base bs ''sh_addralign'' = le_nat (take 8 (drop (base + 48) bs))"
  "struct_member (elf_shdr Elf64) base bs ''sh_entsize'' = le_nat (take 8 (drop (base + 56) bs))"
  by (simp_all add: struct_member_def struct_size_def elf_shdr_def)

lemma ehdr_members32:
  "ehdr_member Elf32 bs ''e_shoff'' = le_nat (take 4 (drop 32 bs))"
  "ehdr_member Elf32 bs ''e_shentsize'' = le_nat (take 2 (drop 46 bs))"
  "ehdr_member Elf32 bs ''e_shnum'' = le_nat (take 2 (drop 48 bs))"
  "ehdr_member Elf32 bs ''e_shstrndx'' = le_nat (take 2 (drop 50 bs))"
  by (simp_all add: ehdr_member_def struct_member_def struct_size_def elf_ehdr_def)

lemma ehdr_members64:
  "ehdr_member Elf64 bs ''e_shoff'' = le_nat (take 8 (drop 40 bs))"
  "ehdr_member Elf64 bs ''e_shentsize'' = le_nat (take 2 (drop 58 bs))"
  "ehdr_member Elf64 bs ''e_shnum'' = le_nat (take 2 (drop 60 bs))"
  "ehdr_member Elf64 bs ''e_shstrndx'' = le_nat (take 2 (drop 62 bs))"
  by (simp_all add: ehdr_member_def struct_member_def struct_size_def elf_ehdr_def)

lemma slice_u32:
  "u32_at (take k (drop base bs)) m = Inr w \<Longrightarrow> m + 4 \<le> k \<Longrightarrow> unat w = le_nat (take 4 (drop (base + m) bs))"
  by (auto simp: elf_reads take_drop_slice unat_from_le_take add.commute)

lemma slice_u64:
  "u64_at (take k (drop base bs)) m = Inr v \<Longrightarrow> m + 8 \<le> k \<Longrightarrow> unat v = le_nat (take 8 (drop (base + m) bs))"
  by (auto simp: elf_reads take_drop_slice unat_from_le_take add.commute)

lemma slice_wide:
  "u32_at_wide (take k (drop base bs)) m = Inr v \<Longrightarrow> m + 4 \<le> k \<Longrightarrow> unat v = le_nat (take 4 (drop (base + m) bs))"
  by (auto simp: elf_reads u32_at_wide_def rbind_eq_Inr take_drop_slice unat_from_le_take add.commute)

lemma shdr_fields_reads32:
  assumes "shdr_fields Elf32 index s = Inr raw"
  shows "u32_at s 0 = Inr (raw_name_offset raw)" "u32_at s 4 = Inr (raw_kind raw)"
    "u32_at_wide s 8 = Inr (raw_flags raw)" "u32_at_wide s 12 = Inr (raw_address raw)"
    "u32_at_wide s 16 = Inr (raw_offset raw)" "u32_at_wide s 20 = Inr (raw_size raw)"
    "u32_at s 24 = Inr (raw_link raw)" "u32_at_wide s 32 = Inr (raw_align raw)"
    "u32_at_wide s 36 = Inr (raw_entsize raw)"
  using assms by (auto simp: shdr_fields_def Let_def rbind_eq_Inr)

lemma shdr_fields_reads64:
  assumes "shdr_fields Elf64 index s = Inr raw"
  shows "u32_at s 0 = Inr (raw_name_offset raw)" "u32_at s 4 = Inr (raw_kind raw)"
    "u64_at s 8 = Inr (raw_flags raw)" "u64_at s 16 = Inr (raw_address raw)"
    "u64_at s 24 = Inr (raw_offset raw)" "u64_at s 32 = Inr (raw_size raw)"
    "u32_at s 40 = Inr (raw_link raw)" "u64_at s 48 = Inr (raw_align raw)"
    "u64_at s 56 = Inr (raw_entsize raw)"
  using assms by (auto simp: shdr_fields_def Let_def rbind_eq_Inr)

lemma shdr_fields_members:
  assumes "shdr_fields class index (take (shdr_stride class) (drop base bs)) = Inr raw"
  shows "unat (raw_name_offset raw) = struct_member (elf_shdr class) base bs ''sh_name'' \<and>
    unat (raw_kind raw) = struct_member (elf_shdr class) base bs ''sh_type'' \<and>
    unat (raw_flags raw) = struct_member (elf_shdr class) base bs ''sh_flags'' \<and>
    unat (raw_address raw) = struct_member (elf_shdr class) base bs ''sh_addr'' \<and>
    unat (raw_offset raw) = struct_member (elf_shdr class) base bs ''sh_offset'' \<and>
    unat (raw_size raw) = struct_member (elf_shdr class) base bs ''sh_size'' \<and>
    unat (raw_align raw) = struct_member (elf_shdr class) base bs ''sh_addralign'' \<and>
    unat (raw_link raw) = struct_member (elf_shdr class) base bs ''sh_link'' \<and>
    unat (raw_entsize raw) = struct_member (elf_shdr class) base bs ''sh_entsize''"
proof (cases "class")
  case Elf32
  with assms have "shdr_fields Elf32 index (take 40 (drop base bs)) = Inr raw" by (simp add: shdr_stride_def)
  note reads = shdr_fields_reads32 [OF this]
  show ?thesis
    unfolding Elf32 shdr_members32
    by (intro conjI)
      (rule slice_u32 [OF reads(1)] slice_u32 [OF reads(2)] slice_wide [OF reads(3)] slice_wide [OF reads(4)]
        slice_wide [OF reads(5)] slice_wide [OF reads(6)] slice_u32 [OF reads(7)] slice_wide [OF reads(8)]
        slice_wide [OF reads(9)], simp)+
next
  case Elf64
  with assms have "shdr_fields Elf64 index (take 64 (drop base bs)) = Inr raw" by (simp add: shdr_stride_def)
  note reads = shdr_fields_reads64 [OF this]
  show ?thesis
    unfolding Elf64 shdr_members64
    by (intro conjI)
      (rule slice_u32 [OF reads(1)] slice_u32 [OF reads(2)] slice_u64 [OF reads(3)] slice_u64 [OF reads(4)]
        slice_u64 [OF reads(5)] slice_u64 [OF reads(6)] slice_u32 [OF reads(7)] slice_u64 [OF reads(8)]
        slice_u64 [OF reads(9)], simp)+
qed


lemma raw_section_members:
  assumes raw: "raw_section bs shoff i class = Inr raw" and off: "shoff = ehdr_member class bs ''e_shoff''"
  shows "unat (raw_index raw) = i" "unat (raw_name_offset raw) = shdr_member class bs i ''sh_name''"
    "unat (raw_kind raw) = shdr_member class bs i ''sh_type''"
    "unat (raw_flags raw) = shdr_member class bs i ''sh_flags''"
    "unat (raw_address raw) = shdr_member class bs i ''sh_addr''"
    "unat (raw_offset raw) = shdr_member class bs i ''sh_offset''"
    "unat (raw_size raw) = shdr_member class bs i ''sh_size''"
    "unat (raw_align raw) = shdr_member class bs i ''sh_addralign''"
    "unat (raw_link raw) = shdr_member class bs i ''sh_link''"
    "unat (raw_entsize raw) = shdr_member class bs i ''sh_entsize''"
proof -
  have i: "i < 2 ^ 16" and f: "shdr_fields class (of_nat i)
      (take (shdr_stride class) (drop (shoff + i * shdr_stride class) bs)) = Inr raw"
    using raw by (auto simp: raw_section_eq_Inr)
  then show "unat (raw_index raw) = i" by (simp add: shdr_fields_index [OF f] unat_of_nat)
  have "struct_size (elf_shdr class) = shdr_stride class"
    by (simp add: struct_size_def elf_shdr_def shdr_stride_def split: Class.splits)
  then show "unat (raw_name_offset raw) = shdr_member class bs i ''sh_name''"
    "unat (raw_kind raw) = shdr_member class bs i ''sh_type''"
    "unat (raw_flags raw) = shdr_member class bs i ''sh_flags''"
    "unat (raw_address raw) = shdr_member class bs i ''sh_addr''"
    "unat (raw_offset raw) = shdr_member class bs i ''sh_offset''"
    "unat (raw_size raw) = shdr_member class bs i ''sh_size''"
    "unat (raw_align raw) = shdr_member class bs i ''sh_addralign''"
    "unat (raw_link raw) = shdr_member class bs i ''sh_link''"
    "unat (raw_entsize raw) = shdr_member class bs i ''sh_entsize''"
    using shdr_fields_members [OF f] by (simp_all add: shdr_member_def off)
qed

lemma read_header_members:
  assumes "read_header bs = Inr h"
  shows "unat (hdr_shoff h) = ehdr_member (hdr_class h) bs ''e_shoff''"
    "hdr_shentsize h = ehdr_member (hdr_class h) bs ''e_shentsize''"
    "hdr_shnum h = ehdr_member (hdr_class h) bs ''e_shnum''"
    "unat (hdr_shstrndx h) = ehdr_member (hdr_class h) bs ''e_shstrndx''"
  using assms
  by (auto simp: read_header_def Let_def rbind_eq_Inr ensure_eq_Inr elf_reads u32_at_wide_def
      unat_from_le_take ehdr_members32 ehdr_members64 split: Class.splits)
    (metis Class.exhaust)+

lemma position_split:
  "position (\<lambda>b. b = c) xs = Some n \<Longrightarrow> \<exists>rest. xs = take n xs @ c # rest \<and> c \<notin> set (take n xs)"
proof (induction xs arbitrary: n)
  case (Cons x xs)
  then show ?case by (cases "x = c") auto
qed simp

lemma name_budget_read_string:
  assumes "name_budget_read budget table at = Inr (name, budget')"
  shows "string_at table at name"
proof (cases "table = []")
  case True
  with assms show ?thesis by (auto simp: name_budget_read_def string_at_def rbind_eq_Inr Let_def get_from_def split: if_splits)
next
  case False
  with assms obtain rest n where r: "get_from table at = Some rest" "position (\<lambda>b. b = 0) rest = Some n"
    "name = from_utf8_lossy (take n rest)"
    by (auto simp: name_budget_read_def rbind_eq_Inr Let_def ensure_eq_Inr)
  obtain rest' where "rest = take n rest @ 0 # rest'" "0 \<notin> set (take n rest)"
    using position_split [OF r(2)] by blast
  moreover have "table = take at table @ rest" "length (take at table) = at"
    using r(1) by (auto simp: get_from_def split: if_splits)
  ultimately have "table = take at table @ take n rest @ 0 # rest' \<and> length (take at table) = at \<and>
      0 \<notin> set (take n rest) \<and> name = from_utf8_lossy (take n rest)"
    using r(3) by metis
  with False show ?thesis unfolding string_at_def by metis
qed

lemma read_section_list_agrees:
  assumes "read_section_list bs shoff class names idx budget symtab = Inr (secs, r)"
    and "shoff = ehdr_member class bs ''e_shoff''" and "names = elf_name_bytes class bs"
  shows "list_all2 (section_agrees class bs) idx secs"
  using assms(1)
proof (induction idx arbitrary: budget symtab secs)
  case (Cons i idx)
  then obtain raw name budget' symtab' secs' where raw: "raw_section bs shoff i class = Inr raw"
    and name: "name_budget_read budget names (unat (raw_name_offset raw)) = Inr (name, budget')"
    and rest: "read_section_list bs shoff class names idx budget' symtab' = Inr (secs', r)"
    and secs: "secs = section_from_raw (raw\<lparr>raw_name := name\<rparr>) # secs'"
    by (fastforce simp: Let_def rbind_eq_Inr)
  have "section_agrees class bs i (section_from_raw (raw\<lparr>raw_name := name\<rparr>))"
    using raw_section_members [OF raw assms(2)] name_budget_read_string [OF name] assms(3)
    by (simp add: section_agrees_def section_from_raw_def)
  with Cons.IH [OF rest] secs show ?case by simp
qed simp

section \<open>Properties\<close>

text \<open>
  A small well-formed object: a 32-bit RISC-V relocatable with a name table and one attribute
  section, laid out as the reader's own tests lay it out.
\<close>

definition sample_object :: bytes where
  "sample_object =
    [127, 69, 76, 70, 1, 1, 1, 15, 1, 0, 0, 0, 0, 0, 0, 0, 1, 0, 243, 0, 1, 0, 0, 0,
     0, 0, 0, 0, 0, 0, 0, 0, 52, 0, 0, 0, 0, 0, 0, 0, 52, 0, 0, 0, 0, 0, 40, 0,
     3, 0, 1, 0, 0, 0, 0, 0, 0, 0, 0, 0, 0, 0, 0, 0, 0, 0, 0, 0, 0, 0, 0, 0,
     0, 0, 0, 0, 0, 0, 0, 0, 0, 0, 0, 0, 0, 0, 0, 0, 0, 0, 0, 0, 1, 0, 0, 0,
     3, 0, 0, 0, 0, 0, 0, 0, 0, 0, 0, 0, 172, 0, 0, 0, 29, 0, 0, 0, 0, 0, 0, 0,
     0, 0, 0, 0, 0, 0, 0, 0, 0, 0, 0, 0, 11, 0, 0, 0, 3, 0, 0, 112, 0, 0, 0, 0,
     0, 0, 0, 0, 201, 0, 0, 0, 28, 0, 0, 0, 0, 0, 0, 0, 0, 0, 0, 0, 0, 0, 0, 0,
     0, 0, 0, 0, 0, 46, 115, 104, 115, 116, 114, 116, 97, 98, 0, 46, 114, 105, 115, 99, 118, 46, 97, 116,
     116, 114, 105, 98, 117, 116, 101, 115, 0, 65, 27, 0, 0, 0, 114, 105, 115, 99, 118, 0, 1, 17, 0, 0,
     0, 4, 16, 5, 114, 118, 51, 50, 105, 50, 112, 49, 0]"

definition sample_sections :: "(rstring \<times> u32 \<times> u64 \<times> u64) list" where
  "sample_sections =
     [([], 0, 0, 0), (ascii ''.shstrtab'', 3, 172, 29), (ascii ''.riscv.attributes'', 0x70000003, 201, 28)]"

lemma sample_object_reads:
  "\<exists>ob. elf_read sample_object = Inr ob \<and> length (obj_sections ob) = 3 \<and> obj_class ob = Elf32 \<and>
     obj_machine ob = 243 \<and> obj_kind ob = 1 \<and> obj_flags ob = 0 \<and> obj_os_abi ob = 15 \<and> obj_abi_version ob = 1 \<and>
     map (\<lambda>s. (sec_name s, sec_kind s, sec_offset s, sec_size s)) (obj_sections ob) = sample_sections"
proof -
  have "(case elf_read sample_object of Inl _ \<Rightarrow> False | Inr ob \<Rightarrow> length (obj_sections ob) = 3 \<and> obj_class ob = Elf32 \<and>
     obj_machine ob = 243 \<and> obj_kind ob = 1 \<and> obj_flags ob = 0 \<and> obj_os_abi ob = 15 \<and> obj_abi_version ob = 1 \<and>
     map (\<lambda>s. (sec_name s, sec_kind s, sec_offset s, sec_size s)) (obj_sections ob) = sample_sections)"
    by code_simp
  then show ?thesis by (auto split: sum.splits)
qed

text \<open>
  C5. Copied names are bounded: in every object the reader returns, the bytes of all section
  and symbol names together are at most four times the file size and at most 64 MiB, however
  the string-table offsets overlap.
\<close>

theorem elf_names_bounded:
  assumes "elf_read bs = Inr ob"
  shows "(\<Sum>s\<leftarrow>obj_sections ob. length (sec_name s)) + (\<Sum>s\<leftarrow>obj_symbols ob. length (sym_name s))
     \<le> min (4 * length bs) (64 * 1024 * 1024)"
  using assms
proof (cases rule: elf_read_cases)
  case (absent h)
  then show ?thesis by (simp add: object_of_def)
next
  case (tables h)
  from tables(4) show ?thesis
  proof (cases rule: read_tables_eq_Inr)
    case (1 first names secs budget symtab syms rest)
    have "(\<Sum>s\<leftarrow>secs. length (sec_name s)) + (\<Sum>s\<leftarrow>syms. length (sym_name s)) \<le> name_budget_new (length bs)"
      using read_section_list_budget [OF 1(6)] optional_symbols_budget [OF 1(7)] by linarith
    then show ?thesis using 1(8) by (simp add: object_of_def name_budget_new_def)
  qed
qed

theorem elf_names_bounded_witness:
  "\<exists>ob. elf_read sample_object = Inr ob \<and> length (obj_sections ob) = 3 \<and>
     (\<Sum>s\<leftarrow>obj_sections ob. length (sec_name s)) + (\<Sum>s\<leftarrow>obj_symbols ob. length (sym_name s))
       \<le> min (4 * length sample_object) (64 * 1024 * 1024)"
proof -
  obtain ob where ob: "elf_read sample_object = Inr ob" and n: "length (obj_sections ob) = 3"
    using sample_object_reads by blast
  show ?thesis using elf_names_bounded [OF ob] ob n by blast
qed

text \<open>
  C6. The section list is the section table the file header points to. With the members of the
  header and of the section headers read as the structures of the ELF specification lay them
  out, a returned object has exactly as many sections as the file declares (by \<open>e_shnum\<close>, or by
  section 0 where that is zero, and none without a table), at most 65536, and the whole table
  lies inside the file; the section of names is the one \<open>e_shstrndx\<close> (or section 0 in its place)
  designates, a string table inside the file; and section \<open>i\<close> carries index \<open>i\<close>, the value of
  every member of header \<open>i\<close>, and the NUL-terminated name that \<open>sh_name\<close> designates in that
  table.
\<close>

theorem elf_sections_from_table:
  assumes "elf_read bs = Inr ob"
  shows "let class = obj_class ob; n = elf_section_count class bs; x = elf_name_section class bs
    in length (obj_sections ob) = n \<and> n \<le> 65536 \<and>
      (0 < n \<longrightarrow> ehdr_member class bs ''e_shentsize'' = struct_size (elf_shdr class) \<and>
         ehdr_member class bs ''e_shoff'' + n * struct_size (elf_shdr class) \<le> length bs \<and> x < n) \<and>
      (0 < x \<longrightarrow> shdr_member class bs x ''sh_type'' = 3 \<and>
         shdr_member class bs x ''sh_offset'' + shdr_member class bs x ''sh_size'' \<le> length bs) \<and>
      (\<forall>i < n. section_agrees class bs i (obj_sections ob ! i))"
  using assms
proof (cases rule: elf_read_cases)
  case (absent h)
  then have "hdr_shstrndx h = 0" using assms by (auto simp: elf_read_def split: if_splits)
  then have "elf_section_count (hdr_class h) bs = 0" "elf_name_section (hdr_class h) bs = 0"
    using read_header_members [OF absent(1)] absent(2) by (auto simp: elf_section_count_def elf_name_section_def)
  then show ?thesis using absent(3) by (simp add: object_of_def Let_def)
next
  case (tables h)
  from tables(4) show ?thesis
  proof (cases rule: read_tables_eq_Inr)
    case (1 first names secs budget symtab syms rest)
    note hdr = read_header_members [OF tables(1)]
    let ?c = "hdr_class h"
    let ?x = "elf_name_section ?c bs"
    have "unat (hdr_shoff h) \<noteq> 0" using tables(2) by (simp add: unat_eq_zero)
    then have n: "section_count h first = elf_section_count ?c bs"
      using hdr raw_section_members(7) [OF 1(1) hdr(1)] by (simp add: section_count_def elf_section_count_def)
    have "hdr_shstrndx h = SHN_XINDEX \<longleftrightarrow> unat (hdr_shstrndx h) = 0xffff"
      by (auto simp: SHN_XINDEX_def word_unat_eq_iff)
    then have x: "name_table_index h first = ?x"
      using hdr raw_section_members(9) [OF 1(1) hdr(1)] by (simp add: name_table_index_def elf_name_section_def)
    have names: "names = elf_name_bytes ?c bs \<and> (0 < ?x \<longrightarrow> shdr_member ?c bs ?x ''sh_type'' = 3 \<and>
         shdr_member ?c bs ?x ''sh_offset'' + shdr_member ?c bs ?x ''sh_size'' \<le> length bs)"
    proof (cases "?x = 0")
      case True
      then show ?thesis using 1(5) by (simp add: x name_table_def elf_name_bytes_def)
    next
      case False
      then obtain raw where raw: "raw_section bs (unat (hdr_shoff h)) ?x ?c = Inr raw"
        and r: "raw_kind raw = SHT_STRTAB" "table_bytes bs raw = Inr names"
        using 1(5) by (auto simp: x name_table_def rbind_eq_Inr ensure_eq_Inr)
      note m = raw_section_members [OF raw hdr(1)]
      have "unat (raw_kind raw) = 3" using r(1) by (simp add: SHT_STRTAB_def)
      then show ?thesis
        using False r(2) m(3,6,7)
        by (auto simp: elf_name_bytes_def table_bytes_def Let_def rbind_eq_Inr get_range_eq_Some)
    qed
    have all: "list_all2 (section_agrees ?c bs) [0..<elf_section_count ?c bs] secs"
      using read_section_list_agrees [OF 1(6) hdr(1)] names n by simp
    have stride: "hdr_shentsize h = struct_size (elf_shdr ?c)"
      using tables(3) by (simp add: struct_size_def elf_shdr_def shdr_stride_def split: Class.splits)
    show ?thesis
      using names 1(2-4) 1(8) hdr stride list_all2_lengthD [OF all] list_all2_nthD [OF all]
      unfolding n x by (simp add: object_of_def Let_def)
  qed
qed

theorem elf_sections_from_table_witness:
  "\<exists>ob. elf_read sample_object = Inr ob \<and> length (obj_sections ob) = 3 \<and>
     elf_section_count Elf32 sample_object = 3 \<and> elf_name_section Elf32 sample_object = 1 \<and>
     shdr_member Elf32 sample_object 2 ''sh_size'' = 28 \<and>
     section_agrees Elf32 sample_object 2 (obj_sections ob ! 2)"
proof -
  obtain ob where ob: "elf_read sample_object = Inr ob" and n: "length (obj_sections ob) = 3"
    and c: "obj_class ob = Elf32"
    using sample_object_reads by blast
  have v: "elf_section_count Elf32 sample_object = 3" "elf_name_section Elf32 sample_object = 1"
    "shdr_member Elf32 sample_object 2 ''sh_size'' = 28" by code_simp+
  have "section_agrees Elf32 sample_object 2 (obj_sections ob ! 2)"
    using elf_sections_from_table [OF ob] v(1) c by (simp add: Let_def)
  with ob n v show ?thesis by blast
qed

text \<open>
  The identity a returned object reports is the identity the file holds: the magic, the
  little-endian and version bytes are as required, the class, OS ABI and ABI version are bytes
  4, 7 and 8, and type, machine and flags are the little-endian fields at the offsets the ELF
  specification gives for that class.
\<close>

lemma elf_identity:
  assumes "elf_read bs = Inr ob"
  shows "take 4 bs = [0x7f, 0x45, 0x4c, 0x46] \<and> bs ! 5 = 1 \<and> bs ! 6 = 1 \<and>
     bs ! 4 = (case obj_class ob of Elf32 \<Rightarrow> 1 | Elf64 \<Rightarrow> 2) \<and>
     header_size (obj_class ob) \<le> length bs \<and>
     obj_os_abi ob = bs ! 7 \<and> obj_abi_version ob = bs ! 8 \<and>
     obj_kind ob = u16_from_le (take 2 (drop 16 bs)) \<and>
     obj_machine ob = u16_from_le (take 2 (drop 18 bs)) \<and>
     obj_flags ob = u32_from_le (take 4 (drop (case obj_class ob of Elf32 \<Rightarrow> 36 | Elf64 \<Rightarrow> 48) bs))"
proof -
  obtain h secs syms where h: "read_header bs = Inr h" and ob: "ob = object_of bs h secs syms"
    using assms by (cases rule: elf_read_cases) (auto elim: read_tables_eq_Inr)
  have "take 4 bs = [0x7f, 0x45, 0x4c, 0x46]" "bs ! 5 = 1" "bs ! 6 = 1"
    "bs ! 4 = (case hdr_class h of Elf32 \<Rightarrow> 1 | Elf64 \<Rightarrow> 2)" "header_size (hdr_class h) \<le> length bs"
    "hdr_kind h = u16_from_le (take 2 (drop 16 bs))" "hdr_machine h = u16_from_le (take 2 (drop 18 bs))"
    "hdr_flags h = u32_from_le (take 4 (drop (case hdr_class h of Elf32 \<Rightarrow> 36 | Elf64 \<Rightarrow> 48) bs))"
    using h
    by (auto simp: read_header_def read_class_def Let_def rbind_eq_Inr ensure_eq_Inr elf_reads
        get_range_eq_Some split: if_splits)
  then show ?thesis by (simp add: ob object_of_def)
qed

lemma elf_identity_witness:
  "\<exists>ob. elf_read sample_object = Inr ob \<and> obj_machine ob = u16_from_le (take 2 (drop 18 sample_object)) \<and>
     obj_machine ob = 243"
proof -
  obtain ob where ob: "elf_read sample_object = Inr ob" and m: "obj_machine ob = 243"
    using sample_object_reads by blast
  show ?thesis using elf_identity [OF ob] ob m by blast
qed

end
