(* ===== verification/Elf_Attr.thy ===== *)
theory Elf_Attr
  imports Elf_Reader
begin

unbundle bit_operations_syntax

text \<open>
  The primitives that the two ELF attribute decoders of \<open>crates/aros-common/src/elf/arm.rs\<close> and
  \<open>crates/aros-common/src/elf/riscv.rs\<close> share in shape: the variable-length integer, the
  length-prefixed block and the NUL-terminated string. Each consumes a prefix of its input,
  so each interprets the \<open>prefix_reader\<close> interface.
\<close>

datatype attr_error =
    AttrElf elf_error
  | AttrWrongClass
  | AttrWrongMachine
  | AttrMissingSection
  | AttrDuplicateSection
  | AttrWrongSectionType
  | AttrRangeOverflow
  | AttrTruncatedSection
  | AttrTooLarge
  | AttrUnsupportedFormat
  | AttrTruncatedInteger
  | AttrIntegerOverflow
  | AttrNonCanonical
  | AttrTruncatedLength
  | AttrInvalidLength
  | AttrShortBlock
  | AttrBlockExceeds
  | AttrUnterminatedString
  | AttrStringTooLong
  | AttrNotUtf8
  | AttrDuplicateVendor
  | AttrUnsupportedVendor
  | AttrMissingVendor
  | AttrDuplicateScope
  | AttrUnsupportedScope u64
  | AttrMissingScope
  | AttrTooMany
  | AttrDuplicateTag u64
  | AttrNoDefaults
  | AttrUnknownMandatory u64
  | AttrNoIntegerEncoding u64
  | AttrNotInteger u64
  | AttrMultipleFiles
  | AttrMissingArchitecture
  | AttrInvalidArchitecture

section \<open>Variable-length integers\<close>

text \<open>
  The loop of \<open>uleb\<close> over the byte index: the tenth byte may only hold the top bit, and the
  decoder that asks for canonical integers refuses a final zero byte after the first.
\<close>

fun uleb_loop :: "bool \<Rightarrow> nat list \<Rightarrow> u64 \<Rightarrow> bytes \<Rightarrow> (attr_error, u64 \<times> bytes) result" where
  "uleb_loop canonical [] value bs = Inl AttrIntegerOverflow"
| "uleb_loop canonical (index # later) value [] = Inl AttrTruncatedInteger"
| "uleb_loop canonical (index # later) value (byte # rest) =
     ensure (index \<noteq> 9 \<or> byte \<le> 1) AttrIntegerOverflow
       (let value' = value OR push_bit (7 * index) (ucast (byte AND 0x7f))
        in if byte AND 0x80 = 0
           then ensure (\<not> canonical \<or> index = 0 \<or> byte \<noteq> 0) AttrNonCanonical (Inr (value', rest))
           else uleb_loop canonical later value' rest)"

section \<open>Blocks and strings\<close>

text \<open>
  \<open>block\<close>: the encoded length includes the tag bytes before the four-byte length field; the
  block returned begins at that field.
\<close>

definition attr_block :: "usize \<Rightarrow> bytes \<Rightarrow> (attr_error, bytes \<times> bytes) result" where
  "attr_block tag_bytes bs =
     rbind (ok_or (get_range bs 0 4) AttrTruncatedLength) (\<lambda>field.
     rbind (ok_or (checked_sub (unat (u32_from_le field)) tag_bytes) AttrInvalidLength) (\<lambda>block_size.
     ensure (4 \<le> block_size) AttrShortBlock
       (rbind (ok_or (get_range bs 0 block_size) AttrBlockExceeds) (\<lambda>result.
          Inr (result, drop block_size bs)))))"

text \<open>The shared part of \<open>ntbs\<close> and \<open>string\<close>: the bytes before the first NUL, and what follows it.\<close>

definition attr_string :: "bytes \<Rightarrow> (attr_error, bytes \<times> bytes) result" where
  "attr_string bs =
     rbind (ok_or (position (\<lambda>b. b = 0) bs) AttrUnterminatedString) (\<lambda>size.
       Inr (take size bs, drop (size + 1) bs))"

section \<open>Machine arithmetic of the accumulator\<close>

lemma nat_or_push_bit: "a < 2 ^ n \<Longrightarrow> a OR push_bit n b = a + b * 2 ^ n" for a b :: nat
proof -
  assume "a < 2 ^ n"
  then have "take_bit n a = a" by (simp add: take_bit_nat_eq_self)
  then have "m < n" if "bit a m" for m using that by (metis bit_take_bit_iff)
  then have "a AND push_bit n b = 0" by (intro bit_eqI) (fastforce simp: bit_simps)
  then show ?thesis by (simp add: disjunctive_add_eq_or [symmetric] push_bit_eq_mult)
qed

lemma unat_low7: "unat (ucast (byte AND 127 :: u8) :: u64) = unat byte mod 128"
proof -
  have "byte AND 127 = take_bit 7 byte" by (simp add: take_bit_eq_mask mask_eq_exp_minus_1)
  then have "unat (byte AND 127) = unat byte mod 128" by (simp add: unsigned_take_bit_eq take_bit_eq_mod unat_mod_distrib)
  moreover have "unat byte mod 128 < 2 ^ 64" by (rule less_trans [of _ 128]) simp_all
  ultimately show ?thesis by (simp add: unsigned_ucast_eq take_bit_eq_mod)
qed

lemma high_bit_clear: "(byte AND 128 :: u8) = 0 \<longleftrightarrow> unat byte < 128"
proof -
  have "(byte AND 128 = 0) \<longleftrightarrow> \<not> bit byte 7"
    using and_exp_eq_0_iff_not_bit [of byte 7] by simp
  also have "bit byte 7 \<longleftrightarrow> odd (unat byte div 128)"
  proof -
    have "bit (unat byte) 7 \<longleftrightarrow> bit byte 7" by (simp add: bit_unsigned_iff)
    then show ?thesis by (simp add: bit_iff_odd)
  qed
  also have "unat byte div 128 = (if unat byte < 128 then 0 else 1)"
    using unat_u8_less [of byte] by (simp add: le_div_geq)
  finally show ?thesis by simp
qed

lemma uleb_accumulate:
  assumes "unat v < 2 ^ (7 * i)" "i \<le> 9" "i = 9 \<Longrightarrow> unat byte \<le> 1"
  shows "unat (v OR push_bit (7 * i) (ucast (byte AND 127 :: u8)) :: u64) = unat v + 2 ^ (7 * i) * (unat byte mod 128)"
proof -
  have le: "unat byte mod 128 * 2 ^ (7 * i) < 2 ^ 64"
  proof (cases "i = 9")
    case True
    then have "unat byte mod 128 \<le> 1" using assms(3) by simp
    then have "unat byte mod 128 * 2 ^ (7 * i) \<le> 1 * 2 ^ 63" using True by (intro mult_mono) simp_all
    then show ?thesis by simp
  next
    case False
    then have "unat byte mod 128 * 2 ^ (7 * i) \<le> 127 * 2 ^ 56"
      using assms(2) by (intro mult_mono power_increasing) (auto simp: less_Suc_eq_le [symmetric])
    then show ?thesis by simp
  qed
  have "unat (push_bit (7 * i) (ucast (byte AND 127)) :: u64) = push_bit (7 * i) (unat byte mod 128)"
    using le by (simp only: unsigned_push_bit_eq unat_low7) (simp add: take_bit_nat_eq_self push_bit_eq_mult)
  then show ?thesis
    using nat_or_push_bit [OF assms(1), of "unat byte mod 128"]
    by (simp only: unsigned_or_eq mult.commute)
qed

section \<open>The encoding\<close>

text \<open>Seven bits a byte, least significant first, the top bit set on all bytes but the last.\<close>

fun uleb_encode :: "nat \<Rightarrow> bytes" where
  "uleb_encode n =
     (if n < 128 then [of_nat n] else of_nat (n mod 128 + 128) # uleb_encode (n div 128))"

fun uleb_nat :: "bytes \<Rightarrow> nat" where
  "uleb_nat [] = 0"
| "uleb_nat (b # bs) = unat b mod 128 + 128 * uleb_nat bs"

declare uleb_encode.simps [simp del]

lemma uleb_encode_not_Nil [simp]: "uleb_encode n \<noteq> []"
  by (subst uleb_encode.simps) simp

text \<open>One step of the loop from an accumulator that holds the digits below \<open>i\<close>.\<close>

lemma uleb_step:
  assumes "unat v < 2 ^ (7 * i)" "i \<le> 9" "i = 9 \<Longrightarrow> unat byte \<le> 1"
  defines "v' \<equiv> v OR push_bit (7 * i) (ucast (byte AND 127 :: u8)) :: u64"
  shows "unat v' = unat v + 2 ^ (7 * i) * (unat byte mod 128)" "unat v' < 2 ^ (7 * Suc i)"
proof -
  show eq: "unat v' = unat v + 2 ^ (7 * i) * (unat byte mod 128)"
    unfolding v'_def by (rule uleb_accumulate) (use assms in auto)
  have "2 ^ (7 * i) * (unat byte mod 128) \<le> 2 ^ (7 * i) * 127"
    by (intro mult_le_mono2) (simp add: less_Suc_eq_le [symmetric])
  then have "unat v' < 2 ^ (7 * i) * 128" using eq assms(1) by linarith
  then show "unat v' < 2 ^ (7 * Suc i)" by (simp add: power_add mult.commute)
qed

lemma upt_ten: "i < 10 \<Longrightarrow> [i..<10] = i # [Suc i..<10]"
  by (simp add: upt_conv_Cons)

lemma byte_le_one: "byte \<le> 1 \<longleftrightarrow> unat byte \<le> 1" for byte :: u8
  by (simp add: word_le_nat_alt)

lemma uleb_encode_step:
  "128 \<le> unat b \<Longrightarrow> 0 < n \<Longrightarrow> uleb_encode (unat b mod 128 + 128 * n) = b # uleb_encode n"
proof -
  assume b: "128 \<le> unat b" and n: "0 < n"
  have "unat b mod 128 + 128 = unat b" using b unat_u8_less [of b] by (simp add: le_mod_geq)
  moreover have "(unat b mod 128 + 128 * n) mod 128 = unat b mod 128"
    "(unat b mod 128 + 128 * n) div 128 = n"
    by simp_all
  ultimately show ?thesis
    using n by (subst uleb_encode.simps) (simp del: of_nat_add)
qed

lemma uleb_loop_sound:
  "uleb_loop canonical [i..<10] v bs = Inr (w, rest) \<Longrightarrow> unat v < 2 ^ (7 * i) \<Longrightarrow> i \<le> 10 \<Longrightarrow>
     \<exists>used. used \<noteq> [] \<and> bs = used @ rest \<and> length used + i \<le> 10 \<and>
       unat w = unat v + 2 ^ (7 * i) * uleb_nat used \<and>
       (canonical \<longrightarrow> used = uleb_encode (uleb_nat used) \<and> (0 < i \<longrightarrow> 0 < uleb_nat used))"
proof (induction bs arbitrary: i v)
  case Nil
  then show ?case by (cases "i < 10") (auto simp: upt_ten)
next
  case (Cons b bs)
  let ?v = "v OR push_bit (7 * i) (ucast (b AND 127)) :: u64"
  have i: "i < 10" using Cons.prems by (cases "i < 10") auto
  have small: "i = 9 \<Longrightarrow> unat b \<le> 1"
    using Cons.prems(1) i by (auto simp: upt_ten byte_le_one split: if_splits)
  have acc: "unat ?v = unat v + 2 ^ (7 * i) * (unat b mod 128)" "unat ?v < 2 ^ (7 * Suc i)"
    using uleb_step [OF Cons.prems(2) _ small] i by simp_all
  show ?case
  proof (cases "unat b < 128")
    case True
    have enc: "uleb_encode (unat b) = [b]" using True by (subst uleb_encode.simps) simp
    from Cons.prems(1) True i acc have "w = ?v" "rest = bs" "canonical \<Longrightarrow> i = 0 \<or> 0 < unat b"
      by (auto simp: upt_ten Let_def high_bit_clear unat_gt_0 split: if_splits)
    with True acc enc i show ?thesis by (intro exI [of _ "[b]"]) auto
  next
    case False
    then have "uleb_loop canonical [Suc i..<10] ?v bs = Inr (w, rest)"
      using Cons.prems(1) i by (auto simp: upt_ten Let_def high_bit_clear split: if_splits)
    from Cons.IH [OF this acc(2)] i obtain used where
      u: "used \<noteq> []" "bs = used @ rest" "length used + Suc i \<le> 10"
      "unat w = unat ?v + 2 ^ (7 * Suc i) * uleb_nat used"
      "canonical \<longrightarrow> used = uleb_encode (uleb_nat used) \<and> 0 < uleb_nat used"
      by auto
    have "unat w = unat v + 2 ^ (7 * i) * uleb_nat (b # used)"
      using u(4) acc(1) by (simp add: power_add algebra_simps)
    moreover have "canonical \<longrightarrow> b # used = uleb_encode (uleb_nat (b # used)) \<and> 0 < uleb_nat (b # used)"
      using u(5) uleb_encode_step [of b "uleb_nat used"] False by auto
    moreover have "b # bs = (b # used) @ rest" "length (b # used) + i \<le> 10" "b # used \<noteq> []"
      using u by simp_all
    ultimately show ?thesis by blast
  qed
qed

lemma uleb_nat_encode [simp]: "uleb_nat (uleb_encode n) = n"
proof (induction n rule: uleb_encode.induct)
  case (1 n)
  have "unat (of_nat (n mod 128 + 128) :: u8) = n mod 128 + 128"
  proof -
    have "n mod 128 + 128 < 256" using mod_less_divisor [of 128 n] by linarith
    then show ?thesis by (simp only: unat_of_nat) simp
  qed
  with 1 show ?case
    by (cases "n < 128") (simp_all add: uleb_encode.simps [of n] unat_of_nat del: of_nat_add)
qed

lemma uleb_digits: "a + 2 ^ (7 * i) * r + 2 ^ (7 * Suc i) * q = a + 2 ^ (7 * i) * (r + 128 * q)" for a :: nat
  by (simp add: power_add distrib_left)

lemma uleb_loop_complete:
  "unat v < 2 ^ (7 * i) \<Longrightarrow> i \<le> 9 \<Longrightarrow> unat v + 2 ^ (7 * i) * n < 2 ^ 64 \<Longrightarrow> (0 < i \<Longrightarrow> 0 < n) \<Longrightarrow>
     uleb_loop canonical [i..<10] v (uleb_encode n @ rest) = Inr (of_nat (unat v + 2 ^ (7 * i) * n), rest)"
proof (induction n arbitrary: i v rule: uleb_encode.induct)
  case (1 n)
  show ?case
  proof (cases "n < 128")
    case True
    let ?b = "of_nat n :: u8"
    have b: "unat ?b = n" using True by (simp add: unat_of_nat)
    have small: "unat ?b \<le> 1" if "i = 9" using 1(4) that b by simp
    let ?v = "v OR push_bit (7 * i) (ucast (?b AND 127)) :: u64"
    have "unat ?v = unat v + 2 ^ (7 * i) * n"
      using uleb_step(1) [OF 1(2,3) small] b True by simp
    then have "?v = of_nat (unat v + 2 ^ (7 * i) * n)" by (metis of_nat_unat ucast_id)
    moreover have "0 < i \<Longrightarrow> ?b \<noteq> 0" using 1(5) b by (metis less_numeral_extra(3) unat_0)
    ultimately show ?thesis
      using 1(3) True b small
      by (subst uleb_encode.simps)
        (auto simp: upt_ten high_bit_clear byte_le_one Let_def simp del: of_nat_add of_nat_mult)
  next
    case False
    let ?b = "of_nat (n mod 128 + 128) :: u8"
    have "n mod 128 + 128 < 256" using mod_less_divisor [of 128 n] by linarith
    then have b: "unat ?b = n mod 128 + 128" by (simp only: unat_of_nat) simp
    have "2 ^ (7 * i) * 128 \<le> (2 :: nat) ^ (7 * i) * n" using False by simp
    then have "2 ^ (7 * i) * 128 < (2 :: nat) ^ 64" using 1(4) by linarith
    moreover have "(2 :: nat) ^ (7 * i) * 128 = 2 ^ (7 * i + 7)" by (simp add: power_add)
    ultimately have "(2 :: nat) ^ (7 * i + 7) < 2 ^ 64" by (simp only:)
    then have "7 * i + 7 < 64" by (subst (asm) power_strict_increasing_iff) simp_all
    then have i: "i < 9" using 1(3) by simp
    let ?v = "v OR push_bit (7 * i) (ucast (?b AND 127)) :: u64"
    have v: "unat ?v = unat v + 2 ^ (7 * i) * (n mod 128)" "unat ?v < 2 ^ (7 * Suc i)"
      using uleb_step [OF 1(2,3), of ?b] b i by simp_all
    have "unat ?v + 2 ^ (7 * Suc i) * (n div 128) =
        unat v + 2 ^ (7 * i) * (n mod 128 + 128 * (n div 128))"
      unfolding v(1) by (rule uleb_digits)
    then have sum: "unat ?v + 2 ^ (7 * Suc i) * (n div 128) = unat v + 2 ^ (7 * i) * n"
      by (simp only: mod_mult_div_eq)
    have "uleb_loop canonical [Suc i..<10] ?v (uleb_encode (n div 128) @ rest) =
        Inr (of_nat (unat ?v + 2 ^ (7 * Suc i) * (n div 128)), rest)"
      using 1(4) False i sum v by (intro 1(1)) (auto simp: div_greater_zero_iff)
    then show ?thesis
      using False i b sum
      by (simp add: uleb_encode.simps [of n] upt_ten high_bit_clear Let_def del: of_nat_add of_nat_mult)
  qed
qed

text \<open>From an empty accumulator: the decoders read exactly what the encoder writes.\<close>

lemma uleb_loop_encode:
  "uleb_loop canonical [0..<10] 0 (uleb_encode (unat v) @ rest) = Inr (v, rest)"
  using uleb_loop_complete [of 0 0 "unat v" canonical rest] unsigned_less [of v] by simp

lemma uleb_loop_canonical_iff:
  "uleb_loop True [0..<10] 0 bs = Inr (v, rest) \<longleftrightarrow> bs = uleb_encode (unat v) @ rest"
proof
  assume "uleb_loop True [0..<10] 0 bs = Inr (v, rest)"
  then obtain used where "bs = used @ rest" "unat v = uleb_nat used" "used = uleb_encode (uleb_nat used)"
    using uleb_loop_sound [of True 0 0 bs v rest] by auto
  then show "bs = uleb_encode (unat v) @ rest" by simp
next
  assume "bs = uleb_encode (unat v) @ rest"
  then show "uleb_loop True [0..<10] 0 bs = Inr (v, rest)" by (simp add: uleb_loop_encode)
qed

section \<open>The primitives consume a prefix\<close>

interpretation uleb: prefix_reader "uleb_loop canonical [0..<10] 0" for canonical
  using uleb_loop_sound [of _ 0 0] by unfold_locales fastforce

lemma attr_block_eq_Inr:
  "attr_block tag_bytes bs = Inr (blk, rest) \<longleftrightarrow>
     4 \<le> length blk \<and> bs = blk @ rest \<and> unat (u32_from_le (take 4 bs)) = length blk + tag_bytes"
  by (auto simp: attr_block_def rbind_eq_Inr ensure_eq_Inr get_range_def split: if_splits)

text \<open>A block is its length field, which counts itself and the tag bytes, and its body.\<close>

definition block_bytes :: "usize \<Rightarrow> bytes \<Rightarrow> bytes" where
  "block_bytes tag_bytes body = u32_to_le (of_nat (4 + length body + tag_bytes)) @ body"

lemma length_block_bytes [simp]: "length (block_bytes t body) = 4 + length body"
  by (simp add: block_bytes_def)

lemma drop_block_bytes [simp]: "drop 4 (block_bytes t body) = body"
  by (simp add: block_bytes_def)

lemma block_bytes_not_Nil [simp]: "block_bytes t body \<noteq> []"
  by (simp flip: length_0_conv)

lemma attr_block_iff:
  "attr_block t bs = Inr (blk, rest) \<longleftrightarrow>
     (\<exists>body. blk = block_bytes t body \<and> 4 + length body + t < 2 ^ 32 \<and> bs = block_bytes t body @ rest)"
proof
  assume "attr_block t bs = Inr (blk, rest)"
  then have b: "4 \<le> length blk" "bs = blk @ rest" "unat (u32_from_le (take 4 blk)) = length blk + t"
    by (auto simp: attr_block_eq_Inr)
  have "take 4 blk = u32_to_le (u32_from_le (take 4 blk))" using b(1) by (simp add: u32_to_from_le)
  also have "u32_from_le (take 4 blk) = of_nat (length blk + t)" using b(3) by (metis of_nat_unat ucast_id)
  finally have "blk = block_bytes t (drop 4 blk)"
    using b(1) append_take_drop_id [of 4 blk] by (simp add: block_bytes_def)
  moreover have "length blk + t < 2 ^ 32" using unat_u32_less [of "u32_from_le (take 4 blk)"] b(3) by simp
  ultimately show "\<exists>body. blk = block_bytes t body \<and> 4 + length body + t < 2 ^ 32 \<and> bs = block_bytes t body @ rest"
    using b(1,2) by (intro exI [of _ "drop 4 blk"]) auto
next
  assume "\<exists>body. blk = block_bytes t body \<and> 4 + length body + t < 2 ^ 32 \<and> bs = block_bytes t body @ rest"
  then obtain body where b: "blk = block_bytes t body" "4 + length body + t < 2 ^ 32" "bs = block_bytes t body @ rest"
    by blast
  have "take 4 bs = u32_to_le (of_nat (4 + length body + t))" using b(3) by (simp add: block_bytes_def)
  moreover have "unat (of_nat (4 + length body + t) :: u32) = 4 + length body + t"
    using b(2) by (simp only: unat_of_nat) simp
  ultimately show "attr_block t bs = Inr (blk, rest)"
    using b by (simp add: attr_block_eq_Inr del: of_nat_add)
qed

interpretation blk: prefix_reader "attr_block tag_bytes" for tag_bytes
  by unfold_locales (auto simp: attr_block_eq_Inr)

lemma attr_string_eq_Inr:
  "attr_string bs = Inr (v, rest) \<longleftrightarrow> bs = v @ 0 # rest \<and> 0 \<notin> set v"
proof
  assume "attr_string bs = Inr (v, rest)"
  then obtain n where n: "position (\<lambda>b. b = 0) bs = Some n" "v = take n bs" "rest = drop (n + 1) bs"
    by (auto simp: attr_string_def rbind_eq_Inr)
  then have "n < length bs" "bs ! n = 0" by (simp_all add: position_eq_Some)
  then have "bs = take n bs @ 0 # drop (n + 1) bs" by (metis id_take_nth_drop add.commute plus_1_eq_Suc)
  then show "bs = v @ 0 # rest \<and> 0 \<notin> set v"
    using n position_take_none [OF n(1)] by auto
next
  assume bs: "bs = v @ 0 # rest \<and> 0 \<notin> set v"
  then have "\<forall>x\<in>set v. \<not> x = 0" by metis
  from position_append [OF this, of "0 # rest" 0] have "position (\<lambda>b. b = 0) bs = Some (length v)"
    using bs by simp
  then show "attr_string bs = Inr (v, rest)" using bs by (simp add: attr_string_def)
qed

interpretation str: prefix_reader attr_string
  by unfold_locales (auto simp: attr_string_eq_Inr intro: exI [of _ "_ @ [0]"])

end
