(* ===== verification/Rust_Collections.thy ===== *)
theory Rust_Collections
  imports Rust_Str "HOL-Library.List_Lexorder"
begin

text \<open>
  \<open>BTreeMap\<close> and \<open>BTreeSet\<close> of the Rust standard library, as the association lists and
  lists in ascending key order that their iterators show. Strings compare bytewise, which
  is the lexicographic order on lists of bytes. The laws that the components rely on are
  the \<open>ordered_map\<close> interface; inserting into the association list implements it.
\<close>

lemma assoc_list_of_map:
  "distinct (map fst xs) \<Longrightarrow> xs = map (\<lambda>k. (k, the (map_of xs k))) (map fst xs)"
  by (rule sym) (auto simp: o_def intro!: map_idI)

section \<open>The interface\<close>

locale ordered_map =
  fixes wf :: "'m \<Rightarrow> bool"
    and empty :: 'm
    and insert' :: "'k :: linorder \<Rightarrow> 'v \<Rightarrow> 'm \<Rightarrow> 'm"
    and get :: "'m \<Rightarrow> 'k \<Rightarrow> 'v option"
    and entries :: "'m \<Rightarrow> ('k \<times> 'v) list"
  assumes wf_empty: "wf empty"
    and wf_insert: "wf m \<Longrightarrow> wf (insert' k v m)"
    and get_empty: "get empty = (\<lambda>_. None)"
    and get_insert: "wf m \<Longrightarrow> get (insert' k v m) = (get m)(k \<mapsto> v)"
    and entries_sorted: "wf m \<Longrightarrow> sorted_wrt (<) (map fst (entries m))"
    and entries_get: "wf m \<Longrightarrow> map_of (entries m) = get m"
begin

definition insert_all :: "('k \<times> 'v) list \<Rightarrow> 'm \<Rightarrow> 'm" where
  "insert_all kvs m = fold (\<lambda>(k, v). insert' k v) kvs m"

lemma insert_all_simps [simp]:
  "insert_all [] m = m"
  "insert_all ((k, v) # kvs) m = insert_all kvs (insert' k v m)"
  by (simp_all add: insert_all_def)

lemma wf_insert_all: "wf m \<Longrightarrow> wf (insert_all kvs m)"
  by (induction kvs arbitrary: m) (auto simp: wf_insert)

text \<open>A later entry for a key replaces an earlier one.\<close>

lemma get_insert_all: "wf m \<Longrightarrow> get (insert_all kvs m) = get m ++ map_of (rev kvs)"
proof (induction kvs arbitrary: m)
  case (Cons kv kvs)
  then show ?case
    by (cases kv) (auto simp: wf_insert get_insert map_add_upd_left fun_eq_iff map_add_def split: option.splits)
qed simp

lemma get_insert_all_distinct:
  "distinct (map fst kvs) \<Longrightarrow> get (insert_all kvs empty) = map_of kvs"
proof -
  assume d: "distinct (map fst kvs)"
  then have "map_of (rev kvs) = map_of kvs" by (intro map_of_eqI) (auto simp: rev_map [symmetric])
  then show ?thesis by (simp add: get_insert_all wf_empty get_empty)
qed

text \<open>Two maps with the same bindings list the same entries.\<close>

lemma entries_unique:
  assumes "wf m" "wf m'" "get m = get m'"
  shows "entries m = entries m'"
proof -
  have s: "sorted (map fst (entries x)) \<and> distinct (map fst (entries x))" if "wf x" for x
    using entries_sorted [OF that] by (simp add: strict_sorted_iff)
  have "set (entries m) = set (entries m')"
    using s [OF assms(1)] s [OF assms(2)] assms entries_get
    by (metis map_of_inject_set)
  then have "map fst (entries m) = map fst (entries m')"
    using s assms by (intro sorted_distinct_set_unique) auto
  moreover have "map_of (entries m) = map_of (entries m')" using assms entries_get by simp
  ultimately show ?thesis
    using s [OF assms(1)] s [OF assms(2)] assoc_list_of_map by metis
qed

end

section \<open>Association lists in key order\<close>

type_synonym ('k, 'v) btreemap = "('k \<times> 'v) list"

fun btree_insert :: "'k :: linorder \<Rightarrow> 'v \<Rightarrow> ('k, 'v) btreemap \<Rightarrow> ('k, 'v) btreemap" where
  "btree_insert k v [] = [(k, v)]"
| "btree_insert k v ((k', v') # m) =
     (if k < k' then (k, v) # (k', v') # m
      else if k = k' then (k, v) # m
      else (k', v') # btree_insert k v m)"

definition btree_wf :: "('k :: linorder, 'v) btreemap \<Rightarrow> bool" where
  "btree_wf m = sorted_wrt (<) (map fst m)"

definition btree_get :: "('k :: linorder, 'v) btreemap \<Rightarrow> 'k \<Rightarrow> 'v option" where
  "btree_get m k = map_of m k"

definition btree_contains :: "('k :: linorder, 'v) btreemap \<Rightarrow> 'k \<Rightarrow> bool" where
  "btree_contains m k = (k \<in> set (map fst m))"

lemma fst_btree_insert [simp]: "fst ` set (btree_insert k v m) = insert k (fst ` set m)"
  by (induction k v m rule: btree_insert.induct) auto

lemma btree_wf_Nil [simp]: "btree_wf []"
  by (simp add: btree_wf_def)

lemma btree_wf_insert [simp]: "btree_wf m \<Longrightarrow> btree_wf (btree_insert k v m)"
proof (induction k v m rule: btree_insert.induct)
  case (2 k v k' v' m)
  have "\<forall>y\<in>set (btree_insert k v m). k' < fst y" if "k' < k" "\<forall>y\<in>set m. k' < fst y"
    using that fst_btree_insert [of k v m] by (metis (no_types, lifting) image_iff insert_iff)
  with 2 show ?case by (auto simp: btree_wf_def not_less order.strict_iff_order dest: order_trans)
qed (simp add: btree_wf_def)

lemma map_of_btree_insert: "btree_wf m \<Longrightarrow> map_of (btree_insert k v m) = (map_of m)(k \<mapsto> v)"
  by (induction k v m rule: btree_insert.induct) (auto simp: btree_wf_def fun_eq_iff)

interpretation btree: ordered_map btree_wf "[]" btree_insert btree_get "\<lambda>m. m"
  by unfold_locales (auto simp: map_of_btree_insert btree_get_def fun_eq_iff, simp add: btree_wf_def)

lemma btree_contains_iff: "btree_contains m k \<longleftrightarrow> btree_get m k \<noteq> None"
  by (simp add: btree_contains_def btree_get_def map_of_eq_None_iff)

lemma btree_contains_insert [simp]: "btree_contains (btree_insert k v m) k' \<longleftrightarrow> k' = k \<or> btree_contains m k'"
  by (simp add: btree_contains_def)

lemma length_btree_insert_new: "\<not> btree_contains m k \<Longrightarrow> length (btree_insert k v m) = Suc (length m)"
  by (induction k v m rule: btree_insert.induct) (auto simp: btree_contains_def)

lemma set_btree_insert_new: "\<not> btree_contains m k \<Longrightarrow> set (btree_insert k v m) = insert (k, v) (set m)"
  by (induction k v m rule: btree_insert.induct) (auto simp: btree_contains_def)

end
