(* ===== verification/Elf_Arm.thy ===== *)
theory Elf_Arm
  imports Elf_Attr Rust_Collections
begin

unbundle bit_operations_syntax

text \<open>
  The ARM file-attribute decoder of \<open>crates/aros-common/src/elf/arm.rs\<close>: one \<open>aeabi\<close> vendor
  block with one File scope, canonical integers, bounded strings and no unknown mandatory
  tag. The loops over the remaining bytes are recursive functions whose measure is the
  number of bytes left; that the primitives consume is what makes them end.
\<close>

section \<open>Data and limits\<close>

definition ARM_MACHINE :: u16 where "ARM_MACHINE = 40"
definition ARM_SHT_ATTRIBUTES :: u32 where "ARM_SHT_ATTRIBUTES = 0x70000003"
definition MAX_SECTION_SIZE :: usize where "MAX_SECTION_SIZE = 65536"
definition MAX_VALUES :: usize where "MAX_VALUES = 256"
definition MAX_NTBS_SIZE :: usize where "MAX_NTBS_SIZE = 4096"

lemmas arm_constants =
  ARM_MACHINE_def ARM_SHT_ATTRIBUTES_def MAX_SECTION_SIZE_def MAX_VALUES_def MAX_NTBS_SIZE_def

datatype ArmValue =
    ArmInteger u64
  | ArmString bytes
  | ArmCompatibility u64 bytes

type_synonym ArmAttributes = "(u64, ArmValue) btreemap"

definition is_known_integer_tag :: "u64 \<Rightarrow> bool" where
  "is_known_integer_tag tag = (tag \<in> {34, 36, 38, 42, 44, 46, 48, 50, 52})"

section \<open>Operations\<close>

definition arm_uleb :: "bytes \<Rightarrow> (attr_error, u64 \<times> bytes) result" where
  "arm_uleb = uleb_loop True [0..<10] 0"

definition arm_ntbs :: "bytes \<Rightarrow> (attr_error, bytes \<times> bytes) result" where
  "arm_ntbs bs =
     rbind (ok_or (position (\<lambda>b. b = 0) bs) AttrUnterminatedString) (\<lambda>size.
     ensure (size \<le> MAX_NTBS_SIZE) AttrStringTooLong (attr_string bs))"

text \<open>The value that follows a tag, decoded by the class of the tag.\<close>

definition arm_value :: "u64 \<Rightarrow> bytes \<Rightarrow> (attr_error, ArmValue \<times> bytes) result" where
  "arm_value tag bs =
     (let str = rbind (arm_ntbs bs) (\<lambda>(s, rest). Inr (ArmString s, rest));
          int = rbind (arm_uleb bs) (\<lambda>(n, rest). Inr (ArmInteger n, rest))
      in if tag = 4 \<or> tag = 5 then str
         else if tag = 32 then
           rbind (arm_uleb bs) (\<lambda>(flag, rest).
           rbind (arm_ntbs rest) (\<lambda>(vendor, rest'). Inr (ArmCompatibility flag vendor, rest')))
         else if (6 \<le> tag \<and> tag \<le> 31) \<or> is_known_integer_tag tag then int
         else if 65 \<le> tag \<and> 64 \<le> tag mod 128 then (if tag mod 2 = 1 then str else int)
         else Inl (AttrUnknownMandatory tag))"

lemma arm_uleb_iff: "arm_uleb bs = Inr (v, rest) \<longleftrightarrow> bs = uleb_encode (unat v) @ rest"
  by (simp add: arm_uleb_def uleb_loop_canonical_iff)

lemma arm_ntbs_iff:
  "arm_ntbs bs = Inr (s, rest) \<longleftrightarrow> bs = s @ 0 # rest \<and> 0 \<notin> set s \<and> length s \<le> MAX_NTBS_SIZE"
proof -
  have "arm_ntbs bs = Inr (s, rest) \<longleftrightarrow>
      (\<exists>n. position (\<lambda>b. b = 0) bs = Some n \<and> n \<le> MAX_NTBS_SIZE) \<and> attr_string bs = Inr (s, rest)"
    by (auto simp: arm_ntbs_def rbind_eq_Inr)
  also have "\<dots> \<longleftrightarrow> attr_string bs = Inr (s, rest) \<and> length s \<le> MAX_NTBS_SIZE"
  proof (cases "position (\<lambda>b. b = 0) bs")
    case (Some n)
    then have "n < length bs" by (simp add: position_eq_Some)
    with Some show ?thesis by (auto simp: attr_string_def)
  qed (simp add: attr_string_def)
  finally show ?thesis by (simp add: attr_string_eq_Inr conj_assoc)
qed

interpretation arm_uleb: prefix_reader arm_uleb
  by unfold_locales (auto simp: arm_uleb_iff)

interpretation arm_ntbs: prefix_reader arm_ntbs
  by unfold_locales (auto simp: arm_ntbs_iff intro: exI [of _ "_ @ [0]"])

section \<open>The grammar of attribute values\<close>

text \<open>The ABI's encoding of a value, and which values a tag may carry.\<close>

fun arm_value_bytes :: "ArmValue \<Rightarrow> bytes" where
  "arm_value_bytes (ArmInteger n) = uleb_encode (unat n)"
| "arm_value_bytes (ArmString s) = s @ [0]"
| "arm_value_bytes (ArmCompatibility flag vendor) = uleb_encode (unat flag) @ vendor @ [0]"

definition ntbs_ok :: "bytes \<Rightarrow> bool" where
  "ntbs_ok s = (0 \<notin> set s \<and> length s \<le> MAX_NTBS_SIZE)"

definition arm_string_tag :: "u64 \<Rightarrow> bool" where
  "arm_string_tag tag = (tag = 4 \<or> tag = 5 \<or> 65 \<le> tag \<and> 64 \<le> tag mod 128 \<and> tag mod 2 = 1)"

definition arm_integer_tag :: "u64 \<Rightarrow> bool" where
  "arm_integer_tag tag =
     (6 \<le> tag \<and> tag \<le> 31 \<or> is_known_integer_tag tag \<or> 66 \<le> tag \<and> 64 \<le> tag mod 128 \<and> tag mod 2 = 0)"

fun arm_value_ok :: "u64 \<Rightarrow> ArmValue \<Rightarrow> bool" where
  "arm_value_ok tag (ArmInteger n) = arm_integer_tag tag"
| "arm_value_ok tag (ArmString s) = (arm_string_tag tag \<and> ntbs_ok s)"
| "arm_value_ok tag (ArmCompatibility flag vendor) = (tag = 32 \<and> ntbs_ok vendor)"

lemma low_tag_not_high: "tag \<le> 31 \<Longrightarrow> \<not> 65 \<le> tag" for tag :: u64
  using order_trans [of 65 tag 31] by auto

lemma not_integer_and_string: "\<not> (arm_integer_tag tag \<and> arm_string_tag tag)"
  using low_tag_not_high [of tag]
  by (auto simp: arm_integer_tag_def arm_string_tag_def is_known_integer_tag_def)

lemma compatibility_tag_only: "\<not> arm_integer_tag 32 \<and> \<not> arm_string_tag 32"
  by (simp add: arm_integer_tag_def arm_string_tag_def is_known_integer_tag_def)

text \<open>The branches of the decoder, by the class of the tag.\<close>

lemma arm_value_cases:
  "arm_value tag bs =
     (if arm_string_tag tag then rbind (arm_ntbs bs) (\<lambda>(s, rest). Inr (ArmString s, rest))
      else if arm_integer_tag tag then rbind (arm_uleb bs) (\<lambda>(n, rest). Inr (ArmInteger n, rest))
      else if tag = 32 then
        rbind (arm_uleb bs) (\<lambda>(flag, rest).
        rbind (arm_ntbs rest) (\<lambda>(vendor, rest'). Inr (ArmCompatibility flag vendor, rest')))
      else Inl (AttrUnknownMandatory tag))"
proof -
  have parity: "tag mod 2 = 1 \<longleftrightarrow> odd tag" "tag mod 2 = 0 \<longleftrightarrow> even tag"
    by (rule odd_iff_mod_2_eq_one [symmetric], rule even_iff_mod_2_eq_zero [symmetric])
  have succ: "65 \<le> tag \<and> even tag \<longleftrightarrow> 66 \<le> tag \<and> even tag"
  proof -
    have "65 \<le> tag \<longleftrightarrow> tag = 65 \<or> 66 \<le> tag"
      unfolding word_le_nat_alt word_unat_eq_iff by auto
    then show ?thesis by auto
  qed
  show ?thesis
    unfolding arm_value_def Let_def arm_string_tag_def arm_integer_tag_def is_known_integer_tag_def parity
    using low_tag_not_high [of tag] succ by auto
qed

lemma arm_value_iff:
  "arm_value tag bs = Inr (v, rest) \<longleftrightarrow> arm_value_ok tag v \<and> bs = arm_value_bytes v @ rest"
proof (cases v)
  case (ArmInteger n)
  then show ?thesis
    using not_integer_and_string [of tag]
    by (auto simp: arm_value_cases rbind_eq_Inr arm_uleb_iff split: prod.splits)
next
  case (ArmString s)
  then show ?thesis
    by (auto simp: arm_value_cases rbind_eq_Inr arm_ntbs_iff ntbs_ok_def split: prod.splits)
next
  case (ArmCompatibility flag vendor)
  then show ?thesis
    using compatibility_tag_only
    by (auto simp: arm_value_cases rbind_eq_Inr arm_uleb_iff arm_ntbs_iff ntbs_ok_def split: prod.splits)
qed

lemma arm_value_bytes_not_Nil [simp]: "arm_value_bytes v \<noteq> []"
  by (cases v) auto

interpretation arm_value: prefix_reader "arm_value tag" for tag
  by unfold_locales (auto simp: arm_value_iff)

section \<open>The loops\<close>

function arm_attributes_loop :: "ArmAttributes \<Rightarrow> bytes \<Rightarrow> (attr_error, ArmAttributes) result" where
  "arm_attributes_loop values bs =
     (if bs = [] then Inr values
      else ensure (length values < MAX_VALUES) AttrTooMany
        (rbind (arm_uleb bs) (\<lambda>(tag, bs').
         ensure (\<not> btree_contains values tag) (AttrDuplicateTag tag)
          (ensure (tag \<noteq> 64) AttrNoDefaults
            (rbind (arm_value tag bs') (\<lambda>(value, bs'').
               arm_attributes_loop (btree_insert tag value values) bs''))))))"
  by auto
termination
  by (relation "measure (\<lambda>(values, bs). length bs)")
    (auto dest!: arm_uleb.shrinks arm_value.shrinks)

definition arm_attributes :: "bytes \<Rightarrow> (attr_error, ArmAttributes) result" where
  "arm_attributes bs = arm_attributes_loop [] bs"

function arm_file_scope_loop ::
  "ArmAttributes option \<Rightarrow> bytes \<Rightarrow> (attr_error, ArmAttributes) result" where
  "arm_file_scope_loop file_attributes body =
     (if body = [] then ok_or file_attributes AttrMissingScope
      else rbind (arm_uleb body) (\<lambda>(scope, body').
        let tag_bytes = length body - length body'
        in if scope = 1 then
             ensure (file_attributes = None) AttrDuplicateScope
               (rbind (attr_block tag_bytes body') (\<lambda>(subsection, body'').
                rbind (arm_attributes (drop 4 subsection)) (\<lambda>values.
                  arm_file_scope_loop (Some values) body'')))
           else Inl (AttrUnsupportedScope scope)))"
  by auto
termination
  by (relation "measure (\<lambda>(file_attributes, body). length body)")
    (auto dest!: arm_uleb.shrinks blk.shrinks)

definition arm_file_scope :: "bytes \<Rightarrow> (attr_error, ArmAttributes) result" where
  "arm_file_scope body = arm_file_scope_loop None body"

function arm_decode_loop ::
  "bytes list \<Rightarrow> ArmAttributes option \<Rightarrow> bytes \<Rightarrow> (attr_error, ArmAttributes) result" where
  "arm_decode_loop vendor_names aeabi remaining =
     (if remaining = [] then ok_or aeabi AttrMissingVendor
      else rbind (attr_block 0 remaining) (\<lambda>(vendor_block, remaining').
           rbind (arm_ntbs (drop 4 vendor_block)) (\<lambda>(vendor_name, body).
           ensure (vendor_name \<notin> set vendor_names) AttrDuplicateVendor
             (if vendor_name = ascii ''aeabi'' then
                ensure (aeabi = None) AttrDuplicateVendor
                  (rbind (arm_file_scope body) (\<lambda>values.
                     arm_decode_loop (vendor_name # vendor_names) (Some values) remaining'))
              else arm_decode_loop (vendor_name # vendor_names) aeabi remaining'))))"
  by auto
termination
  by (relation "measure (\<lambda>(vendor_names, aeabi, remaining). length remaining)")
    (auto dest!: blk.shrinks)

declare arm_attributes_loop.simps [simp del] arm_file_scope_loop.simps [simp del]
  arm_decode_loop.simps [simp del]

definition arm_decode :: "bytes \<Rightarrow> (attr_error, ArmAttributes) result" where
  "arm_decode bs =
     ensure (length bs \<le> MAX_SECTION_SIZE) AttrTooLarge
       (ensure (get_at bs 0 = Some 0x41) AttrUnsupportedFormat
         (arm_decode_loop [] None (drop 1 bs)))"

definition arm_read :: "bytes \<Rightarrow> (attr_error, ArmAttributes) result" where
  "arm_read bs =
     rbind (map_err AttrElf (elf_read bs)) (\<lambda>object'.
     ensure (obj_class object' = Elf32) AttrWrongClass
      (ensure (obj_machine object' = ARM_MACHINE) AttrWrongMachine
       (case filter (\<lambda>s. sec_name s = ascii ''.ARM.attributes'') (obj_sections object') of
          [] \<Rightarrow> Inl AttrMissingSection
        | sec # others \<Rightarrow>
            ensure (others = []) AttrDuplicateSection
             (ensure (sec_kind sec = ARM_SHT_ATTRIBUTES) AttrWrongSectionType
               (let size = unat (sec_size sec); start = unat (sec_offset sec)
                in ensure (size \<le> MAX_SECTION_SIZE) AttrTooLarge
                    (rbind (ok_or (checked_add start size) AttrRangeOverflow) (\<lambda>end'.
                     rbind (ok_or (get_range bs start end') AttrTruncatedSection) arm_decode)))))))"

text \<open>\<open>Attributes::integer\<close>.\<close>

definition arm_integer :: "ArmAttributes \<Rightarrow> u64 \<Rightarrow> (attr_error, u64) result" where
  "arm_integer values tag =
     ensure (6 \<le> tag \<and> tag \<le> 31 \<or> is_known_integer_tag tag \<or>
             66 \<le> tag \<and> 64 \<le> tag mod 128 \<and> tag mod 2 = 0) (AttrNoIntegerEncoding tag)
       (case btree_get values tag of
          Some (ArmInteger n) \<Rightarrow> Inr n
        | Some _ \<Rightarrow> Inl (AttrNotInteger tag)
        | None \<Rightarrow> Inr 0)"

section \<open>The grammar of attribute sections\<close>

definition arm_entry_bytes :: "u64 \<times> ArmValue \<Rightarrow> bytes" where
  "arm_entry_bytes kv = uleb_encode (unat (fst kv)) @ arm_value_bytes (snd kv)"

definition arm_entries_bytes :: "(u64 \<times> ArmValue) list \<Rightarrow> bytes" where
  "arm_entries_bytes kvs = concat (map arm_entry_bytes kvs)"

definition arm_entries_ok :: "(u64 \<times> ArmValue) list \<Rightarrow> bool" where
  "arm_entries_ok kvs =
     (distinct (map fst kvs) \<and> length kvs \<le> MAX_VALUES \<and> (\<forall>kv\<in>set kvs. arm_value_ok (fst kv) (snd kv)))"

text \<open>The File scope: tag 1, then a block whose length counts that one tag byte.\<close>

definition arm_file_bytes :: "(u64 \<times> ArmValue) list \<Rightarrow> bytes" where
  "arm_file_bytes kvs = 1 # block_bytes 1 (arm_entries_bytes kvs)"

definition arm_vendor_bytes :: "bytes \<times> bytes \<Rightarrow> bytes" where
  "arm_vendor_bytes nb = block_bytes 0 (fst nb @ 0 # snd nb)"

lemma no_defaults_not_ok: "\<not> arm_value_ok 64 v"
  by (cases v) (simp_all add: arm_integer_tag_def arm_string_tag_def is_known_integer_tag_def)

lemma arm_entry_bytes_not_Nil [simp]: "arm_entry_bytes kv \<noteq> []"
  by (simp add: arm_entry_bytes_def)

text \<open>One turn of the attribute loop.\<close>

lemma arm_attributes_step:
  "arm_attributes_loop vals bs = Inr out \<longleftrightarrow>
     (if bs = [] then out = vals
      else length vals < MAX_VALUES \<and>
        (\<exists>tag v rest. bs = arm_entry_bytes (tag, v) @ rest \<and> \<not> btree_contains vals tag \<and>
          arm_value_ok tag v \<and> arm_attributes_loop (btree_insert tag v vals) rest = Inr out))"
    (is "?l = ?r")
proof
  assume ?l then show ?r
    by (subst (asm) arm_attributes_loop.simps)
      (auto simp: rbind_eq_Inr arm_uleb_iff arm_value_iff arm_entry_bytes_def split: if_splits; blast)
next
  assume r: ?r
  show ?l
  proof (cases "bs = []")
    case True
    with r show ?thesis by (simp add: arm_attributes_loop.simps)
  next
    case False
    with r obtain tag v rest where s: "bs = arm_entry_bytes (tag, v) @ rest" "\<not> btree_contains vals tag"
      "arm_value_ok tag v" "arm_attributes_loop (btree_insert tag v vals) rest = Inr out"
      "length vals < MAX_VALUES" by auto
    have "arm_uleb bs = Inr (tag, arm_value_bytes v @ rest)"
      using s(1) by (simp add: arm_uleb_iff arm_entry_bytes_def)
    moreover have "arm_value tag (arm_value_bytes v @ rest) = Inr (v, rest)"
      using s(3) by (simp add: arm_value_iff)
    moreover have "tag \<noteq> 64" using s(3) no_defaults_not_ok by metis
    ultimately show ?thesis using s False by (simp add: arm_attributes_loop.simps)
  qed
qed

lemma arm_attributes_loop_sound:
  "arm_attributes_loop vals bs = Inr out \<Longrightarrow>
     \<exists>kvs. bs = arm_entries_bytes kvs \<and> distinct (map fst kvs) \<and>
       (\<forall>k\<in>set (map fst kvs). \<not> btree_contains vals k) \<and>
       (\<forall>kv\<in>set kvs. arm_value_ok (fst kv) (snd kv)) \<and>
       (kvs = [] \<or> length vals + length kvs \<le> MAX_VALUES) \<and> out = btree.insert_all kvs vals"
proof (induction bs arbitrary: vals rule: length_induct)
  case (1 bs)
  show ?case
  proof (cases "bs = []")
    case True
    with 1 show ?thesis by (intro exI [of _ "[]"]) (simp add: arm_attributes_step arm_entries_bytes_def)
  next
    case False
    then obtain tag v rest where s: "bs = arm_entry_bytes (tag, v) @ rest" "\<not> btree_contains vals tag"
      "arm_value_ok tag v" "arm_attributes_loop (btree_insert tag v vals) rest = Inr out"
      "length vals < MAX_VALUES"
      using 1(2) by (auto simp: arm_attributes_step [of vals])
    have "length rest < length bs" using s(1) by simp
    from 1(1) [rule_format, OF this s(4)] obtain kvs where k: "rest = arm_entries_bytes kvs"
      "distinct (map fst kvs)" "\<forall>k\<in>set (map fst kvs). \<not> btree_contains (btree_insert tag v vals) k"
      "\<forall>kv\<in>set kvs. arm_value_ok (fst kv) (snd kv)"
      "kvs = [] \<or> length (btree_insert tag v vals) + length kvs \<le> MAX_VALUES"
      "out = btree.insert_all kvs (btree_insert tag v vals)"
      by auto
    with s have "bs = arm_entries_bytes ((tag, v) # kvs)" by (simp add: arm_entries_bytes_def)
    moreover have "length vals + length ((tag, v) # kvs) \<le> MAX_VALUES"
      using k(5) s(2,5) by (auto simp: length_btree_insert_new)
    ultimately show ?thesis
      using k s(2,3) by (intro exI [of _ "(tag, v) # kvs"]) auto
  qed
qed

lemma arm_attributes_loop_complete:
  "distinct (map fst kvs) \<Longrightarrow> (\<forall>k\<in>set (map fst kvs). \<not> btree_contains vals k) \<Longrightarrow>
     (\<forall>kv\<in>set kvs. arm_value_ok (fst kv) (snd kv)) \<Longrightarrow> length vals + length kvs \<le> MAX_VALUES \<Longrightarrow>
     arm_attributes_loop vals (arm_entries_bytes kvs) = Inr (btree.insert_all kvs vals)"
proof (induction kvs arbitrary: vals)
  case Nil
  then show ?case by (simp add: arm_attributes_step arm_entries_bytes_def)
next
  case (Cons kv kvs)
  obtain tag v where kv: "kv = (tag, v)" by (cases kv)
  have "arm_attributes_loop (btree_insert tag v vals) (arm_entries_bytes kvs) =
      Inr (btree.insert_all kvs (btree_insert tag v vals))"
    using Cons.prems kv by (intro Cons.IH) (auto simp: length_btree_insert_new)
  moreover have "arm_entries_bytes (kv # kvs) = arm_entry_bytes (tag, v) @ arm_entries_bytes kvs"
    by (simp add: arm_entries_bytes_def kv)
  ultimately show ?case
    using Cons.prems kv by (subst arm_attributes_step) auto
qed

lemma arm_attributes_iff:
  "arm_attributes bs = Inr out \<longleftrightarrow>
     (\<exists>kvs. bs = arm_entries_bytes kvs \<and> arm_entries_ok kvs \<and> out = btree.insert_all kvs [])"
proof
  assume "arm_attributes bs = Inr out"
  from arm_attributes_loop_sound [OF this [unfolded arm_attributes_def]] obtain kvs where
    "bs = arm_entries_bytes kvs" "arm_entries_ok kvs" "out = btree.insert_all kvs []"
    by (auto simp: arm_entries_ok_def)
  then show "\<exists>kvs. bs = arm_entries_bytes kvs \<and> arm_entries_ok kvs \<and> out = btree.insert_all kvs []" by blast
next
  assume "\<exists>kvs. bs = arm_entries_bytes kvs \<and> arm_entries_ok kvs \<and> out = btree.insert_all kvs []"
  then show "arm_attributes bs = Inr out"
    using arm_attributes_loop_complete [of _ "[]"]
    by (auto simp: arm_attributes_def arm_entries_ok_def btree_contains_def)
qed

text \<open>The File scope appears exactly once.\<close>

lemma uleb_encode_one [simp]: "uleb_encode (Suc 0) = [1]"
  by (subst uleb_encode.simps) simp

lemma arm_file_bytes_not_Nil [simp]: "arm_file_bytes kvs \<noteq> []" "[] \<noteq> arm_file_bytes kvs"
  by (simp_all add: arm_file_bytes_def)

lemma arm_file_scope_step:
  "arm_file_scope_loop acc body = Inr out \<longleftrightarrow>
     (if body = [] then acc = Some out
      else \<exists>kvs rest. body = arm_file_bytes kvs @ rest \<and> 5 + length (arm_entries_bytes kvs) < 2 ^ 32 \<and>
        acc = None \<and> arm_entries_ok kvs \<and> arm_file_scope_loop (Some (btree.insert_all kvs [])) rest = Inr out)"
    (is "?l = ?r")
proof
  assume ?l then show ?r
    by (subst (asm) arm_file_scope_loop.simps)
      (auto simp: rbind_eq_Inr arm_uleb_iff attr_block_iff arm_attributes_iff arm_file_bytes_def Let_def
        split: if_splits; blast)
next
  assume r: ?r
  show ?l
  proof (cases "body = []")
    case True
    with r show ?thesis by (simp add: arm_file_scope_loop.simps)
  next
    case False
    with r obtain kvs rest where s: "body = arm_file_bytes kvs @ rest"
      "5 + length (arm_entries_bytes kvs) < 2 ^ 32" "acc = None" "arm_entries_ok kvs"
      "arm_file_scope_loop (Some (btree.insert_all kvs [])) rest = Inr out" by auto
    let ?blk = "block_bytes 1 (arm_entries_bytes kvs)"
    have "arm_uleb body = Inr (1, ?blk @ rest)" using s(1) by (simp add: arm_uleb_iff arm_file_bytes_def)
    moreover have "attr_block 1 (?blk @ rest) = Inr (?blk, rest)" using s(2) by (auto simp: attr_block_iff)
    moreover have "length body - length (?blk @ rest) = 1" using s(1) by (simp add: arm_file_bytes_def)
    moreover have "arm_attributes (drop 4 ?blk) = Inr (btree.insert_all kvs [])"
      using s(4) by (auto simp: arm_attributes_iff)
    ultimately show ?thesis using s(3,5) False by (subst arm_file_scope_loop.simps) simp
  qed
qed

lemma arm_file_scope_iff:
  "arm_file_scope body = Inr out \<longleftrightarrow>
     (\<exists>kvs. body = arm_file_bytes kvs \<and> 5 + length (arm_entries_bytes kvs) < 2 ^ 32 \<and>
        arm_entries_ok kvs \<and> out = btree.insert_all kvs [])"
proof -
  have "arm_file_scope_loop (Some m) rest = Inr out \<longleftrightarrow> rest = [] \<and> out = m" for m rest
    by (subst arm_file_scope_step) auto
  then show ?thesis
    unfolding arm_file_scope_def by (subst arm_file_scope_step) auto
qed

text \<open>Vendor blocks: any number of opaque ones, one \<open>aeabi\<close> block.\<close>

lemma arm_vendor_bytes_not_Nil [simp]: "arm_vendor_bytes nb \<noteq> []"
  by (simp add: arm_vendor_bytes_def)

lemma arm_decode_step:
  "arm_decode_loop names acc bs = Inr out \<longleftrightarrow>
     (if bs = [] then acc = Some out
      else \<exists>name body rest. bs = arm_vendor_bytes (name, body) @ rest \<and> ntbs_ok name \<and>
        5 + length name + length body < 2 ^ 32 \<and> name \<notin> set names \<and>
        (if name = ascii ''aeabi''
         then acc = None \<and> (\<exists>m. arm_file_scope body = Inr m \<and> arm_decode_loop (name # names) (Some m) rest = Inr out)
         else arm_decode_loop (name # names) acc rest = Inr out))"
    (is "?l = ?r")
proof
  assume ?l then show ?r
    by (subst (asm) arm_decode_loop.simps)
      (auto simp: rbind_eq_Inr arm_ntbs_iff attr_block_iff arm_vendor_bytes_def ntbs_ok_def split: if_splits; blast)
next
  assume r: ?r
  show ?l
  proof (cases "bs = []")
    case True
    with r show ?thesis by (simp add: arm_decode_loop.simps)
  next
    case False
    with r obtain name body rest where s: "bs = arm_vendor_bytes (name, body) @ rest" "ntbs_ok name"
      "5 + length name + length body < 2 ^ 32" "name \<notin> set names"
      "if name = ascii ''aeabi''
       then acc = None \<and> (\<exists>m. arm_file_scope body = Inr m \<and> arm_decode_loop (name # names) (Some m) rest = Inr out)
       else arm_decode_loop (name # names) acc rest = Inr out" by auto
    have "attr_block 0 bs = Inr (arm_vendor_bytes (name, body), rest)"
      unfolding attr_block_iff using s(1,3) by (intro exI [of _ "name @ 0 # body"]) (simp add: arm_vendor_bytes_def)
    moreover have "arm_ntbs (drop 4 (arm_vendor_bytes (name, body))) = Inr (name, body)"
      using s(2) by (simp add: arm_ntbs_iff arm_vendor_bytes_def ntbs_ok_def)
    ultimately show ?thesis using s(4,5) False by (subst arm_decode_loop.simps) (auto split: if_splits)
  qed
qed

text \<open>The vendor blocks of a section: distinct names that fit the string limit.\<close>

definition arm_vendors_ok :: "(bytes \<times> bytes) list \<Rightarrow> bool" where
  "arm_vendors_ok vendors = (distinct (map fst vendors) \<and> (\<forall>nb\<in>set vendors. ntbs_ok (fst nb)))"

definition arm_vendors_bytes :: "(bytes \<times> bytes) list \<Rightarrow> bytes" where
  "arm_vendors_bytes vendors = concat (map arm_vendor_bytes vendors)"

lemma arm_vendors_bytes_simps [simp]:
  "arm_vendors_bytes [] = []"
  "arm_vendors_bytes (nb # vendors) = arm_vendor_bytes nb @ arm_vendors_bytes vendors"
  by (simp_all add: arm_vendors_bytes_def)

lemma arm_vendors_ok_Cons:
  "arm_vendors_ok ((name, body) # vendors) \<longleftrightarrow> ntbs_ok name \<and> name \<notin> fst ` set vendors \<and> arm_vendors_ok vendors"
  by (auto simp: arm_vendors_ok_def)

text \<open>What the loop returns for a list of vendor blocks, given what it has already kept.\<close>

definition arm_vendors_result :: "ArmAttributes option \<Rightarrow> (bytes \<times> bytes) list \<Rightarrow> ArmAttributes \<Rightarrow> bool" where
  "arm_vendors_result acc vendors out =
     (case acc of
        Some m \<Rightarrow> ascii ''aeabi'' \<notin> fst ` set vendors \<and> out = m
      | None \<Rightarrow> (\<exists>body. (ascii ''aeabi'', body) \<in> set vendors \<and> arm_file_scope body = Inr out))"

lemma arm_vendors_result_Cons:
  assumes "name \<notin> fst ` set vendors"
  shows "arm_vendors_result acc ((name, body) # vendors) out \<longleftrightarrow>
     (if name = ascii ''aeabi''
      then acc = None \<and> (\<exists>m. arm_file_scope body = Inr m \<and> arm_vendors_result (Some m) vendors out)
      else arm_vendors_result acc vendors out)"
  using assms by (cases acc) (auto simp: arm_vendors_result_def intro: rev_image_eqI)

lemma arm_decode_loop_sound:
  "arm_decode_loop names acc bs = Inr out \<Longrightarrow>
     \<exists>vendors. bs = arm_vendors_bytes vendors \<and> arm_vendors_ok vendors \<and>
       fst ` set vendors \<inter> set names = {} \<and> arm_vendors_result acc vendors out"
proof (induction bs arbitrary: names acc rule: length_induct)
  case (1 bs)
  show ?case
  proof (cases "bs = []")
    case True
    with 1(2) show ?thesis
      by (intro exI [of _ "[]"]) (simp add: arm_decode_step arm_vendors_ok_def arm_vendors_result_def)
  next
    case False
    with arm_decode_step [THEN iffD1, OF 1(2)] obtain name body rest where
      s: "bs = arm_vendor_bytes (name, body) @ rest" "ntbs_ok name" "name \<notin> set names" and
      r: "if name = ascii ''aeabi''
        then acc = None \<and> (\<exists>m. arm_file_scope body = Inr m \<and> arm_decode_loop (name # names) (Some m) rest = Inr out)
        else arm_decode_loop (name # names) acc rest = Inr out"
      by auto
    then obtain acc' where a: "arm_decode_loop (name # names) acc' rest = Inr out"
      "if name = ascii ''aeabi'' then acc = None \<and> (\<exists>m. acc' = Some m \<and> arm_file_scope body = Inr m) else acc' = acc"
      by (cases "name = ascii ''aeabi''") auto
    have "length rest < length bs" using s(1) by simp
    from 1(1) [rule_format, OF this a(1)] obtain vendors where v: "rest = arm_vendors_bytes vendors"
      "arm_vendors_ok vendors" "fst ` set vendors \<inter> set (name # names) = {}" "arm_vendors_result acc' vendors out"
      by blast
    then have "arm_vendors_result acc ((name, body) # vendors) out"
      using a(2) by (subst arm_vendors_result_Cons) (auto split: if_splits)
    with s v show ?thesis
      by (intro exI [of _ "(name, body) # vendors"]) (auto simp: arm_vendors_ok_Cons)
  qed
qed

lemma arm_decode_loop_complete:
  "arm_vendors_ok vendors \<Longrightarrow> fst ` set vendors \<inter> set names = {} \<Longrightarrow>
     length (arm_vendors_bytes vendors) < 2 ^ 32 \<Longrightarrow> arm_vendors_result acc vendors out \<Longrightarrow>
     arm_decode_loop names acc (arm_vendors_bytes vendors) = Inr out"
proof (induction vendors arbitrary: names acc)
  case Nil
  then show ?case by (simp add: arm_decode_step arm_vendors_result_def split: option.splits)
next
  case (Cons nb vendors)
  obtain name body where nb: "nb = (name, body)" by (cases nb)
  with Cons.prems have ok: "ntbs_ok name" "name \<notin> fst ` set vendors" "arm_vendors_ok vendors" "name \<notin> set names"
    by (auto simp: arm_vendors_ok_Cons)
  have IH: "arm_decode_loop (name # names) acc' (arm_vendors_bytes vendors) = Inr out"
    if "arm_vendors_result acc' vendors out" for acc'
    using that Cons.prems ok nb by (intro Cons.IH) auto
  have size: "5 + length name + length body < 2 ^ 32"
    using Cons.prems(3) by (simp add: nb arm_vendor_bytes_def)
  have "\<exists>name' body' rest. arm_vendors_bytes (nb # vendors) = arm_vendor_bytes (name', body') @ rest \<and>
      ntbs_ok name' \<and> 5 + length name' + length body' < 2 ^ 32 \<and> name' \<notin> set names \<and>
      (if name' = ascii ''aeabi''
       then acc = None \<and> (\<exists>m. arm_file_scope body' = Inr m \<and> arm_decode_loop (name' # names) (Some m) rest = Inr out)
       else arm_decode_loop (name' # names) acc rest = Inr out)"
    using Cons.prems(4) ok IH size
    by (intro exI [of _ name] exI [of _ body] exI [of _ "arm_vendors_bytes vendors"])
      (auto simp: nb arm_vendors_result_Cons split: if_splits)
  then show ?case by (subst arm_decode_step) simp
qed

lemma arm_decode_exact:
  "arm_decode bs = Inr out \<longleftrightarrow>
     (\<exists>vendors kvs. bs = 0x41 # arm_vendors_bytes vendors \<and> length bs \<le> 65536 \<and> arm_vendors_ok vendors \<and>
        (ascii ''aeabi'', arm_file_bytes kvs) \<in> set vendors \<and> arm_entries_ok kvs \<and>
        btree_wf out \<and> map_of out = map_of kvs)"
proof
  assume "arm_decode bs = Inr out"
  then have d: "length bs \<le> 65536" "bs = 0x41 # drop 1 bs" "arm_decode_loop [] None (drop 1 bs) = Inr out"
    by (cases bs; auto simp: arm_decode_def arm_constants split: if_splits)+
  from arm_decode_loop_sound [OF d(3)] obtain vendors body where v: "drop 1 bs = arm_vendors_bytes vendors"
    "arm_vendors_ok vendors" "(ascii ''aeabi'', body) \<in> set vendors" "arm_file_scope body = Inr out"
    by (auto simp: arm_vendors_result_def)
  then obtain kvs where k: "body = arm_file_bytes kvs" "arm_entries_ok kvs" "out = btree.insert_all kvs []"
    by (auto simp: arm_file_scope_iff)
  then have "btree_wf out" "map_of out = map_of kvs"
    using btree.wf_insert_all [of "[]" kvs] btree.get_insert_all_distinct [of kvs]
    by (auto simp: arm_entries_ok_def btree_get_def fun_eq_iff)
  with d v k show "\<exists>vendors kvs. bs = 0x41 # arm_vendors_bytes vendors \<and> length bs \<le> 65536 \<and>
      arm_vendors_ok vendors \<and> (ascii ''aeabi'', arm_file_bytes kvs) \<in> set vendors \<and> arm_entries_ok kvs \<and>
      btree_wf out \<and> map_of out = map_of kvs"
    by (intro exI [of _ vendors] exI [of _ kvs]) auto
next
  assume "\<exists>vendors kvs. bs = 0x41 # arm_vendors_bytes vendors \<and> length bs \<le> 65536 \<and>
      arm_vendors_ok vendors \<and> (ascii ''aeabi'', arm_file_bytes kvs) \<in> set vendors \<and> arm_entries_ok kvs \<and>
      btree_wf out \<and> map_of out = map_of kvs"
  then obtain vendors kvs where k: "bs = 0x41 # arm_vendors_bytes vendors" "length bs \<le> 65536"
    "arm_vendors_ok vendors" "(ascii ''aeabi'', arm_file_bytes kvs) \<in> set vendors" "arm_entries_ok kvs"
    "btree_wf out" "map_of out = map_of kvs" by blast
  have "out = btree.insert_all kvs []"
    using k btree.wf_insert_all [of "[]" kvs] btree.get_insert_all_distinct [of kvs]
    by (intro btree.entries_unique) (auto simp: arm_entries_ok_def btree_get_def fun_eq_iff)
  moreover have "length (arm_file_bytes kvs) \<le> length (arm_vendors_bytes vendors)"
    using k(4) unfolding arm_vendors_bytes_def
    by (induction vendors) (auto simp: arm_vendor_bytes_def)
  ultimately have "arm_file_scope (arm_file_bytes kvs) = Inr out"
    using k by (auto simp: arm_file_scope_iff arm_file_bytes_def)
  with k(4) have "arm_vendors_result None vendors out" by (auto simp: arm_vendors_result_def)
  then show "arm_decode bs = Inr out"
    using k arm_decode_loop_complete [of vendors "[]" None out] by (simp add: arm_decode_def arm_constants)
qed

section \<open>Properties\<close>

text \<open>
  C7. The ARM decoder accepts exactly the sections the ABI grammar describes: the format
  byte, then length-framed vendor blocks with distinct names, of which the \<open>aeabi\<close> block is
  one File scope of canonically encoded entries with distinct tags, each tag carrying the
  kind of value its class prescribes; the map returned holds exactly those entries.
\<close>

theorem arm_decode_accepts_exactly:
  "arm_decode bs = Inr out \<longleftrightarrow>
     (\<exists>vendors kvs. bs = 0x41 # arm_vendors_bytes vendors \<and> length bs \<le> 65536 \<and> arm_vendors_ok vendors \<and>
        (ascii ''aeabi'', arm_file_bytes kvs) \<in> set vendors \<and> arm_entries_ok kvs \<and>
        btree_wf out \<and> map_of out = map_of kvs)"
  by (rule arm_decode_exact)

text \<open>
  C8. On a decoded attribute set \<open>integer\<close> answers every tag of an integer class, with the
  decoded value or the ABI default zero, and refuses every other tag by class: the decoder
  never leaves a string under a tag that consumers read as an integer.
\<close>

theorem arm_integer_total:
  assumes "arm_decode bs = Inr vals"
  shows "arm_integer vals tag =
    (if arm_integer_tag tag
     then Inr (case map_of vals tag of Some (ArmInteger n) \<Rightarrow> n | _ \<Rightarrow> 0)
     else Inl (AttrNoIntegerEncoding tag))"
proof -
  from assms obtain kvs where k: "arm_entries_ok kvs" "map_of vals = map_of kvs"
    by (auto simp: arm_decode_exact)
  have "\<exists>n. v = ArmInteger n" if "arm_integer_tag tag" "map_of vals tag = Some v" for v
  proof -
    have "arm_value_ok tag v" using that(2) k by (auto simp: arm_entries_ok_def dest: map_of_SomeD)
    then show ?thesis
      using that(1) not_integer_and_string [of tag] compatibility_tag_only by (cases v) auto
  qed
  then show ?thesis
    by (fastforce simp: arm_integer_def arm_integer_tag_def [symmetric] btree_get_def split: option.splits ArmValue.splits)
qed

text \<open>A section with a processor name and an architecture, and its answers.\<close>

definition arm_sample :: bytes where
  "arm_sample =
     [0x41, 20, 0, 0, 0] @ ascii ''aeabi'' @ [0, 1, 10, 0, 0, 0, 5, 0x78, 0, 6, 10]"

lemma arm_sample_decodes: "arm_decode arm_sample = Inr [(5, ArmString [0x78]), (6, ArmInteger 10)]"
  by code_simp

theorem arm_integer_total_witness:
  "arm_integer [(5, ArmString [0x78]), (6, ArmInteger 10)] 6 = Inr 10 \<and>
   arm_integer [(5, ArmString [0x78]), (6, ArmInteger 10)] 7 = Inr 0 \<and>
   arm_integer [(5, ArmString [0x78]), (6, ArmInteger 10)] 5 = Inl (AttrNoIntegerEncoding 5)"
  using arm_integer_total [OF arm_sample_decodes, of 6] arm_integer_total [OF arm_sample_decodes, of 7]
    arm_integer_total [OF arm_sample_decodes, of 5]
  by (simp add: arm_integer_tag_def is_known_integer_tag_def)

end
