(* ===== verification/Board_Dhcp.thy ===== *)
theory Board_Dhcp
  imports Rust_Str
begin

unbundle bit_operations_syntax

text \<open>
  The restricted DHCPv4 service of \<open>crates/aros-board/src/dhcp.rs\<close>: one client, one lease, one
  interface. Modelled are the configuration check, the interface identity check over the
  records the operating system reports, the packet and option parsers, the reply policy and
  the reply itself, and the service loop as a function of the events it waits for.
\<close>

section \<open>Constants and data\<close>

definition DHCP_SERVER_PORT :: u16 where "DHCP_SERVER_PORT = 67"
definition DHCP_CLIENT_PORT :: u16 where "DHCP_CLIENT_PORT = 68"
definition BOOTP_HEADER_LEN :: usize where "BOOTP_HEADER_LEN = 236"
definition DHCP_FIXED_LEN :: usize where "DHCP_FIXED_LEN = BOOTP_HEADER_LEN + 4"
definition MAX_DHCP_PACKET_LEN :: usize where "MAX_DHCP_PACKET_LEN = 4096"
definition DHCP_MAGIC_COOKIE :: bytes where "DHCP_MAGIC_COOKIE = [99, 130, 83, 99]"
definition OPTION_SUBNET_MASK :: u8 where "OPTION_SUBNET_MASK = 1"
definition OPTION_REQUESTED_IP :: u8 where "OPTION_REQUESTED_IP = 50"
definition OPTION_LEASE_TIME :: u8 where "OPTION_LEASE_TIME = 51"
definition OPTION_MESSAGE_TYPE :: u8 where "OPTION_MESSAGE_TYPE = 53"
definition OPTION_SERVER_IDENTIFIER :: u8 where "OPTION_SERVER_IDENTIFIER = 54"
definition OPTION_PAD :: u8 where "OPTION_PAD = 0"
definition OPTION_END :: u8 where "OPTION_END = 255"

lemmas dhcp_constants =
  DHCP_SERVER_PORT_def DHCP_CLIENT_PORT_def BOOTP_HEADER_LEN_def DHCP_FIXED_LEN_def MAX_DHCP_PACKET_LEN_def
  DHCP_MAGIC_COOKIE_def OPTION_SUBNET_MASK_def OPTION_REQUESTED_IP_def OPTION_LEASE_TIME_def
  OPTION_MESSAGE_TYPE_def OPTION_SERVER_IDENTIFIER_def OPTION_PAD_def OPTION_END_def

datatype Ipv4Addr = Ipv4Addr u8 u8 u8 u8

fun octets :: "Ipv4Addr \<Rightarrow> bytes" where
  "octets (Ipv4Addr a b c d) = [a, b, c, d]"

text \<open>\<open>Ipv4Addr::from\<close> on four octets.\<close>

definition ipv4_from_octets :: "bytes \<Rightarrow> Ipv4Addr" where
  "ipv4_from_octets bs = Ipv4Addr (bs ! 0) (bs ! 1) (bs ! 2) (bs ! 3)"

definition is_unspecified :: "Ipv4Addr \<Rightarrow> bool" where
  "is_unspecified a = (octets a = [0, 0, 0, 0])"

definition is_multicast :: "Ipv4Addr \<Rightarrow> bool" where
  "is_multicast a = (224 \<le> octets a ! 0 \<and> octets a ! 0 \<le> 239)"

definition ipv4_to_u32 :: "Ipv4Addr \<Rightarrow> u32" where
  "ipv4_to_u32 a = u32_from_be (octets a)"

record SocketAddrV4 =
  sa_ip :: Ipv4Addr
  sa_port :: u16

text \<open>The index is a \<open>NonZeroU32\<close>; \<open>DhcpInterface::new\<close> checks the name.\<close>

record DhcpInterface =
  if_name :: rstring
  if_index :: u32

record DhcpConfig =
  server_address :: Ipv4Addr
  target_address :: Ipv4Addr
  expected_client_mac :: bytes
  subnet_mask :: Ipv4Addr
  lease_seconds :: u32

record LocalInterface =
  li_name :: rstring
  li_index :: "u32 option"
  li_ipv4_address :: "Ipv4Addr option"

datatype dhcp_error =
    NotUnicast Ipv4Addr
  | SameAddresses
  | ZeroMac
  | MulticastMac
  | ZeroLease
  | BadMask
  | TargetOutsideSubnet
  | ServerNotHost
  | TargetNotHost
  | BadInterfaceName
  | EnumerationFailed
  | NoUsableIndex
  | InterfaceMissing
  | InterfaceAmbiguous
  | InterfaceChanged
  | OwnerWithoutIndex
  | AddressNotAssigned
  | AddressShared
  | BindFailed
  | ReceiveFailed
  | EventLogFailed

section \<open>Configuration\<close>

definition validate_concrete_unicast :: "Ipv4Addr \<Rightarrow> (dhcp_error, unit) result" where
  "validate_concrete_unicast a =
     ensure (\<not> (is_unspecified a \<or> is_multicast a \<or> octets a = [255, 255, 255, 255])) (NotUnicast a) (Inr ())"

text \<open>\<open>u32::leading_ones\<close>.\<close>

definition leading_ones :: "u32 \<Rightarrow> nat" where
  "leading_ones w = length (takeWhile (\<lambda>n. bit w n) (rev [0..<32]))"

definition canonical_mask :: "nat \<Rightarrow> u32" where
  "canonical_mask prefix_len = (if prefix_len = 0 then 0 else push_bit (32 - prefix_len) (- 1))"

definition config_validate :: "DhcpConfig \<Rightarrow> (dhcp_error, unit) result" where
  "config_validate c =
     rbind (validate_concrete_unicast (server_address c)) (\<lambda>_.
     rbind (validate_concrete_unicast (target_address c)) (\<lambda>_.
     ensure (server_address c \<noteq> target_address c) SameAddresses
     (ensure (expected_client_mac c \<noteq> [0, 0, 0, 0, 0, 0]) ZeroMac
     (ensure (expected_client_mac c ! 0 AND 1 = 0) MulticastMac
     (ensure (lease_seconds c \<noteq> 0) ZeroLease
     (let mask = ipv4_to_u32 (subnet_mask c); prefix_len = leading_ones mask
      in ensure (mask = canonical_mask prefix_len \<and> 1 \<le> prefix_len \<and> prefix_len \<le> 30) BadMask
        (let server = ipv4_to_u32 (server_address c); target = ipv4_to_u32 (target_address c);
             network = server AND mask; broadcast = network OR NOT mask
         in ensure (target AND mask = network) TargetOutsideSubnet
           (ensure (server \<noteq> network \<and> server \<noteq> broadcast) ServerNotHost
           (ensure (target \<noteq> network \<and> target \<noteq> broadcast) TargetNotHost (Inr ()))))))))))"

definition broadcast_destination :: "DhcpConfig \<Rightarrow> SocketAddrV4" where
  "broadcast_destination c =
     (let server = ipv4_to_u32 (server_address c); mask = ipv4_to_u32 (subnet_mask c);
          broadcast = (server AND mask) OR NOT mask
      in \<lparr>sa_ip = ipv4_from_octets (u32_to_be broadcast), sa_port = DHCP_CLIENT_PORT\<rparr>)"

section \<open>Interface identity\<close>

definition validate_interface_name :: "rstring \<Rightarrow> (dhcp_error, unit) result" where
  "validate_interface_name name = ensure (name \<noteq> [] \<and> 0 \<notin> set name) BadInterfaceName (Inr ())"

text \<open>\<open>interface.index.and_then(NonZeroU32::new)\<close>.\<close>

definition usable_index :: "LocalInterface \<Rightarrow> u32 option" where
  "usable_index li = (case li_index li of Some i \<Rightarrow> if i = 0 then None else Some i | None \<Rightarrow> None)"

text \<open>
  The loops that collect into a \<open>BTreeSet\<close>, of which only the size, membership and the single
  element are used: the error of the first record without a usable index ends the loop.
\<close>

fun collect_set :: "('a \<Rightarrow> 'b option) \<Rightarrow> dhcp_error \<Rightarrow> 'a list \<Rightarrow> 'b list \<Rightarrow> (dhcp_error, 'b list) result" where
  "collect_set f e [] acc = Inr acc"
| "collect_set f e (x # xs) acc = rbind (ok_or (f x) e) (\<lambda>y. collect_set f e xs (List.insert y acc))"

definition index_for_name :: "LocalInterface list \<Rightarrow> rstring \<Rightarrow> (dhcp_error, u32) result" where
  "index_for_name interfaces name =
     rbind (collect_set usable_index NoUsableIndex (filter (\<lambda>i. li_name i = name) interfaces) []) (\<lambda>indexes.
       case indexes of
         [] \<Rightarrow> Inl InterfaceMissing
       | [index] \<Rightarrow> Inr index
       | _ \<Rightarrow> Inl InterfaceAmbiguous)"

definition interface_new :: "rstring \<Rightarrow> u32 \<Rightarrow> (dhcp_error, DhcpInterface) result" where
  "interface_new name index =
     rbind (validate_interface_name name) (\<lambda>_. Inr \<lparr>if_name = name, if_index = index\<rparr>)"

text \<open>\<open>DhcpInterface::resolve\<close>, over the records of \<open>local_interfaces\<close>.\<close>

definition interface_resolve ::
  "(dhcp_error, LocalInterface list) result \<Rightarrow> rstring \<Rightarrow> (dhcp_error, DhcpInterface) result" where
  "interface_resolve local_interfaces name =
     rbind (validate_interface_name name) (\<lambda>_.
     rbind local_interfaces (\<lambda>interfaces.
     rbind (index_for_name interfaces name) (\<lambda>index.
       interface_new name index)))"

definition validate_interface_in_records ::
  "LocalInterface list \<Rightarrow> DhcpInterface \<Rightarrow> Ipv4Addr \<Rightarrow> (dhcp_error, unit) result" where
  "validate_interface_in_records interfaces interface address =
     rbind (index_for_name interfaces (if_name interface)) (\<lambda>current_index.
     ensure (current_index = if_index interface) InterfaceChanged
     (rbind (collect_set (\<lambda>o'. map_option (Pair (li_name o')) (usable_index o')) OwnerWithoutIndex
               (filter (\<lambda>o'. li_ipv4_address o' = Some address) interfaces) []) (\<lambda>owners.
     ensure ((if_name interface, if_index interface) \<in> set owners) AddressNotAssigned
     (ensure (length owners = 1) AddressShared (Inr ())))))"

definition validate_current_interface ::
  "(dhcp_error, LocalInterface list) result \<Rightarrow> DhcpInterface \<Rightarrow> Ipv4Addr \<Rightarrow> (dhcp_error, unit) result" where
  "validate_current_interface local_interfaces interface address =
     rbind local_interfaces (\<lambda>interfaces. validate_interface_in_records interfaces interface address)"

section \<open>Requests\<close>

datatype DhcpMessageType = Discover | Offer | Request | Ack

definition message_type_from_option :: "u8 \<Rightarrow> DhcpMessageType option" where
  "message_type_from_option v =
     (if v = 1 then Some Discover else if v = 2 then Some Offer else if v = 3 then Some Request
      else if v = 5 then Some Ack else None)"

text \<open>The discriminants of the enum (\<open>response_type as u8\<close>).\<close>

fun message_type_code :: "DhcpMessageType \<Rightarrow> u8" where
  "message_type_code Discover = 1"
| "message_type_code Offer = 2"
| "message_type_code Request = 3"
| "message_type_code Ack = 5"

record DhcpRequest =
  transaction_id :: bytes
  seconds_elapsed :: bytes
  rq_flags :: bytes
  client_address :: Ipv4Addr
  relay_address :: Ipv4Addr
  client_mac :: bytes
  rq_message_type :: DhcpMessageType
  rq_requested_address :: "Ipv4Addr option"
  rq_server_identifier :: "Ipv4Addr option"

record DhcpOptions =
  op_message_type :: "DhcpMessageType option"
  op_requested_address :: "Ipv4Addr option"
  op_server_identifier :: "Ipv4Addr option"

definition options_default :: DhcpOptions where
  "options_default = \<lparr>op_message_type = None, op_requested_address = None, op_server_identifier = None\<rparr>"

definition ipv4_from_option :: "bytes \<Rightarrow> Ipv4Addr option" where
  "ipv4_from_option value = (if length value = 4 then Some (ipv4_from_octets value) else None)"

definition ipv4_from_packet :: "bytes \<Rightarrow> usize \<Rightarrow> Ipv4Addr" where
  "ipv4_from_packet packet offset =
     Ipv4Addr (packet ! offset) (packet ! (offset + 1)) (packet ! (offset + 2)) (packet ! (offset + 3))"

text \<open>The second \<open>match code\<close> of \<open>parse_options\<close>: what one option does to the fields.\<close>

definition apply_option :: "u8 \<Rightarrow> bytes \<Rightarrow> DhcpOptions \<Rightarrow> DhcpOptions option" where
  "apply_option code value options =
     (if code = OPTION_MESSAGE_TYPE then
        (if length value \<noteq> 1 \<or> op_message_type options \<noteq> None then None
         else map_option (\<lambda>t. options\<lparr>op_message_type := Some t\<rparr>) (message_type_from_option (value ! 0)))
      else if code = OPTION_REQUESTED_IP then
        (if op_requested_address options \<noteq> None then None
         else map_option (\<lambda>a. options\<lparr>op_requested_address := Some a\<rparr>) (ipv4_from_option value))
      else if code = OPTION_SERVER_IDENTIFIER then
        (if op_server_identifier options \<noteq> None then None
         else map_option (\<lambda>a. options\<lparr>op_server_identifier := Some a\<rparr>) (ipv4_from_option value))
      else Some options)"

text \<open>The loop of \<open>parse_options\<close> on the bytes from the current offset on.\<close>

function parse_options_loop :: "DhcpOptions \<Rightarrow> bytes \<Rightarrow> DhcpOptions option" where
  "parse_options_loop options [] = None"
| "parse_options_loop options (code # rest) =
     (if code = OPTION_PAD then parse_options_loop options rest
      else if code = OPTION_END then Some options
      else case rest of
          [] \<Rightarrow> None
        | value_len # rest' \<Rightarrow>
            (case get_range rest' 0 (unat value_len) of
               None \<Rightarrow> None
             | Some value \<Rightarrow>
                 (case apply_option code value options of
                    None \<Rightarrow> None
                  | Some options' \<Rightarrow> parse_options_loop options' (drop (unat value_len) rest'))))"
  by pat_completeness auto
termination by (relation "measure (\<lambda>(options, packet). length packet)") auto

definition parse_options :: "bytes \<Rightarrow> DhcpOptions option" where
  "parse_options packet = parse_options_loop options_default packet"

definition slice :: "'a list \<Rightarrow> usize \<Rightarrow> usize \<Rightarrow> 'a list" where
  "slice xs a b = take (b - a) (drop a xs)"

definition request_parse :: "bytes \<Rightarrow> DhcpRequest option" where
  "request_parse packet =
     (if length packet < DHCP_FIXED_LEN \<or> packet ! 0 \<noteq> 1 \<or> packet ! 1 \<noteq> 1 \<or> packet ! 2 \<noteq> 6 \<or>
         slice packet BOOTP_HEADER_LEN DHCP_FIXED_LEN \<noteq> DHCP_MAGIC_COOKIE
      then None
      else Option.bind (parse_options (drop DHCP_FIXED_LEN packet)) (\<lambda>options.
           Option.bind (op_message_type options) (\<lambda>message_type.
             Some \<lparr>transaction_id = slice packet 4 8, seconds_elapsed = slice packet 8 10,
                   rq_flags = slice packet 10 12, client_address = ipv4_from_packet packet 12,
                   relay_address = ipv4_from_packet packet 24, client_mac = slice packet 28 34,
                   rq_message_type = message_type, rq_requested_address = op_requested_address options,
                   rq_server_identifier = op_server_identifier options\<rparr>)))"

section \<open>Responses\<close>

definition response_type_for :: "DhcpRequest \<Rightarrow> DhcpConfig \<Rightarrow> DhcpMessageType option" where
  "response_type_for request config =
     (if \<not> is_unspecified (relay_address request) then None
      else if (case rq_server_identifier request of Some i \<Rightarrow> i \<noteq> server_address config | None \<Rightarrow> False) then None
      else case rq_message_type request of
          Discover \<Rightarrow> Some Offer
        | Request \<Rightarrow>
            Option.bind
              (case rq_requested_address request of
                 Some a \<Rightarrow> Some a
               | None \<Rightarrow> if \<not> is_unspecified (client_address request) then Some (client_address request) else None)
              (\<lambda>requested. if requested = target_address config then Some Ack else None)
        | Offer \<Rightarrow> None
        | Ack \<Rightarrow> None)"

text \<open>\<open>response[a..b].copy_from_slice(src)\<close>.\<close>

definition copy_from_slice :: "bytes \<Rightarrow> usize \<Rightarrow> bytes \<Rightarrow> bytes" where
  "copy_from_slice buf a src = take a buf @ src @ drop (a + length src) buf"

definition build_response :: "DhcpRequest \<Rightarrow> DhcpConfig \<Rightarrow> DhcpMessageType \<Rightarrow> bytes" where
  "build_response request config response_type =
     (let r = replicate DHCP_FIXED_LEN 0;
          r = r[0 := 2]; r = r[1 := 1]; r = r[2 := 6];
          r = copy_from_slice r 4 (transaction_id request);
          r = copy_from_slice r 8 (seconds_elapsed request);
          r = copy_from_slice r 10 (rq_flags request);
          r = copy_from_slice r 16 (octets (target_address config));
          r = copy_from_slice r 20 (octets (server_address config));
          r = copy_from_slice r 28 (client_mac request);
          r = copy_from_slice r BOOTP_HEADER_LEN DHCP_MAGIC_COOKIE
      in r @ [OPTION_MESSAGE_TYPE, 1, message_type_code response_type]
           @ [OPTION_SERVER_IDENTIFIER, 4] @ octets (server_address config)
           @ [OPTION_SUBNET_MASK, 4] @ octets (subnet_mask config)
           @ [OPTION_LEASE_TIME, 4] @ u32_to_be (lease_seconds config)
           @ [OPTION_END])"

definition response_for :: "DhcpRequest \<Rightarrow> DhcpConfig \<Rightarrow> bytes option" where
  "response_for request config =
     (if client_mac request \<noteq> expected_client_mac config then None
      else Option.bind (response_type_for request config) (\<lambda>response_type.
        Some (build_response request config response_type)))"

section \<open>The service\<close>

text \<open>
  What the loop of \<open>serve_with_interface\<close> waits for: a change of the shutdown channel (the
  flag says that the channel closed or holds \<open>true\<close>), a failed receive, or a datagram with
  its sender's port, whether sending a reply to it would succeed and whether a warning
  could be logged. The receive buffer holds 4096 bytes.
\<close>

datatype serve_event =
    ShutdownChanged bool
  | RecvError
  | Datagram (contents: bytes) (peer_port: u16) (send_ok: bool) (log_ok: bool)

text \<open>The replies sent, and how the loop ended; \<open>None\<close> while it is waiting for the next event.\<close>

type_synonym serve_outcome = "(bytes \<times> SocketAddrV4) list \<times> (dhcp_error, unit) result option"

definition also_sent :: "bytes \<times> SocketAddrV4 \<Rightarrow> serve_outcome \<Rightarrow> serve_outcome" where
  "also_sent m out = (m # fst out, snd out)"

definition reply_to :: "DhcpConfig \<Rightarrow> serve_event \<Rightarrow> bytes option" where
  "reply_to config event =
     (case event of
        Datagram packet port _ _ \<Rightarrow>
          (if port \<noteq> DHCP_CLIENT_PORT then None
           else Option.bind (request_parse (take MAX_DHCP_PACKET_LEN packet)) (\<lambda>request. response_for request config))
      | _ \<Rightarrow> None)"

fun serve_loop :: "DhcpConfig \<Rightarrow> serve_event list \<Rightarrow> serve_outcome" where
  "serve_loop config [] = ([], None)"
| "serve_loop config (ShutdownChanged stop # events) =
     (if stop then ([], Some (Inr ())) else serve_loop config events)"
| "serve_loop config (RecvError # events) = ([], Some (Inl ReceiveFailed))"
| "serve_loop config (Datagram packet port send log # events) =
     (case reply_to config (Datagram packet port send log) of
        None \<Rightarrow> serve_loop config events
      | Some response \<Rightarrow>
          also_sent (response, broadcast_destination config)
            (if send \<or> log then serve_loop config events else ([], Some (Inl EventLogFailed))))"

text \<open>
  What the host gives the service: the interface records, whether the socket could be created,
  bound to the device and the address and registered, whether the start could be logged, and
  whether shutdown was already requested.
\<close>

record Host =
  host_interfaces :: "(dhcp_error, LocalInterface list) result"
  host_bind_ok :: bool
  host_broadcast_ok :: bool
  host_log_ok :: bool
  host_shutdown :: bool

record serve_run =
  run_socket :: "(SocketAddrV4 \<times> DhcpInterface) option"
  run_outcome :: serve_outcome

definition not_started :: "dhcp_error \<Rightarrow> serve_run" where
  "not_started e = \<lparr>run_socket = None, run_outcome = ([], Some (Inl e))\<rparr>"

definition serve_with_interface ::
  "Host \<Rightarrow> DhcpConfig \<Rightarrow> DhcpInterface \<Rightarrow> serve_event list \<Rightarrow> serve_run" where
  "serve_with_interface host config interface events =
     (case validate_current_interface (host_interfaces host) interface (server_address config) of
        Inl e \<Rightarrow> not_started e
      | Inr _ \<Rightarrow>
          (let bind_address = \<lparr>sa_ip = server_address config, sa_port = DHCP_SERVER_PORT\<rparr>
           in if \<not> host_bind_ok host then not_started BindFailed
              else \<lparr>run_socket = Some (bind_address, interface),
                    run_outcome =
                      (if \<not> host_broadcast_ok host then ([], Some (Inl BindFailed))
                       else if \<not> host_log_ok host then ([], Some (Inl EventLogFailed))
                       else if host_shutdown host then ([], Some (Inr ()))
                       else serve_loop config events)\<rparr>))"

definition serve_on_interface ::
  "Host \<Rightarrow> DhcpConfig \<Rightarrow> DhcpInterface \<Rightarrow> serve_event list \<Rightarrow> serve_run" where
  "serve_on_interface host config interface events =
     (case config_validate config of
        Inl e \<Rightarrow> not_started e
      | Inr _ \<Rightarrow> serve_with_interface host config interface events)"

definition serve_on_named_interface ::
  "Host \<Rightarrow> (dhcp_error, LocalInterface list) result \<Rightarrow> DhcpConfig \<Rightarrow> rstring \<Rightarrow> serve_event list \<Rightarrow> serve_run" where
  "serve_on_named_interface host interfaces_at_resolve config name events =
     (case interface_resolve interfaces_at_resolve name of
        Inl e \<Rightarrow> not_started e
      | Inr interface \<Rightarrow> serve_on_interface host config interface events)"

section \<open>The layout of a reply\<close>

lemma copy_from_slice_skip:
  "length p \<le> a \<Longrightarrow> copy_from_slice (p @ r) a src = p @ copy_from_slice r (a - length p) src"
  by (simp add: copy_from_slice_def)

lemma copy_from_slice_here: "length old = length src \<Longrightarrow> copy_from_slice (old @ r) 0 src = src @ r"
  by (simp add: copy_from_slice_def)

text \<open>The zeroed header, cut at the fields.\<close>

definition zeros :: "nat \<Rightarrow> bytes" where
  "zeros n = replicate n 0"

lemma length_zeros [simp]: "length (zeros n) = n"
  by (simp add: zeros_def)

lemma blank_header:
  "((replicate 240 0)[0 := 2, 1 := 1, 2 := 6]) =
     [2, 1, 6, 0] @ zeros 4 @ zeros 2 @ zeros 2 @ zeros 4 @ zeros 4 @ zeros 4 @ zeros 4 @ zeros 6 @ zeros 202 @ zeros 4"
proof -
  have "replicate 240 (0 :: u8) = replicate 4 0 @ replicate 236 0" by (simp flip: replicate_add)
  moreover have "replicate 236 (0 :: u8) =
      zeros 4 @ zeros 2 @ zeros 2 @ zeros 4 @ zeros 4 @ zeros 4 @ zeros 4 @ zeros 6 @ zeros 202 @ zeros 4"
    by (simp add: zeros_def flip: replicate_add)
  moreover have "replicate 4 (0 :: u8) = [0, 0, 0, 0]" by (simp add: numeral_eq_Suc)
  ultimately show ?thesis by simp
qed

definition request_sized :: "DhcpRequest \<Rightarrow> bool" where
  "request_sized rq =
     (length (transaction_id rq) = 4 \<and> length (seconds_elapsed rq) = 2 \<and> length (rq_flags rq) = 2 \<and>
      length (client_mac rq) = 6)"

lemma length_octets [simp]: "length (octets a) = 4"
  by (cases a) simp

lemma request_parse_sized: "request_parse packet = Some rq \<Longrightarrow> request_sized rq"
  by (auto simp: request_parse_def request_sized_def slice_def dhcp_constants split: if_splits bind_splits)

lemma build_response_layout:
  assumes "request_sized rq"
  shows "build_response rq config t =
    [2, 1, 6, 0] @ transaction_id rq @ seconds_elapsed rq @ rq_flags rq @ zeros 4 @
    octets (target_address config) @ octets (server_address config) @ zeros 4 @ client_mac rq @ zeros 202 @
    [99, 130, 83, 99] @ [53, 1, message_type_code t] @ [54, 4] @ octets (server_address config) @
    [1, 4] @ octets (subnet_mask config) @ [51, 4] @ u32_to_be (lease_seconds config) @ [255]"
proof -
  have "length [2, 1, 6, 0 :: u8] = 4" by simp
  with assms [unfolded request_sized_def] show ?thesis
    by (simp add: build_response_def Let_def dhcp_constants blank_header [unfolded One_nat_def] copy_from_slice_skip copy_from_slice_here
        copy_from_slice_here [where r = "[]", simplified]
        del: append_Cons)
qed

section \<open>The option grammar\<close>

fun option_bytes :: "u8 \<times> bytes \<Rightarrow> bytes" where
  "option_bytes (code, value) = code # of_nat (length value) # value"

definition option_ok :: "u8 \<times> bytes \<Rightarrow> bool" where
  "option_ok ov = (fst ov \<noteq> OPTION_PAD \<and> fst ov \<noteq> OPTION_END \<and> length (snd ov) < 256)"

fun apply_options :: "(u8 \<times> bytes) list \<Rightarrow> DhcpOptions \<Rightarrow> DhcpOptions option" where
  "apply_options [] options = Some options"
| "apply_options ((code, value) # rest) options =
     Option.bind (apply_option code value options) (apply_options rest)"

text \<open>An option field: options and padding in any order, closed by the end option.\<close>

inductive option_field :: "bytes \<Rightarrow> (u8 \<times> bytes) list \<Rightarrow> bool" where
  field_end: "option_field (OPTION_END # junk) []"
| field_pad: "option_field bs opts \<Longrightarrow> option_field (OPTION_PAD # bs) opts"
| field_option: "option_ok ov \<Longrightarrow> option_field bs opts \<Longrightarrow> option_field (option_bytes ov @ bs) (ov # opts)"

lemma parse_options_field:
  "option_field bs opts \<Longrightarrow> parse_options_loop options bs = apply_options opts options"
proof (induction bs opts arbitrary: options rule: option_field.induct)
  case (field_end junk)
  then show ?case by (simp add: dhcp_constants)
next
  case (field_pad bs opts)
  then show ?case by simp
next
  case (field_option ov bs opts)
  obtain code val where ov: "ov = (code, val)" by (cases ov)
  with field_option have "unat (of_nat (length val) :: u8) = length val"
    by (simp add: option_ok_def unat_of_nat)
  with field_option ov show ?case
    by (auto simp: option_ok_def get_range_def split: option.splits)
qed

lemma parse_options_sound:
  "parse_options_loop options bs = Some out \<Longrightarrow> \<exists>opts. option_field bs opts \<and> apply_options opts options = Some out"
proof (induction bs arbitrary: options rule: length_induct)
  case (1 bs)
  then obtain code rest where bs: "bs = code # rest" by (cases bs) auto
  consider "code = OPTION_PAD" | "code = OPTION_END" "code \<noteq> OPTION_PAD" | "code \<noteq> OPTION_PAD" "code \<noteq> OPTION_END"
    by blast
  then show ?case
  proof cases
    case 1
    with "1.prems" "1.IH" bs show ?thesis by (fastforce intro: field_pad)
  next
    case 2
    with "1.prems" bs show ?thesis by (auto intro!: exI [of _ "[]"] field_end)
  next
    case 3
    with "1.prems" bs obtain n rest' val options' where r: "rest = n # rest'" "get_range rest' 0 (unat n) = Some val"
      "apply_option code val options = Some options'" "parse_options_loop options' (drop (unat n) rest') = Some out"
      by (auto split: list.splits option.splits)
    then have "length (drop (unat n) rest') < length bs" using bs by simp
    with "1.IH" r(4) obtain opts where o: "option_field (drop (unat n) rest') opts" "apply_options opts options' = Some out"
      by blast
    have v: "val = take (unat n) rest'" "length val = unat n" using r(2) by (auto simp: get_range_eq_Some)
    have "bs = option_bytes (code, val) @ drop (unat n) rest'" using bs r(1) v by simp
    moreover have "option_ok (code, val)" using 3 v unat_u8_less [of n] by (simp add: option_ok_def)
    ultimately have "option_field bs ((code, val) # opts)" using o(1) field_option by metis
    then show ?thesis using r(3) o(2) by (intro exI [of _ "(code, val) # opts"]) simp
  qed
qed

lemma parse_options_iff:
  "parse_options bs = Some out \<longleftrightarrow> (\<exists>opts. option_field bs opts \<and> apply_options opts options_default = Some out)"
  using parse_options_sound [of options_default bs out] parse_options_field [of bs _ options_default]
  by (auto simp: parse_options_def)

section \<open>Addresses\<close>

lemma octets_inject [simp]: "octets a = octets b \<longleftrightarrow> a = b"
  by (cases a; cases b) auto

lemma ipv4_from_octets_octets [simp]: "ipv4_from_octets (octets a) = a"
  by (cases a) (simp add: ipv4_from_octets_def)

lemma octets_from_octets: "length bs = 4 \<Longrightarrow> octets (ipv4_from_octets bs) = bs"
  by (auto simp: ipv4_from_octets_def numeral_eq_Suc length_Suc_conv)

lemma ipv4_to_u32_inject: "ipv4_to_u32 a = ipv4_to_u32 b \<longleftrightarrow> a = b"
proof
  assume "ipv4_to_u32 a = ipv4_to_u32 b"
  then have "u32_to_be (u32_from_be (octets a)) = u32_to_be (u32_from_be (octets b))"
    by (simp only: ipv4_to_u32_def)
  then show "a = b" by (simp only: u32_to_from_be length_octets octets_inject)
qed simp

lemma ipv4_to_from_u32: "ipv4_to_u32 (ipv4_from_octets (u32_to_be w)) = w"
  by (simp add: ipv4_to_u32_def octets_from_octets)

lemma ipv4_from_packet_at: "ipv4_from_packet (p @ octets a @ q) (length p) = a"
  by (cases a) (simp add: ipv4_from_packet_def nth_append)

section \<open>Interface records\<close>

lemma collect_set_iff:
  "collect_set f e xs acc = Inr out \<Longrightarrow> distinct acc \<Longrightarrow>
     distinct out \<and> set out = set acc \<union> {y. \<exists>x\<in>set xs. f x = Some y} \<and> (\<forall>x\<in>set xs. f x \<noteq> None)"
proof (induction xs arbitrary: acc)
  case (Cons x xs)
  from Cons.prems(1) obtain y where "f x = Some y" "collect_set f e xs (List.insert y acc) = Inr out"
    by (auto simp: rbind_eq_Inr)
  with Cons.IH [of "List.insert y acc"] Cons.prems(2) show ?case by auto
qed simp

lemma collect_set_total:
  "\<forall>x\<in>set xs. f x \<noteq> None \<Longrightarrow> \<exists>out. collect_set f e xs acc = Inr out"
  by (induction xs arbitrary: acc) auto

lemma singleton_list: "distinct xs \<Longrightarrow> set xs = {x} \<longleftrightarrow> xs = [x]"
  by (cases xs; cases "tl xs") auto

lemma collect_set_singleton:
  "collect_set f e xs [] = Inr [y] \<longleftrightarrow> xs \<noteq> [] \<and> (\<forall>x\<in>set xs. f x = Some y)"
proof
  assume "collect_set f e xs [] = Inr [y]"
  then have eq: "{y} = {y. \<exists>x\<in>set xs. f x = Some y}" and "\<forall>x\<in>set xs. f x \<noteq> None"
    using collect_set_iff [of f e xs "[]" "[y]"] by auto
  then have "\<forall>x\<in>set xs. f x = Some y"
    by (metis (mono_tags, lifting) mem_Collect_eq not_None_eq singletonD)
  moreover from eq have "xs \<noteq> []" by auto
  ultimately show "xs \<noteq> [] \<and> (\<forall>x\<in>set xs. f x = Some y)" by blast
next
  assume r: "xs \<noteq> [] \<and> (\<forall>x\<in>set xs. f x = Some y)"
  then obtain out where out: "collect_set f e xs [] = Inr out"
    using collect_set_total [of xs f e "[]"] by auto
  then have "distinct out" "set out = {y. \<exists>x\<in>set xs. f x = Some y}" using collect_set_iff by fastforce+
  moreover have "{y. \<exists>x\<in>set xs. f x = Some y} = {y}" using r by (cases xs) auto
  ultimately show "collect_set f e xs [] = Inr [y]" using out by (simp add: singleton_list)
qed

lemma index_for_name_iff:
  "index_for_name interfaces name = Inr i \<longleftrightarrow>
     (\<exists>li\<in>set interfaces. li_name li = name) \<and>
     (\<forall>li\<in>set interfaces. li_name li = name \<longrightarrow> usable_index li = Some i)"
proof -
  let ?xs = "filter (\<lambda>li. li_name li = name) interfaces"
  have "index_for_name interfaces name = Inr i \<longleftrightarrow> collect_set usable_index NoUsableIndex ?xs [] = Inr [i]"
    by (cases "collect_set usable_index NoUsableIndex ?xs []")
      (auto simp: index_for_name_def split: list.splits)
  then show ?thesis by (auto simp: collect_set_singleton filter_empty_conv)
qed

lemma validate_interface_iff:
  "validate_interface_in_records interfaces interface address = Inr () \<longleftrightarrow>
     (\<forall>li\<in>set interfaces. li_name li = if_name interface \<longrightarrow> usable_index li = Some (if_index interface)) \<and>
     (\<exists>li\<in>set interfaces. li_ipv4_address li = Some address) \<and>
     (\<forall>li\<in>set interfaces. li_ipv4_address li = Some address \<longrightarrow>
        li_name li = if_name interface \<and> usable_index li = Some (if_index interface))"
proof -
  let ?f = "\<lambda>o'. map_option (Pair (li_name o')) (usable_index o')"
  let ?xs = "filter (\<lambda>o'. li_ipv4_address o' = Some address) interfaces"
  have "validate_interface_in_records interfaces interface address = Inr () \<longleftrightarrow>
      index_for_name interfaces (if_name interface) = Inr (if_index interface) \<and>
      (\<exists>out. collect_set ?f OwnerWithoutIndex ?xs [] = Inr out \<and>
        (if_name interface, if_index interface) \<in> set out \<and> length out = 1)"
    unfolding validate_interface_in_records_def rbind_eq_Inr ensure_eq_Inr by blast
  also have "\<dots> \<longleftrightarrow> index_for_name interfaces (if_name interface) = Inr (if_index interface) \<and>
      collect_set ?f OwnerWithoutIndex ?xs [] = Inr [(if_name interface, if_index interface)]"
    by (auto simp: length_Suc_conv)
  also have "\<dots> \<longleftrightarrow> index_for_name interfaces (if_name interface) = Inr (if_index interface) \<and>
      ?xs \<noteq> [] \<and> (\<forall>x\<in>set ?xs. ?f x = Some (if_name interface, if_index interface))"
    by (simp only: collect_set_singleton)
  finally show ?thesis
    by (simp add: index_for_name_iff filter_empty_conv map_option_eq_Some) blast
qed

section \<open>Subnet geometry\<close>

lemma config_validate_facts:
  assumes "config_validate c = Inr ()"
  defines "netmask \<equiv> ipv4_to_u32 (subnet_mask c)"
    and "server \<equiv> ipv4_to_u32 (server_address c)" and "target \<equiv> ipv4_to_u32 (target_address c)"
  shows "netmask = canonical_mask (leading_ones netmask)" "1 \<le> leading_ones netmask" "leading_ones netmask \<le> 30"
    "server \<noteq> target" "target AND netmask = server AND netmask"
    "server \<notin> {server AND netmask, (server AND netmask) OR NOT netmask}"
    "target \<notin> {server AND netmask, (server AND netmask) OR NOT netmask}"
    "\<not> is_unspecified (target_address c)" "lease_seconds c \<noteq> 0" "expected_client_mac c ! 0 AND 1 = 0"
  using assms(1)
  by (auto simp: config_validate_def Let_def rbind_eq_Inr validate_concrete_unicast_def netmask_def server_def target_def
      ipv4_to_u32_inject split: if_splits)

lemma broadcast_destination_ip:
  "ipv4_to_u32 (sa_ip (broadcast_destination c)) =
     (ipv4_to_u32 (server_address c) AND ipv4_to_u32 (subnet_mask c)) OR NOT (ipv4_to_u32 (subnet_mask c))"
  by (simp add: broadcast_destination_def Let_def ipv4_to_from_u32)

section \<open>The reply policy\<close>

definition answered_as :: "DhcpConfig \<Rightarrow> DhcpRequest \<Rightarrow> DhcpMessageType \<Rightarrow> bool" where
  "answered_as config rq t =
     (rq_message_type rq = Discover \<and> t = Offer \<or>
      rq_message_type rq = Request \<and> t = Ack \<and>
        (rq_requested_address rq = Some (target_address config) \<or>
         rq_requested_address rq = None \<and> client_address rq = target_address config \<and>
         \<not> is_unspecified (target_address config)))"

lemma response_type_iff:
  "response_type_for rq config = Some t \<longleftrightarrow>
     is_unspecified (relay_address rq) \<and> rq_server_identifier rq \<in> {None, Some (server_address config)} \<and>
     answered_as config rq t"
  by (auto simp: response_type_for_def answered_as_def bind_eq_Some_conv
      split: option.splits DhcpMessageType.splits if_splits)

lemma response_for_iff:
  "response_for rq config = Some r \<longleftrightarrow>
     client_mac rq = expected_client_mac config \<and>
     (\<exists>t. response_type_for rq config = Some t \<and> r = build_response rq config t)"
  by (auto simp: response_for_def bind_eq_Some_conv)

text \<open>The option field of a reply, read back by the request parser.\<close>

lemma reply_options:
  assumes "t = Offer \<or> t = Ack"
  shows "parse_options ([53, 1, message_type_code t] @ [54, 4] @ octets server @ [1, 4] @ octets m @ [51, 4] @
      u32_to_be lease @ [255]) =
    Some \<lparr>op_message_type = Some t, op_requested_address = None, op_server_identifier = Some server\<rparr>"
proof -
  let ?opts = "[(53, [message_type_code t]), (54, octets server), (1, octets m), (51, u32_to_be lease)]"
  have "option_field (concat (map option_bytes ?opts) @ [OPTION_END]) ?opts"
    using field_end [of "[]"]
    by (auto intro!: option_field.intros simp: option_ok_def dhcp_constants simp del: option_bytes.simps)
  then have "parse_options (concat (map option_bytes ?opts) @ [OPTION_END]) = apply_options ?opts options_default"
    unfolding parse_options_def by (rule parse_options_field)
  also have "\<dots> = Some \<lparr>op_message_type = Some t, op_requested_address = None, op_server_identifier = Some server\<rparr>"
    using assms by (auto simp: apply_option_def dhcp_constants options_default_def message_type_from_option_def ipv4_from_option_def)
  finally show ?thesis by (simp add: dhcp_constants)
qed

section \<open>The loop\<close>

lemma serve_loop_sent:
  "(r, d) \<in> set (fst (serve_loop config events)) \<Longrightarrow>
     d = broadcast_destination config \<and> (\<exists>event\<in>set events. reply_to config event = Some r)"
  by (induction config events rule: serve_loop.induct) (auto simp: also_sent_def split: option.splits if_splits)

lemma serve_loop_one_each: "length (fst (serve_loop config events)) \<le> length (filter (\<lambda>e. reply_to config e \<noteq> None) events)"
  by (induction config events rule: serve_loop.induct) (auto simp: also_sent_def split: option.splits)

lemma reply_to_eq_Some:
  "reply_to config event = Some r \<longleftrightarrow>
     (\<exists>packet send log rq. event = Datagram packet 68 send log \<and> request_parse (take 4096 packet) = Some rq \<and>
        response_for rq config = Some r)"
  by (cases event) (auto simp: reply_to_def dhcp_constants bind_eq_Some_conv)

lemma serve_on_interface_cases:
  assumes "fst (run_outcome (serve_on_interface host config interface events)) \<noteq> []"
  shows "config_validate config = Inr ()"
    "validate_current_interface (host_interfaces host) interface (server_address config) = Inr ()"
    "run_socket (serve_on_interface host config interface events) =
       Some (\<lparr>sa_ip = server_address config, sa_port = 67\<rparr>, interface)"
    "run_outcome (serve_on_interface host config interface events) = serve_loop config events"
  using assms
  by (auto simp: serve_on_interface_def serve_with_interface_def not_started_def Let_def dhcp_constants
      split: sum.splits if_splits)

lemma dhcp_reply:
  assumes "request_parse packet = Some rq" and "response_for rq config = Some r"
  shows "length r = 262 \<and> r ! 0 = 2 \<and> slice r 4 8 = slice packet 4 8 \<and> slice r 10 12 = slice packet 10 12 \<and>
    slice r 28 34 = slice packet 28 34 \<and> slice r 28 34 = expected_client_mac config \<and>
    ipv4_from_packet r 16 = target_address config \<and> ipv4_from_packet r 20 = server_address config \<and>
    (\<exists>t. answered_as config rq t \<and> parse_options (drop 240 r) =
       Some \<lparr>op_message_type = Some t, op_requested_address = None, op_server_identifier = Some (server_address config)\<rparr>) \<and>
    request_parse r = None"
proof -
  from assms(1) have sized: "request_sized rq" by (rule request_parse_sized)
  have fields: "transaction_id rq = slice packet 4 8" "rq_flags rq = slice packet 10 12" "client_mac rq = slice packet 28 34"
    using assms(1) by (auto simp: request_parse_def bind_eq_Some_conv split: if_splits)
  from assms(2) obtain t where t: "answered_as config rq t" "r = build_response rq config t"
    and mac: "client_mac rq = expected_client_mac config"
    by (auto simp: response_for_iff response_type_iff)
  from t(1) have ty: "t = Offer \<or> t = Ack" by (auto simp: answered_as_def)
  note lay = t(2) [unfolded build_response_layout [OF sized]]
  note len = sized [unfolded request_sized_def]
  have "length r = 262" using len by (simp add: lay)
  moreover have "r ! 0 = 2" by (simp add: lay)
  moreover have "slice r 4 8 = transaction_id rq" "slice r 10 12 = rq_flags rq" "slice r 28 34 = client_mac rq"
    using len by (simp_all add: lay slice_def)
  moreover have "ipv4_from_packet r 16 = target_address config"
    using len ipv4_from_packet_at [of "[2, 1, 6, 0] @ transaction_id rq @ seconds_elapsed rq @ rq_flags rq @ zeros 4"
      "target_address config"] by (simp add: lay)
  moreover have "ipv4_from_packet r 20 = server_address config"
    using len ipv4_from_packet_at [of "[2, 1, 6, 0] @ transaction_id rq @ seconds_elapsed rq @ rq_flags rq @ zeros 4 @
      octets (target_address config)" "server_address config"] by (simp add: lay)
  moreover have "parse_options (drop 240 r) =
       Some \<lparr>op_message_type = Some t, op_requested_address = None, op_server_identifier = Some (server_address config)\<rparr>"
    using len reply_options [OF ty, of "server_address config" "subnet_mask config" "lease_seconds config"] by (simp add: lay)
  moreover have "request_parse r = None" by (simp add: request_parse_def lay)
  ultimately show ?thesis using t(1) fields mac by auto
qed

text \<open>What the interface check asks of one record.\<close>

definition selected_only :: "DhcpInterface \<Rightarrow> Ipv4Addr \<Rightarrow> LocalInterface \<Rightarrow> bool" where
  "selected_only interface address li =
     ((li_name li = if_name interface \<longrightarrow> usable_index li = Some (if_index interface)) \<and>
      (li_ipv4_address li = Some address \<longrightarrow>
         li_name li = if_name interface \<and> usable_index li = Some (if_index interface)))"

text \<open>Events after which the service goes on.\<close>

fun benign :: "serve_event \<Rightarrow> bool" where
  "benign (ShutdownChanged stop) = (\<not> stop)"
| "benign RecvError = False"
| "benign (Datagram packet port send log) = (send \<or> log)"

section \<open>Properties\<close>

text \<open>
  The reply policy: a request is answered exactly when it comes from the configured
  client, was not relayed, names this server or none, and is either a DISCOVER, answered by
  an OFFER, or a REQUEST for the one lease (in the requested-address option, or in the
  client-address field when that option is absent), answered by an ACK.
\<close>

lemma dhcp_reply_policy:
  "response_for rq config = Some r \<longleftrightarrow>
     client_mac rq = expected_client_mac config \<and> is_unspecified (relay_address rq) \<and>
     rq_server_identifier rq \<in> {None, Some (server_address config)} \<and>
     (\<exists>t. answered_as config rq t \<and> r = build_response rq config t)"
  by (auto simp: response_for_iff response_type_iff)

text \<open>
  The reply to a parsed request is a 262-byte BOOTREPLY that carries the transaction id,
  flags and hardware address of the request, leases exactly the configured address, and whose
  option field the parser reads as the message type and the server identifier; the request
  parser itself refuses it, so the service never answers a reply, its own included.
\<close>

lemma dhcp_reply_content:
  assumes "request_parse packet = Some rq" and "response_for rq config = Some r"
  shows "length r = 262 \<and> r ! 0 = 2 \<and> slice r 4 8 = slice packet 4 8 \<and> slice r 10 12 = slice packet 10 12 \<and>
    slice r 28 34 = slice packet 28 34 \<and> slice r 28 34 = expected_client_mac config \<and>
    ipv4_from_packet r 16 = target_address config \<and> ipv4_from_packet r 20 = server_address config \<and>
    (\<exists>t. answered_as config rq t \<and> parse_options (drop 240 r) =
       Some \<lparr>op_message_type = Some t, op_requested_address = None, op_server_identifier = Some (server_address config)\<rparr>) \<and>
    request_parse r = None"
  using assms by (rule dhcp_reply)

text \<open>
  A validated configuration has the geometry of one isolated link: a contiguous mask of
  1 to 30 bits, a server and a target that are distinct host addresses of the same subnet,
  and a broadcast destination on the client port that is in that subnet and is the address
  of neither.
\<close>

lemma dhcp_config_geometry:
  assumes "config_validate c = Inr ()"
  shows "\<exists>n. 1 \<le> n \<and> n \<le> 30 \<and> ipv4_to_u32 (subnet_mask c) = push_bit (32 - n) (- 1) \<and>
    server_address c \<noteq> target_address c \<and>
    ipv4_to_u32 (target_address c) AND ipv4_to_u32 (subnet_mask c) =
      ipv4_to_u32 (server_address c) AND ipv4_to_u32 (subnet_mask c) \<and>
    ipv4_to_u32 (sa_ip (broadcast_destination c)) AND ipv4_to_u32 (subnet_mask c) =
      ipv4_to_u32 (server_address c) AND ipv4_to_u32 (subnet_mask c) \<and>
    sa_ip (broadcast_destination c) \<notin> {server_address c, target_address c} \<and>
    sa_port (broadcast_destination c) = 68"
proof -
  note facts = config_validate_facts [OF assms]
  have "(x AND m OR NOT m) AND m = x AND m" for x m :: u32
    by (rule bit_word_eqI) (auto simp: bit_simps)
  then have "ipv4_to_u32 (sa_ip (broadcast_destination c)) AND ipv4_to_u32 (subnet_mask c) =
      ipv4_to_u32 (server_address c) AND ipv4_to_u32 (subnet_mask c)"
    by (simp add: broadcast_destination_ip)
  moreover have "sa_ip (broadcast_destination c) \<notin> {server_address c, target_address c}"
    using facts(6,7) by (auto simp flip: ipv4_to_u32_inject simp: broadcast_destination_ip)
  moreover have "server_address c \<noteq> target_address c" using facts(4) by auto
  ultimately show ?thesis
    using facts(1-3,5)
    by (intro exI [of _ "leading_ones (ipv4_to_u32 (subnet_mask c))"])
      (auto simp: canonical_mask_def broadcast_destination_def Let_def DHCP_CLIENT_PORT_def)
qed

text \<open>
  The interface check accepts exactly when the selected name has one current index, that
  of the selection, and the server address is assigned, only to that interface.
\<close>

lemma dhcp_interface_exact:
  "validate_interface_in_records interfaces interface address = Inr () \<longleftrightarrow>
     list_ex (\<lambda>li. li_ipv4_address li = Some address) interfaces \<and>
     list_all (selected_only interface address) interfaces"
  by (auto simp: validate_interface_iff list_all_iff list_ex_iff selected_only_def)

text \<open>
  C12. Whatever the network sends, every datagram the service emits goes to the subnet
  broadcast address on the client port, from a socket bound to the server address, port 67
  and the selected interface, after the configuration and the interface were accepted; it
  leases the configured address and answers a datagram from the client port that carries the
  configured hardware address; and there is at most one reply for each such datagram.
\<close>

theorem dhcp_service_confined:
  assumes "(r, d) \<in> set (fst (run_outcome (serve_on_interface host config interface events)))"
  shows "d = broadcast_destination config \<and> sa_port d = 68 \<and> config_validate config = Inr () \<and>
    validate_current_interface (host_interfaces host) interface (server_address config) = Inr () \<and>
    run_socket (serve_on_interface host config interface events) =
      Some (\<lparr>sa_ip = server_address config, sa_port = 67\<rparr>, interface) \<and>
    ipv4_from_packet r 16 = target_address config \<and>
    (\<exists>packet send log. Datagram packet 68 send log \<in> set events \<and>
       slice (take 4096 packet) 28 34 = expected_client_mac config) \<and>
    length (fst (run_outcome (serve_on_interface host config interface events))) \<le>
      length (filter (\<lambda>event. reply_to config event \<noteq> None) events)"
proof -
  have ne: "fst (run_outcome (serve_on_interface host config interface events)) \<noteq> []" using assms by auto
  note run = serve_on_interface_cases [OF ne]
  from serve_loop_sent [OF assms [unfolded run(4)]] obtain packet send log rq where
    d: "d = broadcast_destination config" and ev: "Datagram packet 68 send log \<in> set events"
    and rq: "request_parse (take 4096 packet) = Some rq" "response_for rq config = Some r"
    by (auto simp: reply_to_eq_Some)
  have "slice (take 4096 packet) 28 34 = expected_client_mac config" "ipv4_from_packet r 16 = target_address config"
    using dhcp_reply [OF rq] by auto
  then show ?thesis
    using d ev run serve_loop_one_each [of config events]
    by (auto simp: broadcast_destination_def Let_def DHCP_CLIENT_PORT_def)
qed

text \<open>
  The service stops when it is told to: after events that are neither a shutdown, a
  failed receive nor a failed send whose warning could not be logged either, a shutdown ends
  the loop with success whatever else is pending.
\<close>

lemma dhcp_shutdown:
  assumes "list_all benign events"
  shows "snd (serve_loop config (events @ ShutdownChanged True # pending)) = Some (Inr ())"
  using assms
proof (induction events)
  case (Cons e events)
  then show ?case by (cases e) (auto simp: also_sent_def split: option.splits)
qed simp

text \<open>
  C14. The option parser accepts exactly the fields that consist of padding and well-framed
  options up to an end option, and returns what applying those options in order gives; bytes
  after the end option are ignored and nothing is read past the packet.
\<close>

theorem dhcp_options_grammar:
  "parse_options bs = Some out \<longleftrightarrow>
     (\<exists>opts. option_field bs opts \<and> apply_options opts options_default = Some out)"
  by (rule parse_options_iff)

section \<open>Witnesses\<close>

definition lab_config :: DhcpConfig where
  "lab_config =
     \<lparr>server_address = Ipv4Addr 192 0 2 1, target_address = Ipv4Addr 192 0 2 2,
      expected_client_mac = [2, 0xaa, 0, 0, 0, 1], subnet_mask = Ipv4Addr 255 255 255 252, lease_seconds = 3600\<rparr>"

definition lab_interface :: DhcpInterface where
  "lab_interface = \<lparr>if_name = ascii ''en7'', if_index = 7\<rparr>"

definition lab_host :: Host where
  "lab_host =
     \<lparr>host_interfaces = Inr [\<lparr>li_name = ascii ''en7'', li_index = Some 7, li_ipv4_address = Some (Ipv4Addr 192 0 2 1)\<rparr>],
      host_bind_ok = True, host_broadcast_ok = True, host_log_ok = True, host_shutdown = False\<rparr>"

definition discover_packet :: bytes where
  "discover_packet =
     [1, 1, 6, 0] @ [9, 8, 7, 6] @ zeros 20 @ [2, 0xaa, 0, 0, 0, 1] @ zeros 202 @ [99, 130, 83, 99] @ [53, 1, 1, 255]"

definition discover_request :: DhcpRequest where
  "discover_request =
     \<lparr>transaction_id = [9, 8, 7, 6], seconds_elapsed = [0, 0], rq_flags = [0, 0], client_address = Ipv4Addr 0 0 0 0,
      relay_address = Ipv4Addr 0 0 0 0, client_mac = [2, 0xaa, 0, 0, 0, 1], rq_message_type = Discover,
      rq_requested_address = None, rq_server_identifier = None\<rparr>"

lemma lab_config_valid: "config_validate lab_config = Inr ()"
  by code_simp

lemma discover_parses: "request_parse discover_packet = Some discover_request"
  by code_simp

lemma discover_answered: "response_for discover_request lab_config = Some (build_response discover_request lab_config Offer)"
  by (simp add: response_for_iff response_type_iff answered_as_def discover_request_def lab_config_def is_unspecified_def)

lemma lab_interface_valid: "validate_current_interface (host_interfaces lab_host) lab_interface (server_address lab_config) = Inr ()"
  by (simp add: validate_current_interface_def validate_interface_iff lab_host_def lab_interface_def lab_config_def usable_index_def)

lemma discover_replied: "reply_to lab_config (Datagram discover_packet 68 True True) = Some (build_response discover_request lab_config Offer)"
  using discover_parses discover_answered
  by (simp add: reply_to_def dhcp_constants discover_packet_def)

lemma dhcp_reply_content_witness:
  "length (build_response discover_request lab_config Offer) = 262 \<and>
   ipv4_from_packet (build_response discover_request lab_config Offer) 16 = Ipv4Addr 192 0 2 2"
  using dhcp_reply_content [OF discover_parses discover_answered] by (simp add: lab_config_def)

lemma dhcp_config_geometry_witness:
  "sa_ip (broadcast_destination lab_config) \<notin> {Ipv4Addr 192 0 2 1, Ipv4Addr 192 0 2 2}"
  using dhcp_config_geometry [OF lab_config_valid] by (auto simp: lab_config_def)

theorem dhcp_service_confined_witness:
  "sa_port (broadcast_destination lab_config) = 68 \<and>
   run_socket (serve_on_interface lab_host lab_config lab_interface [Datagram discover_packet 68 True True]) =
     Some (\<lparr>sa_ip = server_address lab_config, sa_port = 67\<rparr>, lab_interface)"
proof -
  have "(build_response discover_request lab_config Offer, broadcast_destination lab_config) \<in>
      set (fst (run_outcome (serve_on_interface lab_host lab_config lab_interface [Datagram discover_packet 68 True True])))"
    using lab_config_valid lab_interface_valid discover_replied
    by (simp add: serve_on_interface_def serve_with_interface_def Let_def also_sent_def)
      (simp add: lab_host_def)
  from dhcp_service_confined [OF this] show ?thesis by blast
qed

lemma dhcp_shutdown_witness:
  "snd (serve_loop lab_config ([Datagram discover_packet 68 True True, ShutdownChanged False] @ ShutdownChanged True # [RecvError])) =
     Some (Inr ())"
  by (rule dhcp_shutdown) simp

end
