(* ===== verification/Rust_Text.thy ===== *)
theory Rust_Text
  imports Rust_Str
begin

unbundle bit_operations_syntax

text \<open>
  More of the Rust standard library on strings, as the text parsers of the workspace use it:
  trimming and splitting at Unicode white space, lines, integers in a radix and decimal
  printing, hexadecimal digits.
\<close>

section \<open>White space\<close>

text \<open>\<open>char::is_whitespace\<close>: the Unicode property \<open>White_Space\<close>.\<close>

definition is_whitespace :: "nat \<Rightarrow> bool" where
  "is_whitespace c =
     (9 \<le> c \<and> c \<le> 13 \<or> c = 32 \<or> c = 0x85 \<or> c = 0xa0 \<or> c = 0x1680 \<or> 0x2000 \<le> c \<and> c \<le> 0x200a \<or>
      c = 0x2028 \<or> c = 0x2029 \<or> c = 0x202f \<or> c = 0x205f \<or> c = 0x3000)"

definition trim_chars :: "nat list \<Rightarrow> nat list" where
  "trim_chars cs = rev (dropWhile is_whitespace (rev (dropWhile is_whitespace cs)))"

text \<open>\<open>str::trim\<close>; a \<open>str\<close> is valid UTF-8, so the other case does not arise.\<close>

definition trim :: "rstring \<Rightarrow> rstring" where
  "trim s = (case utf8_chars s of Some cs \<Rightarrow> utf8_encode (trim_chars cs) | None \<Rightarrow> s)"

text \<open>Text without white space is its own trimming, and so are its pieces.\<close>

lemma trim_plain: "\<forall>b\<in>set s. 33 \<le> unat b \<and> unat b < 128 \<Longrightarrow> trim s = s"
proof -
  assume s: "\<forall>b\<in>set s. 33 \<le> unat b \<and> unat b < 128"
  then have cs: "utf8_chars s = Some (map unat s)" by (simp add: utf8_chars_ascii)
  have ws: "\<not> is_whitespace c" if "c \<in> set (map unat s)" for c
    using s that by (auto simp: is_whitespace_def)
  have "dropWhile is_whitespace xs = xs" if "set xs \<subseteq> set (map unat s)" for xs
    using that ws by (cases xs) auto
  then have "trim_chars (map unat s) = map unat s" by (simp add: trim_chars_def rev_map)
  then show ?thesis using cs utf8_encode_chars [OF cs] by (simp add: trim_def)
qed

lemma trim_plain_pieces:
  "\<forall>b\<in>set s. 33 \<le> unat b \<and> unat b < 128 \<Longrightarrow> map trim (split_on P s) = split_on P s"
  by (intro map_idI trim_plain) (auto dest: split_on_free)

section \<open>Lines\<close>

text \<open>
  \<open>str::lines\<close>: pieces ended by a line feed lose it and a carriage return before it; a last
  piece without a line feed is kept as it is unless it is empty.
\<close>

definition strip_cr :: "rstring \<Rightarrow> rstring" where
  "strip_cr l = (if l \<noteq> [] \<and> last l = 13 then butlast l else l)"

definition str_lines :: "rstring \<Rightarrow> rstring list" where
  "str_lines s =
     (let pieces = split_on (\<lambda>b. b = 10) s
      in map strip_cr (butlast pieces) @ (if last pieces = [] then [] else [last pieces]))"

lemma str_lines_no_newline: "l \<in> set (str_lines s) \<Longrightarrow> 10 \<notin> set l"
proof -
  assume "l \<in> set (str_lines s)"
  then consider p where "p \<in> set (split_on (\<lambda>b. b = 10) s)" "l = strip_cr p"
    | "l \<in> set (split_on (\<lambda>b. b = 10) s)"
    by (auto simp: str_lines_def Let_def split: if_splits dest: in_set_butlastD)
  then show ?thesis
    by cases (auto simp: strip_cr_def dest: in_set_butlastD split_on_free split: if_splits)
qed

section \<open>Integers\<close>

text \<open>\<open>char::to_digit\<close> on an ASCII byte.\<close>

definition digit_value :: "nat \<Rightarrow> u8 \<Rightarrow> nat option" where
  "digit_value radix b =
     (let n = unat b;
          d = (if 48 \<le> n \<and> n \<le> 57 then n - 48
               else if 97 \<le> n \<and> n \<le> 122 then n - 87
               else if 65 \<le> n \<and> n \<le> 90 then n - 55 else radix)
      in if d < radix then Some d else None)"

fun digits_value :: "nat \<Rightarrow> nat \<Rightarrow> rstring \<Rightarrow> nat option" where
  "digits_value radix acc [] = Some acc"
| "digits_value radix acc (b # bs) =
     Option.bind (digit_value radix b) (\<lambda>d. digits_value radix (acc * radix + d) bs)"

text \<open>
  \<open>uN::from_str_radix\<close>: an optional plus sign, then at least one digit; \<open>None\<close> for an invalid
  digit or a value that does not fit below \<open>limit\<close>.
\<close>

definition unsigned_from_str_radix :: "nat \<Rightarrow> nat \<Rightarrow> rstring \<Rightarrow> nat option" where
  "unsigned_from_str_radix limit radix s =
     (let digits = (if s \<noteq> [] \<and> hd s = 43 \<and> tl s \<noteq> [] then tl s else s)
      in if digits = [] then None
         else Option.bind (digits_value radix 0 digits) (\<lambda>n. if n < limit then Some n else None))"

text \<open>Decimal printing (\<open>Display\<close> of the unsigned integers).\<close>

fun decimal :: "nat \<Rightarrow> rstring" where
  "decimal n = (if n < 10 then [of_nat (48 + n)] else decimal (n div 10) @ [of_nat (48 + n mod 10)])"

declare decimal.simps [simp del]

lemma digit_value_decimal: "d < 10 \<Longrightarrow> digit_value 10 (of_nat (48 + d)) = Some d"
proof -
  assume "d < 10"
  then have "unat (of_nat (48 + d) :: u8) = 48 + d" by (simp only: unat_of_nat) simp
  with \<open>d < 10\<close> show ?thesis by (simp add: digit_value_def del: of_nat_add)
qed

lemma digits_value_append:
  "digits_value radix acc (xs @ ys) = Option.bind (digits_value radix acc xs) (\<lambda>a. digits_value radix a ys)"
  by (induction radix acc xs rule: digits_value.induct) (auto split: bind_splits)

lemma digits_value_decimal: "digits_value 10 0 (decimal n) = Some n"
proof (induction n rule: decimal.induct)
  case (1 n)
  show ?case
  proof (cases "n < 10")
    case True
    then show ?thesis by (simp add: decimal.simps [of n] digit_value_decimal del: of_nat_add)
  next
    case False
    then show ?thesis
      using 1 by (simp add: decimal.simps [of n] digits_value_append digit_value_decimal del: of_nat_add)
  qed
qed

lemma decimal_not_Nil [simp]: "decimal n \<noteq> []"
  by (subst decimal.simps) simp

lemma decimal_digits: "b \<in> set (decimal n) \<Longrightarrow> \<exists>d<10. b = of_nat (48 + d)"
proof (induction n rule: decimal.induct)
  case (1 n)
  show ?case
  proof (cases "n < 10")
    case True
    then show ?thesis using 1(2) by (auto simp: decimal.simps [of n])
  next
    case False
    then consider "b \<in> set (decimal (n div 10))" | "b = of_nat (48 + n mod 10)"
      using 1(2) by (auto simp: decimal.simps [of n])
    moreover have "n mod 10 < 10" by simp
    ultimately show ?thesis using 1(1) [OF False] by cases blast+
  qed
qed

lemma decimal_is_digit: "b \<in> set (decimal n) \<Longrightarrow> is_ascii_digit b"
proof -
  assume "b \<in> set (decimal n)"
  then obtain d where d: "d < 10" "b = of_nat (48 + d)" using decimal_digits by blast
  then have "unat b = 48 + d" by (simp only: unat_of_nat) simp
  with d(1) show ?thesis by (simp add: is_ascii_digit_def word_le_nat_alt)
qed

lemma decimal_leading: "0 < n \<Longrightarrow> hd (decimal n) \<noteq> 48"
proof (induction n rule: decimal.induct)
  case (1 n)
  show ?case
  proof (cases "n < 10")
    case True
    then have "unat (of_nat (48 + n) :: u8) = 48 + n" by (simp only: unat_of_nat) simp
    then have "of_nat (48 + n) \<noteq> (48 :: u8)" using 1(2) by auto
    then show ?thesis using True by (simp add: decimal.simps [of n])
  next
    case False
    then show ?thesis using 1 by (simp add: decimal.simps [of n] div_greater_zero_iff)
  qed
qed

lemma unsigned_from_decimal: "n < limit \<Longrightarrow> unsigned_from_str_radix limit 10 (decimal n) = Some n"
proof -
  assume "n < limit"
  moreover have "hd (decimal n) \<noteq> 43"
    using decimal_is_digit [of "hd (decimal n)" n] by (auto simp: is_ascii_digit_def)
  ultimately show ?thesis by (simp add: unsigned_from_str_radix_def Let_def digits_value_decimal)
qed

section \<open>Hexadecimal\<close>

definition HEX :: rstring where
  "HEX = ascii ''0123456789abcdef''"

definition hex_byte :: "u8 \<Rightarrow> rstring" where
  "hex_byte byte = [HEX ! unat (drop_bit 4 byte), HEX ! unat (byte AND 0x0f)]"

lemma unat_high_nibble: "unat (drop_bit 4 byte) = unat byte div 16" for byte :: u8
  by (simp add: drop_bit_eq_div unat_div_distrib)

lemma unat_low_nibble: "unat (byte AND 15) = unat byte mod 16" for byte :: u8
proof -
  have "byte AND 15 = take_bit 4 byte" by (simp add: take_bit_eq_mask mask_eq_exp_minus_1)
  then show ?thesis by (simp add: take_bit_eq_mod unat_mod_distrib)
qed

lemma hex_byte_nibbles: "hex_byte byte = [HEX ! (unat byte div 16), HEX ! (unat byte mod 16)]"
  by (simp add: hex_byte_def unat_high_nibble unat_low_nibble)

lemma nibbles_less: "unat byte div 16 < 16" "unat byte mod 16 < 16" for byte :: u8
  using unat_u8_less [of byte] by auto

lemma HEX_facts: "length HEX = 16" "distinct HEX" "list_all is_ascii_hexdigit HEX" "map ascii_lower HEX = HEX"
    "list_all is_ascii_hexdigit (map ascii_upper HEX)" "map (\<lambda>c. ascii_lower (ascii_upper c)) HEX = HEX"
  by code_simp+

lemma hex_byte_inject: "hex_byte a = hex_byte b \<longleftrightarrow> a = b"
proof
  assume "hex_byte a = hex_byte b"
  then have "unat a div 16 = unat b div 16" "unat a mod 16 = unat b mod 16"
    using HEX_facts(1,2) nibbles_less [of a] nibbles_less [of b]
    by (auto simp: hex_byte_nibbles nth_eq_iff_index_eq)
  then have "unat a = unat b" by (metis div_mult_mod_eq)
  then show "a = b" by (simp add: word_unat_eq_iff)
qed simp

lemma HEX_case:
  "i < 16 \<Longrightarrow> is_ascii_hexdigit (HEX ! i) \<and> ascii_lower (HEX ! i) = HEX ! i \<and>
     is_ascii_hexdigit (ascii_upper (HEX ! i)) \<and> ascii_lower (ascii_upper (HEX ! i)) = HEX ! i"
  using HEX_facts by (metis (no_types, lifting) length_map list_all_length nth_map)

lemma hex_byte_case:
  assumes "c \<in> set (hex_byte b)"
  shows "is_ascii_hexdigit c \<and> ascii_lower c = c \<and> is_ascii_hexdigit (ascii_upper c) \<and> ascii_lower (ascii_upper c) = c"
  using assms HEX_case nibbles_less [of b] by (auto simp: hex_byte_nibbles)

lemma length_hex_byte [simp]: "length (hex_byte b) = 2"
  by (simp add: hex_byte_def)

end
