(* ===== verification/Sha_Digest.thy ===== *)
theory Sha_Digest
  imports Rust_Text
begin

unbundle bit_operations_syntax

text \<open>
  Typed SHA-256 digests, \<open>crates/aros-common/src/digest.rs\<close>. The hash itself (the \<open>sha2\<close>
  crate) is the parameter \<open>sha256\<close>, from the bytes absorbed to the 32 raw digest bytes.
\<close>

definition SHA256_BYTES :: usize where "SHA256_BYTES = 32"
definition SHA256_HEX_LENGTH :: usize where "SHA256_HEX_LENGTH = SHA256_BYTES * 2"

datatype Sha256Digest = Sha256Digest (as_str: rstring)

datatype digest_error = InvalidSha256Digest

definition digest_from_bytes :: "bytes \<Rightarrow> Sha256Digest" where
  "digest_from_bytes bs = Sha256Digest (concat (map hex_byte bs))"

text \<open>\<open>Sha256Digest::parse\<close> and \<open>from_str\<close>.\<close>

definition digest_parse :: "rstring \<Rightarrow> (digest_error, Sha256Digest) result" where
  "digest_parse value =
     ensure (length value = SHA256_HEX_LENGTH \<and> list_all is_ascii_hexdigit value) InvalidSha256Digest
       (Inr (Sha256Digest (to_ascii_lowercase value)))"

definition sha256_bytes :: "(bytes \<Rightarrow> bytes) \<Rightarrow> bytes \<Rightarrow> Sha256Digest" where
  "sha256_bytes sha256 bs = digest_from_bytes (sha256 bs)"

record Sha256Result =
  res_digest :: Sha256Digest
  res_size :: u64

datatype read_error = ReadFailed | CountOverflow

text \<open>
  \<open>sha256_reader\<close>: the results of successive reads; an empty read is the end of the input.
  The hasher's state is the bytes it has absorbed. \<open>None\<close> stands for reads that never end.
\<close>

fun sha256_reader ::
  "(bytes \<Rightarrow> bytes) \<Rightarrow> bytes \<Rightarrow> u64 \<Rightarrow> (read_error, bytes) result list \<Rightarrow> (read_error, Sha256Result) result option" where
  "sha256_reader sha256 absorbed count [] = None"
| "sha256_reader sha256 absorbed count (Inl e # reads) = Some (Inl e)"
| "sha256_reader sha256 absorbed count (Inr chunk # reads) =
     (if chunk = [] then Some (Inr \<lparr>res_digest = digest_from_bytes (sha256 absorbed), res_size = count\<rparr>)
      else if unat count + length chunk < 2 ^ 64
      then sha256_reader sha256 (absorbed @ chunk) (count + of_nat (length chunk)) reads
      else Some (Inl CountOverflow))"

section \<open>Hexadecimal text\<close>

lemma length_digest_from_bytes: "length (as_str (digest_from_bytes bs)) = 2 * length bs"
  by (induction bs) (simp_all add: digest_from_bytes_def)

lemma digest_from_bytes_inject: "digest_from_bytes a = digest_from_bytes b \<longleftrightarrow> a = b"
proof
  assume "digest_from_bytes a = digest_from_bytes b"
  then have "concat (map hex_byte a) = concat (map hex_byte b)" by (simp add: digest_from_bytes_def)
  then show "a = b"
  proof (induction a arbitrary: b)
    case Nil
    then show ?case by (cases b) (auto simp: hex_byte_def)
  next
    case (Cons x a)
    then obtain y b' where b: "b = y # b'" by (cases b) (auto simp: hex_byte_def)
    with Cons.prems have "hex_byte x = hex_byte y" "concat (map hex_byte a) = concat (map hex_byte b')"
      by (simp_all add: append_eq_append_conv)
    with Cons.IH b show ?case by (simp add: hex_byte_inject)
  qed
qed simp

lemma digest_text:
  "c \<in> set (as_str (digest_from_bytes bs)) \<Longrightarrow>
     is_ascii_hexdigit c \<and> ascii_lower c = c \<and> is_ascii_hexdigit (ascii_upper c) \<and> ascii_lower (ascii_upper c) = c"
  by (auto simp: digest_from_bytes_def dest!: hex_byte_case)

lemma digest_parse_text:
  assumes "length bs = 32"
  shows "digest_parse (as_str (digest_from_bytes bs)) = Inr (digest_from_bytes bs)"
    "digest_parse (to_ascii_uppercase (as_str (digest_from_bytes bs))) = Inr (digest_from_bytes bs)"
proof -
  let ?s = "as_str (digest_from_bytes bs)"
  have "length ?s = SHA256_HEX_LENGTH"
    using assms by (simp add: length_digest_from_bytes SHA256_HEX_LENGTH_def SHA256_BYTES_def)
  moreover have "map ascii_lower ?s = ?s" "map (\<lambda>c. ascii_lower (ascii_upper c)) ?s = ?s"
    using digest_text by (auto intro!: map_idI)
  ultimately show "digest_parse ?s = Inr (digest_from_bytes bs)"
    "digest_parse (to_ascii_uppercase ?s) = Inr (digest_from_bytes bs)"
    using digest_text by (auto simp: digest_parse_def to_ascii_lowercase_def to_ascii_uppercase_def list_all_iff o_def)
qed

lemma sha256_reader_chunks:
  "list_all (\<lambda>c. c \<noteq> []) chunks \<Longrightarrow> unat count + length (concat chunks) < 2 ^ 64 \<Longrightarrow>
     sha256_reader sha256 absorbed count (map Inr chunks @ Inr [] # reads) =
       Some (Inr \<lparr>res_digest = digest_from_bytes (sha256 (absorbed @ concat chunks)),
                 res_size = count + of_nat (length (concat chunks))\<rparr>)"
proof (induction chunks arbitrary: absorbed count)
  case (Cons c chunks)
  then have "unat (count + of_nat (length c)) = unat count + length c"
    by (simp add: unat_word_ariths unat_of_nat)
  with Cons show ?case by (auto simp: algebra_simps)
qed simp

lemma set_HEX: "c \<in> set HEX \<longleftrightarrow> 48 \<le> unat c \<and> unat c \<le> 57 \<or> 97 \<le> unat c \<and> unat c \<le> 102"
proof -
  have HEX: "HEX = map of_nat ([48..<58] @ [97..<103])" by code_simp
  have "c \<in> of_nat ` A \<longleftrightarrow> unat c \<in> A" if "A \<subseteq> {..<256}" for A
  proof
    assume "c \<in> of_nat ` A"
    then obtain n where "n \<in> A" "c = of_nat n" by blast
    with that show "unat c \<in> A" by (auto simp: unat_of_nat subset_iff)
  next
    assume "unat c \<in> A"
    then have "of_nat (unat c) \<in> (of_nat ` A :: u8 set)" by (rule imageI)
    then show "c \<in> of_nat ` A" by simp
  qed
  from this [of "{48..<58} \<union> {97..<103}"]
  have "c \<in> set HEX \<longleftrightarrow> unat c \<in> {48..<58} \<union> {97..<103}"
    unfolding HEX set_map set_append set_upt by fastforce
  then show ?thesis by auto
qed

lemma unat_ascii_lower:
  "unat (ascii_lower c) = (if 65 \<le> unat c \<and> unat c \<le> 90 then unat c + 32 else unat c)"
  by (auto simp: ascii_lower_def is_ascii_uppercase_def word_le_nat_alt unat_word_ariths)

lemma hexdigit_lower: "is_ascii_hexdigit c \<longleftrightarrow> ascii_lower c \<in> set HEX"
  by (auto simp: set_HEX unat_ascii_lower is_ascii_hexdigit_def is_ascii_digit_def word_le_nat_alt)

lemma hex_byte_pair:
  assumes "a \<in> set HEX" "b \<in> set HEX"
  shows "\<exists>x. hex_byte x = [a, b]"
proof -
  obtain i j where ij: "i < 16" "j < 16" "a = HEX ! i" "b = HEX ! j" using assms by (auto simp: in_set_conv_nth HEX_facts(1))
  have "unat (of_nat (16 * i + j) :: u8) = 16 * i + j"
    using ij(1,2) unfolding unat_of_nat by (intro mod_less) simp
  then have "hex_byte (of_nat (16 * i + j)) = [a, b]" using ij by (simp add: hex_byte_nibbles)
  then show ?thesis by blast
qed

lemma hex_text_bytes:
  "set s \<subseteq> set HEX \<Longrightarrow> length s = 2 * n \<Longrightarrow>
     \<exists>bs. length bs = n \<and> as_str (digest_from_bytes bs) = s"
proof (induction n arbitrary: s)
  case 0
  then show ?case by (intro exI [of _ "[]"]) (simp add: digest_from_bytes_def)
next
  case (Suc n)
  then obtain a b s' where s: "s = a # b # s'" by (metis length_Suc_conv mult_Suc_right plus_nat.simps(2) numeral_2_eq_2 add_Suc)
  obtain bs where "length bs = n" "as_str (digest_from_bytes bs) = s'" using Suc.IH [of s'] Suc.prems by (auto simp: s)
  moreover obtain x where "hex_byte x = [a, b]" using hex_byte_pair [of a b] Suc.prems(1) by (auto simp: s)
  ultimately show ?case by (intro exI [of _ "x # bs"]) (simp add: digest_from_bytes_def s)
qed

lemma digest_parse_iff:
  "digest_parse text = Inr d \<longleftrightarrow>
     (\<exists>bs. length bs = 32 \<and> d = digest_from_bytes bs \<and> to_ascii_lowercase text = as_str d)"
proof
  assume p: "digest_parse text = Inr d"
  then have t: "length text = 64" "list_all is_ascii_hexdigit text" "as_str d = to_ascii_lowercase text"
    by (auto simp: digest_parse_def ensure_eq_Inr SHA256_HEX_LENGTH_def SHA256_BYTES_def)
  then have "set (to_ascii_lowercase text) \<subseteq> set HEX" by (auto simp: to_ascii_lowercase_def list_all_iff hexdigit_lower)
  moreover have "length (to_ascii_lowercase text) = 2 * 32" using t(1) by (simp add: to_ascii_lowercase_def)
  ultimately obtain bs where "length bs = 32" "as_str (digest_from_bytes bs) = to_ascii_lowercase text" using hex_text_bytes by blast
  then show "\<exists>bs. length bs = 32 \<and> d = digest_from_bytes bs \<and> to_ascii_lowercase text = as_str d"
    using t(3) by (metis Sha256Digest.expand)
next
  assume "\<exists>bs. length bs = 32 \<and> d = digest_from_bytes bs \<and> to_ascii_lowercase text = as_str d"
  then obtain bs where bs: "length bs = 32" "d = digest_from_bytes bs" "to_ascii_lowercase text = as_str d" by blast
  have "length text = 64" using arg_cong [OF bs(3), of length] bs(1,2) by (simp add: to_ascii_lowercase_def length_digest_from_bytes)
  moreover have "is_ascii_hexdigit c" if "c \<in> set text" for c
  proof -
    have "ascii_lower c \<in> set (as_str d)" unfolding bs(3) [symmetric] to_ascii_lowercase_def using that by simp
    then show ?thesis using digest_text [of "ascii_lower c" bs] bs(2) hexdigit_lower by (metis)
  qed
  ultimately show "digest_parse text = Inr d" using bs(3)
    by (auto simp: digest_parse_def SHA256_HEX_LENGTH_def SHA256_BYTES_def list_all_iff)
qed

section \<open>Properties\<close>

text \<open>
  C16. Digest text is canonical: \<open>Sha256Digest::parse\<close> succeeds on a text with digest \<open>d\<close>
  exactly if there are 32 bytes, and then only those, whose printed digest is \<open>d\<close> and is the
  text with its letters in lower case. So every text that is not 64 hexadecimal digits is
  refused, digits of either case are accepted, and what a digest prints is the unique lower-case
  text of its bytes.
\<close>

theorem digest_parse_exact:
  "digest_parse text = Inr d \<longleftrightarrow>
     (\<exists>!bs. length bs = 32 \<and> d = digest_from_bytes bs \<and> to_ascii_lowercase text = as_str d)"
  unfolding digest_parse_iff by (auto simp: digest_from_bytes_inject)

text \<open>
  Streaming agrees with hashing in memory: however the input is cut into non-empty reads,
  \<open>sha256_reader\<close> returns the digest of the whole and its exact length, as long as the length
  fits 64 bits.
\<close>

lemma sha256_reader_streams:
  assumes "list_all (\<lambda>c. c \<noteq> []) chunks" and "length (concat chunks) < 2 ^ 64"
  shows "sha256_reader sha256 [] 0 (map Inr chunks @ Inr [] # reads) =
    Some (Inr \<lparr>res_digest = sha256_bytes sha256 (concat chunks), res_size = of_nat (length (concat chunks))\<rparr>)"
  using sha256_reader_chunks [of chunks 0 sha256 "[]" reads] assms by (simp add: sha256_bytes_def)

lemma sha256_reader_streams_witness:
  "sha256_reader (\<lambda>bs. take 32 (bs @ replicate 32 0)) [] 0 (map Inr [[1, 2], [3]] @ Inr [] # []) =
     Some (Inr \<lparr>res_digest = sha256_bytes (\<lambda>bs. take 32 (bs @ replicate 32 0)) [1, 2, 3], res_size = 3\<rparr>)"
  using sha256_reader_streams [of "[[1, 2], [3]]" "\<lambda>bs. take 32 (bs @ replicate 32 0)" "[]"] by simp

end
