(* ===== verification/Esp_Partition.thy ===== *)
theory Esp_Partition
  imports Sha_Digest
begin

unbundle bit_operations_syntax

text \<open>
  Construction of unsigned ESP-IDF partition tables: the CSV source parser of
  \<open>crates/aros-common/src/esp_partition/source.rs\<close>, the range check and the encoder of
  \<open>crates/aros-common/src/esp_partition.rs\<close>. The MD5 of the \<open>md5\<close> crate and the SHA-256 of the
  \<open>sha2\<close> crate are parameters. Sums of two 32-bit values are computed in 64 bits by the code
  and cannot overflow; they are natural numbers here.
\<close>

section \<open>Data\<close>

definition TABLE_BYTES :: usize where "TABLE_BYTES = 0xc00"
definition SECTOR_BYTES :: nat where "SECTOR_BYTES = 0x1000"
definition RECORD_BYTES :: usize where "RECORD_BYTES = 32"

record EspPartition =
  ep_name :: rstring
  ep_kind :: u8
  ep_subtype :: u8
  ep_offset :: u32
  ep_size :: u32
  ep_flags :: u32

record EspPartitionSource =
  src_sha256 :: Sha256Digest
  src_partitions :: "EspPartition list"

record EspPartitionArtifact =
  art_bytes :: bytes
  art_sha256 :: Sha256Digest
  art_source :: EspPartitionSource
  art_table_offset :: u32
  art_flash_bytes :: u64

datatype line_error =
    QuotingUnsupported
  | FieldCount
  | BadLabel
  | KindOutsideByte
  | SelfDescription
  | SubtypeOutsideByte
  | InvalidSlot
  | UnsupportedSlot
  | AmbiguousZero
  | NotUnsigned
  | BadNumber
  | UnknownFlag
  | DuplicateFlag
  | OutOfOrder

datatype esp_error =
    SourceTooLarge
  | SourceDigestDiffers
  | SourceNotUtf8
  | InvalidGeometry
  | LineBudget
  | RecordBudget
  | EspLine usize line_error
  | NoEntries
  | CapacityExceeded
  | DuplicateLabel
  | UnsupportedFlags
  | BadRange
  | AppSizeUnaligned
  | OverlapsTable
  | BeforeTableEnd
  | RangesOverlap
  | ReadonlyOta
  | SmallNvs
  | OtaMetadata
  | UnsupportedTableSize
  | EndsBeforeChecksum
  | TrailingData
  | InvalidMd5Record
  | Md5Differs
  | UnsupportedRecord
  | BadRecordLabel
  | LabelNotUtf8
  | NoEndMarker
  | DiffersFromSource

section \<open>Numbers and subtypes\<close>

text \<open>The unit suffix: the text before it and the multiplier.\<close>

definition split_unit :: "rstring \<Rightarrow> rstring \<times> nat" where
  "split_unit value =
     (if value \<noteq> [] \<and> ascii_lower (last value) = 0x6b then (butlast value, 1024)
      else if value \<noteq> [] \<and> ascii_lower (last value) = 0x6d then (butlast value, 1024 * 1024)
      else (value, 1))"

text \<open>The radix prefix: the digits after it and the radix.\<close>

definition split_radix :: "rstring \<Rightarrow> (line_error, rstring \<times> nat) result" where
  "split_radix value =
     (if starts_with value (ascii ''0x'') \<or> starts_with value (ascii ''0X'') then Inr (drop 2 value, 16)
      else if starts_with value (ascii ''0b'') \<or> starts_with value (ascii ''0B'') then Inr (drop 2 value, 2)
      else if starts_with value (ascii ''0o'') \<or> starts_with value (ascii ''0O'') then Inr (drop 2 value, 8)
      else if 1 < length value \<and> hd value = 0x30 then Inl AmbiguousZero
      else Inr (value, 10))"

definition parse_number :: "rstring \<Rightarrow> (line_error, u32) result" where
  "parse_number value0 =
     (let (value, multiplier) = split_unit value0
      in rbind (split_radix value) (\<lambda>(digits, radix).
         ensure (\<not> (digits = [] \<or> hd digits = 0x2b \<or> hd digits = 0x2d)) NotUnsigned
           (case unsigned_from_str_radix (2 ^ 32) radix digits of
              Some number \<Rightarrow> (if number * multiplier < 2 ^ 32 then Inr (of_nat (number * multiplier)) else Inl BadNumber)
            | None \<Rightarrow> Inl BadNumber)))"

definition u8_try_from :: "u32 \<Rightarrow> line_error \<Rightarrow> (line_error, u8) result" where
  "u8_try_from n e = ensure (n < 256) e (Inr (ucast n))"

definition named_subtype :: "u8 \<Rightarrow> rstring \<Rightarrow> u8 option" where
  "named_subtype kind value =
     (if kind = 0 \<and> value = ascii ''factory'' \<or> kind = 1 \<and> value = ascii ''ota'' then Some 0
      else if kind = 0 \<and> value = ascii ''test'' then Some 0x20
      else if kind = 1 then
        map_of [(ascii ''phy'', 1), (ascii ''nvs'', 2), (ascii ''coredump'', 3), (ascii ''nvs_keys'', 4),
                (ascii ''efuse'', 5), (ascii ''undefined'', 6), (ascii ''esphttpd'', 0x80), (ascii ''fat'', 0x81),
                (ascii ''spiffs'', 0x82), (ascii ''littlefs'', 0x83), (ascii ''tee_ota'', 0x90)] value
      else None)"

text \<open>The loop over the two app slot families; \<open>None\<close> when neither prefix applies.\<close>

fun app_slot :: "(rstring \<times> nat \<times> u8) list \<Rightarrow> rstring \<Rightarrow> (line_error, u8) result option" where
  "app_slot [] value = None"
| "app_slot ((slot_prefix, slot_limit, base) # slots) value =
     (case strip_prefix value slot_prefix of
        Some index \<Rightarrow>
          Some (case unsigned_from_str_radix 256 10 index of
                  None \<Rightarrow> Inl InvalidSlot
                | Some n \<Rightarrow>
                    ensure (n < slot_limit \<and> slot_prefix @ decimal n = value) UnsupportedSlot (Inr (base + of_nat n)))
      | None \<Rightarrow> app_slot slots value)"

definition parse_subtype :: "u8 \<Rightarrow> rstring \<Rightarrow> (line_error, u8) result" where
  "parse_subtype kind value0 =
     (let value = to_ascii_lowercase value0
      in case named_subtype kind value of
           Some named \<Rightarrow> Inr named
         | None \<Rightarrow>
             (case (if kind = 0 then app_slot [(ascii ''ota_'', 16, 0x10), (ascii ''tee_'', 2, 0x30)] value else None) of
                Some r \<Rightarrow> r
              | None \<Rightarrow> rbind (parse_number value) (\<lambda>n. u8_try_from n SubtypeOutsideByte)))"

section \<open>Ranges\<close>

definition part_start :: "EspPartition \<Rightarrow> nat" where
  "part_start p = unat (ep_offset p)"

definition part_end :: "EspPartition \<Rightarrow> nat" where
  "part_end p = part_start p + unat (ep_size p)"

definition part_alignment :: "EspPartition \<Rightarrow> nat" where
  "part_alignment p = (if ep_kind p = 0 then 0x10000 else SECTOR_BYTES)"

text \<open>The body of the loop of \<open>validate_ranges\<close>, with the entries before the current one.\<close>

definition validate_range ::
  "nat \<Rightarrow> nat \<Rightarrow> nat \<Rightarrow> EspPartition list \<Rightarrow> EspPartition \<Rightarrow> (esp_error, unit) result" where
  "validate_range table_start table_end flash_bytes previous p =
     ensure (ep_name p \<notin> ep_name ` set previous) DuplicateLabel
     (ensure (ep_flags p AND NOT 3 = 0) UnsupportedFlags
     (ensure (\<not> (ep_size p = 0 \<or> part_start p mod part_alignment p \<noteq> 0 \<or> part_end p > flash_bytes)) BadRange
     (ensure (\<not> (ep_kind p = 0 \<and> unat (ep_size p) mod SECTOR_BYTES \<noteq> 0)) AppSizeUnaligned
     (ensure (\<not> (part_start p < table_end \<and> table_start < part_end p)) OverlapsTable
     (ensure (\<not> part_start p < table_end) BeforeTableEnd
     (ensure (\<not> list_ex (\<lambda>q. part_start p < part_end q \<and> part_start q < part_end p) previous) RangesOverlap
       (Inr ())))))))"

fun validate_ranges_loop ::
  "nat \<Rightarrow> nat \<Rightarrow> nat \<Rightarrow> EspPartition list \<Rightarrow> EspPartition list \<Rightarrow> (esp_error, unit) result" where
  "validate_ranges_loop table_start table_end flash_bytes previous [] = Inr ()"
| "validate_ranges_loop table_start table_end flash_bytes previous (p # ps) =
     rbind (validate_range table_start table_end flash_bytes previous p) (\<lambda>_.
       validate_ranges_loop table_start table_end flash_bytes (previous @ [p]) ps)"

definition validate_ranges :: "EspPartition list \<Rightarrow> nat \<Rightarrow> nat \<Rightarrow> nat \<Rightarrow> (esp_error, unit) result" where
  "validate_ranges partitions table_start table_end flash_bytes =
     validate_ranges_loop table_start table_end flash_bytes [] partitions"

text \<open>The loop of \<open>validate_data_subtypes\<close> over the data partitions.\<close>

fun validate_data_loop :: "bool \<Rightarrow> bool \<Rightarrow> EspPartition list \<Rightarrow> (esp_error, unit) result" where
  "validate_data_loop ota_seen tee_ota_seen [] = Inr ()"
| "validate_data_loop ota_seen tee_ota_seen (p # ps) =
     (let readonly = ep_flags p AND 2 \<noteq> 0
      in ensure (\<not> (ep_subtype p \<in> {0, 3} \<and> readonly)) ReadonlyOta
        (ensure (\<not> (ep_subtype p = 2 \<and> ep_size p < 0x3000 \<and> \<not> readonly)) SmallNvs
          (if ep_subtype p = 0 then
             ensure (\<not> (ota_seen \<or> ep_size p \<noteq> 0x2000)) OtaMetadata (validate_data_loop True tee_ota_seen ps)
           else if ep_subtype p = 0x90 then
             ensure (\<not> (tee_ota_seen \<or> ep_size p \<noteq> 0x2000)) OtaMetadata (validate_data_loop ota_seen True ps)
           else validate_data_loop ota_seen tee_ota_seen ps)))"

definition validate_data_subtypes :: "EspPartition list \<Rightarrow> (esp_error, unit) result" where
  "validate_data_subtypes partitions = validate_data_loop False False (filter (\<lambda>p. ep_kind p = 1) partitions)"

section \<open>The source parser\<close>

definition label_ok :: "rstring \<Rightarrow> bool" where
  "label_ok name =
     (\<not> (name = [] \<or> length name > 16 \<or>
         \<not> list_all (\<lambda>b. is_ascii_alphanumeric b \<or> b = 0x5f \<or> b = 0x2d \<or> b = 0x2e) name \<or>
         name = ascii ''.'' \<or> name = ascii ''..''))"

fun parse_flags :: "u32 \<Rightarrow> rstring list \<Rightarrow> (line_error, u32) result" where
  "parse_flags flags [] = Inr flags"
| "parse_flags flags (flag # rest) =
     rbind (if flag = ascii ''encrypted'' then Inr 1 else if flag = ascii ''readonly'' then Inr 2 else Inl UnknownFlag) (\<lambda>bit'.
     ensure (flags AND bit' = 0) DuplicateFlag (parse_flags (flags OR bit') rest))"

definition parse_kind :: "rstring \<Rightarrow> (line_error, u8) result" where
  "parse_kind field =
     (let lower = to_ascii_lowercase field
      in if lower = ascii ''app'' then Inr 0
         else if lower = ascii ''data'' then Inr 1
         else rbind (parse_number lower) (\<lambda>n. u8_try_from n KindOutsideByte))"

text \<open>One entry line, after trimming; \<open>previous_end\<close> is where the entry before it ends.\<close>

definition parse_entry_line :: "nat \<Rightarrow> rstring \<Rightarrow> (line_error, EspPartition) result" where
  "parse_entry_line previous_end line =
     ensure (\<not> list_ex (\<lambda>b. b \<in> {0x24, 0, 0x5c, 0x22, 0x27}) line) QuotingUnsupported
     (let fields = map trim (split_on (\<lambda>b. b = 0x2c) line)
      in ensure (5 \<le> length fields \<and> length fields \<le> 6) FieldCount
        (let name = fields ! 0
         in ensure (label_ok name) BadLabel
           (rbind (parse_kind (fields ! 1)) (\<lambda>kind.
            ensure (\<not> (kind = 2 \<or> kind = 3)) SelfDescription
            (rbind (parse_subtype kind (fields ! 2)) (\<lambda>subtype.
             rbind (parse_number (fields ! 3)) (\<lambda>offset.
             rbind (parse_number (fields ! 4)) (\<lambda>size.
             rbind (if length fields = 6 \<and> fields ! 5 \<noteq> []
                    then parse_flags 0 (split_on (\<lambda>b. b = 0x3a) (fields ! 5)) else Inr 0) (\<lambda>flags.
             ensure (\<not> unat offset < previous_end) OutOfOrder
               (Inr \<lparr>ep_name = name, ep_kind = kind, ep_subtype = subtype, ep_offset = offset, ep_size = size,
                     ep_flags = flags\<rparr>))))))))))"

text \<open>The loop over the lines: the line number, the end of the last entry and the entries.\<close>

fun parse_lines ::
  "usize \<Rightarrow> nat \<Rightarrow> EspPartition list \<Rightarrow> rstring list \<Rightarrow> (esp_error, EspPartition list) result" where
  "parse_lines index previous_end partitions [] = Inr partitions"
| "parse_lines index previous_end partitions (raw # lines) =
     ensure (\<not> (length raw > 1024 \<or> index \<ge> 1024)) LineBudget
     (let line = trim raw
      in if line = [] \<or> hd line = 0x23 then parse_lines (index + 1) previous_end partitions lines
         else ensure (\<not> length partitions \<ge> 94) RecordBudget
           (rbind (map_err (EspLine (index + 1)) (parse_entry_line previous_end line)) (\<lambda>p.
              parse_lines (index + 1) (part_end p) (partitions @ [p]) lines)))"

definition geometry_ok :: "u32 \<Rightarrow> u64 \<Rightarrow> bool" where
  "geometry_ok table_offset flash_bytes =
     (\<not> (flash_bytes = 0 \<or> unat flash_bytes > 2 ^ 32 \<or> unat table_offset mod SECTOR_BYTES \<noteq> 0 \<or>
         unat table_offset + SECTOR_BYTES > unat flash_bytes))"

definition parse_esp_partition_source ::
  "(bytes \<Rightarrow> bytes) \<Rightarrow> bytes \<Rightarrow> u32 \<Rightarrow> u64 \<Rightarrow> (esp_error, EspPartitionSource) result" where
  "parse_esp_partition_source sha256 bs table_offset flash_bytes =
     ensure (\<not> length bs > 64 * 1024) SourceTooLarge
     (ensure (utf8_valid bs) SourceNotUtf8
     (let table_start = unat table_offset; table_end = table_start + SECTOR_BYTES
      in ensure (geometry_ok table_offset flash_bytes) InvalidGeometry
        (rbind (parse_lines 0 table_end [] (str_lines bs)) (\<lambda>partitions.
         ensure (partitions \<noteq> []) NoEntries
         (rbind (validate_ranges partitions table_start table_end (unat flash_bytes)) (\<lambda>_.
          rbind (validate_data_subtypes partitions) (\<lambda>_.
            Inr \<lparr>src_sha256 = sha256_bytes sha256 bs, src_partitions = partitions\<rparr>)))))))"

section \<open>The encoder\<close>

definition partition_record :: "EspPartition \<Rightarrow> bytes" where
  "partition_record p =
     [0xaa, 0x50, ep_kind p, ep_subtype p] @ u32_to_le (ep_offset p) @ u32_to_le (ep_size p) @
     (ep_name p @ replicate (16 - length (ep_name p)) 0) @ u32_to_le (ep_flags p)"

definition encode_esp_partition_source ::
  "(bytes \<Rightarrow> bytes) \<Rightarrow> (bytes \<Rightarrow> bytes) \<Rightarrow> bytes \<Rightarrow> Sha256Digest \<Rightarrow> u32 \<Rightarrow> u64 \<Rightarrow>
     (esp_error, EspPartitionArtifact) result" where
  "encode_esp_partition_source md5 sha256 bs expected_source_sha256 table_offset flash_bytes =
     ensure (\<not> length bs > 64 * 1024) SourceTooLarge
     (ensure (sha256_bytes sha256 bs = expected_source_sha256) SourceDigestDiffers
     (rbind (parse_esp_partition_source sha256 bs table_offset flash_bytes) (\<lambda>source.
      ensure (\<not> (length (src_partitions source) + 2) * RECORD_BYTES > TABLE_BYTES) CapacityExceeded
      (let records = concat (map partition_record (src_partitions source));
           output = records @ [0xeb, 0xeb] @ replicate 14 0xff @ md5 records;
           table = take TABLE_BYTES output @ replicate (TABLE_BYTES - length output) 0xff
       in Inr \<lparr>art_bytes = table, art_sha256 = sha256_bytes sha256 table, art_source = source,
               art_table_offset = table_offset, art_flash_bytes = flash_bytes\<rparr>))))"

section \<open>What the range check promises\<close>

definition part_bytes :: "EspPartition \<Rightarrow> nat set" where
  "part_bytes p = {part_start p..<part_end p}"

definition disjoint_parts :: "EspPartition \<Rightarrow> EspPartition \<Rightarrow> bool" where
  "disjoint_parts p q = (part_bytes p \<inter> part_bytes q = {})"

definition part_ok :: "nat \<Rightarrow> nat \<Rightarrow> EspPartition \<Rightarrow> bool" where
  "part_ok table_end flash_bytes p =
     (ep_flags p AND NOT 3 = 0 \<and> ep_size p \<noteq> 0 \<and> part_alignment p dvd part_start p \<and>
      (ep_kind p = 0 \<longrightarrow> SECTOR_BYTES dvd unat (ep_size p)) \<and>
      part_bytes p \<subseteq> {table_end..<flash_bytes})"

definition ranges_ok :: "EspPartition list \<Rightarrow> nat \<Rightarrow> nat \<Rightarrow> bool" where
  "ranges_ok ps table_end flash_bytes =
     (distinct (map ep_name ps) \<and> list_all (part_ok table_end flash_bytes) ps \<and> sorted_wrt disjoint_parts ps)"

lemma part_nonempty: "ep_size p \<noteq> 0 \<longleftrightarrow> part_start p < part_end p"
  by (simp add: part_end_def unat_gt_0)

lemma overlap_iff:
  "ep_size p \<noteq> 0 \<Longrightarrow> ep_size q \<noteq> 0 \<Longrightarrow>
     (part_start p < part_end q \<and> part_start q < part_end p) \<longleftrightarrow> \<not> disjoint_parts q p"
proof -
  assume "ep_size p \<noteq> 0" "ep_size q \<noteq> 0"
  moreover have "part_bytes q \<inter> part_bytes p =
      {max (part_start q) (part_start p)..<min (part_end q) (part_end p)}"
    by (auto simp: part_bytes_def)
  ultimately show ?thesis by (auto simp: disjoint_parts_def part_nonempty)
qed

lemma validate_range_iff:
  assumes "table_start \<le> table_end" "\<forall>q\<in>set previous. ep_size q \<noteq> 0"
  shows "validate_range table_start table_end flash_bytes previous p = Inr () \<longleftrightarrow>
    part_ok table_end flash_bytes p \<and> ep_name p \<notin> ep_name ` set previous \<and> (\<forall>q\<in>set previous. disjoint_parts q p)"
proof (cases "ep_size p = 0")
  case True
  then show ?thesis by (simp add: validate_range_def part_ok_def)
next
  case False
  then have "part_bytes p \<subseteq> {table_end..<flash_bytes} \<longleftrightarrow> table_end \<le> part_start p \<and> part_end p \<le> flash_bytes"
    by (auto simp: part_bytes_def part_nonempty)
  moreover have "list_ex (\<lambda>q. part_start p < part_end q \<and> part_start q < part_end p) previous \<longleftrightarrow>
      \<not> (\<forall>q\<in>set previous. disjoint_parts q p)"
    using overlap_iff [OF False] assms(2) by (auto simp: list_ex_iff)
  ultimately show ?thesis
    using False by (auto simp: validate_range_def part_ok_def dvd_eq_mod_eq_0 not_less not_le)
qed

lemma validate_ranges_loop_iff:
  assumes "table_start \<le> table_end" "\<forall>q\<in>set previous. ep_size q \<noteq> 0"
  shows "validate_ranges_loop table_start table_end flash_bytes previous ps = Inr () \<longleftrightarrow>
    ranges_ok ps table_end flash_bytes \<and> ep_name ` set ps \<inter> ep_name ` set previous = {} \<and>
    (\<forall>q\<in>set previous. \<forall>p\<in>set ps. disjoint_parts q p)"
  using assms(2)
proof (induction ps arbitrary: previous)
  case Nil
  then show ?case by (simp add: ranges_ok_def)
next
  case (Cons p ps)
  have "validate_ranges_loop table_start table_end flash_bytes previous (p # ps) = Inr () \<longleftrightarrow>
      validate_range table_start table_end flash_bytes previous p = Inr () \<and>
      validate_ranges_loop table_start table_end flash_bytes (previous @ [p]) ps = Inr ()"
    by (simp add: rbind_eq_Inr)
  also have "\<dots> \<longleftrightarrow> ranges_ok (p # ps) table_end flash_bytes \<and>
      ep_name ` set (p # ps) \<inter> ep_name ` set previous = {} \<and> (\<forall>q\<in>set previous. \<forall>r\<in>set (p # ps). disjoint_parts q r)"
  proof (cases "ep_size p = 0")
    case True
    then have "\<not> part_ok table_end flash_bytes p" by (simp add: part_ok_def)
    then show ?thesis using Cons.prems assms(1) by (auto simp: validate_range_iff ranges_ok_def)
  next
    case False
    then show ?thesis
      using Cons.prems Cons.IH [of "previous @ [p]"] assms(1)
      by (auto simp: validate_range_iff ranges_ok_def)
  qed
  finally show ?case .
qed

lemma validate_ranges_iff:
  "table_start \<le> table_end \<Longrightarrow>
     validate_ranges ps table_start table_end flash_bytes = Inr () \<longleftrightarrow> ranges_ok ps table_end flash_bytes"
  by (simp add: validate_ranges_def validate_ranges_loop_iff)

section \<open>What the parser promises\<close>

definition in_source_order :: "EspPartition list \<Rightarrow> bool" where
  "in_source_order ps = sorted_wrt (\<lambda>p q. part_end p \<le> part_start q) ps"

lemma parse_entry_line_facts:
  assumes "parse_entry_line previous_end line = Inr p"
  shows "label_ok (ep_name p)" "previous_end \<le> part_start p"
  using assms by (auto simp: parse_entry_line_def Let_def rbind_eq_Inr part_start_def split: if_splits)

lemma parse_lines_facts:
  "parse_lines index previous_end ps lines = Inr out \<Longrightarrow> length ps \<le> 94 \<Longrightarrow>
     list_all (\<lambda>p. label_ok (ep_name p)) ps \<Longrightarrow> in_source_order ps \<Longrightarrow> (\<forall>p\<in>set ps. part_end p \<le> previous_end) \<Longrightarrow>
     length out \<le> 94 \<and> list_all (\<lambda>p. label_ok (ep_name p)) out \<and> in_source_order out"
proof (induction index previous_end ps lines rule: parse_lines.induct)
  case (2 index previous_end ps raw lines)
  let ?line = "trim raw"
  have budget: "\<not> (length raw > 1024 \<or> index \<ge> 1024)" using 2(3) by (auto split: if_splits)
  show ?case
  proof (cases "?line = [] \<or> hd ?line = 0x23")
    case True
    with 2 budget show ?thesis by (auto simp: Let_def)
  next
    case False
    with 2(3) budget obtain p where p: "\<not> length ps \<ge> 94" "parse_entry_line previous_end ?line = Inr p"
      "parse_lines (index + 1) (part_end p) (ps @ [p]) lines = Inr out"
      by (auto simp: Let_def rbind_eq_Inr split: if_splits)
    have "previous_end \<le> part_start p" "label_ok (ep_name p)" using parse_entry_line_facts [OF p(2)] by auto
    moreover have "part_start p \<le> part_end p" by (simp add: part_end_def)
    ultimately have step: "length (ps @ [p]) \<le> 94" "list_all (\<lambda>p. label_ok (ep_name p)) (ps @ [p])" "in_source_order (ps @ [p])"
      "\<forall>q\<in>set (ps @ [p]). part_end q \<le> part_end p"
      using 2(4-7) p(1) by (auto simp: in_source_order_def sorted_wrt_append dest: order_trans)
    show ?thesis using 2(2) [OF budget refl False p(1) _ p(3) step] p(2) by simp
  qed
qed simp

lemma parse_source_facts:
  assumes "parse_esp_partition_source sha256 bs table_offset flash_bytes = Inr src"
  shows "geometry_ok table_offset flash_bytes" "src_partitions src \<noteq> []" "length (src_partitions src) \<le> 94"
    "list_all (\<lambda>p. label_ok (ep_name p)) (src_partitions src)" "in_source_order (src_partitions src)"
    "ranges_ok (src_partitions src) (unat table_offset + SECTOR_BYTES) (unat flash_bytes)"
    "validate_data_subtypes (src_partitions src) = Inr ()" "src_sha256 src = sha256_bytes sha256 bs"
proof -
  from assms obtain ps where ps: "parse_lines 0 (unat table_offset + SECTOR_BYTES) [] (str_lines bs) = Inr ps" "ps \<noteq> []"
    "validate_ranges ps (unat table_offset) (unat table_offset + SECTOR_BYTES) (unat flash_bytes) = Inr ()"
    "validate_data_subtypes ps = Inr ()" "geometry_ok table_offset flash_bytes"
    "src = \<lparr>src_sha256 = sha256_bytes sha256 bs, src_partitions = ps\<rparr>"
    by (auto simp: parse_esp_partition_source_def Let_def rbind_eq_Inr split: if_splits)
  then show "geometry_ok table_offset flash_bytes" "src_partitions src \<noteq> []" "length (src_partitions src) \<le> 94"
    "list_all (\<lambda>p. label_ok (ep_name p)) (src_partitions src)" "in_source_order (src_partitions src)"
    "ranges_ok (src_partitions src) (unat table_offset + SECTOR_BYTES) (unat flash_bytes)"
    "validate_data_subtypes (src_partitions src) = Inr ()" "src_sha256 src = sha256_bytes sha256 bs"
    using parse_lines_facts [OF ps(1)] by (auto simp: validate_ranges_iff in_source_order_def)
qed

section \<open>Numbers\<close>

text \<open>The unit suffixes and what they multiply by.\<close>

definition unit_suffix :: "(rstring \<times> nat) list" where
  "unit_suffix = [([], 1), (ascii ''k'', 1024), (ascii ''K'', 1024), (ascii ''m'', 1024 * 1024), (ascii ''M'', 1024 * 1024)]"

lemma digit_not_unit: "is_ascii_digit b \<Longrightarrow> ascii_lower b \<noteq> 0x6b \<and> ascii_lower b \<noteq> 0x6d"
  by (auto simp: ascii_lower_def ascii_class_defs word_le_nat_alt)

lemma split_unit_decimal:
  assumes "(u, m) \<in> set unit_suffix"
  shows "split_unit (decimal n @ u) = (decimal n, m)"
proof -
  have "is_ascii_digit (last (decimal n))" by (rule decimal_is_digit [of _ n]) simp
  then have "split_unit (decimal n) = (decimal n, 1)" using digit_not_unit by (simp add: split_unit_def)
  with assms show ?thesis by (auto simp: unit_suffix_def split_unit_def ascii_def ascii_lower_def is_ascii_uppercase_def)
qed

lemma decimal_zero: "decimal 0 = [48]"
  by (subst decimal.simps) simp

lemma split_radix_decimal: "split_radix (decimal n) = Inr (decimal n, 10)"
proof (cases "n = 0")
  case True
  then show ?thesis by (simp add: split_radix_def decimal_zero ascii_def)
next
  case False
  obtain b bs where d: "decimal n = b # bs" by (cases "decimal n") auto
  then have "b \<noteq> 48" using decimal_leading [of n] False by simp
  then show ?thesis by (simp add: split_radix_def d ascii_def)
qed

lemma parse_number_digits:
  assumes "split_unit s = (decimal n, m)"
  shows "parse_number s = (if n < 2 ^ 32 \<and> n * m < 2 ^ 32 then Inr (of_nat (n * m)) else Inl BadNumber)"
proof -
  have "is_ascii_digit (hd (decimal n))" by (rule decimal_is_digit [of _ n]) simp
  then have "hd (decimal n) \<noteq> 0x2b" "hd (decimal n) \<noteq> 0x2d" by (auto simp: is_ascii_digit_def)
  moreover have "unsigned_from_str_radix (2 ^ 32) 10 (decimal n) = (if n < 2 ^ 32 then Some n else None)"
  proof (cases "n < 2 ^ 32")
    case True
    then show ?thesis by (simp add: unsigned_from_decimal)
  next
    case False
    then show ?thesis
      using \<open>hd (decimal n) \<noteq> 0x2b\<close>
      by (simp add: unsigned_from_str_radix_def Let_def digits_value_decimal)
  qed
  ultimately show ?thesis using assms by (simp add: parse_number_def split_radix_decimal)
qed

lemma label_graphic:
  "is_ascii_alphanumeric b \<or> b = 0x5f \<or> b = 0x2d \<or> b = 0x2e \<Longrightarrow> is_ascii_graphic b"
  by (auto simp: ascii_class_defs word_le_nat_alt)

section \<open>Properties\<close>

text \<open>
  C17. The range check accepts exactly the lists that satisfy the declarative layout: distinct
  labels; for every partition known flags, a non-empty range aligned for its kind that lies
  between the end of the table sector and the end of the flash; and pairwise disjoint ranges,
  as sets of byte addresses.
\<close>

theorem validate_ranges_exact:
  assumes "table_start \<le> table_end"
  shows "validate_ranges ps table_start table_end flash_bytes = Inr () \<longleftrightarrow> ranges_ok ps table_end flash_bytes"
  using assms by (rule validate_ranges_iff)

theorem validate_ranges_exact_witness:
  "(0x8000 :: nat) \<le> 0x9000 \<and>
   ranges_ok [\<lparr>ep_name = ascii ''nvs'', ep_kind = 1, ep_subtype = 2, ep_offset = 0x9000, ep_size = 0x3000, ep_flags = 0\<rparr>]
     0x9000 0x400000"
  using validate_ranges_exact [of "0x8000" "0x9000"
      "[\<lparr>ep_name = ascii ''nvs'', ep_kind = 1, ep_subtype = 2, ep_offset = 0x9000, ep_size = 0x3000, ep_flags = 0\<rparr>]" "0x400000"]
  by (simp add: validate_ranges_def validate_range_def part_start_def part_end_def part_alignment_def SECTOR_BYTES_def)

text \<open>
  Every source the CSV parser accepts resolves to between 1 and 94 partitions, in strictly
  ascending address order, with portable labels of 1 to 16 bytes, that satisfy the declarative
  layout for the given geometry.
\<close>

lemma parse_source_sound:
  assumes "parse_esp_partition_source sha256 bs table_offset flash_bytes = Inr src"
  shows "1 \<le> length (src_partitions src) \<and> length (src_partitions src) \<le> 94 \<and>
    sorted_wrt (\<lambda>p q. part_start p < part_start q \<and> part_end p \<le> part_start q) (src_partitions src) \<and>
    list_all (\<lambda>p. 1 \<le> length (ep_name p) \<and> length (ep_name p) \<le> 16 \<and> list_all is_ascii_graphic (ep_name p)) (src_partitions src) \<and>
    ranges_ok (src_partitions src) (unat table_offset + 0x1000) (unat flash_bytes) \<and>
    unat table_offset + 0x1000 \<le> unat flash_bytes \<and> unat flash_bytes \<le> 2 ^ 32"
proof -
  note facts = parse_source_facts [OF assms]
  have nonempty: "part_start p < part_end p" if "p \<in> set (src_partitions src)" for p
    using facts(6) that by (simp add: ranges_ok_def list_all_iff part_ok_def part_nonempty)
  have "sorted_wrt (\<lambda>p q. part_start p < part_start q \<and> part_end p \<le> part_start q) (src_partitions src)"
    using facts(5) unfolding in_source_order_def
    by (rule sorted_wrt_mono_rel [rotated]) (use nonempty in \<open>auto dest: order.strict_trans2\<close>)
  moreover have "1 \<le> length n \<and> length n \<le> 16 \<and> list_all is_ascii_graphic n" if "label_ok n" for n
    using that label_graphic by (cases n) (auto simp: label_ok_def list_all_iff)
  ultimately show ?thesis
    using facts(1-4,6) by (auto simp: list_all_iff geometry_ok_def SECTOR_BYTES_def Suc_le_eq not_less)
qed

definition sample_csv :: bytes where
  "sample_csv = ascii ''nvs,data,nvs,36864,24K''"

definition sample_partition :: EspPartition where
  "sample_partition =
     \<lparr>ep_name = ascii ''nvs'', ep_kind = 1, ep_subtype = 2, ep_offset = 36864, ep_size = 24576, ep_flags = 0\<rparr>"

lemma sample_plain: "\<forall>b\<in>set sample_csv. 33 \<le> unat b \<and> unat b < 128"
proof -
  have "list_all (\<lambda>b. 33 \<le> unat b \<and> unat b < 128) sample_csv" by code_simp
  then show ?thesis by (simp add: list_all_iff)
qed

lemma sample_entry: "parse_entry_line 36864 sample_csv = Inr sample_partition"
proof -
  have "split_on (\<lambda>b. b = 0x2c) sample_csv =
      [ascii ''nvs'', ascii ''data'', ascii ''nvs'', ascii ''36864'', ascii ''24K'']" by code_simp
  moreover have "parse_number (ascii ''24K'') = Inr 24576" "parse_number (ascii ''36864'') = Inr 36864"
    "parse_subtype 1 (ascii ''nvs'') = Inr 2" "parse_kind (ascii ''data'') = Inr 1" "label_ok (ascii ''nvs'')"
    "\<not> list_ex (\<lambda>b. b \<in> {0x24, 0, 0x5c, 0x22, 0x27}) sample_csv" by code_simp+
  ultimately show ?thesis
    using trim_plain_pieces [OF sample_plain, of "\<lambda>b. b = 0x2c"]
    by (simp add: parse_entry_line_def sample_partition_def)
qed

lemma sample_source:
  "parse_esp_partition_source sha256 sample_csv 0x8000 0x400000 =
     Inr \<lparr>src_sha256 = sha256_bytes sha256 sample_csv, src_partitions = [sample_partition]\<rparr>"
proof -
  have facts: "str_lines sample_csv = [sample_csv]" "length sample_csv = 22" "sample_csv \<noteq> []" "hd sample_csv \<noteq> 0x23"
    by code_simp+
  have "utf8_valid sample_csv" using sample_plain by (simp add: utf8_valid_def utf8_chars_ascii)
  moreover have "parse_lines 0 36864 [] (str_lines sample_csv) = Inr [sample_partition]"
    using facts sample_entry trim_plain [OF sample_plain] by simp
  moreover have "validate_ranges [sample_partition] 32768 36864 4194304 = Inr ()"
    by (simp add: validate_ranges_def validate_range_def part_start_def part_end_def part_alignment_def
        SECTOR_BYTES_def sample_partition_def)
  moreover have "validate_data_subtypes [sample_partition] = Inr ()"
    by (simp add: validate_data_subtypes_def sample_partition_def Let_def word_less_nat_alt)
  ultimately show ?thesis
    using facts by (simp add: parse_esp_partition_source_def geometry_ok_def SECTOR_BYTES_def)
qed

lemma parse_source_sound_witness:
  "list_all is_ascii_graphic (ep_name sample_partition) \<and> ranges_ok [sample_partition] 36864 4194304"
  using parse_source_sound [OF sample_source, of "\<lambda>_. []"] by simp

text \<open>
  Numbers: a decimal number with an optional K or M unit, in either case, parses to the
  number times its unit when that fits 32 bits, and is refused as overflowing otherwise.
\<close>

lemma parse_number_decimal:
  assumes "(u, m) \<in> set unit_suffix"
  shows "parse_number (decimal n @ u) = (if n * m < 2 ^ 32 then Inr (of_nat (n * m)) else Inl BadNumber)"
proof -
  have "1 \<le> m" using assms by (auto simp: unit_suffix_def)
  then have "n \<le> n * m" by simp
  then have "n * m < 2 ^ 32 \<Longrightarrow> n < 2 ^ 32" by (rule le_less_trans)
  then show ?thesis using parse_number_digits [OF split_unit_decimal [OF assms, of n]] by auto
qed

lemma parse_number_decimal_witness: "parse_number (decimal 24 @ ascii ''K'') = Inr 24576"
  using parse_number_decimal [of "ascii ''K''" 1024 24] by (simp add: unit_suffix_def)

end
