(* ===== verification/Esp_Verify.thy ===== *)
theory Esp_Verify
  imports Esp_Partition
begin

unbundle bit_operations_syntax

text \<open>
  The independent check of partition tables, \<open>crates/aros-verify/src/esp_partition.rs\<close>. It
  decodes the container record by record and re-validates the ranges with its own copy of the
  range check. What it accepts is exactly what the encoder of \<open>aros-common\<close> writes.
\<close>

section \<open>Data\<close>

record EspPartitionFacts =
  pf_sha256 :: Sha256Digest
  pf_size_bytes :: usize
  pf_partitions :: "EspPartition list"

section \<open>The verifier's own range check\<close>

definition verify_range ::
  "nat \<Rightarrow> nat \<Rightarrow> nat \<Rightarrow> EspPartition list \<Rightarrow> EspPartition \<Rightarrow> (esp_error, unit) result" where
  "verify_range table_start table_end flash_bytes previous p =
     ensure (ep_name p \<notin> ep_name ` set previous) DuplicateLabel
     (ensure (ep_flags p AND NOT 3 = 0) UnsupportedFlags
     (ensure (\<not> (ep_size p = 0 \<or> part_start p mod part_alignment p \<noteq> 0 \<or> part_end p > flash_bytes)) BadRange
     (ensure (\<not> (ep_kind p = 0 \<and> unat (ep_size p) mod SECTOR_BYTES \<noteq> 0)) AppSizeUnaligned
     (ensure (\<not> (part_start p < table_end \<and> table_start < part_end p)) OverlapsTable
     (ensure (\<not> part_start p < table_end) BeforeTableEnd
     (ensure (\<not> list_ex (\<lambda>q. part_start p < part_end q \<and> part_start q < part_end p) previous) RangesOverlap
       (Inr ())))))))"

fun verify_ranges_loop ::
  "nat \<Rightarrow> nat \<Rightarrow> nat \<Rightarrow> EspPartition list \<Rightarrow> EspPartition list \<Rightarrow> (esp_error, unit) result" where
  "verify_ranges_loop table_start table_end flash_bytes previous [] = Inr ()"
| "verify_ranges_loop table_start table_end flash_bytes previous (p # ps) =
     rbind (verify_range table_start table_end flash_bytes previous p) (\<lambda>_.
       verify_ranges_loop table_start table_end flash_bytes (previous @ [p]) ps)"

definition verify_ranges :: "EspPartition list \<Rightarrow> nat \<Rightarrow> nat \<Rightarrow> nat \<Rightarrow> (esp_error, unit) result" where
  "verify_ranges partitions table_start table_end flash_bytes =
     verify_ranges_loop table_start table_end flash_bytes [] partitions"

section \<open>Records\<close>

text \<open>\<open>record[offset..offset + 4]\<close> as a little-endian word.\<close>

definition record_word :: "bytes \<Rightarrow> usize \<Rightarrow> u32" where
  "record_word r offset = u32_from_le (take 4 (drop offset r))"

definition record_label :: "bytes \<Rightarrow> (esp_error, rstring) result" where
  "record_label r =
     (let label = take 16 (drop 12 r);
          label_end = (case position (\<lambda>b. b = 0) label of Some n \<Rightarrow> n | None \<Rightarrow> 16)
      in ensure (\<not> (label_end = 0 \<or>
                   list_ex (\<lambda>b. \<not> (0x21 \<le> b \<and> b \<le> 0x7e)) (take label_end label) \<or>
                   list_ex (\<lambda>b. b \<noteq> 0) (drop label_end label))) BadRecordLabel
           (ensure (utf8_valid (take label_end label)) LabelNotUtf8 (Inr (take label_end label))))"

definition decode_partition :: "bytes \<Rightarrow> (esp_error, EspPartition) result" where
  "decode_partition r =
     rbind (record_label r) (\<lambda>name.
       Inr \<lparr>ep_name = name, ep_kind = r ! 2, ep_subtype = r ! 3, ep_offset = record_word r 4,
            ep_size = record_word r 8, ep_flags = record_word r 28\<rparr>)"

text \<open>\<open>bytes.as_chunks::<32>().0\<close>: the whole chunks, in order.\<close>

function chunks :: "usize \<Rightarrow> bytes \<Rightarrow> bytes list" where
  "chunks n bs = (if n = 0 \<or> length bs < n then [] else take n bs # chunks n (drop n bs))"
  by auto
termination by (relation "measure (\<lambda>(n, bs). length bs)") auto

declare chunks.simps [simp del]

text \<open>
  The loop over the records: what is still to come, the record index, the partitions so far and
  whether the checksum record was seen. It ends at the first erased record.
\<close>

fun verify_records ::
  "(bytes \<Rightarrow> bytes) \<Rightarrow> bytes \<Rightarrow> bytes list \<Rightarrow> usize \<Rightarrow> EspPartition list \<Rightarrow> bool \<Rightarrow>
     (esp_error, EspPartition list) result" where
  "verify_records md5 bs [] index partitions checksum_seen = Inl NoEndMarker"
| "verify_records md5 bs (r # rs) index partitions checksum_seen =
     (if r = replicate RECORD_BYTES 0xff then
        ensure checksum_seen EndsBeforeChecksum
          (ensure (\<not> list_ex (\<lambda>b. b \<noteq> 0xff) (drop (index * RECORD_BYTES) bs)) TrailingData
            (Inr partitions))
      else if take 2 r = [0xeb, 0xeb] then
        ensure (\<not> (checksum_seen \<or> partitions = [] \<or> take 14 (drop 2 r) \<noteq> replicate 14 0xff)) InvalidMd5Record
          (ensure (drop 16 r = md5 (take (index * RECORD_BYTES) bs)) Md5Differs
            (verify_records md5 bs rs (index + 1) partitions True))
      else ensure (\<not> (checksum_seen \<or> take 2 r \<noteq> [0xaa, 0x50])) UnsupportedRecord
        (rbind (decode_partition r) (\<lambda>p.
           verify_records md5 bs rs (index + 1) (partitions @ [p]) checksum_seen)))"

definition verify_esp_partition_table ::
  "(bytes \<Rightarrow> bytes) \<Rightarrow> (bytes \<Rightarrow> bytes) \<Rightarrow> bytes \<Rightarrow> u32 \<Rightarrow> u64 \<Rightarrow> EspPartition list \<Rightarrow>
     (esp_error, EspPartitionFacts) result" where
  "verify_esp_partition_table md5 sha256 bs table_offset flash_bytes expected =
     (let table_start = unat table_offset; table_end = table_start + SECTOR_BYTES
      in ensure (\<not> (flash_bytes = 0 \<or> unat flash_bytes > 2 ^ 32 \<or> table_start mod SECTOR_BYTES \<noteq> 0 \<or>
                     table_end > unat flash_bytes \<or> expected = [])) InvalidGeometry
        (ensure (length bs = TABLE_BYTES) UnsupportedTableSize
        (rbind (verify_records md5 bs (chunks RECORD_BYTES bs) 0 [] False) (\<lambda>partitions.
         rbind (verify_ranges partitions table_start table_end (unat flash_bytes)) (\<lambda>_.
         ensure (partitions = expected) DiffersFromSource
           (Inr \<lparr>pf_sha256 = sha256_bytes sha256 bs, pf_size_bytes = length bs, pf_partitions = partitions\<rparr>))))))"

section \<open>The two range checks agree\<close>

lemma verify_range_eq: "verify_range = validate_range"
  by (simp add: fun_eq_iff verify_range_def validate_range_def)

lemma verify_ranges_eq: "verify_ranges ps table_start table_end flash_bytes = validate_ranges ps table_start table_end flash_bytes"
proof -
  have "verify_ranges_loop table_start table_end flash_bytes previous ps =
      validate_ranges_loop table_start table_end flash_bytes previous ps" for previous
    by (induction ps arbitrary: previous) (simp_all add: verify_range_eq split: sum.split)
  then show ?thesis by (simp add: verify_ranges_def validate_ranges_def)
qed

section \<open>Chunks\<close>

lemma chunks_Nil [simp]: "chunks n [] = []"
  by (subst chunks.simps) auto

lemma chunks_append: "length r = n \<Longrightarrow> 0 < n \<Longrightarrow> chunks n (r @ bs) = r # chunks n bs"
  by (subst chunks.simps) simp

lemma chunks_concat:
  "list_all (\<lambda>r. length r = n) rs \<Longrightarrow> 0 < n \<Longrightarrow> chunks n (concat rs @ bs) = rs @ chunks n bs"
  by (induction rs) (auto simp: chunks_append)

lemma chunks_rest:
  "0 < n \<Longrightarrow> length bs = k * n \<Longrightarrow> list_all (\<lambda>r. length r = n) (chunks n bs) \<and> concat (chunks n bs) = bs"
proof (induction k arbitrary: bs)
  case (Suc k)
  then have "list_all (\<lambda>r. length r = n) (chunks n (drop n bs)) \<and> concat (chunks n (drop n bs)) = drop n bs"
    by simp
  with Suc.prems show ?case by (subst (1 2) chunks.simps) simp
qed simp

section \<open>One record\<close>

text \<open>What the verifier asks of a label; the portable labels of the parser satisfy it.\<close>

definition name_ok :: "rstring \<Rightarrow> bool" where
  "name_ok name = (name \<noteq> [] \<and> length name \<le> 16 \<and> list_all (\<lambda>b. 0x21 \<le> b \<and> b \<le> 0x7e) name)"

lemma label_ok_name_ok: "label_ok name \<Longrightarrow> name_ok name"
  using label_graphic by (auto simp: label_ok_def name_ok_def list_all_iff is_ascii_graphic_def)

lemma printable_ascii: "0x21 \<le> b \<and> b \<le> 0x7e \<Longrightarrow> unat b < 128 \<and> b \<noteq> 0" for b :: u8
  by (auto simp: word_le_nat_alt)

lemma name_ok_utf8: "name_ok name \<Longrightarrow> utf8_valid name"
  using printable_ascii by (auto simp: name_ok_def list_all_iff utf8_valid_def utf8_chars_ascii)

lemma length_partition_record: "length (ep_name p) \<le> 16 \<Longrightarrow> length (partition_record p) = 32"
  by (simp add: partition_record_def)

lemma label_position:
  assumes "name_ok name"
  shows "(case position (\<lambda>b. b = 0) (name @ replicate (16 - length name) 0) of Some n \<Rightarrow> n | None \<Rightarrow> 16) = length name"
proof -
  have nz: "\<forall>x\<in>set name. \<not> x = 0" using assms printable_ascii by (auto simp: name_ok_def list_all_iff)
  show ?thesis
  proof (cases "length name = 16")
    case True
    then have "position (\<lambda>b. b = 0) (name @ replicate (16 - length name) 0) = None"
      using nz by (simp add: position_eq_None)
    then show ?thesis using True by simp
  next
    case False
    then obtain k where "16 - length name = Suc k" using assms by (cases "16 - length name") (auto simp: name_ok_def)
    then show ?thesis using position_append [OF nz, of "0 # replicate k 0" 0] by simp
  qed
qed

lemma record_fields:
  assumes "length (ep_name p) \<le> 16"
  shows "take 2 (partition_record p) = [0xaa, 0x50]" "partition_record p ! 2 = ep_kind p"
    "partition_record p ! 3 = ep_subtype p" "record_word (partition_record p) 4 = ep_offset p"
    "record_word (partition_record p) 8 = ep_size p" "record_word (partition_record p) 28 = ep_flags p"
    "take 16 (drop 12 (partition_record p)) = ep_name p @ replicate (16 - length (ep_name p)) 0"
  using assms by (simp_all add: partition_record_def record_word_def)

lemma decode_partition_record:
  assumes "name_ok (ep_name p)"
  shows "decode_partition (partition_record p) = Inr p"
proof -
  have len: "length (ep_name p) \<le> 16" using assms by (simp add: name_ok_def)
  have "record_label (partition_record p) = Inr (ep_name p)"
    unfolding record_label_def record_fields(7) [OF len] Let_def label_position [OF assms]
    using assms name_ok_utf8 [OF assms] by (auto simp: name_ok_def list_all_iff list_ex_iff)
  then show ?thesis by (simp add: decode_partition_def record_fields [OF len])
qed

lemma record_label_eq_Inr:
  assumes "record_label r = Inr name" "length r = 32"
  shows "name_ok name \<and> take 16 (drop 12 r) = name @ replicate (16 - length name) 0"
proof -
  let ?label = "take 16 (drop 12 r)"
  define n where "n = (case position (\<lambda>b. b = 0) ?label of Some n \<Rightarrow> n | None \<Rightarrow> 16)"
  have l: "length ?label = 16" using assms(2) by simp
  have n: "n \<le> 16" using l by (auto simp: n_def position_eq_Some split: option.splits)
  from assms(1) have r: "name = take n ?label" "n \<noteq> 0" "\<forall>b\<in>set (take n ?label). 0x21 \<le> b \<and> b \<le> 0x7e"
    "\<forall>b\<in>set (drop n ?label). b = 0"
    unfolding record_label_def Let_def n_def [symmetric]
    by (auto simp: list_ex_iff split: if_splits)
  have "drop n ?label = replicate (16 - n) 0"
    using r(4) l n by (intro replicate_eqI) auto
  moreover have "length name = n" using r(1) l n by simp
  ultimately show ?thesis
    using r n append_take_drop_id [of n ?label] by (auto simp: name_ok_def list_all_iff)
qed

lemma u32_word_bytes: "length r = 32 \<Longrightarrow> offset + 4 \<le> 32 \<Longrightarrow> u32_to_le (record_word r offset) = take 4 (drop offset r)"
  by (simp add: record_word_def u32_to_from_le)

lemma split_record:
  assumes "length r = 32"
  shows "r = take 2 r @ [r ! 2, r ! 3] @ take 4 (drop 4 r) @ take 4 (drop 8 r) @ take 16 (drop 12 r) @ take 4 (drop 28 r)"
proof -
  have "[r ! 2, r ! 3] = take 2 (drop 2 r)" using assms 
    by (simp add: numeral_2_eq_2 numeral_3_eq_3 flip: Cons_nth_drop_Suc)
  moreover have "take 4 (drop 28 r) = drop 28 r" using assms by simp
  ultimately show ?thesis
    using assms append_take_drop_id [of 2 r] append_take_drop_id [of 2 "drop 2 r"] append_take_drop_id [of 4 "drop 4 r"]
      append_take_drop_id [of 4 "drop 8 r"] append_take_drop_id [of 16 "drop 12 r"]
    by (simp add: add.commute)
qed

lemma decode_partition_eq_Inr:
  assumes "decode_partition r = Inr p" "length r = 32" "take 2 r = [0xaa, 0x50]"
  shows "r = partition_record p \<and> name_ok (ep_name p)"
proof -
  from assms(1) obtain name where name: "record_label r = Inr name" and
    p: "p = \<lparr>ep_name = name, ep_kind = r ! 2, ep_subtype = r ! 3, ep_offset = record_word r 4,
            ep_size = record_word r 8, ep_flags = record_word r 28\<rparr>"
    by (auto simp: decode_partition_def rbind_eq_Inr)
  from record_label_eq_Inr [OF name assms(2)] have "name_ok name" "take 16 (drop 12 r) = name @ replicate (16 - length name) 0"
    by auto
  then show ?thesis
    using split_record [OF assms(2)] assms(3) p u32_word_bytes [OF assms(2)]
    by (simp add: partition_record_def)
qed

section \<open>The whole table\<close>

text \<open>The encoder's bytes for a partition list: records, checksum record, erased rest.\<close>

definition partition_records :: "EspPartition list \<Rightarrow> bytes" where
  "partition_records ps = concat (map partition_record ps)"

definition checksum_record :: "(bytes \<Rightarrow> bytes) \<Rightarrow> EspPartition list \<Rightarrow> bytes" where
  "checksum_record md5 ps = [0xeb, 0xeb] @ replicate 14 0xff @ md5 (partition_records ps)"

definition esp_table :: "(bytes \<Rightarrow> bytes) \<Rightarrow> EspPartition list \<Rightarrow> bytes" where
  "esp_table md5 ps =
     partition_records ps @ checksum_record md5 ps @ replicate (TABLE_BYTES - (length ps + 1) * 32) 0xff"

definition names_ok :: "EspPartition list \<Rightarrow> bool" where
  "names_ok ps = list_all (\<lambda>p. name_ok (ep_name p)) ps"

lemma records_sized: "names_ok ps \<Longrightarrow> list_all (\<lambda>r. length r = 32) (map partition_record ps)"
  by (auto simp: names_ok_def name_ok_def list_all_iff length_partition_record)

lemma length_partition_records: "names_ok ps \<Longrightarrow> length (partition_records ps) = length ps * 32"
  by (induction ps) (auto simp: names_ok_def partition_records_def name_ok_def length_partition_record)

lemma erased_record_hd: "hd (replicate RECORD_BYTES (0xff :: u8)) = 0xff"
  by (simp add: RECORD_BYTES_def hd_replicate)

lemma partition_record_starts:
  "name_ok (ep_name p) \<Longrightarrow> take 2 (partition_record p) = [0xaa, 0x50] \<and> partition_record p \<noteq> replicate RECORD_BYTES 0xff"
proof -
  have "hd (partition_record p) = 0xaa" "take 2 (partition_record p) = [0xaa, 0x50]"
    by (simp_all add: partition_record_def)
  then show ?thesis using erased_record_hd by force
qed

text \<open>After the checksum record only the erased rest is accepted.\<close>

lemma verify_records_checked:
  "verify_records md5 bs rs index acc True = Inr out \<longleftrightarrow>
     rs \<noteq> [] \<and> hd rs = replicate RECORD_BYTES 0xff \<and> (\<forall>b\<in>set (drop (index * RECORD_BYTES) bs). b = 0xff) \<and> out = acc"
  by (cases rs) (auto simp: list_ex_iff split: if_splits)

lemma verify_records_sound:
  "verify_records md5 bs rs (length acc) acc False = Inr out \<Longrightarrow> list_all (\<lambda>r. length r = 32) rs \<Longrightarrow>
     bs = partition_records acc @ concat rs \<Longrightarrow> names_ok acc \<Longrightarrow>
     out \<noteq> [] \<and> names_ok out \<and> length out + 2 \<le> length acc + length rs \<and>
     bs = partition_records out @ checksum_record md5 out @ replicate (length bs - (length out + 1) * 32) 0xff"
proof (induction rs arbitrary: acc)
  case (Cons r rs)
  have pre: "length (partition_records acc) = length acc * 32" using Cons.prems by (simp add: length_partition_records)
  have r32: "length r = 32" using Cons.prems by simp
  have ne: "r \<noteq> replicate RECORD_BYTES 0xff" using Cons.prems(1) by (auto split: if_splits)
  show ?case
  proof (cases "take 2 r = [0xeb, 0xeb]")
    case True
    with Cons.prems(1) ne have c: "acc \<noteq> []" "take 14 (drop 2 r) = replicate 14 0xff"
      "drop 16 r = md5 (take (length acc * RECORD_BYTES) bs)" "verify_records md5 bs rs (Suc (length acc)) acc True = Inr out"
      by (auto split: if_splits)
    have "take (length acc * RECORD_BYTES) bs = partition_records acc"
      using Cons.prems(3) pre by (simp add: RECORD_BYTES_def)
    moreover have "r = take 2 r @ take 14 (drop 2 r) @ drop 16 r"
      using append_take_drop_id [of 2 r] append_take_drop_id [of 14 "drop 2 r"] by simp
    ultimately have r: "r = checksum_record md5 acc" using True c(2,3) by (simp add: checksum_record_def)
    from c(4) have e: "out = acc" "rs \<noteq> []" "\<forall>b\<in>set (drop (Suc (length acc) * RECORD_BYTES) bs). b = 0xff"
      by (simp_all add: verify_records_checked)
    have "drop (Suc (length acc) * RECORD_BYTES) bs = concat rs"
      using Cons.prems(3) pre r32 by (simp add: RECORD_BYTES_def)
    moreover have "length bs = (length acc + 1) * 32 + length (concat rs)" using Cons.prems(3) pre r32 by simp
    ultimately have "concat rs = replicate (length bs - (length acc + 1) * 32) 0xff"
      using e(3) by (intro replicate_eqI) auto
    then have "bs = partition_records out @ checksum_record md5 out @ replicate (length bs - (length out + 1) * 32) 0xff"
      using Cons.prems(3) e(1) r by simp
    moreover have "1 \<le> length rs" using e(2) by (cases rs) auto
    ultimately show ?thesis using Cons.prems(4) c(1) e(1) by simp
  next
    case False
    with Cons.prems(1) ne obtain p where p: "take 2 r = [0xaa, 0x50]" "decode_partition r = Inr p"
      "verify_records md5 bs rs (length (acc @ [p])) (acc @ [p]) False = Inr out"
      by (auto simp: rbind_eq_Inr split: if_splits)
    from decode_partition_eq_Inr [OF p(2) r32 p(1)] have r: "r = partition_record p" "name_ok (ep_name p)" by auto
    have b: "bs = partition_records (acc @ [p]) @ concat rs" using Cons.prems(3) r(1) by (simp add: partition_records_def)
    have n: "names_ok (acc @ [p])" using Cons.prems(4) r(2) by (simp add: names_ok_def)
    have a: "list_all (\<lambda>r. length r = 32) rs" using Cons.prems(2) by simp
    have IH: "out \<noteq> []" "names_ok out" "length out + 2 \<le> length (acc @ [p]) + length rs"
      "bs = partition_records out @ checksum_record md5 out @ replicate (length bs - (length out + 1) * 32) 0xff"
      using Cons.IH [OF p(3) a b n] by blast+
    show ?thesis
    proof (intro conjI)
      show "length out + 2 \<le> length acc + length (r # rs)" using IH(3) by simp
    qed (fact IH)+
  qed
qed simp

lemma verify_records_complete:
  "names_ok (acc @ ps) \<Longrightarrow> acc @ ps \<noteq> [] \<Longrightarrow> bs = partition_records (acc @ ps) @ checksum_record md5 (acc @ ps) @ rest \<Longrightarrow>
     length (md5 (partition_records (acc @ ps))) = 16 \<Longrightarrow> rest = replicate (32 * Suc k) 0xff \<Longrightarrow>
     verify_records md5 bs (map partition_record ps @ [checksum_record md5 (acc @ ps), replicate 32 0xff] @ more_records) (length acc) acc False
       = Inr (acc @ ps)"
proof (induction ps arbitrary: acc)
  case Nil
  have pre: "length (partition_records acc) = length acc * 32" using Nil by (simp add: length_partition_records)
  let ?c = "checksum_record md5 acc"
  have c: "take 2 ?c = [0xeb, 0xeb]" "take 14 (drop 2 ?c) = replicate 14 0xff" "drop 16 ?c = md5 (partition_records acc)"
    "length ?c = 32" "hd ?c = 0xeb"
    using Nil.prems(4) by (auto simp: checksum_record_def)
  have "?c \<noteq> replicate RECORD_BYTES 0xff" using c(5) erased_record_hd by force
  have "take (length acc * RECORD_BYTES) bs = partition_records acc" using Nil.prems(3) pre by (simp add: RECORD_BYTES_def)
  moreover have "drop (Suc (length acc) * RECORD_BYTES) bs = rest"
    using Nil.prems(3) pre c(4) by (simp add: RECORD_BYTES_def)
  ultimately show ?case
    using c \<open>?c \<noteq> _\<close> Nil.prems(2,5) by (simp add: RECORD_BYTES_def list_ex_iff)
next
  case (Cons p ps)
  have "name_ok (ep_name p)" using Cons.prems(1) by (simp add: names_ok_def)
  then have p: "take 2 (partition_record p) = [0xaa, 0x50]" "partition_record p \<noteq> replicate RECORD_BYTES 0xff"
    "decode_partition (partition_record p) = Inr p"
    using partition_record_starts decode_partition_record by auto
  show ?case using Cons.IH [of "acc @ [p]"] Cons.prems p by simp
qed

section \<open>Encoder and verifier\<close>

lemma esp_table_length:
  assumes "names_ok ps" "length (md5 (partition_records ps)) = 16" "length ps \<le> 94"
  shows "length (esp_table md5 ps) = TABLE_BYTES"
  using assms by (simp add: esp_table_def checksum_record_def length_partition_records TABLE_BYTES_def)

lemma encode_bytes:
  assumes "encode_esp_partition_source md5 sha256 bs digest table_offset flash_bytes = Inr art"
    and "length (md5 (partition_records (src_partitions (art_source art)))) = 16"
  shows "parse_esp_partition_source sha256 bs table_offset flash_bytes = Inr (art_source art)"
    "sha256_bytes sha256 bs = digest" "art_bytes art = esp_table md5 (src_partitions (art_source art))"
    "art_table_offset art = table_offset" "art_flash_bytes art = flash_bytes" "art_sha256 art = sha256_bytes sha256 (art_bytes art)"
proof -
  from assms(1) obtain src where src: "parse_esp_partition_source sha256 bs table_offset flash_bytes = Inr src"
    "sha256_bytes sha256 bs = digest"
    by (auto simp: encode_esp_partition_source_def rbind_eq_Inr split: if_splits)
  let ?rec = "concat (map partition_record (src_partitions src))"
  let ?out = "?rec @ [0xeb, 0xeb] @ replicate 14 0xff @ md5 ?rec"
  from assms(1) src have art: "art_source art = src" "art_table_offset art = table_offset" "art_flash_bytes art = flash_bytes"
    "art_bytes art = take TABLE_BYTES ?out @ replicate (TABLE_BYTES - length ?out) 0xff"
    "art_sha256 art = sha256_bytes sha256 (art_bytes art)"
    by (auto simp: encode_esp_partition_source_def Let_def split: if_splits)
  have names: "names_ok (src_partitions src)"
    using parse_source_facts(4) [OF src(1)] label_ok_name_ok by (auto simp: names_ok_def list_all_iff)
  have n: "length (src_partitions src) \<le> 94" using parse_source_facts(3) [OF src(1)] .
  have "length ?out = (length (src_partitions src) + 1) * 32"
    using length_partition_records [OF names] assms(2) art(1) by (simp add: partition_records_def)
  moreover have "(length (src_partitions src) + 1) * 32 \<le> TABLE_BYTES" using n by (simp add: TABLE_BYTES_def)
  ultimately show "art_bytes art = esp_table md5 (src_partitions (art_source art))"
    by (simp add: art esp_table_def checksum_record_def partition_records_def)
  show "parse_esp_partition_source sha256 bs table_offset flash_bytes = Inr (art_source art)"
    "sha256_bytes sha256 bs = digest" "art_table_offset art = table_offset" "art_flash_bytes art = flash_bytes"
    "art_sha256 art = sha256_bytes sha256 (art_bytes art)"
    using src art by auto
qed

lemma verify_table_complete:
  assumes "geometry_ok table_offset flash_bytes" "ps \<noteq> []" "length ps \<le> 94" "names_ok ps"
    and "ranges_ok ps (unat table_offset + SECTOR_BYTES) (unat flash_bytes)"
    and md5: "length (md5 (partition_records ps)) = 16"
  shows "verify_esp_partition_table md5 sha256 (esp_table md5 ps) table_offset flash_bytes ps =
    Inr \<lparr>pf_sha256 = sha256_bytes sha256 (esp_table md5 ps), pf_size_bytes = TABLE_BYTES, pf_partitions = ps\<rparr>"
proof -
  let ?k = "94 - length ps"
  have pad: "TABLE_BYTES - (length ps + 1) * 32 = 32 * Suc ?k" using assms(3) by (simp add: TABLE_BYTES_def)
  have rest: "replicate (TABLE_BYTES - (length ps + 1) * 32) (0xff :: u8) = replicate 32 0xff @ replicate (32 * ?k) 0xff"
    unfolding pad by (simp flip: replicate_add)
  let ?rs = "map partition_record ps @ [checksum_record md5 ps, replicate 32 0xff]"
  have t: "esp_table md5 ps = concat ?rs @ replicate (32 * ?k) 0xff"
    unfolding esp_table_def rest by (simp add: partition_records_def)
  have "list_all (\<lambda>r. length r = 32) ?rs"
    using records_sized [OF assms(4)] md5 by (simp add: checksum_record_def)
  then have ch: "chunks RECORD_BYTES (esp_table md5 ps) = ?rs @ chunks 32 (replicate (32 * ?k) 0xff)"
    unfolding t RECORD_BYTES_def by (rule chunks_concat) simp
  have "verify_records md5 (esp_table md5 ps) (chunks RECORD_BYTES (esp_table md5 ps)) 0 [] False = Inr ps"
    using verify_records_complete [of "[]" ps "esp_table md5 ps" md5 _ ?k "chunks 32 (replicate (32 * ?k) 0xff)"] assms(2,4) md5 pad
    unfolding ch by (simp add: esp_table_def)
  moreover have "verify_ranges ps (unat table_offset) (unat table_offset + SECTOR_BYTES) (unat flash_bytes) = Inr ()"
    using assms(5) by (simp add: verify_ranges_eq validate_ranges_iff)
  ultimately show ?thesis
    using assms(1,2) esp_table_length [of ps md5, OF assms(4) md5 assms(3)]
    by (simp add: verify_esp_partition_table_def geometry_ok_def Let_def)
qed

lemma verify_table_sound:
  assumes "verify_esp_partition_table md5 sha256 bs table_offset flash_bytes expected = Inr facts"
  shows "geometry_ok table_offset flash_bytes" "expected \<noteq> []" "length expected \<le> 94" "names_ok expected"
    "ranges_ok expected (unat table_offset + SECTOR_BYTES) (unat flash_bytes)"
    "bs = esp_table md5 expected"
    "facts = \<lparr>pf_sha256 = sha256_bytes sha256 bs, pf_size_bytes = TABLE_BYTES, pf_partitions = expected\<rparr>"
proof -
  from assms have v: "geometry_ok table_offset flash_bytes" "expected \<noteq> []" "length bs = TABLE_BYTES"
    "verify_records md5 bs (chunks RECORD_BYTES bs) 0 [] False = Inr expected"
    "verify_ranges expected (unat table_offset) (unat table_offset + SECTOR_BYTES) (unat flash_bytes) = Inr ()"
    "facts = \<lparr>pf_sha256 = sha256_bytes sha256 bs, pf_size_bytes = length bs, pf_partitions = expected\<rparr>"
    by (auto simp: verify_esp_partition_table_def geometry_ok_def Let_def rbind_eq_Inr split: if_splits)
  have ch: "list_all (\<lambda>r. length r = 32) (chunks 32 bs)" "concat (chunks 32 bs) = bs"
    using chunks_rest [of 32 bs 96] v(3) by (simp_all add: TABLE_BYTES_def)
  have "length (concat rs) = 32 * length rs" if "list_all (\<lambda>r. length r = 32) rs" for rs :: "bytes list"
    using that by (induction rs) auto
  from this [OF ch(1)] have len: "length (chunks 32 bs) = 96" using ch(2) v(3) by (simp add: TABLE_BYTES_def)
  have s: "names_ok expected" "length expected + 2 \<le> 96"
    "bs = partition_records expected @ checksum_record md5 expected @ replicate (length bs - (length expected + 1) * 32) 0xff"
    using verify_records_sound [of md5 bs "chunks 32 bs" "[]" expected] v(4) ch len
    by (auto simp: RECORD_BYTES_def partition_records_def names_ok_def)
  then show "names_ok expected" "length expected \<le> 94" "bs = esp_table md5 expected"
    using v(3) by (simp_all add: esp_table_def)
  show "geometry_ok table_offset flash_bytes" "expected \<noteq> []"
    "ranges_ok expected (unat table_offset + SECTOR_BYTES) (unat flash_bytes)"
    "facts = \<lparr>pf_sha256 = sha256_bytes sha256 bs, pf_size_bytes = TABLE_BYTES, pf_partitions = expected\<rparr>"
    using v by (simp_all add: verify_ranges_eq validate_ranges_iff)
qed

section \<open>Properties\<close>

text \<open>
  C18. Everything the encoder produces is accepted by the independent verifier against the
  partitions resolved from the source, with the verifier's own measurements: the table is
  3072 bytes and its digest is the artifact's. MD5 digests are assumed to be 16 bytes.
\<close>

theorem encoded_table_verifies:
  assumes "encode_esp_partition_source md5 sha256 bs digest table_offset flash_bytes = Inr art"
    and "\<And>x. length (md5 x) = 16"
  shows "verify_esp_partition_table md5 sha256 (art_bytes art) table_offset flash_bytes (src_partitions (art_source art)) =
    Inr \<lparr>pf_sha256 = art_sha256 art, pf_size_bytes = 3072, pf_partitions = src_partitions (art_source art)\<rparr>"
proof -
  note enc = encode_bytes [OF assms(1) assms(2)]
  note src = parse_source_facts [OF enc(1)]
  have "names_ok (src_partitions (art_source art))"
    using src(4) label_ok_name_ok by (auto simp: names_ok_def list_all_iff)
  from verify_table_complete [OF src(1,2,3) this src(6) assms(2)] show ?thesis
    by (simp add: enc(3,6) TABLE_BYTES_def)
qed

text \<open>
  C19. The verifier accepts exactly one byte string for an expected partition list: the
  canonical encoding of that list, records, checksum record and erased rest, and only when
  the list satisfies the declarative layout in the given flash.
\<close>

theorem verified_table_canonical:
  assumes "\<And>x. length (md5 x) = 16"
  shows "verify_esp_partition_table md5 sha256 bs table_offset flash_bytes expected = Inr facts \<longleftrightarrow>
    geometry_ok table_offset flash_bytes \<and> expected \<noteq> [] \<and> length expected \<le> 94 \<and> names_ok expected \<and>
    ranges_ok expected (unat table_offset + 0x1000) (unat flash_bytes) \<and> bs = esp_table md5 expected \<and>
    facts = \<lparr>pf_sha256 = sha256_bytes sha256 bs, pf_size_bytes = 3072, pf_partitions = expected\<rparr>"
proof
  assume "verify_esp_partition_table md5 sha256 bs table_offset flash_bytes expected = Inr facts"
  from verify_table_sound [OF this] show "geometry_ok table_offset flash_bytes \<and> expected \<noteq> [] \<and> length expected \<le> 94 \<and>
    names_ok expected \<and> ranges_ok expected (unat table_offset + 0x1000) (unat flash_bytes) \<and> bs = esp_table md5 expected \<and>
    facts = \<lparr>pf_sha256 = sha256_bytes sha256 bs, pf_size_bytes = 3072, pf_partitions = expected\<rparr>"
    by (simp add: TABLE_BYTES_def SECTOR_BYTES_def)
next
  assume r: "geometry_ok table_offset flash_bytes \<and> expected \<noteq> [] \<and> length expected \<le> 94 \<and>
    names_ok expected \<and> ranges_ok expected (unat table_offset + 0x1000) (unat flash_bytes) \<and> bs = esp_table md5 expected \<and>
    facts = \<lparr>pf_sha256 = sha256_bytes sha256 bs, pf_size_bytes = 3072, pf_partitions = expected\<rparr>"
  then show "verify_esp_partition_table md5 sha256 bs table_offset flash_bytes expected = Inr facts"
    using verify_table_complete [of table_offset flash_bytes expected md5 sha256] assms
    by (simp add: TABLE_BYTES_def SECTOR_BYTES_def)
qed

section \<open>Witnesses\<close>

definition toy_md5 :: "bytes \<Rightarrow> bytes" where
  "toy_md5 bs = replicate 15 0 @ [of_nat (length bs)]"

lemma length_toy_md5: "length (toy_md5 x) = 16"
  by (simp add: toy_md5_def)

lemma sample_encodes:
  "\<exists>art. encode_esp_partition_source toy_md5 toy_md5 sample_csv (sha256_bytes toy_md5 sample_csv) 0x8000 0x400000 = Inr art \<and>
     src_partitions (art_source art) = [sample_partition]"
proof -
  have "length sample_csv = 22" by code_simp
  then show ?thesis
    by (simp add: encode_esp_partition_source_def sample_source Let_def TABLE_BYTES_def RECORD_BYTES_def)
qed

theorem encoded_table_verifies_witness:
  "\<exists>art facts. encode_esp_partition_source toy_md5 toy_md5 sample_csv (sha256_bytes toy_md5 sample_csv) 0x8000 0x400000 = Inr art \<and>
     verify_esp_partition_table toy_md5 toy_md5 (art_bytes art) 0x8000 0x400000 [sample_partition] = Inr facts"
proof -
  obtain art where art: "encode_esp_partition_source toy_md5 toy_md5 sample_csv (sha256_bytes toy_md5 sample_csv) 0x8000 0x400000 = Inr art"
    "src_partitions (art_source art) = [sample_partition]" using sample_encodes by blast
  from encoded_table_verifies [OF art(1) length_toy_md5] art show ?thesis by auto
qed

theorem verified_table_canonical_witness:
  "verify_esp_partition_table toy_md5 toy_md5 (esp_table toy_md5 [sample_partition]) 0x8000 0x400000 [sample_partition] =
     Inr \<lparr>pf_sha256 = sha256_bytes toy_md5 (esp_table toy_md5 [sample_partition]), pf_size_bytes = 3072,
         pf_partitions = [sample_partition]\<rparr>"
proof -
  note src = parse_source_facts [OF sample_source]
  have "names_ok [sample_partition]" using src(4) label_ok_name_ok by (simp add: names_ok_def)
  then show ?thesis
    using verified_table_canonical [of toy_md5, OF length_toy_md5] src(1,6) by (simp add: SECTOR_BYTES_def)
qed

end
