(* ===== verification/Esp_Image.thy ===== *)
theory Esp_Image
  imports Esp_Verify
begin

unbundle bit_operations_syntax

text \<open>
  The independent check of ESP32 application images, \<open>crates/aros-verify/src/esp_image.rs\<close>:
  header against policy, load segments with the XOR checksum, zero padding to a 16-byte block
  and the appended SHA-256. The hash of the \<open>sha2\<close> crate is a parameter.
\<close>

section \<open>Data\<close>

record EspImagePolicy =
  pol_chip_id :: u16
  pol_revision_min :: u16
  pol_revision_max :: u16
  pol_flash_bytes :: u64
  pol_maximum_image_bytes :: u64

record EspImageSegment =
  seg_load_address :: u32
  seg_file_offset :: usize
  seg_size_bytes :: usize

record EspImageFacts =
  img_sha256 :: Sha256Digest
  img_size_bytes :: usize
  img_chip_id :: u16
  img_revision_min :: u16
  img_revision_max :: u16
  img_flash_bytes :: u64
  img_entry_point :: u32
  img_segments :: "EspImageSegment list"

datatype image_error =
    InvalidPolicy
  | ImageTruncated
  | UnsupportedImageHeader
  | NoAppendedDigest
  | ChipDiffers
  | RevisionDiffers
  | UnsupportedCapacity
  | CapacityDiffers
  | SegmentHeaderOverflow
  | TruncatedSegmentHeader
  | SegmentUnaligned
  | SegmentPayloadOverflow
  | TruncatedSegmentPayload
  | SegmentAddressSpace
  | SegmentsOverlap
  | DigestOffsetOverflow
  | ChecksumDiffers
  | TruncatedPadding
  | NonzeroPadding
  | DigestSizeOverflow
  | TrailingImageData
  | DigestDiffers
  | EntryOutsideSegments

section \<open>Segments\<close>

definition seg_start :: "EspImageSegment \<Rightarrow> nat" where
  "seg_start s = unat (seg_load_address s)"

definition seg_end :: "EspImageSegment \<Rightarrow> nat" where
  "seg_end s = seg_start s + seg_size_bytes s"

text \<open>One turn of the loop over the segments, at byte offset \<open>cursor\<close>.\<close>

definition image_segment ::
  "bytes \<Rightarrow> usize \<Rightarrow> u8 \<Rightarrow> EspImageSegment list \<Rightarrow> (image_error, EspImageSegment \<times> u8 \<times> usize) result" where
  "image_segment bs cursor checksum segments =
     rbind (ok_or (checked_add cursor 8) SegmentHeaderOverflow) (\<lambda>header_end.
     rbind (ok_or (get_range bs cursor header_end) TruncatedSegmentHeader) (\<lambda>header.
     (let address = u32_from_le (take 4 header); len = unat (u32_from_le (take 4 (drop 4 header)))
      in ensure (len mod 4 = 0) SegmentUnaligned
        (rbind (ok_or (checked_add header_end len) SegmentPayloadOverflow) (\<lambda>end'.
         rbind (ok_or (get_range bs header_end end') TruncatedSegmentPayload) (\<lambda>payload.
         (let address_end = unat address + len
          in ensure (\<not> address_end > 2 ^ 32) SegmentAddressSpace
            (ensure (\<not> (address \<noteq> 0 \<and> len \<noteq> 0 \<and>
                        list_ex (\<lambda>q. seg_start q \<noteq> 0 \<and> unat address < seg_end q \<and> seg_start q < address_end) segments))
               SegmentsOverlap
              (Inr (\<lparr>seg_load_address = address, seg_file_offset = header_end, seg_size_bytes = len\<rparr>,
                    fold (\<lambda>byte acc. acc XOR byte) payload checksum, end'))))))))))"

fun image_segments ::
  "bytes \<Rightarrow> nat \<Rightarrow> usize \<Rightarrow> u8 \<Rightarrow> EspImageSegment list \<Rightarrow> (image_error, EspImageSegment list \<times> u8 \<times> usize) result" where
  "image_segments bs 0 cursor checksum segments = Inr (segments, checksum, cursor)"
| "image_segments bs (Suc n) cursor checksum segments =
     rbind (image_segment bs cursor checksum segments) (\<lambda>(s, checksum', cursor').
       image_segments bs n cursor' checksum' (segments @ [s]))"

section \<open>The image\<close>

text \<open>The header checks before the segments: the flash size and the entry point it declares.\<close>

definition image_header :: "bytes \<Rightarrow> EspImagePolicy \<Rightarrow> (image_error, u64 \<times> u32) result" where
  "image_header bs policy =
     ensure (\<not> (pol_revision_min policy > pol_revision_max policy \<or> pol_flash_bytes policy = 0 \<or>
                pol_maximum_image_bytes policy = 0 \<or> pol_maximum_image_bytes policy > pol_flash_bytes policy)) InvalidPolicy
     (ensure (\<not> (length bs < 24 \<or> length bs > unat (pol_maximum_image_bytes policy))) ImageTruncated
     (ensure (\<not> (bs ! 0 \<noteq> 0xe9 \<or> \<not> (1 \<le> bs ! 1 \<and> bs ! 1 \<le> 16) \<or> bs ! 2 > 3)) UnsupportedImageHeader
     (ensure (\<not> (bs ! 23 \<noteq> 1 \<or> take 4 (drop 19 bs) \<noteq> [0, 0, 0, 0])) NoAppendedDigest
     (ensure (u16_from_le [bs ! 12, bs ! 13] = pol_chip_id policy) ChipDiffers
     (ensure (u16_from_le [bs ! 15, bs ! 16] = pol_revision_min policy \<and>
              u16_from_le [bs ! 17, bs ! 18] = pol_revision_max policy) RevisionDiffers
     (let size_code = drop_bit 4 (bs ! 3)
      in ensure (\<not> size_code > 7) UnsupportedCapacity
        (let flash_bytes = push_bit (unat size_code) (push_bit 20 1)
         in ensure (flash_bytes = pol_flash_bytes policy) CapacityDiffers
              (Inr (flash_bytes, u32_from_le [bs ! 4, bs ! 5, bs ! 6, bs ! 7])))))))))"

text \<open>The checks after the segments: checksum, padding, length and appended digest.\<close>

definition image_trailer :: "(bytes \<Rightarrow> bytes) \<Rightarrow> bytes \<Rightarrow> u8 \<Rightarrow> usize \<Rightarrow> (image_error, unit) result" where
  "image_trailer sha256 bs checksum cursor =
     (let checksum_offset = cursor OR 15
      in rbind (ok_or (checked_add checksum_offset 1) DigestOffsetOverflow) (\<lambda>digest_offset.
         ensure (get_at bs checksum_offset = Some checksum) ChecksumDiffers
         (rbind (ok_or (get_range bs cursor checksum_offset) TruncatedPadding) (\<lambda>padding.
          ensure (\<not> list_ex (\<lambda>byte. byte \<noteq> 0) padding) NonzeroPadding
          (rbind (ok_or (checked_add digest_offset 32) DigestSizeOverflow) (\<lambda>total.
           ensure (length bs = total) TrailingImageData
            (let digest = sha256_bytes sha256 (take digest_offset bs)
             in ensure (list_all (\<lambda>(hex, byte). hex = hex_byte byte)
                          (zip (chunks 2 (as_str digest)) (drop digest_offset bs))) DigestDiffers
                  (Inr ()))))))))"

definition verify_esp_image ::
  "(bytes \<Rightarrow> bytes) \<Rightarrow> bytes \<Rightarrow> EspImagePolicy \<Rightarrow> (image_error, EspImageFacts) result" where
  "verify_esp_image sha256 bs policy =
     rbind (image_header bs policy) (\<lambda>(flash_bytes, entry_point).
     rbind (image_segments bs (unat (bs ! 1)) 24 0xef []) (\<lambda>(segments, checksum, cursor).
     rbind (image_trailer sha256 bs checksum cursor) (\<lambda>_.
     ensure (list_ex (\<lambda>s. seg_load_address s \<noteq> 0 \<and> unat entry_point \<ge> seg_start s \<and> unat entry_point < seg_end s) segments)
       EntryOutsideSegments
       (Inr \<lparr>img_sha256 = sha256_bytes sha256 bs, img_size_bytes = length bs, img_chip_id = u16_from_le [bs ! 12, bs ! 13],
             img_revision_min = u16_from_le [bs ! 15, bs ! 16], img_revision_max = u16_from_le [bs ! 17, bs ! 18],
             img_flash_bytes = flash_bytes, img_entry_point = entry_point, img_segments = segments\<rparr>))))"

section \<open>The container format\<close>

text \<open>A segment as the format writes it: load address, payload length, payload.\<close>

definition segment_bytes :: "u32 \<times> bytes \<Rightarrow> bytes" where
  "segment_bytes ap = u32_to_le (fst ap) @ u32_to_le (of_nat (length (snd ap))) @ snd ap"

definition xor_all :: "u8 \<Rightarrow> bytes \<Rightarrow> u8" where
  "xor_all start bs = fold (\<lambda>byte acc. acc XOR byte) bs start"

text \<open>Where each segment's payload lies in the file.\<close>

fun segment_list :: "usize \<Rightarrow> (u32 \<times> bytes) list \<Rightarrow> EspImageSegment list" where
  "segment_list cursor [] = []"
| "segment_list cursor (ap # aps) =
     \<lparr>seg_load_address = fst ap, seg_file_offset = cursor + 8, seg_size_bytes = length (snd ap)\<rparr> #
     segment_list (cursor + 8 + length (snd ap)) aps"

definition loads :: "EspImageSegment \<Rightarrow> nat set" where
  "loads s = (if seg_load_address s = 0 then {} else {seg_start s..<seg_end s})"

definition disjoint_loads :: "EspImageSegment \<Rightarrow> EspImageSegment \<Rightarrow> bool" where
  "disjoint_loads s t = (loads s \<inter> loads t = {})"

definition segment_ok :: "u32 \<times> bytes \<Rightarrow> bool" where
  "segment_ok ap = (length (snd ap) mod 4 = 0 \<and> unat (fst ap) + length (snd ap) \<le> 2 ^ 32 \<and> length (snd ap) < 2 ^ 32)"

lemma image_segment_eq_Inr:
  assumes "image_segment bs cursor checksum segments = Inr (s, checksum', cursor')" "cursor \<le> length bs"
  shows "\<exists>ap. take (8 + length (snd ap)) (drop cursor bs) = segment_bytes ap \<and> segment_ok ap \<and>
    s = \<lparr>seg_load_address = fst ap, seg_file_offset = cursor + 8, seg_size_bytes = length (snd ap)\<rparr> \<and>
    checksum' = xor_all checksum (snd ap) \<and> cursor' = cursor + 8 + length (snd ap) \<and> cursor' \<le> length bs \<and>
    (\<forall>q\<in>set segments. disjoint_loads q s)"
proof -
  let ?header = "take 8 (drop cursor bs)"
  define address where "address = u32_from_le (take 4 ?header)"
  define len where "len = unat (u32_from_le (take 4 (drop 4 ?header)))"
  define payload where "payload = take len (drop (cursor + 8) bs)"
  from assms(1) have r: "cursor + 8 \<le> length bs" "len mod 4 = 0" "cursor + 8 + len \<le> length bs"
    "unat address + len \<le> 2 ^ 32"
    "\<not> (address \<noteq> 0 \<and> len \<noteq> 0 \<and> list_ex (\<lambda>q. seg_start q \<noteq> 0 \<and> unat address < seg_end q \<and> seg_start q < unat address + len) segments)"
    "s = \<lparr>seg_load_address = address, seg_file_offset = cursor + 8, seg_size_bytes = len\<rparr>"
    "checksum' = xor_all checksum payload" "cursor' = cursor + 8 + len"
    by (auto simp: image_segment_def Let_def rbind_eq_Inr get_range_eq_Some address_def len_def payload_def xor_all_def
        algebra_simps split: if_splits)
  have plen: "length payload = len" using r(3) by (simp add: payload_def)
  have l32: "len < 2 ^ 32" using unat_u32_less by (simp only: len_def)
  have "u32_to_le address = take 4 ?header" using r(1) by (simp add: address_def u32_to_from_le)
  moreover have "u32_to_le (of_nat len) = take 4 (drop 4 ?header)" using r(1) by (simp add: len_def u32_to_from_le)
  moreover have "?header = take 4 ?header @ take 4 (drop 4 ?header)"
    using r(1) append_take_drop_id [of 4 ?header] by simp
  moreover have "take (8 + len) (drop cursor bs) = ?header @ payload"
    by (simp only: take_add payload_def drop_drop add.commute [of cursor 8])
  ultimately have "take (8 + len) (drop cursor bs) = segment_bytes (address, payload)"
    using plen by (simp add: segment_bytes_def)
  moreover have "disjoint_loads q s" if "q \<in> set segments" for q
    using r(5,6) that
    by (auto simp: disjoint_loads_def loads_def seg_start_def seg_end_def list_ex_iff unat_eq_zero not_less)
  ultimately show ?thesis
    using r plen l32 by (intro exI [of _ "(address, payload)"]) (auto simp: segment_ok_def)
qed

lemma length_segment_bytes [simp]: "length (segment_bytes ap) = 8 + length (snd ap)"
  by (simp add: segment_bytes_def)

lemma xor_all_append: "xor_all c (xs @ ys) = xor_all (xor_all c xs) ys"
  by (simp add: xor_all_def)

lemma image_segments_sound:
  "image_segments bs n cursor checksum segments = Inr (out, checksum', cursor') \<Longrightarrow> cursor \<le> length bs \<Longrightarrow>
     sorted_wrt disjoint_loads segments \<Longrightarrow>
     \<exists>aps. length aps = n \<and> list_all segment_ok aps \<and> take (cursor' - cursor) (drop cursor bs) = concat (map segment_bytes aps) \<and>
       cursor' = cursor + length (concat (map segment_bytes aps)) \<and> cursor' \<le> length bs \<and>
       out = segments @ segment_list cursor aps \<and> checksum' = xor_all checksum (concat (map snd aps)) \<and>
       sorted_wrt disjoint_loads out"
proof (induction n arbitrary: cursor checksum segments)
  case 0
  then show ?case by (auto simp: xor_all_def)
next
  case (Suc n)
  from Suc.prems(1) obtain s c1 k1 where step: "image_segment bs cursor checksum segments = Inr (s, c1, k1)"
    "image_segments bs n k1 c1 (segments @ [s]) = Inr (out, checksum', cursor')"
    by (auto simp: rbind_eq_Inr)
  from image_segment_eq_Inr [OF step(1) Suc.prems(2)] obtain ap where
    ap: "take (8 + length (snd ap)) (drop cursor bs) = segment_bytes ap" "segment_ok ap"
      "s = \<lparr>seg_load_address = fst ap, seg_file_offset = cursor + 8, seg_size_bytes = length (snd ap)\<rparr>"
      "c1 = xor_all checksum (snd ap)" "k1 = cursor + 8 + length (snd ap)" "k1 \<le> length bs"
      "\<forall>q\<in>set segments. disjoint_loads q s" by blast
  have "sorted_wrt disjoint_loads (segments @ [s])" using Suc.prems(3) ap(7) by (simp add: sorted_wrt_append)
  from Suc.IH [OF step(2) ap(6) this] obtain aps where
    aps: "length aps = n" "list_all segment_ok aps" "take (cursor' - k1) (drop k1 bs) = concat (map segment_bytes aps)"
      "cursor' = k1 + length (concat (map segment_bytes aps))" "cursor' \<le> length bs"
      "out = (segments @ [s]) @ segment_list k1 aps" "checksum' = xor_all c1 (concat (map snd aps))"
      "sorted_wrt disjoint_loads out" by blast
  have "cursor' - cursor = (8 + length (snd ap)) + (cursor' - k1)" using ap(5) aps(4) by simp
  then have "take (cursor' - cursor) (drop cursor bs) = concat (map segment_bytes (ap # aps))"
    using ap(1,5) aps(3) by (simp only: take_add drop_drop) (simp add: add.commute add.left_commute)
  then show ?case
    using ap aps by (intro exI [of _ "ap # aps"]) (simp add: xor_all_append add.assoc)
qed

section \<open>The trailer\<close>

lemma or_15: "(n :: nat) OR 15 = 16 * (n div 16) + 15"
proof -
  have "n OR 15 = n OR mask 4" by (simp add: mask_eq_exp_minus_1)
  also have "\<dots> = push_bit 4 (drop_bit 4 n) + mask 4"
  proof -
    have "n OR mask 4 = push_bit 4 (drop_bit 4 n) OR mask 4"
      by (rule bit_eqI) (auto simp: bit_simps)
    moreover have "push_bit 4 (drop_bit 4 n) AND mask 4 = 0" by (rule bit_eqI) (auto simp: bit_simps)
    ultimately show ?thesis by (simp add: disjunctive_add_eq_or [symmetric])
  qed
  finally show ?thesis by (simp add: push_bit_eq_mult drop_bit_eq_div mask_eq_exp_minus_1)
qed

lemma hex_pairs: "chunks 2 (as_str (digest_from_bytes ds)) = map hex_byte ds"
  by (induction ds) (simp_all add: digest_from_bytes_def chunks_append)

lemma hex_pairs_match:
  "length ds = length bs \<Longrightarrow> list_all (\<lambda>(hex, byte). hex = hex_byte byte) (zip (map hex_byte ds) bs) \<longleftrightarrow> ds = bs"
  by (induction ds bs rule: list_induct2) (auto simp: hex_byte_inject)

lemma image_trailer_eq_Inr:
  assumes "image_trailer sha256 bs checksum cursor = Inr ()" "cursor \<le> length bs" "\<And>x. length (sha256 x) = 32"
  defines "pad \<equiv> 15 - cursor mod 16"
  shows "bs = take cursor bs @ replicate pad 0 @ [checksum] @ sha256 (take (cursor + pad + 1) bs)"
proof -
  have off: "cursor OR 15 = cursor + pad"
  proof -
    have "cursor mod 16 \<le> 15" by (simp add: less_Suc_eq_le [symmetric])
    then show ?thesis using div_mult_mod_eq [of cursor 16] unfolding or_15 pad_def by linarith
  qed
  from assms(1) have r: "get_at bs (cursor + pad) = Some checksum" "\<not> list_ex (\<lambda>b. b \<noteq> 0) (take pad (drop cursor bs))"
    "length bs = cursor + pad + 1 + 32"
    "list_all (\<lambda>(hex, byte). hex = hex_byte byte)
       (zip (chunks 2 (as_str (sha256_bytes sha256 (take (cursor + pad + 1) bs)))) (drop (cursor + pad + 1) bs))"
    by (auto simp: image_trailer_def Let_def rbind_eq_Inr get_range_eq_Some off split: if_splits)
  have "drop (cursor + pad + 1) bs = sha256 (take (cursor + pad + 1) bs)"
    using r(3,4) assms(3) by (simp add: sha256_bytes_def hex_pairs hex_pairs_match)
  moreover have "take pad (drop cursor bs) = replicate pad 0"
    using r(2,3) by (intro replicate_eqI) (auto simp: list_ex_iff)
  moreover have "drop (cursor + pad) bs = checksum # drop (cursor + pad + 1) bs"
    using r(1,3) by (auto simp: Cons_nth_drop_Suc)
  moreover have "bs = take cursor bs @ take pad (drop cursor bs) @ drop (cursor + pad) bs"
    using append_take_drop_id [of cursor bs] append_take_drop_id [of pad "drop cursor bs"] by (simp add: add.commute)
  ultimately show ?thesis by simp
qed

section \<open>Properties\<close>

definition image_prefix :: "bytes \<Rightarrow> (u32 \<times> bytes) list \<Rightarrow> bytes" where
  "image_prefix header aps =
     (let body = header @ concat (map segment_bytes aps)
      in body @ replicate (15 - length body mod 16) 0 @ [xor_all 0xef (concat (map snd aps))])"

text \<open>
  C20. An accepted image is its 24-byte header, its declared number of segments, zero padding
  to the last byte of a 16-byte block, the XOR checksum of all payload bytes there, and the
  SHA-256 of everything before it; the reported segments are those segments at their file
  offsets, word-sized and inside the 32-bit address space, no two non-padding segments load
  to a common address, and the entry point lies in one of them. Chip, revisions and flash
  size are the policy's. SHA-256 digests are assumed to be 32 bytes.
\<close>

theorem verified_image_structure:
  assumes "verify_esp_image sha256 bs policy = Inr facts" and "\<And>x. length (sha256 x) = 32"
  shows "\<exists>aps. length aps = unat (bs ! 1) \<and> list_all segment_ok aps \<and>
    bs = image_prefix (take 24 bs) aps @ sha256 (image_prefix (take 24 bs) aps) \<and>
    img_segments facts = segment_list 24 aps \<and> sorted_wrt disjoint_loads (img_segments facts) \<and>
    list_ex (\<lambda>s. unat (img_entry_point facts) \<in> loads s) (img_segments facts) \<and>
    img_chip_id facts = pol_chip_id policy \<and> img_revision_min facts = pol_revision_min policy \<and>
    img_revision_max facts = pol_revision_max policy \<and> img_flash_bytes facts = pol_flash_bytes policy \<and>
    length bs \<le> unat (pol_maximum_image_bytes policy)"
proof -
  from assms(1) obtain flash entry segs checksum cursor where
    h: "image_header bs policy = Inr (flash, entry)" and
    s: "image_segments bs (unat (bs ! 1)) 24 0xef [] = Inr (segs, checksum, cursor)" and
    t: "image_trailer sha256 bs checksum cursor = Inr ()" and
    e: "list_ex (\<lambda>s. seg_load_address s \<noteq> 0 \<and> unat entry \<ge> seg_start s \<and> unat entry < seg_end s) segs" and
    f: "img_segments facts = segs" "img_entry_point facts = entry" "img_flash_bytes facts = flash"
      "img_chip_id facts = u16_from_le [bs ! 12, bs ! 13]" "img_revision_min facts = u16_from_le [bs ! 15, bs ! 16]"
      "img_revision_max facts = u16_from_le [bs ! 17, bs ! 18]"
    by (auto simp: verify_esp_image_def rbind_eq_Inr split: if_splits)
  from h have hd: "24 \<le> length bs" "length bs \<le> unat (pol_maximum_image_bytes policy)" "flash = pol_flash_bytes policy"
    "u16_from_le [bs ! 12, bs ! 13] = pol_chip_id policy" "u16_from_le [bs ! 15, bs ! 16] = pol_revision_min policy"
    "u16_from_le [bs ! 17, bs ! 18] = pol_revision_max policy"
    by (auto simp: image_header_def Let_def split: if_splits)
  from image_segments_sound [OF s hd(1)] obtain aps where
    a: "length aps = unat (bs ! 1)" "list_all segment_ok aps"
      "take (cursor - 24) (drop 24 bs) = concat (map segment_bytes aps)"
      "cursor = 24 + length (concat (map segment_bytes aps))" "cursor \<le> length bs" "segs = segment_list 24 aps"
      "checksum = xor_all 0xef (concat (map snd aps))" "sorted_wrt disjoint_loads segs" by auto
  have "take cursor bs = take 24 bs @ take (cursor - 24) (drop 24 bs)"
    using take_add [of 24 "cursor - 24" bs] a(4) by simp
  then have body: "take cursor bs = take 24 bs @ concat (map segment_bytes aps)" using a(3) by simp
  have len: "length (take 24 bs @ concat (map segment_bytes aps)) = cursor" using a(4) hd(1) by simp
  let ?pad = "15 - cursor mod 16"
  have "bs = take cursor bs @ replicate ?pad 0 @ [checksum] @ sha256 (take (cursor + ?pad + 1) bs)"
    by (rule image_trailer_eq_Inr [OF t a(5) assms(2)])
  moreover have "image_prefix (take 24 bs) aps = take cursor bs @ replicate ?pad 0 @ [checksum]"
    unfolding image_prefix_def Let_def len by (simp only: body a(7) append_assoc)
  moreover have "length (take cursor bs @ replicate ?pad 0 @ [checksum]) = cursor + ?pad + 1" using a(5) by simp
  ultimately have "bs = image_prefix (take 24 bs) aps @ sha256 (take (length (image_prefix (take 24 bs) aps)) bs)" by simp
  then have "bs = image_prefix (take 24 bs) aps @ sha256 (image_prefix (take 24 bs) aps)"
    by (metis append_eq_conv_conj)
  moreover have "list_ex (\<lambda>s. unat (img_entry_point facts) \<in> loads s) (img_segments facts)"
    using e f by (auto simp: list_ex_iff loads_def)
  ultimately show ?thesis using a f hd by auto
qed

definition toy_sha :: "bytes \<Rightarrow> bytes" where
  "toy_sha bs = replicate 32 7"

definition sample_policy :: EspImagePolicy where
  "sample_policy =
     \<lparr>pol_chip_id = 18, pol_revision_min = 100, pol_revision_max = 199, pol_flash_bytes = 0x2000000,
      pol_maximum_image_bytes = 0x6000\<rparr>"

definition sample_image :: bytes where
  "sample_image =
     [0xe9, 1, 2, 0x50, 0, 0, 0, 0x40, 0, 0, 0, 0, 18, 0, 0, 100, 0, 199, 0, 0, 0, 0, 0, 1,
      0, 0, 0, 0x40, 4, 0, 0, 0, 1, 2, 3, 4] @ replicate 11 0 @ [0xeb] @ replicate 32 7"

lemma sample_header: "image_header sample_image sample_policy = Inr (0x2000000, 0x40000000)"
  by code_simp

lemma sample_segment:
  "image_segments sample_image (unat (sample_image ! 1)) 24 0xef [] =
     Inr ([\<lparr>seg_load_address = 0x40000000, seg_file_offset = 32, seg_size_bytes = 4\<rparr>], 0xeb, 36)"
  by code_simp

lemma sample_trailer: "image_trailer toy_sha sample_image 0xeb 36 = Inr ()"
proof -
  have ends: "get_at sample_image 47 = Some 0xeb" "get_range sample_image 36 47 = Some (replicate 11 0)"
    "length sample_image = 80" "drop 48 sample_image = replicate 32 7"
    by (simp_all add: sample_image_def get_at_def get_range_def nth_append)
  have "zip (map hex_byte (replicate 32 7)) (replicate 32 7) = replicate 32 (hex_byte 7, 7 :: u8)"
    by (simp only: map_replicate zip_replicate min.idem)
  then show ?thesis
    by (simp add: image_trailer_def or_15 ends checked_add_def usize_limit_def sha256_bytes_def hex_pairs toy_sha_def list_ex_iff
        list_all_iff)
qed

lemma sample_image_verifies: "is_ok (verify_esp_image toy_sha sample_image sample_policy)"
  by (simp add: verify_esp_image_def sample_header sample_segment [unfolded One_nat_def] sample_trailer seg_start_def
      seg_end_def is_ok_def)

theorem verified_image_structure_witness:
  "\<exists>facts. verify_esp_image toy_sha sample_image sample_policy = Inr facts \<and>
     img_chip_id facts = 18 \<and> sorted_wrt disjoint_loads (img_segments facts)"
proof -
  obtain facts where f: "verify_esp_image toy_sha sample_image sample_policy = Inr facts"
    using sample_image_verifies by (auto simp: is_ok_iff)
  have "length (toy_sha x) = 32" for x by (simp add: toy_sha_def)
  from verified_image_structure [OF f this] f show ?thesis by (auto simp: sample_policy_def)
qed

end
