(* ===== verification/Rust_Path.thy ===== *)
theory Rust_Path
  imports Rust_Text
begin

text \<open>
  Portable path names: \<open>PortableOutputName\<close> and \<open>casefold_path_key\<close> of
  \<open>crates/aros-common/src/publication.rs\<close>, with the parts of \<open>std::path\<close> on Unix hosts they
  and their clients use. A path is the bytes of its \<open>OsStr\<close>.
\<close>

section \<open>Paths of the standard library\<close>

datatype component = RootDir | CurDir | ParentDir | Normal rstring

definition SLASH :: u8 where "SLASH = 47"

text \<open>
  \<open>Path::components\<close>: repeated separators and \<open>.\<close> are skipped, except a leading \<open>.\<close> of a
  relative path.
\<close>

definition piece_component :: "rstring \<Rightarrow> component option" where
  "piece_component piece =
     (if piece = [] \<or> piece = [46] then None
      else if piece = [46, 46] then Some ParentDir
      else Some (Normal piece))"

definition is_absolute :: "rstring \<Rightarrow> bool" where
  "is_absolute path = (path \<noteq> [] \<and> hd path = SLASH)"

definition path_components :: "rstring \<Rightarrow> component list" where
  "path_components path =
     (let pieces = split_on (\<lambda>b. b = SLASH) path;
          tail = List.map_filter piece_component pieces
      in if is_absolute path then RootDir # tail
         else if hd pieces = [46] then CurDir # tail
         else tail)"

text \<open>\<open>Path::join\<close>.\<close>

definition path_join :: "rstring \<Rightarrow> rstring \<Rightarrow> rstring" where
  "path_join root path =
     (if is_absolute path then path
      else if root = [] \<or> last root = SLASH then root @ path
      else root @ [SLASH] @ path)"

text \<open>\<open>slice::join\<close> of strings.\<close>

fun join_with :: "'a list \<Rightarrow> 'a list list \<Rightarrow> 'a list" where
  "join_with sep [] = []"
| "join_with sep [p] = p"
| "join_with sep (p # q # ps) = p @ sep @ join_with sep (q # ps)"

section \<open>Portable names\<close>

datatype path_error = NotPortable | ReservedDevice | NotRelative | NotUtf8 | EmptyPath

definition is_control :: "nat \<Rightarrow> bool" where
  "is_control c = (c < 32 \<or> 127 \<le> c \<and> c < 160)"

definition invalid_character :: "nat \<Rightarrow> bool" where
  "invalid_character c = (is_control c \<or> c \<in> {60, 62, 58, 34, 47, 92, 124, 63, 42})"

definition device_number :: "rstring \<Rightarrow> bool" where
  "device_number suffix = (length suffix = 1 \<and> 49 \<le> hd suffix \<and> hd suffix \<le> 57)"

definition reserved_stem :: "rstring \<Rightarrow> bool" where
  "reserved_stem stem =
     (stem \<in> {ascii ''CON'', ascii ''PRN'', ascii ''AUX'', ascii ''NUL''} \<or>
      (case strip_prefix stem (ascii ''COM'') of
         Some suffix \<Rightarrow> device_number suffix
       | None \<Rightarrow> (case strip_prefix stem (ascii ''LPT'') of Some suffix \<Rightarrow> device_number suffix | None \<Rightarrow> False)))"

definition portable_name_new :: "rstring \<Rightarrow> (path_error, rstring) result" where
  "portable_name_new value =
     ensure (\<not> (value = [] \<or> \<not> list_all (\<lambda>b. b < 128) value \<or> value = [46] \<or> value = [46, 46] \<or>
                last value \<in> {46, 32} \<or> list_ex invalid_character (str_chars value) \<or> length value > 255)) NotPortable
     (ensure (\<not> reserved_stem (to_ascii_uppercase (hd (split_on (\<lambda>b. b = 46) value)))) ReservedDevice
       (Inr value))"

text \<open>
  \<open>casefold_path_key\<close>. A portable name is ASCII, where \<open>str::to_lowercase\<close> is the ASCII case
  mapping.
\<close>

fun casefold_components :: "component list \<Rightarrow> (path_error, rstring list) result" where
  "casefold_components [] = Inr []"
| "casefold_components (Normal value # cs) =
     ensure (utf8_valid value) NotUtf8
       (rbind (portable_name_new value) (\<lambda>portable.
        rbind (casefold_components cs) (\<lambda>folded. Inr (to_ascii_lowercase portable # folded))))"
| "casefold_components (c # cs) = Inl NotRelative"

definition casefold_path_key :: "rstring \<Rightarrow> (path_error, rstring) result" where
  "casefold_path_key path =
     rbind (casefold_components (path_components path)) (\<lambda>folded.
     ensure (folded \<noteq> []) EmptyPath (Inr (join_with [SLASH] folded)))"

section \<open>Facts\<close>

lemma join_split_on: "join_with [c] (split_on (\<lambda>b. b = c) s) = s"
proof (induction s)
  case (Cons x s)
  obtain p ps where ps: "split_on (\<lambda>b. b = c) s = p # ps" by (cases "split_on (\<lambda>b. b = c) s") auto
  then show ?case using Cons by (cases ps) (auto simp: ps)
qed simp

lemma split_on_join:
  "ps \<noteq> [] \<Longrightarrow> \<forall>p\<in>set ps. c \<notin> set p \<Longrightarrow> split_on (\<lambda>b. b = c) (join_with [c] ps) = ps"
proof (induction "[c]" ps rule: join_with.induct)
  case (2 p)
  then show ?case by (auto intro!: split_on_no_sep)
next
  case (3 p q ps)
  then have "split_on (\<lambda>b. b = c) (p @ c # join_with [c] (q # ps)) = p # split_on (\<lambda>b. b = c) (join_with [c] (q # ps))"
    by (intro split_on_append_sep) auto
  with 3 show ?case by auto
qed simp

lemma join_with_inject:
  assumes "xs \<noteq> []" "ys \<noteq> []" "\<forall>x\<in>set xs. c \<notin> set x" "\<forall>y\<in>set ys. c \<notin> set y" "join_with [c] xs = join_with [c] ys"
  shows "xs = ys"
  using split_on_join [OF assms(1,3)] split_on_join [OF assms(2,4)] assms(5) by metis

text \<open>The names of a path, without the special components.\<close>

definition path_names :: "rstring \<Rightarrow> rstring list" where
  "path_names path = List.map_filter (\<lambda>c. case c of Normal v \<Rightarrow> Some v | _ \<Rightarrow> None) (path_components path)"

lemma casefold_components_eq_Inr:
  "casefold_components cs = Inr folded \<longleftrightarrow>
     (\<exists>names. cs = map Normal names \<and> (\<forall>n\<in>set names. utf8_valid n \<and> portable_name_new n = Inr n) \<and>
       folded = map to_ascii_lowercase names)"
proof (induction cs arbitrary: folded)
  case (Cons c cs)
  have portable: "portable_name_new v = Inr w \<Longrightarrow> w = v" for v w
    by (auto simp: portable_name_new_def split: if_splits)
  show ?case
  proof (cases c)
    case (Normal v)
    have "casefold_components (c # cs) = Inr folded \<longleftrightarrow>
        utf8_valid v \<and> portable_name_new v = Inr v \<and> (\<exists>fs. casefold_components cs = Inr fs \<and> folded = to_ascii_lowercase v # fs)"
      using portable [of v] by (auto simp: Normal rbind_eq_Inr)
    also have "\<dots> \<longleftrightarrow> utf8_valid v \<and> portable_name_new v = Inr v \<and>
        (\<exists>ns. cs = map Normal ns \<and> (\<forall>n\<in>set ns. utf8_valid n \<and> portable_name_new n = Inr n) \<and>
          folded = to_ascii_lowercase v # map to_ascii_lowercase ns)"
      unfolding Cons.IH by blast
    also have "\<dots> \<longleftrightarrow> (\<exists>names. c # cs = map Normal names \<and> (\<forall>n\<in>set names. utf8_valid n \<and> portable_name_new n = Inr n) \<and>
        folded = map to_ascii_lowercase names)" (is "?l \<longleftrightarrow> ?r")
    proof
      assume ?l
      then obtain ns where "cs = map Normal ns" "\<forall>n\<in>set (v # ns). utf8_valid n \<and> portable_name_new n = Inr n"
        "folded = map to_ascii_lowercase (v # ns)" by auto
      then show ?r using Normal by (intro exI [of _ "v # ns"]) simp
    qed (auto simp: Normal Cons_eq_map_conv)
    finally show ?thesis .
  qed (auto simp: Cons_eq_map_conv)
qed auto

lemma map_filter_Normal: "List.map_filter (\<lambda>c. case c of Normal v \<Rightarrow> Some v | _ \<Rightarrow> None) (map Normal names) = names"
  by (induction names) simp_all

lemma casefold_path_key_eq_Inr:
  "casefold_path_key path = Inr key \<longleftrightarrow>
     path_components path = map Normal (path_names path) \<and> path_names path \<noteq> [] \<and>
     (\<forall>n\<in>set (path_names path). utf8_valid n \<and> portable_name_new n = Inr n) \<and>
     key = join_with [SLASH] (map to_ascii_lowercase (path_names path))"
  by (auto simp: casefold_path_key_def rbind_eq_Inr casefold_components_eq_Inr path_names_def map_filter_Normal
      split: if_splits)

lemma components_no_slash: "Normal v \<in> set (path_components path) \<Longrightarrow> SLASH \<notin> set v"
  by (auto simp: path_components_def Let_def List.map_filter_def piece_component_def dest: split_on_free split: if_splits)

lemma ascii_lower_slash: "ascii_lower b = SLASH \<longleftrightarrow> b = SLASH"
proof (cases "is_ascii_uppercase b")
  case True
  then have b: "65 \<le> unat b" "unat b \<le> 90" by (auto simp: is_ascii_uppercase_def word_le_nat_alt)
  then have "unat (b + 32) = unat b + 32" by (simp add: unat_word_ariths)
  with b have "b + 32 \<noteq> SLASH" "b \<noteq> SLASH" by (auto simp: SLASH_def)
  with True show ?thesis by (simp add: ascii_lower_def)
qed (simp add: ascii_lower_def)

section \<open>Properties\<close>

text \<open>
  C21. Two relative output paths get the same collision key exactly when their components agree
  up to ASCII case, however they spell separators and \<open>.\<close> components; an accepted path has
  only portable names: no root, no \<open>..\<close>, no reserved device name.
\<close>

theorem casefold_key_collision:
  assumes "casefold_path_key p = Inr key" and "casefold_path_key q = Inr key'"
  shows "(key = key' \<longleftrightarrow> map to_ascii_lowercase (path_names p) = map to_ascii_lowercase (path_names q)) \<and>
    path_components p = map Normal (path_names p) \<and> path_names p \<noteq> [] \<and> \<not> is_absolute p \<and>
    (\<forall>n\<in>set (path_names p). portable_name_new n = Inr n \<and> n \<noteq> [46, 46])"
proof -
  have names: "path_components r = map Normal (path_names r)" "path_names r \<noteq> []"
    "\<forall>n\<in>set (path_names r). portable_name_new n = Inr n" "k = join_with [SLASH] (map to_ascii_lowercase (path_names r))"
    "\<forall>n\<in>set (map to_ascii_lowercase (path_names r)). SLASH \<notin> set n" if "casefold_path_key r = Inr k" for r k
  proof -
    show *: "path_components r = map Normal (path_names r)" "path_names r \<noteq> []"
      "\<forall>n\<in>set (path_names r). portable_name_new n = Inr n" "k = join_with [SLASH] (map to_ascii_lowercase (path_names r))"
      using that by (simp_all add: casefold_path_key_eq_Inr)
    have "SLASH \<notin> set n" if "n \<in> set (path_names r)" for n
      using that *(1) components_no_slash [of n r] by (metis image_eqI image_set)
    then show "\<forall>n\<in>set (map to_ascii_lowercase (path_names r)). SLASH \<notin> set n"
      by (auto simp: to_ascii_lowercase_def dest!: sym [of SLASH] simp: ascii_lower_slash)
  qed
  have "key = key' \<longleftrightarrow> map to_ascii_lowercase (path_names p) = map to_ascii_lowercase (path_names q)"
    using names [OF assms(1)] names [OF assms(2)] join_with_inject [of _ _ SLASH]
    by (metis (no_types, lifting) map_is_Nil_conv)
  moreover have "\<not> is_absolute p"
    using names(1) [OF assms(1)] by (auto simp: path_components_def Let_def Cons_eq_map_conv split: if_splits)
  moreover have "portable_name_new [46, 46] \<noteq> Inr [46, 46]" by (simp add: portable_name_new_def)
  ultimately show ?thesis using names(1-3) [OF assms(1)] by auto
qed

theorem casefold_key_collision_witness:
  "casefold_path_key (ascii ''Boot//./Core.ELF'') = casefold_path_key (ascii ''boot/core.elf'') \<and>
   \<not> is_absolute (ascii ''Boot//./Core.ELF'')"
proof -
  have keys: "casefold_path_key (ascii ''Boot//./Core.ELF'') = Inr (ascii ''boot/core.elf'')"
    "casefold_path_key (ascii ''boot/core.elf'') = Inr (ascii ''boot/core.elf'')"
    by code_simp+
  from casefold_key_collision [OF keys] keys show ?thesis by simp
qed

end
