(* ===== verification/Flash_Plan.thy ===== *)
theory Flash_Plan
  imports Sha_Digest Rust_Path Rust_Collections "HOL-Library.Multiset"
begin

unbundle bit_operations_syntax

text \<open>
  Planning of flash slots, \<open>crates/aros-common/src/flash_plan.rs\<close>: the check of a layout, the
  placement of one measured file per required role, the erase spans. The JSON text of a layout
  (\<open>serde_json\<close>), SHA-256 and what opening a file shows are parameters.
\<close>

section \<open>Data\<close>

definition MAX_ROLES :: usize where "MAX_ROLES = 64"

record FlashRange =
  range_start :: u64
  range_end :: u64

record FlashSlot =
  slot_role :: rstring
  slot_range :: FlashRange
  slot_native_build :: bool

record FlashLayout =
  lay_source_contract_sha256 :: Sha256Digest
  lay_flash_bytes :: u64
  lay_erase_sector_bytes :: u64
  lay_slots :: "FlashSlot list"

record FlashArtifact =
  fa_role :: rstring
  fa_relative_path :: rstring
  fa_sha256 :: Sha256Digest
  fa_size_bytes :: u64
  fa_receipt_sha256 :: Sha256Digest
  fa_native_build_set_sha256 :: "Sha256Digest option"

record FlashPlacement =
  pl_role :: rstring
  pl_relative_path :: rstring
  pl_sha256 :: Sha256Digest
  pl_size_bytes :: u64
  pl_receipt_sha256 :: Sha256Digest
  pl_payload :: FlashRange
  pl_erase :: FlashRange

record FlashPlan =
  fp_source_contract_sha256 :: Sha256Digest
  fp_resolved_layout_sha256 :: Sha256Digest
  fp_native_build_set_sha256 :: Sha256Digest
  fp_flash_bytes :: u64
  fp_erase_sector_bytes :: u64
  fp_placements :: "FlashPlacement list"

datatype flash_error =
    InvalidFlashGeometry
  | InvalidRole
  | InvalidSlotRange
  | SlotsOverlap
  | RoleSetDiffers
  | UnselectedRole
  | DuplicateRole
  | OversizedPath
  | UnsafePath
  | DuplicatePath
  | OriginDiffers
  | ExceedsSlot
  | EraseExceedsSlot
  | UnsafeInput
  | CannotInspect
  | SizeDiffers
  | BudgetOverflows
  | CannotMeasure
  | MeasureUnending
  | CannotRecheck
  | InputChanged
  | CannotEncodeLayout

section \<open>Layouts\<close>

definition role_char :: "u8 \<Rightarrow> bool" where
  "role_char b = (is_ascii_lowercase b \<or> is_ascii_digit b \<or> b = 45 \<or> b = 95)"

definition layout_geometry :: "FlashLayout \<Rightarrow> bool" where
  "layout_geometry layout =
     (\<not> (lay_flash_bytes layout = 0 \<or> lay_erase_sector_bytes layout = 0 \<or>
         \<not> is_power_of_two (lay_erase_sector_bytes layout) \<or>
         \<not> is_multiple_of (lay_flash_bytes layout) (lay_erase_sector_bytes layout) \<or>
         lay_slots layout = [] \<or> length (lay_slots layout) > MAX_ROLES \<or>
         \<not> list_ex slot_native_build (lay_slots layout)))"

text \<open>One turn of the loop over the slots; \<open>previous\<close> are the slots before it.\<close>

definition validate_slot ::
  "FlashLayout \<Rightarrow> (rstring, FlashSlot) btreemap \<Rightarrow> FlashSlot list \<Rightarrow> FlashSlot \<Rightarrow> (flash_error, (rstring, FlashSlot) btreemap) result" where
  "validate_slot layout slots previous slot =
     (let role = slot_role slot; r = slot_range slot; sector = lay_erase_sector_bytes layout
      in ensure (\<not> (role = [] \<or> length role > 64 \<or> \<not> list_all role_char role \<or> btree_get slots role \<noteq> None)) InvalidRole
        (ensure (\<not> (range_start r \<ge> range_end r \<or> range_end r > lay_flash_bytes layout \<or>
                    \<not> is_multiple_of (range_start r) sector \<or> \<not> is_multiple_of (range_end r) sector)) InvalidSlotRange
        (ensure (\<not> list_ex (\<lambda>p. range_start r < range_end (slot_range p) \<and> range_start (slot_range p) < range_end r) previous)
           SlotsOverlap
           (Inr (btree_insert role slot slots)))))"

fun validate_slots ::
  "FlashLayout \<Rightarrow> (rstring, FlashSlot) btreemap \<Rightarrow> FlashSlot list \<Rightarrow> FlashSlot list \<Rightarrow> (flash_error, (rstring, FlashSlot) btreemap) result" where
  "validate_slots layout slots previous [] = Inr slots"
| "validate_slots layout slots previous (slot # rest) =
     rbind (validate_slot layout slots previous slot) (\<lambda>slots'.
       validate_slots layout slots' (previous @ [slot]) rest)"

definition validate_layout :: "FlashLayout \<Rightarrow> (flash_error, (rstring, FlashSlot) btreemap) result" where
  "validate_layout layout =
     ensure (layout_geometry layout) InvalidFlashGeometry (validate_slots layout [] [] (lay_slots layout))"

section \<open>Files\<close>

text \<open>
  What a no-follow open of a path shows: the metadata before and after the read, and the result
  of each read of the handle, by its number.
\<close>

record FlashFile =
  file_before_len :: "u64 option"
  file_before_modified :: "nat option"
  file_read :: "nat \<Rightarrow> (read_error, bytes) result"
  file_after_len :: "u64 option"
  file_after_modified :: "nat option"

text \<open>
  \<open>Read::take\<close>: at most \<open>limit\<close> bytes, then the end of the input without another read; a read
  never returns more than the buffer offered, which is cut to the remaining limit.
\<close>

function take_reads :: "nat \<Rightarrow> (nat \<Rightarrow> (read_error, bytes) result) \<Rightarrow> nat \<Rightarrow> (read_error, bytes) result list" where
  "take_reads limit reads i =
     (if limit = 0 then [Inr []]
      else case reads i of
             Inl e \<Rightarrow> [Inl e]
           | Inr chunk \<Rightarrow>
               if chunk = [] then [Inr []]
               else Inr (take limit chunk) # take_reads (limit - length chunk) reads (Suc i))"
  by auto
termination by (relation "measure (\<lambda>(limit, _). limit)") auto

declare take_reads.simps [simp del]

definition verify_file ::
  "(bytes \<Rightarrow> bytes) \<Rightarrow> (rstring \<Rightarrow> FlashFile option) \<Rightarrow> rstring \<Rightarrow> FlashArtifact \<Rightarrow> (flash_error, unit) result" where
  "verify_file sha256 open_file path expected =
     rbind (ok_or (open_file path) UnsafeInput) (\<lambda>f.
     rbind (ok_or (file_before_len f) CannotInspect) (\<lambda>before.
     ensure (before = fa_size_bytes expected) SizeDiffers
     (rbind (ok_or (checked_add_u64 (fa_size_bytes expected) 1) BudgetOverflows) (\<lambda>limit.
      case sha256_reader sha256 [] 0 (take_reads (unat limit) (file_read f) 0) of
        None \<Rightarrow> Inl MeasureUnending
      | Some (Inl _) \<Rightarrow> Inl CannotMeasure
      | Some (Inr measured) \<Rightarrow>
          rbind (ok_or (file_after_len f) CannotRecheck) (\<lambda>after.
          ensure (\<not> (res_size measured \<noteq> fa_size_bytes expected \<or> res_digest measured \<noteq> fa_sha256 expected \<or>
                     after \<noteq> fa_size_bytes expected \<or> file_before_modified f \<noteq> file_after_modified f)) InputChanged
            (Inr ()))))))"

section \<open>Placements\<close>

definition slot_payload_end :: "FlashSlot \<Rightarrow> u64 \<Rightarrow> u64 option" where
  "slot_payload_end slot size' =
     (case checked_add_u64 (range_start (slot_range slot)) size' of
        None \<Rightarrow> None
      | Some end' \<Rightarrow> if size' \<noteq> 0 \<and> end' \<le> range_end (slot_range slot) then Some end' else None)"

definition slot_erase_end :: "FlashSlot \<Rightarrow> u64 \<Rightarrow> u64 \<Rightarrow> u64 option" where
  "slot_erase_end slot sector payload_end =
     (case checked_add_u64 payload_end (sector - 1) of
        None \<Rightarrow> None
      | Some end' \<Rightarrow>
          let rounded = end' div sector * sector
          in if rounded \<le> range_end (slot_range slot) then Some rounded else None)"

text \<open>One turn of the loop over the artifacts: the new path key and the placement.\<close>

definition place_artifact ::
  "(bytes \<Rightarrow> bytes) \<Rightarrow> (rstring \<Rightarrow> FlashFile option) \<Rightarrow> rstring \<Rightarrow> u64 \<Rightarrow> Sha256Digest \<Rightarrow> (rstring, FlashSlot) btreemap \<Rightarrow>
     rstring set \<Rightarrow> rstring set \<Rightarrow> FlashArtifact \<Rightarrow> (flash_error, rstring \<times> FlashPlacement) result" where
  "place_artifact sha256 open_file root sector native_build_set slots roles paths artifact =
     rbind (ok_or (btree_get slots (fa_role artifact)) UnselectedRole) (\<lambda>slot.
     ensure (fa_role artifact \<notin> roles) DuplicateRole
     (ensure (\<not> length (fa_relative_path artifact) > 4096) OversizedPath
     (rbind (map_err (\<lambda>_. UnsafePath) (casefold_path_key (fa_relative_path artifact))) (\<lambda>key.
      ensure (key \<notin> paths) DuplicatePath
      (ensure (fa_native_build_set_sha256 artifact = (if slot_native_build slot then Some native_build_set else None)) OriginDiffers
      (rbind (ok_or (slot_payload_end slot (fa_size_bytes artifact)) ExceedsSlot) (\<lambda>payload_end.
       rbind (ok_or (slot_erase_end slot sector payload_end) EraseExceedsSlot) (\<lambda>erase_end.
       rbind (verify_file sha256 open_file (path_join root (fa_relative_path artifact)) artifact) (\<lambda>_.
       Inr (key,
            \<lparr>pl_role = fa_role artifact, pl_relative_path = fa_relative_path artifact, pl_sha256 = fa_sha256 artifact,
             pl_size_bytes = fa_size_bytes artifact, pl_receipt_sha256 = fa_receipt_sha256 artifact,
             pl_payload = \<lparr>range_start = range_start (slot_range slot), range_end = payload_end\<rparr>,
             pl_erase = \<lparr>range_start = range_start (slot_range slot), range_end = erase_end\<rparr>\<rparr>))))))))))"

fun place_artifacts ::
  "(rstring set \<Rightarrow> rstring set \<Rightarrow> FlashArtifact \<Rightarrow> (flash_error, rstring \<times> FlashPlacement) result) \<Rightarrow>
     rstring set \<Rightarrow> rstring set \<Rightarrow> FlashArtifact list \<Rightarrow> (flash_error, FlashPlacement list) result" where
  "place_artifacts place roles paths [] = Inr []"
| "place_artifacts place roles paths (artifact # rest) =
     rbind (place roles paths artifact) (\<lambda>(key, placement).
     rbind (place_artifacts place (insert (fa_role artifact) roles) (insert key paths) rest) (\<lambda>placements.
     Inr (placement # placements)))"

definition plan_flash_artifacts ::
  "(bytes \<Rightarrow> bytes) \<Rightarrow> (rstring \<Rightarrow> FlashFile option) \<Rightarrow> (FlashLayout \<Rightarrow> bytes option) \<Rightarrow>
     rstring \<Rightarrow> FlashLayout \<Rightarrow> Sha256Digest \<Rightarrow> FlashArtifact list \<Rightarrow> (flash_error, FlashPlan) result" where
  "plan_flash_artifacts sha256 open_file layout_json root layout native_build_set artifacts =
     rbind (validate_layout layout) (\<lambda>slots.
     ensure (length artifacts = length slots) RoleSetDiffers
     (rbind (place_artifacts (place_artifact sha256 open_file root (lay_erase_sector_bytes layout) native_build_set slots)
               {} {} artifacts) (\<lambda>placements.
      let normalized = layout\<lparr>lay_slots := sort_key (\<lambda>s. range_start (slot_range s)) (lay_slots layout)\<rparr>
      in rbind (ok_or (layout_json normalized) CannotEncodeLayout) (\<lambda>layout_bytes.
         Inr \<lparr>fp_source_contract_sha256 = lay_source_contract_sha256 layout,
              fp_resolved_layout_sha256 = sha256_bytes sha256 layout_bytes,
              fp_native_build_set_sha256 = native_build_set,
              fp_flash_bytes = lay_flash_bytes layout,
              fp_erase_sector_bytes = lay_erase_sector_bytes layout,
              fp_placements = sort_key (\<lambda>p. range_start (pl_payload p)) placements\<rparr>))))"

section \<open>Arithmetic\<close>

lemma slot_payload_end_eq_Some:
  "slot_payload_end slot n = Some e \<longleftrightarrow>
     unat e = unat (range_start (slot_range slot)) + unat n \<and> n \<noteq> 0 \<and> e \<le> range_end (slot_range slot)"
proof (cases "checked_add_u64 (range_start (slot_range slot)) n")
  case None
  then have "unat e \<noteq> unat (range_start (slot_range slot)) + unat n"
    using checked_add_u64_eq_Some [of _ _ e] by (metis option.distinct(1))
  then show ?thesis using None by (simp add: slot_payload_end_def)
next
  case (Some c)
  then have "unat c = unat (range_start (slot_range slot)) + unat n" by (simp add: checked_add_u64_eq_Some)
  then show ?thesis using Some by (auto simp: slot_payload_end_def word_unat_eq_iff word_le_nat_alt)
qed

lemma round_up_nat:
  fixes p s :: nat
  assumes "0 < s"
  defines "r \<equiv> (p + (s - 1)) div s * s"
  shows "s dvd r" "p \<le> r" "r < p + s"
proof -
  have "r + (p + (s - 1)) mod s = p + (s - 1)" by (simp add: r_def)
  moreover have "(p + (s - 1)) mod s < s" using assms by simp
  ultimately show "p \<le> r" "r < p + s" using assms by linarith+
qed (simp add: r_def)

lemma slot_erase_end_eq_Some:
  assumes "slot_erase_end slot sector p = Some e" "sector \<noteq> 0"
  shows "unat sector dvd unat e" "unat p \<le> unat e" "unat e < unat p + unat sector" "e \<le> range_end (slot_range slot)"
proof -
  from assms(1) obtain q where q: "checked_add_u64 p (sector - 1) = Some q" "e = q div sector * sector"
    "e \<le> range_end (slot_range slot)"
    by (auto simp: slot_erase_end_def Let_def split: option.splits if_splits)
  have pos: "0 < unat sector" using assms(2) by (simp add: unat_gt_0)
  have "unat q = unat p + (unat sector - 1)"
    using q(1) assms(2) by (simp add: checked_add_u64_eq_Some unat_minus_one)
  moreover have "unat q div unat sector * unat sector < 2 ^ 64"
    using unat_u64_less [of q] div_times_less_eq_dividend [of "unat q" "unat sector"] by (simp del: div_times_less_eq_dividend)
  then have "unat e = unat q div unat sector * unat sector"
    using q(2) by (simp only: unat_word_ariths(2) unat_div len_of_numeral_defs mod_less) simp
  ultimately show "unat sector dvd unat e" "unat p \<le> unat e" "unat e < unat p + unat sector"
    using round_up_nat [OF pos, of "unat p"] by (simp_all only:)
qed (use assms in \<open>auto simp: slot_erase_end_def Let_def split: option.splits if_splits\<close>)

section \<open>Layouts and their declarative form\<close>

definition slot_ok :: "FlashLayout \<Rightarrow> FlashSlot \<Rightarrow> bool" where
  "slot_ok layout s =
     (slot_role s \<noteq> [] \<and> length (slot_role s) \<le> 64 \<and> list_all role_char (slot_role s) \<and>
      range_start (slot_range s) < range_end (slot_range s) \<and> range_end (slot_range s) \<le> lay_flash_bytes layout \<and>
      is_multiple_of (range_start (slot_range s)) (lay_erase_sector_bytes layout) \<and>
      is_multiple_of (range_end (slot_range s)) (lay_erase_sector_bytes layout))"

definition apart :: "FlashRange \<Rightarrow> FlashRange \<Rightarrow> bool" where
  "apart a b = (range_end a \<le> range_start b \<or> range_end b \<le> range_start a)"

definition layout_ok :: "FlashLayout \<Rightarrow> bool" where
  "layout_ok layout =
     (layout_geometry layout \<and> (\<forall>s\<in>set (lay_slots layout). slot_ok layout s) \<and> distinct (map slot_role (lay_slots layout)) \<and>
      (\<forall>s\<in>set (lay_slots layout). \<forall>t\<in>set (lay_slots layout). s \<noteq> t \<longrightarrow> apart (slot_range s) (slot_range t)))"

abbreviation slot_map :: "FlashSlot list \<Rightarrow> (rstring, FlashSlot) btreemap" where
  "slot_map slots \<equiv> btree.insert_all (map (\<lambda>s. (slot_role s, s)) slots) []"

lemma apart_sym: "apart a b \<longleftrightarrow> apart b a"
  by (auto simp: apart_def)

lemma validate_slot_eq_Inr:
  "validate_slot layout slots previous s = Inr m \<longleftrightarrow>
     slot_ok layout s \<and> btree_get slots (slot_role s) = None \<and> (\<forall>p\<in>set previous. apart (slot_range p) (slot_range s)) \<and>
     m = btree_insert (slot_role s) s slots"
  by (auto simp: validate_slot_def slot_ok_def apart_def Let_def list_ex_iff not_less not_le)

lemma validate_slots_eq_Inr:
  "btree_wf slots \<Longrightarrow>
   validate_slots layout slots previous rest = Inr m \<longleftrightarrow>
     (\<forall>s\<in>set rest. slot_ok layout s \<and> btree_get slots (slot_role s) = None) \<and> distinct (map slot_role rest) \<and>
     sorted_wrt (\<lambda>a b. apart (slot_range a) (slot_range b)) rest \<and>
     (\<forall>p\<in>set previous. \<forall>s\<in>set rest. apart (slot_range p) (slot_range s)) \<and>
     m = btree.insert_all (map (\<lambda>s. (slot_role s, s)) rest) slots"
proof (induction rest arbitrary: slots previous)
  case (Cons s rest)
  have get: "btree_get (btree_insert (slot_role s) s slots) k = None \<longleftrightarrow> k \<noteq> slot_role s \<and> btree_get slots k = None" for k
    using Cons.prems by (simp add: btree.get_insert)
  have "validate_slots layout slots previous (s # rest) = Inr m \<longleftrightarrow>
      slot_ok layout s \<and> btree_get slots (slot_role s) = None \<and> (\<forall>p\<in>set previous. apart (slot_range p) (slot_range s)) \<and>
      validate_slots layout (btree_insert (slot_role s) s slots) (previous @ [s]) rest = Inr m"
    by (auto simp: rbind_eq_Inr validate_slot_eq_Inr)
  also have "validate_slots layout (btree_insert (slot_role s) s slots) (previous @ [s]) rest = Inr m \<longleftrightarrow>
      (\<forall>t\<in>set rest. slot_ok layout t \<and> slot_role t \<noteq> slot_role s \<and> btree_get slots (slot_role t) = None) \<and>
      distinct (map slot_role rest) \<and> sorted_wrt (\<lambda>a b. apart (slot_range a) (slot_range b)) rest \<and>
      (\<forall>p\<in>set (previous @ [s]). \<forall>t\<in>set rest. apart (slot_range p) (slot_range t)) \<and>
      m = btree.insert_all (map (\<lambda>s. (slot_role s, s)) (s # rest)) slots"
    using Cons.IH [of "btree_insert (slot_role s) s slots"] Cons.prems get by simp
  finally show ?case by (auto simp: image_iff)
qed auto

lemma sorted_wrt_symmetric:
  assumes "\<And>a b. P a b \<longleftrightarrow> P b a" "distinct xs"
  shows "sorted_wrt P xs \<longleftrightarrow> (\<forall>a\<in>set xs. \<forall>b\<in>set xs. a \<noteq> b \<longrightarrow> P a b)"
  using assms(2)
proof (induction xs)
  case (Cons x xs)
  have "P x b \<longleftrightarrow> (x \<noteq> b \<longrightarrow> P x b) \<and> (b \<noteq> x \<longrightarrow> P b x)" if "b \<in> set xs" for b
    using that Cons.prems assms(1) [of x b] by (cases "b = x") simp_all
  then have "(\<forall>b\<in>set xs. P x b) \<longleftrightarrow> (\<forall>b\<in>set xs. (x \<noteq> b \<longrightarrow> P x b) \<and> (b \<noteq> x \<longrightarrow> P b x))"
    by (rule ball_cong [OF refl])
  with Cons show ?case by auto
qed simp

lemma validate_layout_eq_Inr:
  "validate_layout layout = Inr m \<longleftrightarrow> layout_ok layout \<and> m = slot_map (lay_slots layout)"
proof -
  have "sorted_wrt (\<lambda>a b. apart (slot_range a) (slot_range b)) ss \<longleftrightarrow>
      (\<forall>s\<in>set ss. \<forall>t\<in>set ss. s \<noteq> t \<longrightarrow> apart (slot_range s) (slot_range t))" if "distinct (map slot_role ss)" for ss
    using that by (intro sorted_wrt_symmetric) (auto simp: apart_sym distinct_map)
  then show ?thesis
    by (auto simp: validate_layout_def validate_slots_eq_Inr layout_ok_def btree_get_def)
qed

lemma slot_map_get:
  "distinct (map slot_role slots) \<Longrightarrow> btree_get (slot_map slots) r = Some s \<longleftrightarrow> s \<in> set slots \<and> slot_role s = r"
proof -
  assume d: "distinct (map slot_role slots)"
  then have "btree_get (slot_map slots) = map_of (map (\<lambda>s. (slot_role s, s)) slots)"
    by (intro btree.get_insert_all_distinct) (simp add: o_def)
  moreover have "map_of (map (\<lambda>s. (slot_role s, s)) slots) r = Some s \<longleftrightarrow> (r, s) \<in> set (map (\<lambda>s. (slot_role s, s)) slots)"
    using d by (intro map_of_eq_Some_iff) (simp add: o_def)
  ultimately show ?thesis by auto
qed

lemma length_slot_map: "distinct (map slot_role slots) \<Longrightarrow> length (slot_map slots) = length slots"
proof -
  assume d: "distinct (map slot_role slots)"
  have wf: "btree_wf (slot_map slots)" by (simp add: btree.wf_insert_all)
  then have "distinct (map fst (slot_map slots))" by (simp add: btree_wf_def strict_sorted_iff)
  moreover have "fst ` set (slot_map slots) = slot_role ` set slots"
  proof -
    have "k \<in> fst ` set (slot_map slots) \<longleftrightarrow> k \<in> slot_role ` set slots" for k
      using slot_map_get [OF d, of k] by (auto simp: btree_get_def dom_map_of_conv_image_fst [symmetric] dom_def)
    then show ?thesis by blast
  qed
  ultimately have "length (map fst (slot_map slots)) = card (slot_role ` set slots)"
    using distinct_card [of "map fst (slot_map slots)"] by simp
  also have "\<dots> = length slots" using distinct_card [OF d] by simp
  finally show ?thesis by simp
qed

lemma option_eqI: "(\<And>x. m = Some x \<longleftrightarrow> m' = Some x) \<Longrightarrow> m = m'"
  by (cases m; cases m') auto

lemma slot_map_permute:
  assumes "mset slots = mset slots'" "distinct (map slot_role slots)"
  shows "slot_map slots = slot_map slots'"
proof -
  have d: "distinct (map slot_role slots')" using assms by (metis mset_eq_imp_distinct_iff mset_map)
  have "set slots = set slots'" using assms(1) by (rule mset_eq_setD)
  then have "btree_get (slot_map slots) r = Some s \<longleftrightarrow> btree_get (slot_map slots') r = Some s" for r s
    by (simp add: slot_map_get [OF assms(2)] slot_map_get [OF d])
  then have "btree_get (slot_map slots) = btree_get (slot_map slots')"
    by (intro ext option_eqI)
  then show ?thesis by (intro btree.entries_unique) (simp_all add: btree.wf_insert_all)
qed

lemma layout_ok_permute:
  assumes "mset (lay_slots layout) = mset slots'"
  shows "layout_ok (layout\<lparr>lay_slots := slots'\<rparr>) \<longleftrightarrow> layout_ok layout"
proof -
  have s: "set slots' = set (lay_slots layout)" using mset_eq_setD [OF assms] by simp
  have l: "length slots' = length (lay_slots layout)" using assms by (metis size_mset)
  have d: "distinct (map slot_role slots') \<longleftrightarrow> distinct (map slot_role (lay_slots layout))"
    using assms by (metis mset_eq_imp_distinct_iff mset_map)
  have e: "slots' = [] \<longleftrightarrow> lay_slots layout = []" using l by auto
  have "layout_geometry (layout\<lparr>lay_slots := slots'\<rparr>) \<longleftrightarrow> layout_geometry layout"
    by (simp add: layout_geometry_def list_ex_iff s l e)
  then show ?thesis by (simp add: layout_ok_def slot_ok_def s d)
qed

section \<open>Measuring a file\<close>

lemma take_reads_shape:
  "\<exists>chunks. (\<forall>c\<in>set chunks. c \<noteq> []) \<and> length (concat chunks) \<le> limit \<and>
     (take_reads limit reads i = map Inr chunks @ [Inr []] \<or> (\<exists>e. take_reads limit reads i = map Inr chunks @ [Inl e]))"
proof (induction limit reads i rule: take_reads.induct)
  case (1 limit reads i)
  consider "limit = 0 \<or> reads i = Inr []" | e where "0 < limit" "reads i = Inl e"
    | c where "0 < limit" "reads i = Inr c" "c \<noteq> []"
    by (cases "reads i") auto
  then show ?case
  proof cases
    case 1
    then show ?thesis by (auto simp: take_reads.simps [of limit] intro!: exI [of _ "[]"])
  next
    case 2
    then show ?thesis by (auto simp: take_reads.simps [of limit] intro!: exI [of _ "[]"])
  next
    case 3
    from 1 [OF _ 3(2,3)] 3(1) obtain chunks where ih: "\<forall>c\<in>set chunks. c \<noteq> []" "length (concat chunks) \<le> limit - length c"
      "take_reads (limit - length c) reads (Suc i) = map Inr chunks @ [Inr []] \<or>
       (\<exists>e. take_reads (limit - length c) reads (Suc i) = map Inr chunks @ [Inl e])" by auto
    have "take_reads limit reads i = Inr (take limit c) # take_reads (limit - length c) reads (Suc i)"
      using 3 by (simp add: take_reads.simps [of limit])
    moreover have "length (take limit c @ concat chunks) \<le> limit" using ih(2) by simp
    ultimately show ?thesis using ih 3 by (intro exI [of _ "take limit c # chunks"]) auto
  qed
qed

lemma sha256_reader_fails: "\<exists>e. sha256_reader sha256 absorbed n (map Inr chunks @ [Inl e']) = Some (Inl e)"
  if "\<forall>c\<in>set chunks. c \<noteq> []"
  using that by (induction chunks arbitrary: absorbed n) auto

lemma measure_file:
  obtains (failed) e where "sha256_reader sha256 [] 0 (take_reads (unat (limit :: u64)) reads 0) = Some (Inl e)"
  | (measured) chunks where "take_reads (unat limit) reads 0 = map Inr chunks @ [Inr []]"
      "sha256_reader sha256 [] 0 (take_reads (unat limit) reads 0) =
         Some (Inr \<lparr>res_digest = sha256_bytes sha256 (concat chunks), res_size = of_nat (length (concat chunks))\<rparr>)"
      "length (concat chunks) \<le> unat limit"
proof -
  from take_reads_shape [of "unat limit" reads 0] obtain chunks where
    c: "\<forall>c\<in>set chunks. c \<noteq> []" "length (concat chunks) \<le> unat limit"
      "take_reads (unat limit) reads 0 = map Inr chunks @ [Inr []] \<or> (\<exists>e. take_reads (unat limit) reads 0 = map Inr chunks @ [Inl e])"
    by auto
  have l: "length (concat chunks) < 2 ^ 64" using c(2) unat_u64_less [of limit] by simp
  from c(3) show thesis
  proof
    assume m: "take_reads (unat limit) reads 0 = map Inr chunks @ [Inr []]"
    have "list_all (\<lambda>c. c \<noteq> []) chunks" "unat (0 :: u64) + length (concat chunks) < 2 ^ 64"
      using c(1) l by (simp_all add: list_all_iff)
    from sha256_reader_chunks [OF this, of sha256 "[]" "[]"] m c(2) show thesis
      by (intro measured) (simp_all add: sha256_bytes_def)
  next
    assume "\<exists>e. take_reads (unat limit) reads 0 = map Inr chunks @ [Inl e]"
    then show thesis using sha256_reader_fails [OF c(1)] failed by metis
  qed
qed

lemma verify_file_ends: "verify_file sha256 open_file path a \<noteq> Inl MeasureUnending"
proof -
  have "sha256_reader sha256 [] 0 (take_reads (unat limit) reads 0) \<noteq> None" for limit :: u64 and reads
    by (cases rule: measure_file [of sha256 limit reads]) auto
  then show ?thesis
    by (auto simp: verify_file_def ok_or_def split: option.splits sum.splits if_splits) (metis option.distinct(1))+
qed

lemma verify_file_eq_Inr:
  assumes "verify_file sha256 open_file path a = Inr ()"
  shows "\<exists>f chunks. open_file path = Some f \<and>
    take_reads (unat (fa_size_bytes a) + 1) (file_read f) 0 = map Inr chunks @ [Inr []] \<and>
    length (concat chunks) = unat (fa_size_bytes a) \<and> sha256_bytes sha256 (concat chunks) = fa_sha256 a \<and>
    file_before_len f = Some (fa_size_bytes a) \<and> file_after_len f = Some (fa_size_bytes a) \<and>
    file_before_modified f = file_after_modified f"
proof -
  from assms obtain f limit measured where f: "open_file path = Some f" "file_before_len f = Some (fa_size_bytes a)"
    "checked_add_u64 (fa_size_bytes a) 1 = Some limit"
    "sha256_reader sha256 [] 0 (take_reads (unat limit) (file_read f) 0) = Some (Inr measured)"
    "res_size measured = fa_size_bytes a" "res_digest measured = fa_sha256 a" "file_after_len f = Some (fa_size_bytes a)"
    "file_before_modified f = file_after_modified f"
    by (auto simp: verify_file_def ok_or_def split: option.splits sum.splits if_splits)
  have limit: "unat limit = unat (fa_size_bytes a) + 1" using f(3) by (simp add: checked_add_u64_eq_Some)
  show ?thesis
  proof (cases rule: measure_file [of sha256 limit "file_read f"])
    case (failed e)
    then show ?thesis using f(4) by simp
  next
    case (measured chunks)
    have "length (concat chunks) < 2 ^ 64" using measured(3) unat_u64_less [of limit] by simp
    then have "unat (of_nat (length (concat chunks)) :: u64) = length (concat chunks)"
      by (simp add: unat_of_nat)
    then show ?thesis using f measured limit by (intro exI [of _ f] exI [of _ chunks]) auto
  qed
qed

section \<open>Placements\<close>

text \<open>What one placement owes to its slot.\<close>

definition placement_ok :: "FlashLayout \<Rightarrow> FlashArtifact \<Rightarrow> FlashSlot \<Rightarrow> FlashPlacement \<Rightarrow> bool" where
  "placement_ok layout a s p =
     (pl_role p = slot_role s \<and> pl_role p = fa_role a \<and> pl_relative_path p = fa_relative_path a \<and> pl_sha256 p = fa_sha256 a \<and>
      pl_size_bytes p = fa_size_bytes a \<and> pl_receipt_sha256 p = fa_receipt_sha256 a \<and>
      range_start (pl_payload p) = range_start (slot_range s) \<and> range_start (pl_erase p) = range_start (slot_range s) \<and>
      0 < unat (pl_size_bytes p) \<and> unat (range_end (pl_payload p)) = unat (range_start (pl_payload p)) + unat (pl_size_bytes p) \<and>
      range_end (pl_payload p) \<le> range_end (pl_erase p) \<and> range_end (pl_erase p) \<le> range_end (slot_range s) \<and>
      unat (lay_erase_sector_bytes layout) dvd unat (range_end (pl_erase p)) \<and>
      unat (range_end (pl_erase p)) < unat (range_end (pl_payload p)) + unat (lay_erase_sector_bytes layout))"

lemma place_artifact_sets:
  "place_artifact sha256 open_file root sector nbs slots roles paths a = Inr (k, p) \<longleftrightarrow>
     place_artifact sha256 open_file root sector nbs slots {} {} a = Inr (k, p) \<and> fa_role a \<notin> roles \<and> k \<notin> paths"
  by (auto simp: place_artifact_def rbind_eq_Inr)

lemma place_artifacts_eq_Inr:
  fixes sha256 open_file root sector nbs slots
  defines "place \<equiv> place_artifact sha256 open_file root sector nbs slots"
  shows "place_artifacts place roles paths arts = Inr ps \<longleftrightarrow>
    (\<exists>keys. list_all2 (\<lambda>a kp. place {} {} a = Inr kp) arts (zip keys ps) \<and> length keys = length arts \<and> length ps = length arts \<and>
      distinct (map fa_role arts) \<and> set (map fa_role arts) \<inter> roles = {} \<and> distinct keys \<and> set keys \<inter> paths = {})"
proof (induction arts arbitrary: roles paths ps)
  case (Cons a arts)
  have "place_artifacts place roles paths (a # arts) = Inr ps \<longleftrightarrow>
      (\<exists>k p qs. place {} {} a = Inr (k, p) \<and> fa_role a \<notin> roles \<and> k \<notin> paths \<and> ps = p # qs \<and>
        place_artifacts place (insert (fa_role a) roles) (insert k paths) arts = Inr qs)"
    using place_artifact_sets [of sha256 open_file root sector nbs slots roles paths a]
    by (auto simp: rbind_eq_Inr place_def split: prod.splits)
  also have "\<dots> \<longleftrightarrow> (\<exists>k p qs keys. place {} {} a = Inr (k, p) \<and> ps = p # qs \<and>
        list_all2 (\<lambda>a kp. place {} {} a = Inr kp) arts (zip keys qs) \<and> length keys = length arts \<and> length qs = length arts \<and>
        distinct (map fa_role (a # arts)) \<and> set (map fa_role (a # arts)) \<inter> roles = {} \<and> distinct (k # keys) \<and>
        set (k # keys) \<inter> paths = {})"
    unfolding Cons.IH by auto
  also have "\<dots> \<longleftrightarrow> (\<exists>keys. list_all2 (\<lambda>a kp. place {} {} a = Inr kp) (a # arts) (zip keys ps) \<and> length keys = length (a # arts) \<and>
        length ps = length (a # arts) \<and> distinct (map fa_role (a # arts)) \<and> set (map fa_role (a # arts)) \<inter> roles = {} \<and>
        distinct keys \<and> set keys \<inter> paths = {})" (is "?l \<longleftrightarrow> ?r")
  proof
    assume ?l
    then obtain k p qs keys where "place {} {} a = Inr (k, p)" "ps = p # qs" and
      r: "list_all2 (\<lambda>a kp. place {} {} a = Inr kp) arts (zip keys qs)" "length keys = length arts" "length qs = length arts"
        "distinct (map fa_role (a # arts))" "set (map fa_role (a # arts)) \<inter> roles = {}" "distinct (k # keys)"
        "set (k # keys) \<inter> paths = {}" by blast
    then show ?r by (intro exI [of _ "k # keys"]) simp
  next
    assume ?r
    then obtain keys where r: "list_all2 (\<lambda>a kp. place {} {} a = Inr kp) (a # arts) (zip keys ps)" "length keys = Suc (length arts)"
      "length ps = Suc (length arts)" "distinct (map fa_role (a # arts))" "set (map fa_role (a # arts)) \<inter> roles = {}"
      "distinct keys" "set keys \<inter> paths = {}" by auto
    then obtain k ks p qs where "keys = k # ks" "ps = p # qs" by (auto simp: length_Suc_conv)
    with r show ?l by (intro exI [of _ k] exI [of _ p] exI [of _ qs] exI [of _ ks]) simp
  qed
  finally show ?case .
qed auto

lemma place_artifact_eq_Inr:
  assumes "place_artifact sha256 open_file root (lay_erase_sector_bytes layout) nbs (slot_map (lay_slots layout)) roles paths a = Inr (k, p)"
    and "layout_ok layout"
  shows "\<exists>s\<in>set (lay_slots layout). placement_ok layout a s p \<and>
    fa_native_build_set_sha256 a = (if slot_native_build s then Some nbs else None) \<and>
    verify_file sha256 open_file (path_join root (fa_relative_path a)) a = Inr ()"
proof -
  from assms(1) obtain s payload_end erase_end where
    r: "btree_get (slot_map (lay_slots layout)) (fa_role a) = Some s"
      "slot_payload_end s (fa_size_bytes a) = Some payload_end"
      "slot_erase_end s (lay_erase_sector_bytes layout) payload_end = Some erase_end"
      "fa_native_build_set_sha256 a = (if slot_native_build s then Some nbs else None)"
      "verify_file sha256 open_file (path_join root (fa_relative_path a)) a = Inr ()" and
    p: "p = \<lparr>pl_role = fa_role a, pl_relative_path = fa_relative_path a, pl_sha256 = fa_sha256 a,
             pl_size_bytes = fa_size_bytes a, pl_receipt_sha256 = fa_receipt_sha256 a,
             pl_payload = \<lparr>range_start = range_start (slot_range s), range_end = payload_end\<rparr>,
             pl_erase = \<lparr>range_start = range_start (slot_range s), range_end = erase_end\<rparr>\<rparr>"
    by (auto simp: place_artifact_def rbind_eq_Inr split: if_splits)
  have "s \<in> set (lay_slots layout)" "slot_role s = fa_role a"
    using r(1) assms(2) by (simp_all add: slot_map_get layout_ok_def)
  moreover have "lay_erase_sector_bytes layout \<noteq> 0" using assms(2) by (simp add: layout_ok_def layout_geometry_def)
  ultimately show ?thesis
    using r(2,4,5) slot_erase_end_eq_Some [OF r(3)] unfolding p
    by (intro bexI [of _ s]) (auto simp: placement_ok_def slot_payload_end_eq_Some unat_gt_0 word_le_nat_alt)
qed

lemma place_artifacts_sound:
  assumes "place_artifacts (place_artifact sha256 open_file root (lay_erase_sector_bytes layout) nbs (slot_map (lay_slots layout)))
      roles paths arts = Inr ps" and "layout_ok layout"
  shows "map pl_role ps = map fa_role arts" "distinct (map fa_role arts)"
    "\<forall>p\<in>set ps. \<exists>a\<in>set arts. \<exists>s\<in>set (lay_slots layout). placement_ok layout a s p \<and>
       fa_native_build_set_sha256 a = (if slot_native_build s then Some nbs else None) \<and>
       verify_file sha256 open_file (path_join root (fa_relative_path a)) a = Inr ()"
proof -
  note place = place_artifact_eq_Inr [OF _ assms(2)]
  let ?place = "place_artifact sha256 open_file root (lay_erase_sector_bytes layout) nbs (slot_map (lay_slots layout)) {} {}"
  from place_artifacts_eq_Inr [THEN iffD1, OF assms(1)] obtain keys where
    l: "list_all2 (\<lambda>a kp. ?place a = Inr kp) arts (zip keys ps)" and
    k: "length keys = length arts" "length ps = length arts" "distinct (map fa_role arts)"
    by (elim exE conjE) rule
  have each: "?place (arts ! i) = Inr (keys ! i, ps ! i)" if "i < length arts" for i
    using list_all2_nthD [OF l that] that k by simp
  show "distinct (map fa_role arts)" by (rule k(3))
  show "map pl_role ps = map fa_role arts"
  proof (rule nth_equalityI)
    fix i assume "i < length (map pl_role ps)"
    then have "pl_role (ps ! i) = fa_role (arts ! i)" using k place [OF each] by (auto simp: placement_ok_def)
    then show "map pl_role ps ! i = map fa_role arts ! i" using \<open>i < _\<close> k by simp
  qed (simp add: k)
  show "\<forall>p\<in>set ps. \<exists>a\<in>set arts. \<exists>s\<in>set (lay_slots layout). placement_ok layout a s p \<and>
       fa_native_build_set_sha256 a = (if slot_native_build s then Some nbs else None) \<and>
       verify_file sha256 open_file (path_join root (fa_relative_path a)) a = Inr ()"
  proof
    fix p assume "p \<in> set ps"
    then obtain i where i: "i < length arts" "p = ps ! i" using k by (auto simp: in_set_conv_nth)
    show "\<exists>a\<in>set arts. \<exists>s\<in>set (lay_slots layout). placement_ok layout a s p \<and>
       fa_native_build_set_sha256 a = (if slot_native_build s then Some nbs else None) \<and>
       verify_file sha256 open_file (path_join root (fa_relative_path a)) a = Inr ()"
      unfolding i(2) using place [OF each [OF i(1)]] nth_mem [OF i(1)] by (rule bexI)
  qed
qed

lemma plan_flash_artifacts_eq_Inr:
  "plan_flash_artifacts sha256 open_file layout_json root layout nbs artifacts = Inr plan \<longleftrightarrow>
     (\<exists>ps js. layout_ok layout \<and> length artifacts = length (lay_slots layout) \<and>
       place_artifacts (place_artifact sha256 open_file root (lay_erase_sector_bytes layout) nbs (slot_map (lay_slots layout)))
         {} {} artifacts = Inr ps \<and>
       layout_json (layout\<lparr>lay_slots := sort_key (\<lambda>s. range_start (slot_range s)) (lay_slots layout)\<rparr>) = Some js \<and>
       plan = \<lparr>fp_source_contract_sha256 = lay_source_contract_sha256 layout, fp_resolved_layout_sha256 = sha256_bytes sha256 js,
               fp_native_build_set_sha256 = nbs, fp_flash_bytes = lay_flash_bytes layout,
               fp_erase_sector_bytes = lay_erase_sector_bytes layout,
               fp_placements = sort_key (\<lambda>p. range_start (pl_payload p)) ps\<rparr>)"
proof -
  have "layout_ok layout \<Longrightarrow> length (slot_map (lay_slots layout)) = length (lay_slots layout)"
    by (simp add: layout_ok_def length_slot_map)
  then show ?thesis
    by (auto simp: plan_flash_artifacts_def rbind_eq_Inr validate_layout_eq_Inr Let_def)
qed

lemma slot_starts_inj:
  assumes "layout_ok layout"
  shows "inj_on (\<lambda>s. range_start (slot_range s)) (set (lay_slots layout))"
proof (rule inj_onI)
  fix s t assume st: "s \<in> set (lay_slots layout)" "t \<in> set (lay_slots layout)" "range_start (slot_range s) = range_start (slot_range t)"
  show "s = t"
  proof (rule ccontr)
    assume "s \<noteq> t"
    then have "apart (slot_range s) (slot_range t)" "slot_ok layout s" "slot_ok layout t"
      using assms st(1,2) by (auto simp: layout_ok_def)
    then show False using st(3) by (auto simp: apart_def slot_ok_def)
  qed
qed

lemma sorted_wrt_conj: "sorted_wrt P xs \<Longrightarrow> sorted_wrt Q xs \<Longrightarrow> sorted_wrt (\<lambda>x y. P x y \<and> Q x y) xs"
  by (induction xs) auto

lemma erase_spans_ordered:
  assumes "layout_ok layout" "distinct (map pl_role ps)"
    and "\<forall>p\<in>set ps. \<exists>a. \<exists>s\<in>set (lay_slots layout). placement_ok layout a s p"
  shows "sorted_wrt (\<lambda>p q. range_end (pl_erase p) \<le> range_start (pl_erase q)) (sort_key (\<lambda>p. range_start (pl_payload p)) ps)"
proof -
  let ?ps = "sort_key (\<lambda>p. range_start (pl_payload p)) ps"
  have "sorted_wrt (\<lambda>p q. range_start (pl_payload p) \<le> range_start (pl_payload q)) ?ps"
    using sorted_sort_key [of "\<lambda>p. range_start (pl_payload p)" ps] by (simp add: sorted_wrt_map)
  moreover have "distinct (map pl_role ?ps)" using assms(2) by (metis mset_eq_imp_distinct_iff mset_map mset_sort)
  then have "sorted_wrt (\<lambda>p q. pl_role p \<noteq> pl_role q) ?ps" by (simp add: distinct_conv_nth sorted_wrt_iff_nth_less)
  ultimately have "sorted_wrt (\<lambda>p q. range_start (pl_payload p) \<le> range_start (pl_payload q) \<and> pl_role p \<noteq> pl_role q) ?ps"
    by (rule sorted_wrt_conj)
  then show ?thesis
  proof (rule sorted_wrt_mono_rel [rotated])
    fix p q
    assume pq: "p \<in> set ?ps" "q \<in> set ?ps" "range_start (pl_payload p) \<le> range_start (pl_payload q) \<and> pl_role p \<noteq> pl_role q"
    obtain a b s t where st: "s \<in> set (lay_slots layout)" "t \<in> set (lay_slots layout)" "placement_ok layout a s p" "placement_ok layout b t q"
      using assms(3) pq(1,2) by (metis set_sort)
    with pq(3) have "s \<noteq> t" by (auto simp: placement_ok_def)
    then have "apart (slot_range s) (slot_range t)" "slot_ok layout t" using assms(1) st by (auto simp: layout_ok_def)
    then show "range_end (pl_erase p) \<le> range_start (pl_erase q)"
      using st(3,4) pq(3) by (auto simp: apart_def placement_ok_def slot_ok_def)
  qed
qed

lemma placement_starts_inj:
  assumes "place_artifacts (place_artifact sha256 open_file root (lay_erase_sector_bytes layout) nbs (slot_map (lay_slots layout)))
      roles paths arts = Inr ps" and "layout_ok layout"
  shows "inj_on (\<lambda>p. range_start (pl_payload p)) (set ps)"
proof (rule inj_onI)
  note sound = place_artifacts_sound [OF assms]
  fix p q assume pq: "p \<in> set ps" "q \<in> set ps" "range_start (pl_payload p) = range_start (pl_payload q)"
  obtain a b s t where st: "s \<in> set (lay_slots layout)" "t \<in> set (lay_slots layout)" "placement_ok layout a s p" "placement_ok layout b t q"
    using sound(3) pq(1,2) by meson
  then have "s = t" using slot_starts_inj [OF assms(2)] pq(3) by (auto simp: placement_ok_def inj_on_def)
  then have "pl_role p = pl_role q" using st by (simp add: placement_ok_def)
  moreover have "inj_on pl_role (set ps)" using sound(1,2) by (metis distinct_map)
  ultimately show "p = q" using pq(1,2) by (auto simp: inj_on_def)
qed

lemma place_artifacts_map:
  fixes sha256 open_file root sector nbs slots
  defines "place \<equiv> place_artifact sha256 open_file root sector nbs slots"
  defines "out \<equiv> \<lambda>a. projr (place {} {} a)"
  shows "place_artifacts place {} {} arts = Inr ps \<longleftrightarrow>
    (\<forall>a\<in>set arts. is_ok (place {} {} a)) \<and> distinct (map fa_role arts) \<and> distinct (map (fst \<circ> out) arts) \<and> ps = map (snd \<circ> out) arts"
proof -
  have all2: "list_all2 (\<lambda>a kp. place {} {} a = Inr kp) arts (zip keys qs) \<longleftrightarrow>
      (\<forall>a\<in>set arts. is_ok (place {} {} a)) \<and> keys = map (fst \<circ> out) arts \<and> qs = map (snd \<circ> out) arts"
    if "length keys = length arts" "length qs = length arts" for keys qs
    using that
  proof (induction arts arbitrary: keys qs)
    case (Cons a arts)
    then obtain k ks q qs' where kq: "keys = k # ks" "qs = q # qs'" by (auto simp: length_Suc_conv)
    have "place {} {} a = Inr (k, q) \<longleftrightarrow> is_ok (place {} {} a) \<and> k = fst (out a) \<and> q = snd (out a)"
      by (cases "place {} {} a") (auto simp: out_def)
    then show ?case using Cons.IH [of ks qs'] Cons.prems kq by auto
  qed simp
  have "place_artifacts place {} {} arts = Inr ps \<longleftrightarrow>
      (\<exists>keys. list_all2 (\<lambda>a kp. place {} {} a = Inr kp) arts (zip keys ps) \<and> length keys = length arts \<and> length ps = length arts \<and>
        distinct (map fa_role arts) \<and> distinct keys)"
    unfolding place_def by (subst place_artifacts_eq_Inr) simp
  also have "\<dots> \<longleftrightarrow> (\<forall>a\<in>set arts. is_ok (place {} {} a)) \<and> distinct (map fa_role arts) \<and> distinct (map (fst \<circ> out) arts) \<and>
      ps = map (snd \<circ> out) arts" (is "?l \<longleftrightarrow> ?r")
  proof
    assume ?l
    then obtain keys where "length keys = length arts" "length ps = length arts" "distinct (map fa_role arts)" "distinct keys"
      "list_all2 (\<lambda>a kp. place {} {} a = Inr kp) arts (zip keys ps)" by blast
    with all2 [of keys ps] show ?r by simp
  next
    assume ?r
    then show ?l using all2 [of "map (fst \<circ> out) arts" ps] by (intro exI [of _ "map (fst \<circ> out) arts"]) simp
  qed
  finally show ?thesis .
qed

lemma place_artifacts_permute:
  assumes "place_artifacts (place_artifact sha256 open_file root sector nbs slots) {} {} arts = Inr ps" "mset arts' = mset arts"
  shows "\<exists>ps'. place_artifacts (place_artifact sha256 open_file root sector nbs slots) {} {} arts' = Inr ps' \<and> mset ps' = mset ps"
proof -
  have d: "distinct (map f arts') \<longleftrightarrow> distinct (map f arts)" for f
    using assms(2) by (metis mset_eq_imp_distinct_iff mset_map)
  have m: "mset (map f arts') = mset (map f arts)" for f using assms(2) by (metis mset_map)
  have "set arts' = set arts" using assms(2) by (rule mset_eq_setD)
  with assms(1) show ?thesis by (auto simp: place_artifacts_map d m simp del: mset_map)
qed

section \<open>Properties\<close>

text \<open>
  The layout check accepts exactly the layouts with consistent geometry whose roles are
  distinct portable names and whose slots are sector-aligned, inside the flash and pairwise
  disjoint.
\<close>

lemma flash_layout_exact: "is_ok (validate_layout layout) \<longleftrightarrow> layout_ok layout"
  by (simp add: is_ok_iff validate_layout_eq_Inr)

text \<open>
  C22. A plan places exactly one measured file per required role: every payload starts its slot
  and has the declared size, its erase span is the payload rounded up to whole sectors and stays
  in the slot, the file had the declared digest, and in the plan's order the erase spans of
  different roles never overlap and stay inside the flash.
\<close>

theorem flash_plan_sound:
  assumes "plan_flash_artifacts sha256 open_file layout_json root layout nbs artifacts = Inr plan"
  shows "(\<forall>p\<in>set (fp_placements plan). \<exists>a\<in>set artifacts. \<exists>s\<in>set (lay_slots layout). placement_ok layout a s p \<and>
      range_end (slot_range s) \<le> lay_flash_bytes layout \<and>
      fa_native_build_set_sha256 a = (if slot_native_build s then Some nbs else None) \<and>
      verify_file sha256 open_file (path_join root (fa_relative_path a)) a = Inr ()) \<and>
    distinct (map pl_role (fp_placements plan)) \<and>
    set (map pl_role (fp_placements plan)) = set (map slot_role (lay_slots layout)) \<and>
    sorted_wrt (\<lambda>p q. range_end (pl_erase p) \<le> range_start (pl_erase q)) (fp_placements plan)"
proof -
  from plan_flash_artifacts_eq_Inr [THEN iffD1, OF assms] obtain ps where
    ok: "layout_ok layout" and len: "length artifacts = length (lay_slots layout)" and
    ps: "place_artifacts (place_artifact sha256 open_file root (lay_erase_sector_bytes layout) nbs (slot_map (lay_slots layout)))
           {} {} artifacts = Inr ps" and
    plan: "fp_placements plan = sort_key (\<lambda>p. range_start (pl_payload p)) ps"
    by (elim exE conjE) simp
  note sound = place_artifacts_sound [OF ps ok]
  have d: "distinct (map pl_role ps)" using sound(1,2) by simp
  have "distinct (map pl_role (fp_placements plan))"
    unfolding plan using d by (metis mset_eq_imp_distinct_iff mset_map mset_sort)
  moreover have "set (map pl_role ps) = set (map slot_role (lay_slots layout))"
  proof (rule card_subset_eq)
    show "set (map pl_role ps) \<subseteq> set (map slot_role (lay_slots layout))"
      using sound(3) by (fastforce simp: placement_ok_def)
    have "length ps = length artifacts" using sound(1) by (metis length_map)
    then show "card (set (map pl_role ps)) = card (set (map slot_role (lay_slots layout)))"
      using d ok len by (simp only: distinct_card layout_ok_def length_map)
  qed simp
  moreover have "\<forall>s\<in>set (lay_slots layout). range_end (slot_range s) \<le> lay_flash_bytes layout"
    using ok by (auto simp: layout_ok_def slot_ok_def)
  moreover have "sorted_wrt (\<lambda>p q. range_end (pl_erase p) \<le> range_start (pl_erase q)) (fp_placements plan)"
    unfolding plan using sound(3) by (intro erase_spans_ordered [OF ok d]) blast
  ultimately show ?thesis using sound(3) unfolding plan by (simp add: Ball_def)
qed

text \<open>
  C23. A plan does not depend on the order in which the source adapter lists its slots or the
  caller its artifacts.
\<close>

theorem flash_plan_order_independent:
  assumes "plan_flash_artifacts sha256 open_file layout_json root layout nbs artifacts = Inr plan"
    and "mset slots' = mset (lay_slots layout)" and "mset artifacts' = mset artifacts"
  shows "plan_flash_artifacts sha256 open_file layout_json root (layout\<lparr>lay_slots := slots'\<rparr>) nbs artifacts' = Inr plan"
proof -
  let ?place = "place_artifact sha256 open_file root (lay_erase_sector_bytes layout) nbs (slot_map (lay_slots layout))"
  from plan_flash_artifacts_eq_Inr [THEN iffD1, OF assms(1)] obtain ps js where
    ok: "layout_ok layout" and len: "length artifacts = length (lay_slots layout)" and
    ps: "place_artifacts ?place {} {} artifacts = Inr ps" and
    js: "layout_json (layout\<lparr>lay_slots := sort_key (\<lambda>s. range_start (slot_range s)) (lay_slots layout)\<rparr>) = Some js" and
    plan: "plan = \<lparr>fp_source_contract_sha256 = lay_source_contract_sha256 layout, fp_resolved_layout_sha256 = sha256_bytes sha256 js,
               fp_native_build_set_sha256 = nbs, fp_flash_bytes = lay_flash_bytes layout,
               fp_erase_sector_bytes = lay_erase_sector_bytes layout,
               fp_placements = sort_key (\<lambda>p. range_start (pl_payload p)) ps\<rparr>"
    by (elim exE conjE) rule
  obtain ps' where ps': "place_artifacts ?place {} {} artifacts' = Inr ps'" "mset ps' = mset ps"
    using place_artifacts_permute [OF ps assms(3)] by blast
  have slots: "slot_map slots' = slot_map (lay_slots layout)"
    using ok assms(2) by (intro slot_map_permute [symmetric]) (simp_all add: layout_ok_def)
  have "sort_key (\<lambda>s. range_start (slot_range s)) slots' = sort_key (\<lambda>s. range_start (slot_range s)) (lay_slots layout)"
    using slot_starts_inj [OF ok] assms(2)
    by (intro sort_key_inj_key_eq) (simp_all add: mset_eq_setD [OF assms(2)])
  moreover have "sort_key (\<lambda>p. range_start (pl_payload p)) ps' = sort_key (\<lambda>p. range_start (pl_payload p)) ps"
    using placement_starts_inj [OF ps ok] ps'(2)
    by (intro sort_key_inj_key_eq) (simp_all add: mset_eq_setD [OF ps'(2)])
  moreover have "layout_ok (layout\<lparr>lay_slots := slots'\<rparr>)" using ok layout_ok_permute [OF assms(2) [symmetric]] by simp
  moreover have "length artifacts' = length slots'" using len assms(2,3) by (metis size_mset)
  ultimately show ?thesis
    unfolding plan_flash_artifacts_eq_Inr using ps'(1) js slots plan by (intro exI [of _ ps'] exI [of _ js]) simp
qed

text \<open>
  C24. Measuring an input always ends, even when the file keeps growing, because it reads at
  most one byte more than the declared size; it succeeds only if the bytes up to the end of the
  file have exactly the declared size and digest and the metadata did not change meanwhile.
\<close>

theorem verify_file_measures:
  "verify_file sha256 open_file path a \<noteq> Inl MeasureUnending \<and>
   (verify_file sha256 open_file path a = Inr () \<longrightarrow>
     (\<exists>f chunks. open_file path = Some f \<and>
       take_reads (unat (fa_size_bytes a) + 1) (file_read f) 0 = map Inr chunks @ [Inr []] \<and>
       length (concat chunks) = unat (fa_size_bytes a) \<and> sha256_bytes sha256 (concat chunks) = fa_sha256 a \<and>
       file_before_len f = Some (fa_size_bytes a) \<and> file_after_len f = Some (fa_size_bytes a) \<and>
       file_before_modified f = file_after_modified f))"
  using verify_file_ends verify_file_eq_Inr by blast

section \<open>A concrete plan\<close>

definition length_hash :: "bytes \<Rightarrow> bytes" where
  "length_hash bs = [of_nat (length bs)]"

definition sample_file :: "bytes \<Rightarrow> FlashFile" where
  "sample_file content =
     \<lparr>file_before_len = Some (of_nat (length content)), file_before_modified = Some 1,
      file_read = (\<lambda>i. if i = 0 then Inr content else Inr []),
      file_after_len = Some (of_nat (length content)), file_after_modified = Some 1\<rparr>"

definition sample_open :: "rstring \<Rightarrow> FlashFile option" where
  "sample_open path =
     (if path = ascii ''/b/boot'' then Some (sample_file [1, 2, 3])
      else if path = ascii ''/b/core'' then Some (sample_file [4, 5]) else None)"

definition sample_slot :: "rstring \<Rightarrow> u64 \<Rightarrow> u64 \<Rightarrow> bool \<Rightarrow> FlashSlot" where
  "sample_slot role s e native =
     \<lparr>slot_role = role, slot_range = \<lparr>range_start = s, range_end = e\<rparr>, slot_native_build = native\<rparr>"

definition sample_layout :: FlashLayout where
  "sample_layout =
     \<lparr>lay_source_contract_sha256 = Sha256Digest [], lay_flash_bytes = 64, lay_erase_sector_bytes = 16,
      lay_slots = [sample_slot (ascii ''core'') 16 48 True, sample_slot (ascii ''boot'') 0 16 False]\<rparr>"

definition sample_artifact :: "rstring \<Rightarrow> u64 \<Rightarrow> Sha256Digest option \<Rightarrow> FlashArtifact" where
  "sample_artifact role n set' =
     \<lparr>fa_role = role, fa_relative_path = role, fa_sha256 = Sha256Digest (hex_byte (ucast n)), fa_size_bytes = n,
      fa_receipt_sha256 = Sha256Digest [], fa_native_build_set_sha256 = set'\<rparr>"

definition sample_artifacts :: "FlashArtifact list" where
  "sample_artifacts =
     [sample_artifact (ascii ''boot'') 3 None, sample_artifact (ascii ''core'') 2 (Some (Sha256Digest []))]"

definition sample_plan :: "(flash_error, FlashPlan) result" where
  "sample_plan =
     plan_flash_artifacts length_hash sample_open (\<lambda>_. Some []) (ascii ''/b'') sample_layout (Sha256Digest []) sample_artifacts"

lemma sample_plan_ok: "is_ok sample_plan"
  by code_simp

theorem flash_plan_sound_witness:
  "\<exists>plan. sample_plan = Inr plan \<and> set (map pl_role (fp_placements plan)) = {ascii ''core'', ascii ''boot''} \<and>
     sorted_wrt (\<lambda>p q. range_end (pl_erase p) \<le> range_start (pl_erase q)) (fp_placements plan)"
proof -
  obtain plan where p: "sample_plan = Inr plan" using sample_plan_ok by (auto simp: is_ok_iff)
  from flash_plan_sound [OF p [unfolded sample_plan_def]] p show ?thesis
    by (auto simp: sample_layout_def sample_slot_def)
qed

theorem flash_plan_order_independent_witness:
  "\<exists>plan. sample_plan = Inr plan \<and>
     plan_flash_artifacts length_hash sample_open (\<lambda>_. Some []) (ascii ''/b'')
       (sample_layout\<lparr>lay_slots := rev (lay_slots sample_layout)\<rparr>) (Sha256Digest []) (rev sample_artifacts) = Inr plan"
proof -
  obtain plan where p: "sample_plan = Inr plan" using sample_plan_ok by (auto simp: is_ok_iff)
  from flash_plan_order_independent [OF p [unfolded sample_plan_def], of "rev (lay_slots sample_layout)" "rev sample_artifacts"] p
  show ?thesis by (intro exI [of _ plan]) simp
qed

theorem verify_file_measures_witness:
  "verify_file length_hash sample_open (ascii ''/b/boot'') (sample_artifact (ascii ''boot'') 3 None) = Inr () \<and>
   (\<exists>f chunks. sample_open (ascii ''/b/boot'') = Some f \<and> length (concat chunks) = 3 \<and>
      take_reads 4 (file_read f) 0 = map Inr chunks @ [Inr []])"
proof -
  have v: "verify_file length_hash sample_open (ascii ''/b/boot'') (sample_artifact (ascii ''boot'') 3 None) = Inr ()"
    by code_simp
  from verify_file_measures [THEN conjunct2, THEN mp, OF v] v show ?thesis
    by (auto simp: sample_artifact_def)
qed

end
