(* ===== verification/Native_Media.thy ===== *)
theory Native_Media
  imports Flash_Plan Esp_Verify
begin

unbundle bit_operations_syntax

text \<open>
  Source-owned ESP media geometry, \<open>crates/aros-common/src/native_media.rs\<close>: the check of an
  exported geometry and the resolution of the flash layout from it and the partition table.
  Of the native build contract only the fields these functions read are kept; loading it and
  binding it to a checkout are not modelled.
\<close>

section \<open>Data\<close>

record NativeEspMediaGeometry =
  geo_schema_version :: u32
  geo_format :: rstring
  geo_profile :: rstring
  geo_board :: rstring
  geo_chip :: rstring
  geo_chip_id :: u16
  geo_revision_min :: u16
  geo_revision_max :: u16
  geo_idf_version :: rstring
  geo_flash_bytes :: u64
  geo_erase_sector_bytes :: u64
  geo_bootloader_offset :: u64
  geo_partition_table_offset :: u32
  geo_core_partition_kind :: u8
  geo_core_partition_subtype :: u8
  geo_package_partition_kind :: u8
  geo_package_partition_subtype :: u8
  geo_package_limit_bytes :: u64
  geo_development_volume_offset :: u64
  geo_development_volume_size_bytes :: u64

record NativeContract =
  nc_profile :: rstring
  nc_board :: rstring
  nc_media_chip :: rstring
  nc_media_idf_version :: rstring
  nc_core_partition :: rstring
  nc_package_partition :: rstring

datatype media_error =
    UnsupportedSchema
  | IdentityDiffers
  | InvalidFormatGeometry
  | PartitionAbsent
  | PartitionAmbiguous
  | PartitionFormatsDiffer
  | PackageLimitOverflows
  | DevelopmentOverflows
  | SplitExceedsPartition

section \<open>The geometry\<close>

definition geometry_validate :: "NativeEspMediaGeometry \<Rightarrow> NativeContract \<Rightarrow> (media_error, unit) result" where
  "geometry_validate g contract =
     ensure (\<not> (geo_schema_version g \<noteq> 1 \<or> geo_format g \<noteq> ascii ''esp-unsigned-flash-v1'')) UnsupportedSchema
     (ensure (\<not> (geo_profile g \<noteq> nc_profile contract \<or> geo_board g \<noteq> nc_board contract \<or>
                 geo_chip g \<noteq> nc_media_chip contract \<or> geo_idf_version g \<noteq> nc_media_idf_version contract)) IdentityDiffers
     (ensure (\<not> (\<not> (push_bit 20 1 \<le> geo_flash_bytes g \<and> geo_flash_bytes g \<le> push_bit 27 1) \<or>
                 \<not> is_power_of_two (geo_flash_bytes g) \<or> geo_erase_sector_bytes g \<noteq> 0x1000 \<or>
                 geo_revision_min g > geo_revision_max g \<or> geo_core_partition_kind g \<noteq> 0 \<or>
                 \<not> (0x40 \<le> geo_package_partition_kind g \<and> geo_package_partition_kind g \<le> 0xfe) \<or>
                 geo_bootloader_offset g \<ge> ucast (geo_partition_table_offset g) \<or>
                 \<not> is_multiple_of (geo_bootloader_offset g) (geo_erase_sector_bytes g) \<or>
                 \<not> is_multiple_of (ucast (geo_partition_table_offset g)) (geo_erase_sector_bytes g) \<or>
                 geo_package_limit_bytes g = 0 \<or> geo_development_volume_size_bytes g = 0)) InvalidFormatGeometry
       (Inr ())))"

section \<open>The layout\<close>

definition selected :: "EspPartition list \<Rightarrow> rstring \<Rightarrow> (media_error, EspPartition) result" where
  "selected partitions name =
     (case filter (\<lambda>p. ep_name p = name) partitions of
        [] \<Rightarrow> Inl PartitionAbsent
      | p # others \<Rightarrow> ensure (\<not> (others \<noteq> [] \<or> ep_flags p \<noteq> 0)) PartitionAmbiguous (Inr p))"

definition flash_slot :: "string \<Rightarrow> u64 \<Rightarrow> u64 \<Rightarrow> bool \<Rightarrow> FlashSlot" where
  "flash_slot role start end' native_build =
     \<lparr>slot_role = ascii role, slot_range = \<lparr>range_start = start, range_end = end'\<rparr>, slot_native_build = native_build\<rparr>"

definition resolve_layout ::
  "NativeEspMediaGeometry \<Rightarrow> NativeContract \<Rightarrow> Sha256Digest \<Rightarrow> EspPartition list \<Rightarrow> (media_error, FlashLayout) result" where
  "resolve_layout g contract source_contract_sha256 partitions =
     rbind (selected partitions (nc_core_partition contract)) (\<lambda>core.
     rbind (selected partitions (nc_package_partition contract)) (\<lambda>package.
     ensure (\<not> (ep_kind core \<noteq> geo_core_partition_kind g \<or> ep_subtype core \<noteq> geo_core_partition_subtype g \<or>
                ep_kind package \<noteq> geo_package_partition_kind g \<or> ep_subtype package \<noteq> geo_package_partition_subtype g))
       PartitionFormatsDiffer
     (let package_start = ucast (ep_offset package); package_end = package_start + ucast (ep_size package);
          table = ucast (geo_partition_table_offset g)
      in rbind (ok_or (checked_add_u64 package_start (geo_package_limit_bytes g)) PackageLimitOverflows) (\<lambda>package_limit.
         rbind (ok_or (checked_add_u64 (geo_development_volume_offset g) (geo_development_volume_size_bytes g)) DevelopmentOverflows)
           (\<lambda>development_end.
         ensure (\<not> (package_limit > geo_development_volume_offset g \<or> geo_development_volume_offset g < package_start \<or>
                    development_end > package_end)) SplitExceedsPartition
           (Inr \<lparr>lay_source_contract_sha256 = source_contract_sha256, lay_flash_bytes = geo_flash_bytes g,
                 lay_erase_sector_bytes = geo_erase_sector_bytes g,
                 lay_slots =
                   [flash_slot ''bootloader'' (geo_bootloader_offset g) table False,
                    flash_slot ''partition-table'' table (table + geo_erase_sector_bytes g) False,
                    flash_slot ''core'' (ucast (ep_offset core)) (ucast (ep_offset core) + ucast (ep_size core)) True,
                    flash_slot ''bsp'' package_start package_limit True,
                    flash_slot ''developer'' (geo_development_volume_offset g) development_end True]\<rparr>))))))"

section \<open>Facts\<close>

lemma unat_ucast_u32: "unat (ucast (w :: u32) :: u64) = unat w"
  using unat_u32_less [of w] by (simp add: unsigned_ucast_eq take_bit_nat_eq_self)

lemma unat_ucast_sum: "unat (ucast (a :: u32) + ucast (b :: u32) :: u64) = unat a + unat b"
  using unat_u32_less [of a] unat_u32_less [of b] by (simp add: unat_word_ariths unat_ucast_u32)

lemma selected_eq_Inr: "selected partitions name = Inr p \<Longrightarrow> p \<in> set partitions \<and> ep_name p = name \<and> ep_flags p = 0"
proof -
  assume s: "selected partitions name = Inr p"
  then have f: "filter (\<lambda>p. ep_name p = name) partitions = [p]" "ep_flags p = 0"
    by (auto simp: selected_def split: list.splits if_splits)
  then have "p \<in> set (filter (\<lambda>p. ep_name p = name) partitions)" by (simp only: f) simp
  then show ?thesis using f(2) by simp
qed

lemma is_power_of_two_multiple:
  assumes "is_power_of_two w" "push_bit 20 1 \<le> w"
  shows "4096 dvd unat w"
proof -
  obtain k where k: "k < 64" "w = push_bit k 1" using assms(1) by (auto simp: is_power_of_two_def list_ex_iff)
  then have u: "unat w = 2 ^ k"
    using k(1) by (simp only: k(2) unsigned_push_bit_eq unsigned_1) (simp add: take_bit_nat_eq_self power_strict_increasing)
  have "(2 :: nat) ^ 20 \<le> 2 ^ k" using assms(2) u by (simp add: word_le_nat_alt push_bit_eq_mult)
  then have "20 \<le> k" by (rule power_le_imp_le_exp [rotated]) simp
  then have "12 \<le> k" by simp
  then have "(2 :: nat) ^ 12 dvd 2 ^ k" by (rule le_imp_power_dvd)
  then show ?thesis by (simp add: u)
qed

lemma geometry_validate_eq_Inr:
  assumes "geometry_validate g contract = Inr ()"
  shows "4096 dvd unat (geo_flash_bytes g)" "0 < unat (geo_flash_bytes g)" "geo_erase_sector_bytes g = 0x1000"
    "geo_core_partition_kind g = 0" "geo_package_partition_kind g \<noteq> 0"
    "unat (geo_bootloader_offset g) < unat (geo_partition_table_offset g)" "4096 dvd unat (geo_bootloader_offset g)"
    "4096 dvd unat (geo_partition_table_offset g)" "0 < unat (geo_package_limit_bytes g)"
    "0 < unat (geo_development_volume_size_bytes g)"
proof -
  from assms have g: "push_bit 20 1 \<le> geo_flash_bytes g" "is_power_of_two (geo_flash_bytes g)" "geo_erase_sector_bytes g = 0x1000"
    "geo_core_partition_kind g = 0" "0x40 \<le> geo_package_partition_kind g"
    "geo_bootloader_offset g < ucast (geo_partition_table_offset g)" "is_multiple_of (geo_bootloader_offset g) (geo_erase_sector_bytes g)"
    "is_multiple_of (ucast (geo_partition_table_offset g)) (geo_erase_sector_bytes g)"
    "geo_package_limit_bytes g \<noteq> 0" "geo_development_volume_size_bytes g \<noteq> 0"
    by (auto simp: geometry_validate_def split: if_splits)
  show "4096 dvd unat (geo_flash_bytes g)" by (rule is_power_of_two_multiple [OF g(2,1)])
  show "0 < unat (geo_flash_bytes g)" using g(1) by (auto simp: unat_gt_0)
  show "geo_erase_sector_bytes g = 0x1000" "geo_core_partition_kind g = 0" using g by auto
  show "geo_package_partition_kind g \<noteq> 0" using g(5) by auto
  show "unat (geo_bootloader_offset g) < unat (geo_partition_table_offset g)"
    using g(6) by (simp add: word_less_nat_alt unat_ucast_u32)
  show "4096 dvd unat (geo_bootloader_offset g)" "4096 dvd unat (geo_partition_table_offset g)"
    using g(3,7,8) by (simp_all add: is_multiple_of_iff unat_ucast_u32)
  show "0 < unat (geo_package_limit_bytes g)" "0 < unat (geo_development_volume_size_bytes g)"
    using g(9,10) by (simp_all add: unat_gt_0)
qed

lemma part_ok_bounds:
  assumes "part_ok table_end flash_bytes p"
  shows "table_end \<le> part_start p" "part_start p < part_end p" "part_end p \<le> flash_bytes" "4096 dvd part_start p"
    "ep_kind p = 0 \<Longrightarrow> 4096 dvd part_end p"
proof -
  show ne: "part_start p < part_end p" using assms by (simp add: part_ok_def part_nonempty)
  have "{part_start p..<part_end p} \<subseteq> {table_end..<flash_bytes}" using assms by (simp add: part_ok_def part_bytes_def)
  then show "table_end \<le> part_start p" "part_end p \<le> flash_bytes" using ne by auto
  have "part_alignment p dvd part_start p" using assms by (simp add: part_ok_def)
  moreover have "4096 dvd part_alignment p" by (simp add: part_alignment_def SECTOR_BYTES_def)
  ultimately show start: "4096 dvd part_start p" by (rule dvd_trans [rotated])
  show "4096 dvd part_end p" if "ep_kind p = 0"
    using assms that start by (simp add: part_ok_def part_end_def SECTOR_BYTES_def)
qed

text \<open>The five slots as natural numbers, and when the layout check accepts them.\<close>

definition native_slots :: "u64 \<Rightarrow> u64 \<Rightarrow> u64 \<Rightarrow> u64 \<Rightarrow> u64 \<Rightarrow> u64 \<Rightarrow> u64 \<Rightarrow> u64 \<Rightarrow> u64 \<Rightarrow> FlashSlot list" where
  "native_slots b t te cs ce ps pl ds de =
     [flash_slot ''bootloader'' b t False, flash_slot ''partition-table'' t te False, flash_slot ''core'' cs ce True,
      flash_slot ''bsp'' ps pl True, flash_slot ''developer'' ds de True]"

lemma native_slots_ok:
  assumes order: "b < t" "t < te" "te \<le> cs" "cs < ce" "te \<le> ps" "ps < pl" "pl \<le> ds" "ds < de" "ce \<le> ps \<or> de \<le> cs"
    and inside: "ce \<le> flash" "de \<le> flash"
    and aligned: "4096 dvd unat b" "4096 dvd unat t" "4096 dvd unat te" "4096 dvd unat cs" "4096 dvd unat ce" "4096 dvd unat ps"
      "4096 dvd unat flash"
  shows "layout_ok \<lparr>lay_source_contract_sha256 = sha, lay_flash_bytes = flash, lay_erase_sector_bytes = 0x1000,
      lay_slots = native_slots b t te cs ce ps pl ds de\<rparr> \<longleftrightarrow> 4096 dvd unat pl \<and> 4096 dvd unat ds \<and> 4096 dvd unat de"
    (is "layout_ok ?layout \<longleftrightarrow> ?split")
proof -
  have pow: "is_power_of_two 0x1000"
    unfolding is_power_of_two_def list_ex_iff by (rule bexI [of _ 12]) simp_all
  have flash: "flash \<noteq> 0" using order inside by auto
  have geometry: "layout_geometry ?layout"
    using flash aligned(7) pow by (simp add: layout_geometry_def is_multiple_of_iff native_slots_def flash_slot_def MAX_ROLES_def)
  have roles: "distinct (map slot_role (lay_slots ?layout))"
    "\<forall>s\<in>set (lay_slots ?layout). slot_role s \<noteq> [] \<and> length (slot_role s) \<le> 64 \<and> list_all role_char (slot_role s)"
    by (simp_all add: native_slots_def flash_slot_def ascii_def role_char_def is_ascii_lowercase_def)
  have apart: "\<forall>s\<in>set (lay_slots ?layout). \<forall>t\<in>set (lay_slots ?layout). s \<noteq> t \<longrightarrow> apart (slot_range s) (slot_range t)"
    using order by (simp add: native_slots_def flash_slot_def apart_def) (metis order.strict_implies_order order_trans)
  have ranges: "(\<forall>s\<in>set (lay_slots ?layout). range_start (slot_range s) < range_end (slot_range s) \<and>
      range_end (slot_range s) \<le> flash \<and> is_multiple_of (range_start (slot_range s)) 0x1000 \<and>
      is_multiple_of (range_end (slot_range s)) 0x1000) \<longleftrightarrow> ?split"
    using order inside aligned by (auto simp: native_slots_def flash_slot_def is_multiple_of_iff)
  show ?thesis
    using geometry roles apart ranges by (simp add: layout_ok_def slot_ok_def ball_conj_distrib)
qed

lemma parts_apart:
  assumes "ranges_ok ps te fb" "p \<in> set ps" "q \<in> set ps" "p \<noteq> q"
  shows "part_end p \<le> part_start q \<or> part_end q \<le> part_start p"
proof -
  have "distinct ps" using assms(1) by (simp add: ranges_ok_def distinct_map)
  moreover have "disjoint_parts a b \<longleftrightarrow> disjoint_parts b a" for a b by (auto simp: disjoint_parts_def)
  moreover have "sorted_wrt disjoint_parts ps" using assms(1) by (simp add: ranges_ok_def)
  ultimately have "disjoint_parts p q"
    using assms(2-4) sorted_wrt_symmetric [of disjoint_parts ps, THEN iffD1] by blast
  moreover have "ep_size p \<noteq> 0" "ep_size q \<noteq> 0" using assms(1-3) by (auto simp: ranges_ok_def list_all_iff part_ok_def)
  ultimately show ?thesis using overlap_iff [of q p] by auto
qed

section \<open>Properties\<close>

text \<open>
  C25. From a checked geometry and the partition table parsed for it, resolution yields the five
  slots bootloader, table, core, package and development volume; the two volumes split the
  selected package partition, and the layout passes the flash layout check exactly when the
  package limit and the development volume fall on sector boundaries.
\<close>

theorem native_layout_exact:
  assumes "geometry_validate g contract = Inr ()"
    and "parse_esp_partition_source sha256 bs (geo_partition_table_offset g) (geo_flash_bytes g) = Inr src"
    and "resolve_layout g contract sha (src_partitions src) = Inr layout"
  shows "(is_ok (validate_layout layout) \<longleftrightarrow>
      4096 dvd unat (geo_package_limit_bytes g) \<and> 4096 dvd unat (geo_development_volume_offset g) \<and>
      4096 dvd unat (geo_development_volume_size_bytes g)) \<and>
    (\<exists>package\<in>set (src_partitions src). \<exists>core\<in>set (src_partitions src).
      ep_name package = nc_package_partition contract \<and> ep_name core = nc_core_partition contract \<and>
      map slot_role (lay_slots layout) = map ascii [''bootloader'', ''partition-table'', ''core'', ''bsp'', ''developer''] \<and>
      unat (range_start (slot_range (lay_slots layout ! 2))) = part_start core \<and>
      unat (range_end (slot_range (lay_slots layout ! 2))) = part_end core \<and>
      unat (range_start (slot_range (lay_slots layout ! 3))) = part_start package \<and>
      range_end (slot_range (lay_slots layout ! 3)) \<le> range_start (slot_range (lay_slots layout ! 4)) \<and>
      unat (range_end (slot_range (lay_slots layout ! 4))) \<le> part_end package)"
proof -
  note g = geometry_validate_eq_Inr [OF assms(1)]
  note facts = parse_source_facts [OF assms(2)]
  from assms(3) obtain core package pl de where
    c: "selected (src_partitions src) (nc_core_partition contract) = Inr core" and
    p: "selected (src_partitions src) (nc_package_partition contract) = Inr package" and
    kinds: "ep_kind core = geo_core_partition_kind g" "ep_kind package = geo_package_partition_kind g" and
    pl: "checked_add_u64 (ucast (ep_offset package)) (geo_package_limit_bytes g) = Some pl" and
    de: "checked_add_u64 (geo_development_volume_offset g) (geo_development_volume_size_bytes g) = Some de" and
    split: "pl \<le> geo_development_volume_offset g" "de \<le> ucast (ep_offset package) + ucast (ep_size package)" and
    layout: "layout = \<lparr>lay_source_contract_sha256 = sha, lay_flash_bytes = geo_flash_bytes g, lay_erase_sector_bytes = 0x1000,
      lay_slots = native_slots (geo_bootloader_offset g) (ucast (geo_partition_table_offset g))
        (ucast (geo_partition_table_offset g) + 0x1000) (ucast (ep_offset core)) (ucast (ep_offset core) + ucast (ep_size core))
        (ucast (ep_offset package)) pl (geo_development_volume_offset g) de\<rparr>"
    by (auto simp: resolve_layout_def Let_def rbind_eq_Inr native_slots_def g(3) not_less split: if_splits)
  note core = selected_eq_Inr [OF c] and package = selected_eq_Inr [OF p]
  have in_flash: "part_ok (unat (geo_partition_table_offset g) + 4096) (unat (geo_flash_bytes g)) q" if "q \<in> set (src_partitions src)" for q
    using facts(6) that by (simp add: ranges_ok_def list_all_iff SECTOR_BYTES_def)
  note cb = part_ok_bounds [OF in_flash [OF core [THEN conjunct1]]] and pb = part_ok_bounds [OF in_flash [OF package [THEN conjunct1]]]
  have "core \<noteq> package" using kinds g(4,5) by auto
  then have apart: "part_end core \<le> part_start package \<or> part_end package \<le> part_start core"
    using parts_apart [OF facts(6)] core package by blast
  have table: "unat (ucast (geo_partition_table_offset g) + 0x1000 :: u64) = unat (geo_partition_table_offset g) + 4096"
    using unat_u32_less [of "geo_partition_table_offset g"] by (simp add: unat_word_ariths unat_ucast_u32)
  have nats: "unat pl = part_start package + unat (geo_package_limit_bytes g)"
    "unat de = unat (geo_development_volume_offset g) + unat (geo_development_volume_size_bytes g)"
    "unat pl \<le> unat (geo_development_volume_offset g)" "unat de \<le> part_end package"
    using pl de split by (auto simp: checked_add_u64_eq_Some unat_ucast_u32 unat_ucast_sum word_le_nat_alt part_start_def part_end_def)
  have ends: "part_start q = unat (ucast (ep_offset q) :: u64)" "part_end q = unat (ucast (ep_offset q) + ucast (ep_size q) :: u64)" for q
    by (simp_all add: part_start_def part_end_def unat_ucast_u32 unat_ucast_sum)
  have "layout_ok layout \<longleftrightarrow> 4096 dvd unat pl \<and> 4096 dvd unat (geo_development_volume_offset g) \<and> 4096 dvd unat de"
    unfolding layout
  proof (rule native_slots_ok)
  qed (use g cb pb apart table nats kinds in
      \<open>auto simp: word_less_nat_alt word_le_nat_alt unat_ucast_u32 unat_ucast_sum part_start_def part_end_def\<close>)
  also have "\<dots> \<longleftrightarrow> 4096 dvd unat (geo_package_limit_bytes g) \<and> 4096 dvd unat (geo_development_volume_offset g) \<and>
      4096 dvd unat (geo_development_volume_size_bytes g)"
    unfolding nats(1,2) using pb(4) by (auto simp: dvd_add_right_iff)
  finally have "is_ok (validate_layout layout) \<longleftrightarrow> 4096 dvd unat (geo_package_limit_bytes g) \<and>
      4096 dvd unat (geo_development_volume_offset g) \<and> 4096 dvd unat (geo_development_volume_size_bytes g)"
    by (simp add: is_ok_iff validate_layout_eq_Inr)
  moreover have "\<exists>package\<in>set (src_partitions src). \<exists>core\<in>set (src_partitions src).
      ep_name package = nc_package_partition contract \<and> ep_name core = nc_core_partition contract \<and>
      map slot_role (lay_slots layout) = map ascii [''bootloader'', ''partition-table'', ''core'', ''bsp'', ''developer''] \<and>
      unat (range_start (slot_range (lay_slots layout ! 2))) = part_start core \<and>
      unat (range_end (slot_range (lay_slots layout ! 2))) = part_end core \<and>
      unat (range_start (slot_range (lay_slots layout ! 3))) = part_start package \<and>
      range_end (slot_range (lay_slots layout ! 3)) \<le> range_start (slot_range (lay_slots layout ! 4)) \<and>
      unat (range_end (slot_range (lay_slots layout ! 4))) \<le> part_end package"
    using core package split(1) nats(4)
    by (intro bexI [of _ package] bexI [of _ core]) (simp_all add: layout native_slots_def flash_slot_def ends)
  ultimately show ?thesis by blast
qed

definition native_csv :: bytes where
  "native_csv = ascii ''c,0,0,65536,64K'' @ [10] @ ascii ''p,64,1,131072,64K''"

definition native_parts :: "EspPartition list" where
  "native_parts =
     [\<lparr>ep_name = ascii ''c'', ep_kind = 0, ep_subtype = 0, ep_offset = 65536, ep_size = 65536, ep_flags = 0\<rparr>,
      \<lparr>ep_name = ascii ''p'', ep_kind = 64, ep_subtype = 1, ep_offset = 131072, ep_size = 65536, ep_flags = 0\<rparr>]"

lemma native_lines: "parse_lines 0 36864 [] (str_lines native_csv) = Inr native_parts"
  by code_simp

lemma native_source:
  "parse_esp_partition_source sha256 native_csv 0x8000 0x400000 =
     Inr \<lparr>src_sha256 = sha256_bytes sha256 native_csv, src_partitions = native_parts\<rparr>"
proof -
  have "utf8_valid native_csv" "length native_csv \<le> 65536" by code_simp+
  moreover have "validate_ranges native_parts 32768 36864 4194304 = Inr ()" "validate_data_subtypes native_parts = Inr ()"
    by code_simp+
  ultimately show ?thesis
    using native_lines
    by (simp add: parse_esp_partition_source_def geometry_ok_def SECTOR_BYTES_def native_parts_def)
qed

definition native_contract :: NativeContract where
  "native_contract =
     \<lparr>nc_profile = [], nc_board = [], nc_media_chip = [], nc_media_idf_version = [], nc_core_partition = ascii ''c'',
      nc_package_partition = ascii ''p''\<rparr>"

definition native_geometry :: NativeEspMediaGeometry where
  "native_geometry =
     \<lparr>geo_schema_version = 1, geo_format = ascii ''esp-unsigned-flash-v1'', geo_profile = [], geo_board = [], geo_chip = [],
      geo_chip_id = 18, geo_revision_min = 0, geo_revision_max = 99, geo_idf_version = [], geo_flash_bytes = 0x400000,
      geo_erase_sector_bytes = 0x1000, geo_bootloader_offset = 0x2000, geo_partition_table_offset = 0x8000,
      geo_core_partition_kind = 0, geo_core_partition_subtype = 0, geo_package_partition_kind = 64,
      geo_package_partition_subtype = 1, geo_package_limit_bytes = 0x8000, geo_development_volume_offset = 0x28000,
      geo_development_volume_size_bytes = 0x8000\<rparr>"

theorem native_layout_exact_witness:
  "\<exists>layout. resolve_layout native_geometry native_contract (Sha256Digest []) native_parts = Inr layout \<and>
     is_ok (validate_layout layout)"
proof -
  have "is_ok (resolve_layout native_geometry native_contract (Sha256Digest []) native_parts)" by code_simp
  then obtain layout where r: "resolve_layout native_geometry native_contract (Sha256Digest []) native_parts = Inr layout"
    by (auto simp: is_ok_iff)
  have "is_power_of_two 0x400000"
    unfolding is_power_of_two_def list_ex_iff by (rule bexI [of _ 22]) simp_all
  then have v: "geometry_validate native_geometry native_contract = Inr ()"
    by (simp add: geometry_validate_def native_geometry_def native_contract_def is_multiple_of_iff)
  have "parse_esp_partition_source (\<lambda>_. []) native_csv (geo_partition_table_offset native_geometry)
      (geo_flash_bytes native_geometry) = Inr \<lparr>src_sha256 = sha256_bytes (\<lambda>_. []) native_csv, src_partitions = native_parts\<rparr>"
    using native_source by (simp add: native_geometry_def)
  from native_layout_exact [OF v this, of "Sha256Digest []" layout] r show ?thesis
    by (auto simp: native_geometry_def)
qed

end
