(* ===== verification/Collect_Sets.thy ===== *)
theory Collect_Sets
  imports Elf_Reader Rust_Text Rust_Collections
begin

text \<open>
  Symbol sets of the collecting linker, \<open>crates/aros-collect/src/sets.rs\<close>: section names split
  into set, section and priority, the sets an object implies, and the linker script that lays
  them out. Priorities are 64-bit signed integers, here integers with the range check of
  \<open>i64::from_str\<close>; messages for skipped sections are values that carry what the text names.
\<close>

section \<open>Signed integers\<close>

definition i64_parse :: "rstring \<Rightarrow> int option" where
  "i64_parse s =
     (let negative = (s \<noteq> [] \<and> hd s = 45 \<and> tl s \<noteq> []);
          digits = (if s \<noteq> [] \<and> (hd s = 45 \<or> hd s = 43) \<and> tl s \<noteq> [] then tl s else s)
      in if digits = [] then None
         else Option.bind (digits_value 10 0 digits) (\<lambda>n.
           let v = (if negative then - int n else int n)
           in if - (2 ^ 63) \<le> v \<and> v < 2 ^ 63 then Some v else None))"

text \<open>\<open>Display\<close> of a signed integer.\<close>

definition decimal_int :: "int \<Rightarrow> rstring" where
  "decimal_int v = (if v < 0 then [45] @ decimal (nat (- v)) else decimal (nat v))"

section \<open>Section names\<close>

definition PREFIXES :: "(rstring \<times> usize) list" where
  "PREFIXES =
     [(ascii ''.aros.set.'', 10), (ascii ''.ctors'', 1), (ascii ''.dtors'', 1), (ascii ''.init_array'', 1),
      (ascii ''.fini_array'', 1)]"

record SymbolSet =
  ss_name :: rstring
  ss_section :: rstring
  ss_priorities :: "int list"
  ss_bare :: bool
  ss_aros_set :: bool

record Parsed =
  parsed_name :: rstring
  parsed_section :: rstring
  parsed_priority :: "int option"
  parsed_aros_set :: bool

datatype skip_reason =
    NotPriority (skip_section: rstring) rstring
  | NoSetName (skip_section: rstring)
  | NotUsable (skip_section: rstring) rstring
  | TwoSections (skip_section: rstring) rstring rstring

definition set_name_char :: "u8 \<Rightarrow> bool" where
  "set_name_char b = (is_ascii_alphanumeric b \<or> b = 95)"

text \<open>The set name, the priority and the section name without its suffix.\<close>

definition split_priority :: "rstring \<Rightarrow> usize \<Rightarrow> (skip_reason, rstring \<times> int option \<times> rstring) result" where
  "split_priority section' offset =
     (let rest = drop offset section'
      in case split_once 46 rest of
           Some (name, suffix) \<Rightarrow>
             (case i64_parse suffix of
                Some priority \<Rightarrow> Inr (name, Some priority, take (offset + length name) section')
              | None \<Rightarrow> Inl (NotPriority section' suffix))
         | None \<Rightarrow> Inr (rest, None, section'))"

definition set_parse :: "rstring \<Rightarrow> (skip_reason, Parsed) result option" where
  "set_parse section' =
     (case find (\<lambda>(prefix, _). starts_with section' prefix) PREFIXES of
        None \<Rightarrow> None
      | Some (prefix, offset) \<Rightarrow>
          Some (rbind (split_priority section' offset) (\<lambda>(name, priority, base).
            ensure (name \<noteq> []) (NoSetName section')
            (ensure (list_all set_name_char name) (NotUsable section' name)
              (Inr \<lparr>parsed_name = to_ascii_uppercase name, parsed_section = base, parsed_priority = priority,
                    parsed_aros_set = (prefix = ascii ''.aros.set.'')\<rparr>)))))"

section \<open>The sets of an object\<close>

definition set_of_parsed :: "Parsed \<Rightarrow> SymbolSet" where
  "set_of_parsed p =
     \<lparr>ss_name = parsed_name p, ss_section = parsed_section p, ss_priorities = [], ss_bare = False,
      ss_aros_set = parsed_aros_set p\<rparr>"

definition add_priority :: "int option \<Rightarrow> SymbolSet \<Rightarrow> SymbolSet" where
  "add_priority priority entry =
     (case priority of
        Some q \<Rightarrow> if q \<in> set (ss_priorities entry) then entry else entry\<lparr>ss_priorities := ss_priorities entry @ [q]\<rparr>
      | None \<Rightarrow> entry\<lparr>ss_bare := True\<rparr>)"

definition discover_step ::
  "(rstring, SymbolSet) btreemap \<times> skip_reason list \<Rightarrow> rstring \<Rightarrow> (rstring, SymbolSet) btreemap \<times> skip_reason list" where
  "discover_step st section' =
     (case set_parse section' of
        None \<Rightarrow> st
      | Some (Inl reason) \<Rightarrow> (fst st, snd st @ [reason])
      | Some (Inr p) \<Rightarrow>
          (let entry = (case btree_get (fst st) (parsed_name p) of Some e \<Rightarrow> e | None \<Rightarrow> set_of_parsed p);
               found = btree_insert (parsed_name p) entry (fst st)
           in if ss_section entry \<noteq> parsed_section p
              then (found, snd st @ [TwoSections section' (ss_name entry) (ss_section entry)])
              else (btree_insert (parsed_name p) (add_priority (parsed_priority p) entry) found, snd st)))"

definition sets_discover :: "rstring list \<Rightarrow> SymbolSet list \<times> skip_reason list" where
  "sets_discover sections =
     (let (found, skipped) = foldl discover_step ([], []) sections;
          sets = map (\<lambda>s. s\<lparr>ss_priorities := sort (ss_priorities s)\<rparr>) (map snd found)
      in (sort_key ss_name sets, skipped))"

section \<open>The linker script\<close>

definition ln :: "rstring list \<Rightarrow> rstring" where
  "ln parts = concat parts @ [10]"

definition keep_line :: "rstring \<Rightarrow> rstring" where
  "keep_line pattern = ln [ascii ''    KEEP(*('', pattern, ascii ''))'']"

definition priority_section :: "SymbolSet \<Rightarrow> int \<Rightarrow> rstring" where
  "priority_section s q = ss_section s @ [46] @ decimal_int q"

definition set_script :: "Class \<Rightarrow> SymbolSet \<Rightarrow> rstring" where
  "set_script cls s =
     (let word = pointer_directive cls; width = decimal (unat (pointer_bytes cls)); name = ss_name s
      in ln [ascii ''    . = ALIGN('', width, ascii '');''] @
         ln [ascii ''    __'', name, ascii ''_LIST__ = .;''] @
         ln [ascii ''    '', word, ascii ''((__'', name, ascii ''_END__ - __'', name, ascii ''_LIST__) / '', width, ascii '' - 2)''] @
         concat (map (\<lambda>q. keep_line (priority_section s q)) (ss_priorities s)) @
         keep_line (ss_section s) @
         ln [ascii ''    '', word, ascii ''(0)''] @
         ln [ascii ''    __'', name, ascii ''_END__ = .;''])"

definition script_open :: rstring where
  "script_open =
     ln [ascii ''SECTIONS''] @ ln [ascii ''{''] @ ln [ascii ''  .text : {''] @ ln [ascii ''    KEEP(*(.aros.startup))''] @
     ln [ascii ''    *(.text)''] @ ln [ascii ''    *(.text.*)''] @ ln [ascii ''  }''] @ ln [ascii ''  .aros.sets : {'']"

definition script_close :: rstring where
  "script_close =
     ln [ascii ''  }''] @ ln [ascii ''  .eh_frame : {''] @ ln [ascii ''    PROVIDE(__eh_frame_start = .);''] @
     ln [ascii ''    KEEP(*(.eh_frame))''] @ ln [ascii ''    PROVIDE(__eh_frame_end = .);''] @ ln [ascii ''  }''] @ ln [ascii ''}'']"

definition sets_script :: "SymbolSet list \<Rightarrow> Class \<Rightarrow> rstring \<Rightarrow> rstring" where
  "sets_script sets cls libreq =
     concat (map (\<lambda>s. ln [ascii ''EXTERN(__'', ss_name s, ascii ''__symbol_set_handler_missing)''])
       (filter ss_aros_set sets)) @
     script_open @ concat (map (set_script cls) sets) @ libreq @ script_close"

section \<open>Signed integers round trip\<close>

lemma decimal_int_not_Nil [simp]: "decimal_int v \<noteq> []"
  by (simp add: decimal_int_def)

lemma decimal_hd_digit: "is_ascii_digit (hd (decimal n))"
  by (rule decimal_is_digit [of _ n]) simp

lemma i64_parse_decimal_int:
  assumes "- (2 ^ 63) \<le> v" "v < 2 ^ 63"
  shows "i64_parse (decimal_int v) = Some v"
proof (cases "v < 0")
  case True
  then show ?thesis using assms by (simp add: i64_parse_def decimal_int_def digits_value_decimal)
next
  case False
  have "hd (decimal (nat v)) \<noteq> 45" "hd (decimal (nat v)) \<noteq> 43"
    using decimal_hd_digit [of "nat v"] by (auto simp: is_ascii_digit_def)
  then show ?thesis using assms False by (simp add: i64_parse_def decimal_int_def digits_value_decimal)
qed

section \<open>Section names\<close>

text \<open>How an accepted name is put together; a suffix need not be the printed priority.\<close>

lemma split_priority_cases:
  obtains (bare) "split_once 46 (drop offset s) = None" "split_priority s offset = Inr (drop offset s, None, s)"
  | (priority) name suffix q where "split_once 46 (drop offset s) = Some (name, suffix)" "i64_parse suffix = Some q"
      "split_priority s offset = Inr (name, Some q, take (offset + length name) s)"
  | (malformed) suffix where "split_priority s offset = Inl (NotPriority s suffix)"
proof (cases "split_once 46 (drop offset s)")
  case None
  then show thesis by (intro bare) (simp_all add: split_priority_def)
next
  case (Some ns)
  then obtain name suffix where ns: "split_once 46 (drop offset s) = Some (name, suffix)" by (cases ns) simp
  then show thesis
    by (cases "i64_parse suffix") (auto simp: split_priority_def intro: priority malformed)
qed

lemma split_priority_eq_Inr:
  assumes "split_priority s offset = Inr (name, priority, base)" "offset \<le> length s"
  shows "base = take offset s @ name \<and> 46 \<notin> set name \<and>
    (case priority of None \<Rightarrow> s = base | Some q \<Rightarrow> \<exists>suffix. s = base @ 46 # suffix \<and> i64_parse suffix = Some q)"
proof -
  have s: "s = take offset s @ drop offset s" by simp
  show ?thesis
  proof (cases rule: split_priority_cases [of offset s])
    case bare
    then show ?thesis using assms(1) by (auto simp: split_once_eq_None)
  next
    case (priority name' suffix q)
    then have d: "drop offset s = name @ 46 # suffix" "46 \<notin> set name" "priority = Some q" "base = take (offset + length name) s"
      using assms(1) by (simp_all add: split_once_eq_Some)
    have base: "base = take offset s @ name" using d assms(2) by (simp add: take_add)
    have "s = base @ 46 # suffix" using s unfolding d(1) base by (simp only: append_assoc)
    then show ?thesis unfolding d(3) option.case using priority(2) d(2) base by blast
  next
    case malformed
    then show ?thesis using assms(1) by simp
  qed
qed

lemma PREFIXES_length: "find (\<lambda>(prefix, _). starts_with s prefix) PREFIXES = Some (prefix, offset) \<Longrightarrow> offset \<le> length s"
proof -
  assume f: "find (\<lambda>(prefix, _). starts_with s prefix) PREFIXES = Some (prefix, offset)"
  then have "(prefix, offset) \<in> set PREFIXES" "starts_with s prefix"
    by (auto simp: find_Some_iff dest: nth_mem)
  moreover from this(1) have "offset \<le> length prefix" by (auto simp: PREFIXES_def ascii_def)
  ultimately show ?thesis by (auto simp: starts_with_iff)
qed

lemma set_parse_shape:
  assumes "set_parse s = Some (Inr p)"
  shows "case parsed_priority p of None \<Rightarrow> s = parsed_section p
    | Some q \<Rightarrow> \<exists>suffix. s = parsed_section p @ 46 # suffix \<and> i64_parse suffix = Some q"
proof -
  from assms obtain prefix offset where f: "find (\<lambda>(prefix, _). starts_with s prefix) PREFIXES = Some (prefix, offset)"
    by (cases "find (\<lambda>(prefix, _). starts_with s prefix) PREFIXES") (auto simp: set_parse_def)
  obtain name where sp: "split_priority s offset = Inr (name, parsed_priority p, parsed_section p)"
    using assms unfolding set_parse_def f
    by (cases "split_priority s offset") (auto split: if_splits)
  from split_priority_eq_Inr [OF sp PREFIXES_length [OF f]] show ?thesis by (elim conjE)
qed

lemma set_parse_skip:
  assumes "set_parse s = Some (Inl r)"
  shows "skip_section r = s"
proof -
  from assms obtain prefix offset where f: "find (\<lambda>(prefix, _). starts_with s prefix) PREFIXES = Some (prefix, offset)"
    by (cases "find (\<lambda>(prefix, _). starts_with s prefix) PREFIXES") (auto simp: set_parse_def)
  show ?thesis
    using assms unfolding set_parse_def f
    by (cases rule: split_priority_cases [of offset s]) (auto split: if_splits)
qed

section \<open>What discovery keeps\<close>

definition placed :: "rstring set \<Rightarrow> rstring \<Rightarrow> rstring \<Rightarrow> int option \<Rightarrow> bool" where
  "placed S n base priority =
     (\<exists>x\<in>S. \<exists>p. set_parse x = Some (Inr p) \<and> parsed_name p = n \<and> parsed_section p = base \<and> parsed_priority p = priority)"

lemma placed_insert:
  "placed (insert x S) n base priority \<longleftrightarrow>
     placed S n base priority \<or>
     (\<exists>p. set_parse x = Some (Inr p) \<and> parsed_name p = n \<and> parsed_section p = base \<and> parsed_priority p = priority)"
  by (auto simp: placed_def)

definition entry_ok :: "rstring set \<Rightarrow> rstring \<Rightarrow> SymbolSet \<Rightarrow> bool" where
  "entry_ok S n e =
     (ss_name e = n \<and> distinct (ss_priorities e) \<and>
      (\<forall>q. q \<in> set (ss_priorities e) \<longleftrightarrow> placed S n (ss_section e) (Some q)) \<and>
      (ss_bare e \<longleftrightarrow> placed S n (ss_section e) None))"

definition reported :: "skip_reason set \<Rightarrow> rstring \<Rightarrow> bool" where
  "reported R x = (\<exists>r\<in>R. skip_section r = x)"

definition discovered :: "rstring set \<Rightarrow> (rstring, SymbolSet) btreemap \<Rightarrow> skip_reason list \<Rightarrow> bool" where
  "discovered S found skipped =
     (btree_wf found \<and> (\<forall>n e. btree_get found n = Some e \<longrightarrow> entry_ok S n e) \<and>
      (\<forall>x\<in>S. \<forall>r. set_parse x = Some (Inl r) \<longrightarrow> r \<in> set skipped) \<and>
      (\<forall>x\<in>S. \<forall>p. set_parse x = Some (Inr p) \<longrightarrow>
        (\<exists>e. btree_get found (parsed_name p) = Some e \<and> (ss_section e = parsed_section p \<or> reported (set skipped) x))) \<and>
      (\<forall>r\<in>set skipped. skip_section r \<in> S))"

lemma entry_ok_other:
  "entry_ok S n e \<Longrightarrow> \<forall>p. set_parse x = Some (Inr p) \<longrightarrow> parsed_name p \<noteq> n \<or> parsed_section p \<noteq> ss_section e \<Longrightarrow>
     entry_ok (insert x S) n e"
  unfolding entry_ok_def placed_insert by blast

lemma entry_ok_add:
  assumes "entry_ok S n e" "set_parse x = Some (Inr p)" "parsed_name p = n" "parsed_section p = ss_section e"
  shows "entry_ok (insert x S) n (add_priority (parsed_priority p) e)"
  using assms by (cases "parsed_priority p") (auto simp: entry_ok_def add_priority_def placed_insert)

lemma entry_ok_new:
  "\<forall>x\<in>S. \<forall>p'. set_parse x = Some (Inr p') \<longrightarrow> parsed_name p' \<noteq> parsed_name p \<Longrightarrow>
    entry_ok S (parsed_name p) (set_of_parsed p)"
  by (auto simp: entry_ok_def set_of_parsed_def placed_def)

lemma add_priority_simps [simp]:
  "ss_name (add_priority q e) = ss_name e" "ss_section (add_priority q e) = ss_section e"
  by (cases q; simp add: add_priority_def)+

lemma reported_simps: "reported R x \<Longrightarrow> reported (insert r R) x" "skip_section r = x \<Longrightarrow> reported (insert r R) x"
  by (auto simp: reported_def)

text \<open>The three kinds of step.\<close>

lemma discovered_none: "discovered S found skipped \<Longrightarrow> set_parse x = None \<Longrightarrow> discovered (insert x S) found skipped"
  unfolding discovered_def by (auto intro: entry_ok_other)

lemma discovered_skip:
  assumes "discovered S found skipped" "set_parse x = Some (Inl r)"
  shows "discovered (insert x S) found (skipped @ [r])"
  using assms set_parse_skip [OF assms(2)] unfolding discovered_def
  by (auto intro: entry_ok_other reported_simps) (metis reported_simps(1))

lemma discovered_entry:
  "discovered S found skipped \<Longrightarrow> y \<in> S \<Longrightarrow> set_parse y = Some (Inr q) \<Longrightarrow>
     \<exists>e. btree_get found (parsed_name q) = Some e \<and> (ss_section e = parsed_section q \<or> reported (set skipped) y)"
  unfolding discovered_def by blast

lemma discovered_parsed:
  assumes d: "discovered S found skipped" and p: "set_parse x = Some (Inr p)" and e: "entry_ok (insert x S) (parsed_name p) e"
    and old: "\<And>e'. btree_get found (parsed_name p) = Some e' \<Longrightarrow> ss_section e' = ss_section e"
    and here: "ss_section e = parsed_section p \<or> reported (set (skipped @ extra)) x" and extra: "\<forall>r\<in>set extra. skip_section r = x"
  shows "discovered (insert x S) (btree_insert (parsed_name p) e found) (skipped @ extra)"
proof -
  have wf: "btree_wf found" using d by (simp add: discovered_def)
  have get: "btree_get (btree_insert (parsed_name p) e found) n = (if n = parsed_name p then Some e else btree_get found n)" for n
    using wf by (simp add: btree.get_insert)
  have "entry_ok (insert x S) n e'" if "btree_get (btree_insert (parsed_name p) e found) n = Some e'" for n e'
  proof (cases "n = parsed_name p")
    case False
    then have "entry_ok S n e'" using that d by (auto simp: get discovered_def)
    then show ?thesis using p False by (intro entry_ok_other) auto
  qed (use that e in \<open>simp add: get\<close>)
  moreover have "r \<in> set (skipped @ extra)" if "y \<in> insert x S" "set_parse y = Some (Inl r)" for y r
    using that d p by (auto simp: discovered_def)
  moreover have "\<exists>e'. btree_get (btree_insert (parsed_name p) e found) (parsed_name q) = Some e' \<and>
      (ss_section e' = parsed_section q \<or> reported (set (skipped @ extra)) y)"
    if y: "y \<in> insert x S" "set_parse y = Some (Inr q)" for y q
  proof (cases "y = x")
    case True
    then show ?thesis using y p here get [of "parsed_name p"] by auto
  next
    case False
    then obtain e' where e': "btree_get found (parsed_name q) = Some e'"
      "ss_section e' = parsed_section q \<or> reported (set skipped) y"
      using y discovered_entry [OF d] by blast
    then have "ss_section e' = parsed_section q \<or> reported (set (skipped @ extra)) y" by (auto simp: reported_def)
    then show ?thesis using e'(1) old by (auto simp: get)
  qed
  moreover have "\<forall>r\<in>set (skipped @ extra). skip_section r \<in> insert x S"
    using d extra by (auto simp: discovered_def)
  ultimately show ?thesis using wf unfolding discovered_def by simp
qed

lemma discovered_step:
  assumes d: "discovered S found skipped" and step: "discover_step (found, skipped) x = (found', skipped')"
  shows "discovered (insert x S) found' skipped'"
proof (cases "set_parse x")
  case None
  then show ?thesis using step discovered_none [OF d] by (simp add: discover_step_def)
next
  case (Some pr)
  show ?thesis
  proof (cases pr)
    case (Inl r)
    then show ?thesis using Some step discovered_skip [OF d] by (auto simp: discover_step_def)
  next
    case (Inr p)
    with Some have p: "set_parse x = Some (Inr p)" by simp
    define e where "e = (case btree_get found (parsed_name p) of Some e \<Rightarrow> e | None \<Rightarrow> set_of_parsed p)"
    have e: "entry_ok S (parsed_name p) e"
    proof (cases "btree_get found (parsed_name p)")
      case None
      then have "\<forall>y\<in>S. \<forall>q. set_parse y = Some (Inr q) \<longrightarrow> parsed_name q \<noteq> parsed_name p"
        using d by (fastforce simp: discovered_def)
      then show ?thesis using entry_ok_new None by (simp add: e_def)
    next
      case (Some e')
      then show ?thesis using d by (simp add: discovered_def e_def)
    qed
    have old: "ss_section e' = ss_section e" if "btree_get found (parsed_name p) = Some e'" for e'
      using that by (simp add: e_def)
    have wf: "btree_wf found" using d by (simp add: discovered_def)
    show ?thesis
    proof (cases "ss_section e = parsed_section p")
      case True
      have "discovered (insert x S) (btree_insert (parsed_name p) (add_priority (parsed_priority p) e) found) (skipped @ [])"
        using True old by (intro discovered_parsed [OF d p entry_ok_add [OF e p]]) auto
      moreover have "found' = btree_insert (parsed_name p) (add_priority (parsed_priority p) e) found" "skipped' = skipped"
        using step True p wf
        by (auto simp: discover_step_def Let_def e_def [symmetric] intro!: btree.entries_unique simp: btree.get_insert)
      ultimately show ?thesis by simp
    next
      case False
      then have "entry_ok (insert x S) (parsed_name p) e" using e p by (intro entry_ok_other) auto
      then have "discovered (insert x S) (btree_insert (parsed_name p) e found)
          (skipped @ [TwoSections x (ss_name e) (ss_section e)])"
        using old by (intro discovered_parsed [OF d p]) (auto simp: reported_def)
      then show ?thesis using step False p by (simp add: discover_step_def Let_def e_def [symmetric])
    qed
  qed
qed

lemma discovered_fold:
  "discovered S (fst st) (snd st) \<Longrightarrow>
     discovered (S \<union> set xs) (fst (foldl discover_step st xs)) (snd (foldl discover_step st xs))"
proof (induction xs arbitrary: S st)
  case (Cons x xs)
  have "discovered (insert x S) (fst (discover_step st x)) (snd (discover_step st x))"
    using Cons.prems discovered_step [of S "fst st" "snd st" x] by (metis prod.collapse)
  from Cons.IH [OF this] show ?case by simp
qed simp

section \<open>Properties\<close>

text \<open>Where a section is represented in a set.\<close>

definition set_holds :: "SymbolSet \<Rightarrow> rstring \<Rightarrow> bool" where
  "set_holds s x =
     (\<exists>p. set_parse x = Some (Inr p) \<and> parsed_name p = ss_name s \<and> parsed_section p = ss_section s \<and>
       (case parsed_priority p of None \<Rightarrow> ss_bare s | Some q \<Rightarrow> q \<in> set (ss_priorities s)))"

lemma sets_discover_eq:
  fixes sections
  defines "found \<equiv> fst (foldl discover_step ([], []) sections)"
  shows "fst (sets_discover sections) = map (\<lambda>s. s\<lparr>ss_priorities := sort (ss_priorities s)\<rparr>) (map snd found)"
    "snd (sets_discover sections) = snd (foldl discover_step ([], []) sections)" "discovered (set sections) found (snd (sets_discover sections))"
    "map ss_name (map snd found) = map fst found"
proof -
  have base: "discovered {} [] []" by (simp add: discovered_def btree_get_def)
  show skipped: "snd (sets_discover sections) = snd (foldl discover_step ([], []) sections)"
    by (simp add: sets_discover_def split: prod.splits)
  show d: "discovered (set sections) found (snd (sets_discover sections))"
    using discovered_fold [of "{}" "([], [])" sections] base by (simp add: skipped found_def)
  have "ss_name e = n" if "(n, e) \<in> set found" for n e
  proof -
    have "distinct (map fst found)" using d by (simp add: discovered_def btree_wf_def strict_sorted_iff)
    then have "btree_get found n = Some e" using that by (simp add: btree_get_def)
    then show ?thesis using d by (simp add: discovered_def entry_ok_def)
  qed
  then show names: "map ss_name (map snd found) = map fst found" by (auto simp: o_def)
  let ?sets = "map (\<lambda>s. s\<lparr>ss_priorities := sort (ss_priorities s)\<rparr>) (map snd found)"
  have eq: "map ss_name ?sets = map fst found" using names by (simp add: o_def)
  have "sorted (map ss_name ?sets)" unfolding eq using d by (simp add: discovered_def btree_wf_def strict_sorted_iff)
  then have "sort_key ss_name ?sets = ?sets" by (rule sort_key_id_if_sorted)
  then show "fst (sets_discover sections) = ?sets"
    unfolding found_def by (simp add: sets_discover_def case_prod_unfold Let_def)
qed

lemma sets_discover_held:
  assumes x: "x \<in> set sections"
  shows "set_parse x = None \<or> reported (set (snd (sets_discover sections))) x \<or>
    (\<exists>s\<in>set (fst (sets_discover sections)). set_holds s x)"
proof -
  define found where "found = fst (foldl discover_step ([], []) sections)"
  define sets where "sets = fst (sets_discover sections)"
  define skipped where "skipped = snd (sets_discover sections)"
  note eqs = sets_discover_eq [of sections, folded found_def sets_def skipped_def]
  note d = eqs(3)
  have get: "btree_get found n = Some e \<longleftrightarrow> (n, e) \<in> set found" for n e
    using d by (simp add: btree_get_def strict_sorted_iff discovered_def btree_wf_def)
  have "set_parse x = None \<or> reported (set skipped) x \<or> (\<exists>s\<in>set sets. set_holds s x)"
  proof (cases "set_parse x")
    case (Some pr)
    show ?thesis
    proof (cases pr)
      case (Inl r)
      then have "r \<in> set skipped" "skip_section r = x"
        using Some x d set_parse_skip by (auto simp: discovered_def)
      then show ?thesis by (auto simp: reported_def)
    next
      case (Inr p)
      with Some x discovered_entry [OF d] obtain e where
        e: "(parsed_name p, e) \<in> set found" "ss_section e = parsed_section p \<or> reported (set skipped) x"
        using get by blast
      have "set_holds (e\<lparr>ss_priorities := sort (ss_priorities e)\<rparr>) x" if "ss_section e = parsed_section p"
      proof -
        have "entry_ok (set sections) (parsed_name p) e" using d e(1) get by (auto simp: discovered_def)
        then show ?thesis
          using Some Inr x that by (auto simp: set_holds_def entry_ok_def placed_def split: option.splits)
      qed
      moreover have "e\<lparr>ss_priorities := sort (ss_priorities e)\<rparr> \<in> set sets" using e(1) by (force simp: eqs(1))
      ultimately show ?thesis using e(2) by blast
    qed
  qed simp
  then show ?thesis by (simp add: sets_def skipped_def)
qed

text \<open>
  C26. Discovery of symbol sets is complete and exact: sets come in strict name order with
  strictly ascending priorities; a set has a priority, or its bare section, exactly when a
  section of the object says so; and every section whose name denotes a set is either
  represented in one of the sets or reported, with every report naming a section of the object.
\<close>

theorem sets_discover_exact:
  "let (sets, skipped) = sets_discover sections in
     sorted_wrt (<) (map ss_name sets) \<and>
     (\<forall>s\<in>set sets. sorted_wrt (<) (ss_priorities s) \<and>
        (\<forall>q. q \<in> set (ss_priorities s) \<longleftrightarrow> placed (set sections) (ss_name s) (ss_section s) (Some q)) \<and>
        (ss_bare s \<longleftrightarrow> placed (set sections) (ss_name s) (ss_section s) None)) \<and>
     (\<forall>x\<in>set sections. set_parse x = None \<or> reported (set skipped) x \<or> (\<exists>s\<in>set sets. set_holds s x)) \<and>
     (\<forall>r\<in>set skipped. skip_section r \<in> set sections)"
proof -
  define found where "found = fst (foldl discover_step ([], []) sections)"
  define sets where "sets = fst (sets_discover sections)"
  define skipped where "skipped = snd (sets_discover sections)"
  note eqs = sets_discover_eq [of sections, folded found_def sets_def skipped_def]
  note d = eqs(3)
  have wf: "sorted_wrt (<) (map fst found)" using d by (simp add: discovered_def btree_wf_def)
  have get: "btree_get found n = Some e \<longleftrightarrow> (n, e) \<in> set found" for n e
    using wf by (simp add: btree_get_def strict_sorted_iff)
  have ok: "entry_ok (set sections) (ss_name e) e" if "e \<in> snd ` set found" for e
    using that d get by (auto simp: discovered_def entry_ok_def)
  have eq: "map ss_name sets = map fst found" using eqs(4) by (simp add: eqs(1) o_def)
  have "sorted_wrt (<) (map ss_name sets)" unfolding eq by (rule wf)
  moreover have "sorted_wrt (<) (ss_priorities s) \<and>
      (\<forall>q. q \<in> set (ss_priorities s) \<longleftrightarrow> placed (set sections) (ss_name s) (ss_section s) (Some q)) \<and>
      (ss_bare s \<longleftrightarrow> placed (set sections) (ss_name s) (ss_section s) None)" if "s \<in> set sets" for s
  proof -
    from that obtain e where e: "e \<in> snd ` set found" "s = e\<lparr>ss_priorities := sort (ss_priorities e)\<rparr>"
      by (auto simp: eqs(1))
    from ok [OF e(1)] show ?thesis by (simp add: e(2) entry_ok_def strict_sorted_iff)
  qed
  moreover have "set_parse x = None \<or> reported (set skipped) x \<or> (\<exists>s\<in>set sets. set_holds s x)" if "x \<in> set sections" for x
    using sets_discover_held [OF that] by (simp add: sets_def skipped_def)
  moreover have "\<forall>r\<in>set skipped. skip_section r \<in> set sections" using d by (simp add: discovered_def)
  ultimately show ?thesis by (simp add: case_prod_unfold sets_def skipped_def)
qed

theorem sets_discover_exact_witness:
  "sorted_wrt (<) (map ss_name (fst (sets_discover [ascii ''.ctors'', ascii ''.aros.set.LIBS.0'']))) \<and>
   (\<exists>s\<in>set (fst (sets_discover [ascii ''.ctors'', ascii ''.aros.set.LIBS.0''])). set_holds s (ascii ''.ctors''))"
proof -
  let ?sections = "[ascii ''.ctors'', ascii ''.aros.set.LIBS.0'']"
  have "set_parse (ascii ''.ctors'') \<noteq> None" "snd (sets_discover ?sections) = []" by code_simp+
  with sets_discover_exact [of ?sections] show ?thesis
    by (auto simp: case_prod_unfold Let_def reported_def)
qed

definition occurs_in :: "'a list \<Rightarrow> 'a list \<Rightarrow> bool" where
  "occurs_in xs ys = (\<exists>as bs. ys = as @ xs @ bs)"

lemma occurs_in_concat: "x \<in> set xs \<Longrightarrow> occurs_in (f x) (concat (map f xs))"
proof -
  assume "x \<in> set xs"
  then obtain as bs where "xs = as @ x # bs" by (auto simp: in_set_conv_decomp)
  then show ?thesis by (auto simp: occurs_in_def)
qed

lemma occurs_in_middle: "occurs_in xs ys \<Longrightarrow> occurs_in xs (as @ ys @ bs)"
  unfolding occurs_in_def by (metis append_assoc)

lemma occurs_in_trans: "occurs_in xs ys \<Longrightarrow> occurs_in ys zs \<Longrightarrow> occurs_in xs zs"
  unfolding occurs_in_def by (metis append_assoc)

lemma occurs_in_prefix: "occurs_in xs (xs @ ys)"
  unfolding occurs_in_def by (metis append_Nil)

lemma keep_line_in_set:
  "ss_bare s \<Longrightarrow> occurs_in (keep_line (ss_section s)) (set_script cls s)"
  "q \<in> set (ss_priorities s) \<Longrightarrow> occurs_in (keep_line (priority_section s q)) (set_script cls s)"
proof -
  let ?head = "ln [ascii ''    . = ALIGN('', decimal (unat (pointer_bytes cls)), ascii '');''] @
     ln [ascii ''    __'', ss_name s, ascii ''_LIST__ = .;''] @
     ln [ascii ''    '', pointer_directive cls, ascii ''((__'', ss_name s, ascii ''_END__ - __'', ss_name s, ascii ''_LIST__) / '',
       decimal (unat (pointer_bytes cls)), ascii '' - 2)'']"
  let ?keeps = "concat (map (\<lambda>q. keep_line (priority_section s q)) (ss_priorities s))"
  let ?tail = "ln [ascii ''    '', pointer_directive cls, ascii ''(0)''] @ ln [ascii ''    __'', ss_name s, ascii ''_END__ = .;'']"
  have eq: "set_script cls s = ?head @ ?keeps @ keep_line (ss_section s) @ ?tail"
    by (simp add: set_script_def Let_def)
  show "occurs_in (keep_line (ss_section s)) (set_script cls s)"
    unfolding eq unfolding occurs_in_def by (rule exI [of _ "?head @ ?keeps"], rule exI [of _ ?tail]) simp
  show "occurs_in (keep_line (priority_section s q)) (set_script cls s)" if "q \<in> set (ss_priorities s)"
    unfolding eq by (intro occurs_in_middle occurs_in_concat that)
qed

lemma set_script_in_script:
  assumes "s \<in> set sets"
  shows "occurs_in (set_script cls s) (sets_script sets cls libreq)"
proof -
  have "occurs_in (set_script cls s) (concat (map (set_script cls) sets))" using assms by (rule occurs_in_concat)
  from occurs_in_middle [OF this, of _ "libreq @ script_close"] show ?thesis
    unfolding sets_script_def by (metis append_assoc)
qed

text \<open>
  C27. Nothing is left out of the link: every section of the object whose name denotes a set and
  whose priority, if any, is written as the script prints it, is either reported as skipped or
  kept by a line of the generated script that names exactly that section.
\<close>

theorem sets_script_keeps:
  assumes "x \<in> set sections" "set_parse x = Some (Inr p)"
    and "case parsed_priority p of None \<Rightarrow> True | Some q \<Rightarrow> x = parsed_section p @ [46] @ decimal_int q"
  shows "reported (set (snd (sets_discover sections))) x \<or>
    occurs_in (keep_line x) (sets_script (fst (sets_discover sections)) cls libreq)"
proof -
  have "reported (set (snd (sets_discover sections))) x \<or> (\<exists>s\<in>set (fst (sets_discover sections)). set_holds s x)"
    using sets_discover_held assms(1,2) by fastforce
  moreover have "occurs_in (keep_line x) (sets_script (fst (sets_discover sections)) cls libreq)"
    if s: "s \<in> set (fst (sets_discover sections))" "set_holds s x" for s
  proof -
    have h: "parsed_section p = ss_section s" "case parsed_priority p of None \<Rightarrow> ss_bare s | Some q \<Rightarrow> q \<in> set (ss_priorities s)"
      using s(2) assms(2) by (auto simp: set_holds_def)
    have "occurs_in (keep_line x) (set_script cls s)"
    proof (cases "parsed_priority p")
      case None
      then show ?thesis using h keep_line_in_set(1) set_parse_shape [OF assms(2)] by simp
    next
      case (Some q)
      then show ?thesis using h keep_line_in_set(2) [of q s] assms(3) by (simp add: priority_section_def)
    qed
    then show ?thesis using set_script_in_script [OF s(1)] by (rule occurs_in_trans)
  qed
  ultimately show ?thesis by blast
qed

lemma sample_set_parse:
  "set_parse (ascii ''.aros.set.INITLIB.-10'') =
     Some (Inr \<lparr>parsed_name = ascii ''INITLIB'', parsed_section = ascii ''.aros.set.INITLIB'', parsed_priority = Some (- 10),
                parsed_aros_set = True\<rparr>)"
  by code_simp

theorem sets_script_keeps_witness:
  "reported (set (snd (sets_discover [ascii ''.aros.set.INITLIB.-10'']))) (ascii ''.aros.set.INITLIB.-10'') \<or>
   occurs_in (keep_line (ascii ''.aros.set.INITLIB.-10''))
     (sets_script (fst (sets_discover [ascii ''.aros.set.INITLIB.-10''])) Elf64 [])"
proof (rule sets_script_keeps)
  show "ascii ''.aros.set.INITLIB.-10'' \<in> set [ascii ''.aros.set.INITLIB.-10'']" by simp
  show "set_parse (ascii ''.aros.set.INITLIB.-10'') =
     Some (Inr \<lparr>parsed_name = ascii ''INITLIB'', parsed_section = ascii ''.aros.set.INITLIB'', parsed_priority = Some (- 10),
                parsed_aros_set = True\<rparr>)" by (rule sample_set_parse)
  have "ascii ''.aros.set.INITLIB.-10'' = ascii ''.aros.set.INITLIB'' @ [46] @ decimal_int (- 10)" by code_simp
  then show "case parsed_priority \<lparr>parsed_name = ascii ''INITLIB'', parsed_section = ascii ''.aros.set.INITLIB'',
       parsed_priority = Some (- 10), parsed_aros_set = True\<rparr> of None \<Rightarrow> True
     | Some q \<Rightarrow> ascii ''.aros.set.INITLIB.-10'' = parsed_section \<lparr>parsed_name = ascii ''INITLIB'',
         parsed_section = ascii ''.aros.set.INITLIB'', parsed_priority = Some (- 10), parsed_aros_set = True\<rparr> @ [46] @ decimal_int q"
    by simp
qed

text \<open>
  The condition on the suffix is needed: a priority with a leading zero is accepted without a
  report, and the script names a section the object does not have.
\<close>

lemma padded_priority_lost:
  "fst (sets_discover [ascii ''.aros.set.FOO.010'']) =
     [\<lparr>ss_name = ascii ''FOO'', ss_section = ascii ''.aros.set.FOO'', ss_priorities = [10], ss_bare = False, ss_aros_set = True\<rparr>]"
  "snd (sets_discover [ascii ''.aros.set.FOO.010'']) = []"
  "priority_section \<lparr>ss_name = ascii ''FOO'', ss_section = ascii ''.aros.set.FOO'', ss_priorities = [10], ss_bare = False,
     ss_aros_set = True\<rparr> 10 = ascii ''.aros.set.FOO.10''"
  by code_simp+

end
