(* ===== verification/Collect_Libreq.thy ===== *)
theory Collect_Libreq
  imports Collect_Sets
begin

text \<open>
  Library version markers, \<open>crates/aros-collect/src/libreq.rs\<close>, and the extra inputs of
  \<open>crates/aros-collect/src/extra.rs\<close>, both read off the symbol table of the first link.
\<close>

section \<open>Version markers\<close>

definition LIBREQ_PREFIX :: rstring where
  "LIBREQ_PREFIX = ascii ''__aros_libreq_''"

record Requirement =
  req_symbol :: rstring
  req_version :: int

datatype marker_report =
    NotVersion rstring rstring
  | NoLibraryBase rstring
  | SeveralVersions rstring "int list" int

definition eligible :: "Symbol \<Rightarrow> bool" where
  "eligible symbol =
     (if \<not> starts_with (sym_name symbol) LIBREQ_PREFIX then False
      else case sym_home symbol of
             Absolute \<Rightarrow> sym_binding symbol \<noteq> BindLocal
           | Undefined \<Rightarrow> sym_binding symbol = BindWeak
           | InSection _ \<Rightarrow> False)"

text \<open>The base and the version one eligible marker states.\<close>

definition read_marker :: "Symbol \<Rightarrow> (marker_report, rstring \<times> int) result" where
  "read_marker symbol =
     (let rest = drop (length LIBREQ_PREFIX) (sym_name symbol)
      in rbind (case split_once 46 rest of
                  Some (base, suffix) \<Rightarrow>
                    (case i64_parse suffix of
                       Some version \<Rightarrow> Inr (base, version)
                     | None \<Rightarrow> Inl (NotVersion (sym_name symbol) suffix))
                | None \<Rightarrow> Inr (rest, 0)) (\<lambda>(base, version).
         ensure (base \<noteq> []) (NoLibraryBase (sym_name symbol)) (Inr (LIBREQ_PREFIX @ base, version))))"

definition marker_step ::
  "(rstring, int list) btreemap \<times> marker_report list \<Rightarrow> Symbol \<Rightarrow> (rstring, int list) btreemap \<times> marker_report list" where
  "marker_step st symbol =
     (case read_marker symbol of
        Inl report \<Rightarrow> (fst st, snd st @ [report])
      | Inr (key, version) \<Rightarrow>
          (btree_insert key ((case btree_get (fst st) key of Some vs \<Rightarrow> vs | None \<Rightarrow> []) @ [version]) (fst st), snd st))"

text \<open>\<open>versions.sort_unstable(); versions.dedup()\<close>.\<close>

definition resolve_versions :: "rstring \<times> int list \<Rightarrow> Requirement \<times> marker_report list" where
  "resolve_versions kv =
     (let versions = remdups_adj (sort (snd kv));
          version = (if versions = [] then 0 else last versions)
      in (\<lparr>req_symbol = fst kv, req_version = version\<rparr>,
          if length (filter (\<lambda>v. v \<noteq> 0) versions) > 1 then [SeveralVersions (fst kv) versions version] else []))"

definition libreq_discover :: "Symbol list \<Rightarrow> Requirement list \<times> marker_report list" where
  "libreq_discover symbols =
     (let (seen, skipped) = foldl marker_step ([], []) (filter eligible symbols);
          resolved = map resolve_versions seen
      in (map fst resolved, skipped @ concat (map snd resolved)))"

definition libreq_script :: "Requirement list \<Rightarrow> rstring" where
  "libreq_script requirements =
     concat (map (\<lambda>r.
       ln [ascii ''    . = ALIGN(4);''] @
       ln [ascii ''    PROVIDE('', req_symbol r, ascii '' = .);''] @
       ln [ascii ''    LONG('', decimal_int (req_version r), ascii '')'']) requirements)"

section \<open>Extra inputs\<close>

record Requirements =
  needs_cxx_pure_virtual :: bool
  needs_pthread :: bool

definition extra_step :: "Requirements \<Rightarrow> Symbol \<Rightarrow> Requirements" where
  "extra_step r symbol =
     (if sym_home symbol \<noteq> Undefined then r
      else let r1 = (if sym_name symbol = ascii ''__cxa_pure_virtual'' \<and> sym_binding symbol = BindWeak
                     then r\<lparr>needs_cxx_pure_virtual := True\<rparr> else r)
           in if starts_with (sym_name symbol) (ascii ''pthread_'') \<and> sym_binding symbol = BindGlobal
              then r1\<lparr>needs_pthread := True\<rparr> else r1)"

definition extra_discover :: "Symbol list \<Rightarrow> Requirements" where
  "extra_discover symbols = foldl extra_step \<lparr>needs_cxx_pure_virtual = False, needs_pthread = False\<rparr> symbols"

section \<open>Facts\<close>

definition marker_versions :: "Symbol list \<Rightarrow> rstring \<Rightarrow> int list" where
  "marker_versions ms key =
     List.map_filter (\<lambda>s. case read_marker s of Inr (k, v) \<Rightarrow> if k = key then Some v else None | Inl _ \<Rightarrow> None) ms"

definition stated_versions :: "Symbol list \<Rightarrow> rstring \<Rightarrow> int list" where
  "stated_versions symbols key = marker_versions (filter eligible symbols) key"

lemma last_sorted: "sorted xs \<Longrightarrow> xs \<noteq> [] \<Longrightarrow> last xs = Max (set xs)" for xs :: "int list"
proof (induction xs)
  case (Cons x xs)
  then show ?case by (cases "xs = []") (auto simp: max_absorb2)
qed simp

lemma resolve_versions_max:
  assumes "vs \<noteq> []"
  shows "fst (resolve_versions (k, vs)) = \<lparr>req_symbol = k, req_version = Max (set vs)\<rparr>"
proof -
  have ne: "remdups_adj (sort vs) \<noteq> []" using assms by (metis remdups_adj_Nil_iff set_empty set_sort)
  have "sorted (remdups_adj (sort vs))" by (simp add: sorted_remdups_adj)
  from last_sorted [OF this ne] have "last (remdups_adj (sort vs)) = Max (set vs)" by simp
  then show ?thesis using ne by (simp add: resolve_versions_def Let_def)
qed

lemma marker_fold:
  "btree_wf (fst (foldl marker_step ([], []) ms)) \<and>
   btree_get (fst (foldl marker_step ([], []) ms)) key =
     (if marker_versions ms key = [] then None else Some (marker_versions ms key))"
proof (induction ms arbitrary: key rule: rev_induct)
  case Nil
  then show ?case by (simp add: marker_versions_def btree_get_def List.map_filter_def)
next
  case (snoc m ms)
  have app: "marker_versions (ms @ [m]) key' = marker_versions ms key' @ (case read_marker m of Inr (k, v) \<Rightarrow> if k = key' then [v] else [] | Inl _ \<Rightarrow> [])" for key'
    by (auto simp: marker_versions_def List.map_filter_def split: sum.splits)
  show ?case
  proof (cases "read_marker m")
    case (Inl r)
    then show ?thesis using snoc [of key] by (simp add: marker_step_def app)
  next
    case (Inr kv)
    obtain k v where kv: "kv = (k, v)" by (cases kv)
    show ?thesis
      using snoc [of key] snoc [of k] Inr kv by (auto simp: marker_step_def app btree.get_insert split: option.splits)
  qed
qed

text \<open>The extra inputs depend only on which undefined symbols the object has.\<close>

lemma extra_discover_exact:
  "needs_cxx_pure_virtual (extra_discover symbols) \<longleftrightarrow>
     (\<exists>s\<in>set symbols. sym_home s = Undefined \<and> sym_name s = ascii ''__cxa_pure_virtual'' \<and> sym_binding s = BindWeak)"
  "needs_pthread (extra_discover symbols) \<longleftrightarrow>
     (\<exists>s\<in>set symbols. sym_home s = Undefined \<and> starts_with (sym_name s) (ascii ''pthread_'') \<and> sym_binding s = BindGlobal)"
proof -
  have step: "needs_cxx_pure_virtual (extra_step r s) \<longleftrightarrow> needs_cxx_pure_virtual r \<or>
      sym_home s = Undefined \<and> sym_name s = ascii ''__cxa_pure_virtual'' \<and> sym_binding s = BindWeak"
    "needs_pthread (extra_step r s) \<longleftrightarrow> needs_pthread r \<or>
      sym_home s = Undefined \<and> starts_with (sym_name s) (ascii ''pthread_'') \<and> sym_binding s = BindGlobal" for r s
    by (auto simp: extra_step_def Let_def)
  have "needs_cxx_pure_virtual (foldl extra_step r symbols) \<longleftrightarrow> needs_cxx_pure_virtual r \<or>
      (\<exists>s\<in>set symbols. sym_home s = Undefined \<and> sym_name s = ascii ''__cxa_pure_virtual'' \<and> sym_binding s = BindWeak)" for r
    by (induction symbols arbitrary: r) (auto simp: step)
  moreover have "needs_pthread (foldl extra_step r symbols) \<longleftrightarrow> needs_pthread r \<or>
      (\<exists>s\<in>set symbols. sym_home s = Undefined \<and> starts_with (sym_name s) (ascii ''pthread_'') \<and> sym_binding s = BindGlobal)" for r
    by (induction symbols arbitrary: r) (auto simp: step)
  ultimately show "needs_cxx_pure_virtual (extra_discover symbols) \<longleftrightarrow>
     (\<exists>s\<in>set symbols. sym_home s = Undefined \<and> sym_name s = ascii ''__cxa_pure_virtual'' \<and> sym_binding s = BindWeak)"
  "needs_pthread (extra_discover symbols) \<longleftrightarrow>
     (\<exists>s\<in>set symbols. sym_home s = Undefined \<and> starts_with (sym_name s) (ascii ''pthread_'') \<and> sym_binding s = BindGlobal)"
    by (simp_all add: extra_discover_def)
qed

section \<open>Properties\<close>

text \<open>
  C28. For every library base that some eligible marker of the object names, exactly one
  requirement is published, in symbol order, with the greatest version stated for that base, so
  that it satisfies every requirement that meets in the link; no other base is published.
\<close>

theorem libreq_publishes_maximum:
  "sorted_wrt (<) (map req_symbol (fst (libreq_discover symbols))) \<and>
   (\<lparr>req_symbol = key, req_version = v\<rparr> \<in> set (fst (libreq_discover symbols)) \<longleftrightarrow>
      stated_versions symbols key \<noteq> [] \<and> v = Max (set (stated_versions symbols key)))"
proof -
  define seen where "seen = fst (foldl marker_step ([], []) (filter eligible symbols))"
  have out: "fst (libreq_discover symbols) = map (fst \<circ> resolve_versions) seen"
    by (simp add: libreq_discover_def seen_def case_prod_unfold Let_def)
  have wf: "btree_wf seen" using marker_fold [of "filter eligible symbols"] by (simp add: seen_def)
  have get: "btree_get seen k = (if stated_versions symbols k = [] then None else Some (stated_versions symbols k))" for k
    using marker_fold [of "filter eligible symbols" k] by (simp add: seen_def stated_versions_def)
  have member: "(k, vs) \<in> set seen \<longleftrightarrow> vs \<noteq> [] \<and> vs = stated_versions symbols k" for k vs
  proof -
    have "(k, vs) \<in> set seen \<longleftrightarrow> btree_get seen k = Some vs"
      using wf by (simp add: btree_get_def btree_wf_def strict_sorted_iff)
    then show ?thesis by (auto simp: get)
  qed
  have "map req_symbol (fst (libreq_discover symbols)) = map fst seen"
    by (simp add: out resolve_versions_def Let_def)
  then have "sorted_wrt (<) (map req_symbol (fst (libreq_discover symbols)))" using wf by (simp add: btree_wf_def)
  moreover have "set (fst (libreq_discover symbols)) = (\<lambda>kv. \<lparr>req_symbol = fst kv, req_version = Max (set (snd kv))\<rparr>) ` set seen"
  proof -
    have "fst (resolve_versions (k, vs)) = \<lparr>req_symbol = k, req_version = Max (set vs)\<rparr>" if "(k, vs) \<in> set seen" for k vs
      using that member resolve_versions_max by blast
    then have "map (fst \<circ> resolve_versions) seen = map (\<lambda>kv. \<lparr>req_symbol = fst kv, req_version = Max (set (snd kv))\<rparr>) seen"
      by auto
    then show ?thesis by (simp add: out)
  qed
  then have "\<lparr>req_symbol = key, req_version = v\<rparr> \<in> set (fst (libreq_discover symbols)) \<longleftrightarrow>
      (\<exists>vs. (key, vs) \<in> set seen \<and> v = Max (set vs))" by force
  then have "\<lparr>req_symbol = key, req_version = v\<rparr> \<in> set (fst (libreq_discover symbols)) \<longleftrightarrow>
      stated_versions symbols key \<noteq> [] \<and> v = Max (set (stated_versions symbols key))"
    unfolding member by auto
  ultimately show ?thesis by simp
qed

end
