(* ===== verification/Media_Profile.thy ===== *)
theory Media_Profile
  imports Sha_Digest Rust_Path Rust_Collections
begin

text \<open>
  Reviewed media profiles, \<open>crates/aros-common/src/media_profile.rs\<close>: the check of a profile
  and the selection of one for a target. The TOML reader is a parameter. A test on the
  characters of a string for ASCII classes is the same test on its bytes, since no byte of a
  longer character is ASCII.
\<close>

section \<open>Data\<close>

definition FORMAT_VERSION :: u32 where "FORMAT_VERSION = 1"
definition TREE_FORMAT_VERSION :: u32 where "TREE_FORMAT_VERSION = 2"

record ExternalMediaInput =
  ext_lock_id :: rstring
  ext_file_id :: rstring

record RequiredMediaFile =
  rf_role :: rstring
  rf_destination :: rstring
  rf_external_input :: "ExternalMediaInput option"

record MediaExternalLockPin =
  pin_id :: rstring
  pin_sha256 :: rstring

datatype MediaLayout =
    MbrFat32 (mbr_start_lba: u64) (mbr_size_bytes: u64) (mbr_label: rstring)
  | Iso9660ElTorito (iso_volume_id: rstring) (iso_boot_image_role: rstring) (iso_catalog_path: rstring) (iso_max_size_bytes: u64)

record RequiredMediaTree =
  rt_role :: rstring
  rt_destination :: rstring

record MediaProfile =
  mp_format_version :: u32
  mp_id :: rstring
  mp_target_preset :: rstring
  mp_model :: rstring
  mp_transport :: rstring
  mp_medium :: rstring
  mp_boot_protocol :: rstring
  mp_label :: rstring
  mp_layout :: MediaLayout
  mp_external_locks :: "MediaExternalLockPin list"
  mp_required_files :: "RequiredMediaFile list"
  mp_required_trees :: "RequiredMediaTree list"

record ResolvedMediaProfile =
  rp_profile :: MediaProfile
  rp_sha256 :: Sha256Digest

datatype profile_error =
    ProfileSyntax
  | ProfileVersion
  | ProfileTreeVersion
  | ProfileSlug string
  | ProfileTarget
  | ProfileLabel
  | MbrGeometry
  | IsoGeometry
  | MediumLayout
  | NoFilesOrTrees
  | FileRoleSlug
  | FileRoleDuplicate rstring
  | FileDestinationUnsafe rstring
  | FileDestinationDuplicate rstring
  | ExternalSlugs
  | ExternalMapped
  | TreeRole
  | TreeDestinationUnsafe
  | TreeDestinationConflict
  | FileParent
  | BeneathCatalog
  | CatalogConflict
  | PinId
  | PinDigest
  | PinsDiffer
  | DuplicateProfile
  | UnknownProfile rstring
  | NoProfile
  | SeveralProfiles

section \<open>Names\<close>

definition slug_start :: "u8 \<Rightarrow> bool" where
  "slug_start b = (is_ascii_lowercase b \<or> is_ascii_digit b)"

definition valid_slug :: "rstring \<Rightarrow> bool" where
  "valid_slug value = (value \<noteq> [] \<and> slug_start (hd value) \<and> list_all (\<lambda>b. slug_start b \<or> b = 45) value)"

definition valid_target_preset :: "rstring \<Rightarrow> bool" where
  "valid_target_preset value = (value \<noteq> [] \<and> slug_start (hd value) \<and> list_all (\<lambda>b. slug_start b \<or> b = 45 \<or> b = 95) value)"

definition valid_destination :: "rstring \<Rightarrow> bool" where
  "valid_destination value =
     (value \<noteq> [] \<and> 92 \<notin> set value \<and> 58 \<notin> set value \<and>
      list_all (\<lambda>part. part \<noteq> [] \<and> part \<noteq> [46] \<and> part \<noteq> [46, 46] \<and> \<not> list_ex is_control (str_chars part))
        (split_on (\<lambda>b. b = SLASH) value))"

text \<open>\<open>str::rsplit_once\<close>, and the loop that walks up from a path to its parents.\<close>

definition rsplit_once :: "'a \<Rightarrow> 'a list \<Rightarrow> ('a list \<times> 'a list) option" where
  "rsplit_once c xs = (case split_once c (rev xs) of None \<Rightarrow> None | Some (r, l) \<Rightarrow> Some (rev l, rev r))"

lemma rsplit_once_eq_Some: "rsplit_once c xs = Some (l, r) \<longleftrightarrow> xs = l @ c # r \<and> c \<notin> set r"
proof -
  have "rsplit_once c xs = Some (l, r) \<longleftrightarrow> split_once c (rev xs) = Some (rev r, rev l)"
    by (auto simp: rsplit_once_def split: option.splits)
  also have "\<dots> \<longleftrightarrow> rev xs = rev r @ c # rev l \<and> c \<notin> set r" by (simp add: split_once_eq_Some)
  also have "rev xs = rev r @ c # rev l \<longleftrightarrow> xs = l @ c # r" by (metis append_Cons append_Nil append_assoc rev_append rev_rev_ident rev_singleton_conv rev.simps(2))
  finally show ?thesis .
qed

lemma rsplit_once_eq_None: "rsplit_once c xs = None \<longleftrightarrow> c \<notin> set xs"
  by (simp add: rsplit_once_def split: option.splits prod.splits) (metis option.distinct(1) set_rev split_once_eq_None)

function path_parents :: "rstring \<Rightarrow> rstring list" where
  "path_parents path = (case rsplit_once SLASH path of None \<Rightarrow> [] | Some (parent, _) \<Rightarrow> parent # path_parents parent)"
  by auto
termination
  by (relation "measure length") (auto simp: rsplit_once_eq_Some)

declare path_parents.simps [simp del]

section \<open>The check of a profile\<close>

definition slug_fields :: "MediaProfile \<Rightarrow> (string \<times> rstring) list" where
  "slug_fields p =
     [(''id'', mp_id p), (''model'', mp_model p), (''transport'', mp_transport p), (''medium'', mp_medium p),
      (''boot_protocol'', mp_boot_protocol p)]"

fun check_slugs :: "(string \<times> rstring) list \<Rightarrow> (profile_error, unit) result" where
  "check_slugs [] = Inr ()"
| "check_slugs ((label, value) # rest) = ensure (valid_slug value) (ProfileSlug label) (check_slugs rest)"

definition mbr_ok :: "u64 \<Rightarrow> u64 \<Rightarrow> rstring \<Rightarrow> bool" where
  "mbr_ok start_lba size_bytes label =
     (\<not> (start_lba < 2048 \<or> \<not> is_multiple_of start_lba 2048 \<or> size_bytes < 64 * 1024 * 1024 \<or>
         \<not> is_multiple_of size_bytes 512 \<or> unat start_lba \<ge> 2 ^ 32 \<or> unat (size_bytes div 512) \<ge> 2 ^ 32 \<or>
         (case checked_add_u64 start_lba (size_bytes div 512) of None \<Rightarrow> True | Some end' \<Rightarrow> end' > 0xffffffff + 1) \<or>
         Option.bind (checked_mul_u64 start_lba 512) (\<lambda>start. checked_add_u64 start size_bytes) = None \<or>
         label = [] \<or> length label > 11 \<or> \<not> list_all (\<lambda>b. is_ascii_alphanumeric b \<or> b = 95) label))"

definition iso_ok :: "MediaProfile \<Rightarrow> rstring \<Rightarrow> rstring \<Rightarrow> rstring \<Rightarrow> u64 \<Rightarrow> bool" where
  "iso_ok p volume_id boot_image_role catalog_path max_size_bytes =
     (\<not> (max_size_bytes < 1024 * 1024 \<or> \<not> is_multiple_of max_size_bytes 2048 \<or> volume_id = [] \<or> length volume_id > 32 \<or>
         \<not> list_all (\<lambda>b. is_ascii_uppercase b \<or> is_ascii_digit b \<or> b = 95) volume_id \<or> \<not> valid_slug boot_image_role \<or>
         \<not> valid_destination catalog_path \<or> \<not> list_ex (\<lambda>f. rf_role f = boot_image_role) (mp_required_files p)))"

definition check_layout :: "MediaProfile \<Rightarrow> (profile_error, unit) result" where
  "check_layout p =
     (case mp_layout p of
        MbrFat32 start_lba size_bytes label \<Rightarrow>
          ensure (mp_medium p = ascii ''mbr-fat32'') MediumLayout
            (ensure (mbr_ok start_lba size_bytes label) MbrGeometry (Inr ()))
      | Iso9660ElTorito volume_id boot_image_role catalog_path max_size_bytes \<Rightarrow>
          ensure (mp_medium p = ascii ''iso9660-el-torito'') MediumLayout
            (ensure (iso_ok p volume_id boot_image_role catalog_path max_size_bytes) IsoGeometry (Inr ())))"

text \<open>What the loops collect: roles, folded destinations, referenced locks and locked files.\<close>

record profile_seen =
  seen_roles :: "rstring set"
  seen_destinations :: "rstring set"
  seen_locks :: "rstring set"
  seen_files :: "(rstring \<times> rstring) set"

definition check_external :: "profile_seen \<Rightarrow> ExternalMediaInput option \<Rightarrow> (profile_error, profile_seen) result" where
  "check_external seen external =
     (case external of
        None \<Rightarrow> Inr seen
      | Some e \<Rightarrow>
          ensure (\<not> (\<not> valid_slug (ext_lock_id e) \<or> \<not> valid_slug (ext_file_id e))) ExternalSlugs
          (ensure ((ext_lock_id e, ext_file_id e) \<notin> seen_files seen) ExternalMapped
            (Inr (seen\<lparr>seen_locks := insert (ext_lock_id e) (seen_locks seen),
                       seen_files := insert (ext_lock_id e, ext_file_id e) (seen_files seen)\<rparr>))))"

definition check_file :: "profile_seen \<Rightarrow> RequiredMediaFile \<Rightarrow> (profile_error, profile_seen) result" where
  "check_file seen f =
     ensure (valid_slug (rf_role f)) FileRoleSlug
     (ensure (rf_role f \<notin> seen_roles seen) (FileRoleDuplicate (rf_role f))
     (ensure (valid_destination (rf_destination f)) (FileDestinationUnsafe (rf_destination f))
     (let folded = to_ascii_lowercase (rf_destination f)
      in ensure (folded \<notin> seen_destinations seen) (FileDestinationDuplicate (rf_destination f))
        (check_external
           (seen\<lparr>seen_roles := insert (rf_role f) (seen_roles seen),
                 seen_destinations := insert folded (seen_destinations seen)\<rparr>)
           (rf_external_input f)))))"

fun check_files :: "profile_seen \<Rightarrow> RequiredMediaFile list \<Rightarrow> (profile_error, profile_seen) result" where
  "check_files seen [] = Inr seen"
| "check_files seen (f # fs) = rbind (check_file seen f) (\<lambda>seen'. check_files seen' fs)"

fun check_trees :: "rstring set \<Rightarrow> rstring set \<Rightarrow> RequiredMediaTree list \<Rightarrow> (profile_error, unit) result" where
  "check_trees roles destinations [] = Inr ()"
| "check_trees roles destinations (t # ts) =
     ensure (\<not> (\<not> valid_slug (rt_role t) \<or> rt_role t \<in> roles)) TreeRole
     (ensure (\<not> (rt_destination t \<noteq> [] \<and> \<not> valid_destination (rt_destination t))) TreeDestinationUnsafe
     (ensure (\<not> (rt_destination t \<noteq> [] \<and> to_ascii_lowercase (rt_destination t) \<in> destinations)) TreeDestinationConflict
       (check_trees (insert (rt_role t) roles) destinations ts)))"

definition check_parents :: "rstring set \<Rightarrow> (profile_error, unit) result" where
  "check_parents destinations =
     ensure (\<not> (\<exists>d\<in>destinations. list_ex (\<lambda>parent. parent \<in> destinations) (path_parents d))) FileParent (Inr ())"

definition check_catalog :: "MediaLayout \<Rightarrow> rstring set \<Rightarrow> (profile_error, unit) result" where
  "check_catalog layout destinations =
     (case layout of
        MbrFat32 _ _ _ \<Rightarrow> Inr ()
      | Iso9660ElTorito _ _ catalog_path _ \<Rightarrow>
          (let catalog = to_ascii_lowercase catalog_path
           in ensure (\<not> (\<exists>d\<in>destinations. starts_with d (catalog @ [SLASH]))) BeneathCatalog
             (ensure (\<not> list_ex (\<lambda>path. path \<in> destinations) (catalog # path_parents catalog)) CatalogConflict (Inr ()))))"

fun check_pins :: "rstring set \<Rightarrow> MediaExternalLockPin list \<Rightarrow> (profile_error, rstring set) result" where
  "check_pins pinned [] = Inr pinned"
| "check_pins pinned (pin # pins) =
     ensure (\<not> (\<not> valid_slug (pin_id pin) \<or> pin_id pin \<in> pinned)) PinId
     (rbind (map_err (\<lambda>_. PinDigest) (digest_parse (pin_sha256 pin))) (\<lambda>_.
       check_pins (insert (pin_id pin) pinned) pins))"

definition nothing_seen :: profile_seen where
  "nothing_seen = \<lparr>seen_roles = {}, seen_destinations = {}, seen_locks = {}, seen_files = {}\<rparr>"

definition validate_profile :: "MediaProfile \<Rightarrow> (profile_error, unit) result" where
  "validate_profile p =
     ensure (mp_format_version p = FORMAT_VERSION \<or> mp_format_version p = TREE_FORMAT_VERSION) ProfileVersion
     (ensure (\<not> (mp_format_version p = FORMAT_VERSION \<and> mp_required_trees p \<noteq> [] \<or>
                 mp_format_version p = TREE_FORMAT_VERSION \<and> mp_required_trees p = [])) ProfileTreeVersion
     (rbind (check_slugs (slug_fields p)) (\<lambda>_.
      ensure (valid_target_preset (mp_target_preset p)) ProfileTarget
      (ensure (\<not> (trim (mp_label p) = [] \<or> list_ex is_control (str_chars (mp_label p)))) ProfileLabel
      (rbind (check_layout p) (\<lambda>_.
       ensure (\<not> (mp_required_files p = [] \<and> mp_required_trees p = [])) NoFilesOrTrees
       (rbind (check_files nothing_seen (mp_required_files p)) (\<lambda>seen.
        rbind (check_trees (seen_roles seen) (seen_destinations seen) (mp_required_trees p)) (\<lambda>_.
        rbind (check_parents (seen_destinations seen)) (\<lambda>_.
        rbind (check_catalog (mp_layout p) (seen_destinations seen)) (\<lambda>_.
        rbind (check_pins {} (mp_external_locks p)) (\<lambda>pinned.
        ensure (pinned = seen_locks seen) PinsDiffer (Inr ())))))))))))))"

definition parse_media_profile ::
  "(bytes \<Rightarrow> bytes) \<Rightarrow> (rstring \<Rightarrow> MediaProfile option) \<Rightarrow> rstring \<Rightarrow> (profile_error, ResolvedMediaProfile) result" where
  "parse_media_profile sha256 toml text' =
     rbind (ok_or (toml text') ProfileSyntax) (\<lambda>profile.
     rbind (validate_profile profile) (\<lambda>_.
     Inr \<lparr>rp_profile = profile, rp_sha256 = sha256_bytes sha256 text'\<rparr>))"

text \<open>The registry of embedded profile texts.\<close>

fun built_in_profiles ::
  "(bytes \<Rightarrow> bytes) \<Rightarrow> (rstring \<Rightarrow> MediaProfile option) \<Rightarrow> rstring set \<Rightarrow> rstring list \<Rightarrow> (profile_error, ResolvedMediaProfile list) result" where
  "built_in_profiles sha256 toml ids [] = Inr []"
| "built_in_profiles sha256 toml ids (text' # texts) =
     rbind (parse_media_profile sha256 toml text') (\<lambda>profile.
     ensure (mp_id (rp_profile profile) \<notin> ids) DuplicateProfile
     (rbind (built_in_profiles sha256 toml (insert (mp_id (rp_profile profile)) ids) texts) (\<lambda>rest. Inr (profile # rest))))"

section \<open>Selection\<close>

definition profile_matches :: "rstring \<Rightarrow> rstring option \<Rightarrow> rstring option \<Rightarrow> ResolvedMediaProfile \<Rightarrow> bool" where
  "profile_matches target_preset model transport entry =
     (mp_target_preset (rp_profile entry) = target_preset \<and>
      (case model of None \<Rightarrow> True | Some v \<Rightarrow> mp_model (rp_profile entry) = v) \<and>
      (case transport of None \<Rightarrow> True | Some v \<Rightarrow> mp_transport (rp_profile entry) = v))"

definition select_media_profile ::
  "ResolvedMediaProfile list \<Rightarrow> rstring option \<Rightarrow> rstring \<Rightarrow> rstring option \<Rightarrow> rstring option \<Rightarrow> (profile_error, ResolvedMediaProfile) result" where
  "select_media_profile profiles requested_id target_preset model transport =
     ensure (distinct (map (\<lambda>e. mp_id (rp_profile e)) profiles)) DuplicateProfile
     (case requested_id of
        Some pid \<Rightarrow>
          (case find (\<lambda>e. mp_id (rp_profile e) = pid) profiles of
             None \<Rightarrow> Inl (UnknownProfile pid)
           | Some e \<Rightarrow> ensure (profile_matches target_preset model transport e) (UnknownProfile pid) (Inr e))
      | None \<Rightarrow>
          (case filter (profile_matches target_preset model transport) profiles of
             [] \<Rightarrow> Inl NoProfile
           | [e] \<Rightarrow> Inr e
           | _ \<Rightarrow> Inl SeveralProfiles))"

section \<open>Parents of a path\<close>

lemma path_parents_iff: "q \<in> set (path_parents path) \<longleftrightarrow> (\<exists>r. path = q @ SLASH # r)"
proof (induction path rule: path_parents.induct)
  case (1 path)
  show ?case
  proof (cases "rsplit_once SLASH path")
    case None
    then have "SLASH \<notin> set path" by (simp add: rsplit_once_eq_None)
    then show ?thesis using None by (auto simp: path_parents.simps [of path])
  next
    case (Some pr)
    then obtain l r where lr: "rsplit_once SLASH path = Some (l, r)" "path = l @ SLASH # r" "SLASH \<notin> set r"
      by (cases pr) (simp add: rsplit_once_eq_Some)
    have "(\<exists>r'. path = q @ SLASH # r') \<longleftrightarrow> q = l \<or> (\<exists>r'. l = q @ SLASH # r')"
    proof
      assume "\<exists>r'. path = q @ SLASH # r'"
      then obtain r' where "l @ SLASH # r = q @ SLASH # r'" using lr(2) by auto
      then obtain us where "l = q @ us \<and> us @ SLASH # r = SLASH # r' \<or> l @ us = q \<and> SLASH # r = us @ SLASH # r'"
        by (auto simp: append_eq_append_conv2)
      then show "q = l \<or> (\<exists>r'. l = q @ SLASH # r')"
        using lr(3) by (cases us) auto
    qed (use lr(2) in auto)
    then show ?thesis using 1 [OF lr(1)] lr(1) by (simp add: path_parents.simps [of path])
  qed
qed

section \<open>The declarative form of a valid profile\<close>

definition folded_destination :: "RequiredMediaFile \<Rightarrow> rstring" where
  "folded_destination f = to_ascii_lowercase (rf_destination f)"

definition ext_pair :: "ExternalMediaInput \<Rightarrow> rstring \<times> rstring" where
  "ext_pair e = (ext_lock_id e, ext_file_id e)"

definition externals :: "RequiredMediaFile list \<Rightarrow> ExternalMediaInput list" where
  "externals fs = List.map_filter rf_external_input fs"

definition file_ok :: "RequiredMediaFile \<Rightarrow> bool" where
  "file_ok f =
     (valid_slug (rf_role f) \<and> valid_destination (rf_destination f) \<and>
      (\<forall>e. rf_external_input f = Some e \<longrightarrow> valid_slug (ext_lock_id e) \<and> valid_slug (ext_file_id e)))"

definition tree_ok :: "rstring set \<Rightarrow> RequiredMediaTree \<Rightarrow> bool" where
  "tree_ok destinations t =
     (valid_slug (rt_role t) \<and>
      (rt_destination t \<noteq> [] \<longrightarrow> valid_destination (rt_destination t) \<and> to_ascii_lowercase (rt_destination t) \<notin> destinations))"

text \<open>No path of the set is a directory above another one.\<close>

definition no_nesting :: "rstring set \<Rightarrow> bool" where
  "no_nesting D = (\<forall>d\<in>D. \<forall>q\<in>D. \<not> (\<exists>r. d = q @ SLASH # r))"

text \<open>
  Destinations stay apart if none is another one, up to ASCII case, or a directory above another
  one: the components of none begin the components of another.
\<close>

definition folded_parts :: "rstring \<Rightarrow> rstring list" where
  "folded_parts d = split_on (\<lambda>b. b = SLASH) (to_ascii_lowercase d)"

definition paths_apart :: "rstring list \<Rightarrow> bool" where
  "paths_apart ds \<longleftrightarrow>
     (\<forall>i < length ds. \<forall>j < length ds. i \<noteq> j \<longrightarrow> \<not> starts_with (folded_parts (ds ! j)) (folded_parts (ds ! i)))"

text \<open>
  The geometry of a FAT partition: it begins on a 1 MiB boundary behind the boot record, holds a
  whole number of sectors and at least 64 MiB, and its last sector has a 32-bit address.
\<close>

definition partition_fits :: "u64 \<Rightarrow> u64 \<Rightarrow> bool" where
  "partition_fits start_lba size_bytes \<longleftrightarrow>
     0 < unat start_lba \<and> 2048 dvd unat start_lba \<and> 64 * 2 ^ 20 \<le> unat size_bytes \<and> 512 dvd unat size_bytes \<and>
     unat start_lba + unat size_bytes div 512 \<le> 2 ^ 32"

definition short_name :: "(u8 \<Rightarrow> bool) \<Rightarrow> nat \<Rightarrow> rstring \<Rightarrow> bool" where
  "short_name ok limit name \<longleftrightarrow> length name \<in> {1..limit} \<and> list_all ok name"

definition layout_valid :: "MediaProfile \<Rightarrow> bool" where
  "layout_valid p \<longleftrightarrow>
     (case mp_layout p of
        MbrFat32 start_lba size_bytes label \<Rightarrow>
          mp_medium p = ascii ''mbr-fat32'' \<and> partition_fits start_lba size_bytes \<and>
          short_name (\<lambda>b. is_ascii_alphanumeric b \<or> b = 95) 11 label
      | Iso9660ElTorito volume_id boot_image_role catalog_path max_size_bytes \<Rightarrow>
          mp_medium p = ascii ''iso9660-el-torito'' \<and>
          2 ^ 20 \<le> unat max_size_bytes \<and> 2048 dvd unat max_size_bytes \<and>
          short_name (\<lambda>b. is_ascii_uppercase b \<or> is_ascii_digit b \<or> b = 95) 32 volume_id \<and>
          valid_slug boot_image_role \<and> boot_image_role \<in> set (map rf_role (mp_required_files p)) \<and>
          valid_destination catalog_path)"

text \<open>The files the image will hold outside its trees: the required ones and the generated
  boot catalog of an ISO.\<close>

definition placed_paths :: "MediaProfile \<Rightarrow> rstring list" where
  "placed_paths p =
     map rf_destination (mp_required_files p) @
     (case mp_layout p of Iso9660ElTorito _ _ catalog_path _ \<Rightarrow> [catalog_path] | _ \<Rightarrow> [])"

definition profile_ok :: "MediaProfile \<Rightarrow> bool" where
  "profile_ok p \<longleftrightarrow>
     (mp_format_version p = 1 \<and> mp_required_trees p = [] \<or> mp_format_version p = 2 \<and> mp_required_trees p \<noteq> []) \<and>
     list_all valid_slug [mp_id p, mp_model p, mp_transport p, mp_medium p, mp_boot_protocol p] \<and>
     valid_target_preset (mp_target_preset p) \<and>
     trim (mp_label p) \<noteq> [] \<and> \<not> list_ex is_control (str_chars (mp_label p)) \<and> layout_valid p \<and>
     (mp_required_files p \<noteq> [] \<or> mp_required_trees p \<noteq> []) \<and>
     list_all file_ok (mp_required_files p) \<and>
     list_all (tree_ok (set (map folded_destination (mp_required_files p)))) (mp_required_trees p) \<and>
     distinct (map rf_role (mp_required_files p) @ map rt_role (mp_required_trees p)) \<and>
     paths_apart (placed_paths p) \<and>
     distinct (map ext_pair (externals (mp_required_files p))) \<and>
     list_all (\<lambda>pin. valid_slug (pin_id pin) \<and> is_ok (digest_parse (pin_sha256 pin))) (mp_external_locks p) \<and>
     distinct (map pin_id (mp_external_locks p)) \<and>
     set (map pin_id (mp_external_locks p)) = set (map ext_lock_id (externals (mp_required_files p)))"

lemma mbr_ok_iff:
  "mbr_ok start_lba size_bytes label \<longleftrightarrow>
     partition_fits start_lba size_bytes \<and> short_name (\<lambda>b. is_ascii_alphanumeric b \<or> b = 95) 11 label"
proof -
  let ?s = "unat start_lba" and ?n = "unat size_bytes"
  have dv: "is_multiple_of start_lba 2048 \<longleftrightarrow> 2048 dvd ?s" "is_multiple_of size_bytes 512 \<longleftrightarrow> 512 dvd ?n"
    by (simp_all add: is_multiple_of_iff)
  have lt: "start_lba < 2048 \<longleftrightarrow> ?s < 2048" "size_bytes < 64 * 1024 * 1024 \<longleftrightarrow> ?n < 64 * 2 ^ 20"
    by (simp_all add: word_less_nat_alt)
  have q: "unat (size_bytes div 512) = ?n div 512" by (simp add: unat_div_distrib)
  have b: "?s < 2 ^ 64" "?n < 2 ^ 64" using unsigned_less [of start_lba] unsigned_less [of size_bytes] by simp_all
  have e: "(case checked_add_u64 start_lba (size_bytes div 512) of None \<Rightarrow> True | Some end' \<Rightarrow> end' > 0xffffffff + 1) \<longleftrightarrow>
      2 ^ 32 < ?s + ?n div 512"
  proof (cases "checked_add_u64 start_lba (size_bytes div 512)")
    case None
    then have "2 ^ 64 \<le> ?s + ?n div 512" by (simp add: checked_add_u64_def q split: if_splits)
    with None show ?thesis by simp
  next
    case (Some e)
    then have "unat e = ?s + ?n div 512" by (simp add: checked_add_u64_eq_Some q)
    with Some show ?thesis by (simp add: word_less_nat_alt)
  qed
  have m: "Option.bind (checked_mul_u64 start_lba 512) (\<lambda>start. checked_add_u64 start size_bytes) = None \<longleftrightarrow>
      2 ^ 64 \<le> ?s * 512 + ?n"
  proof (cases "checked_mul_u64 start_lba 512")
    case None
    then show ?thesis by (simp add: checked_mul_u64_def split: if_splits)
  next
    case (Some m)
    then have "unat m = ?s * 512" by (simp add: checked_mul_u64_eq_Some)
    with Some show ?thesis by (simp add: checked_add_u64_def)
  qed
  have "2048 dvd ?s \<Longrightarrow> 0 < ?s \<longleftrightarrow> \<not> ?s < 2048" by (auto dest: dvd_imp_le)
  moreover have "512 dvd ?n \<Longrightarrow> ?n = 512 * (?n div 512)" by simp
  moreover have "0 < length label \<longleftrightarrow> label \<noteq> []" by simp
  ultimately show ?thesis
    unfolding mbr_ok_def dv lt e m q partition_fits_def short_name_def
    by (auto simp: Suc_le_eq)
qed

lemma iso_ok_iff:
  "iso_ok p volume_id role catalog max_size \<longleftrightarrow>
     2 ^ 20 \<le> unat max_size \<and> 2048 dvd unat max_size \<and>
     short_name (\<lambda>b. is_ascii_uppercase b \<or> is_ascii_digit b \<or> b = 95) 32 volume_id \<and>
     valid_slug role \<and> role \<in> set (map rf_role (mp_required_files p)) \<and> valid_destination catalog"
proof -
  have "max_size < 1024 * 1024 \<longleftrightarrow> unat max_size < 2 ^ 20" by (simp add: word_less_nat_alt)
  moreover have "is_multiple_of max_size 2048 \<longleftrightarrow> 2048 dvd unat max_size" by (simp add: is_multiple_of_iff)
  ultimately show ?thesis
    unfolding iso_ok_def short_name_def by (auto simp: list_ex_iff Suc_le_eq)
qed

lemma split_on_at: "split_on P (xs @ c # ys) = split_on P xs @ split_on P ys" if "P c"
proof (induction xs)
  case Nil
  then show ?case using that by simp
next
  case (Cons x xs)
  obtain p ps where "split_on P xs = p # ps" by (cases "split_on P xs") auto
  with Cons show ?case by simp
qed

lemma join_parts_append:
  "xs \<noteq> [] \<Longrightarrow> ys \<noteq> [] \<Longrightarrow> join_with [c] (xs @ ys) = join_with [c] xs @ c # join_with [c] ys"
proof (induction xs)
  case (Cons x xs)
  then show ?case by (cases xs; cases ys) auto
qed simp

lemma starts_with_parts:
  "starts_with (split_on (\<lambda>b. b = c) d) (split_on (\<lambda>b. b = c) q) \<longleftrightarrow> d = q \<or> (\<exists>r. d = q @ c # r)"
proof
  assume "starts_with (split_on (\<lambda>b. b = c) d) (split_on (\<lambda>b. b = c) q)"
  then obtain rest where r: "split_on (\<lambda>b. b = c) d = split_on (\<lambda>b. b = c) q @ rest"
    by (auto simp: starts_with_iff)
  have "d = join_with [c] (split_on (\<lambda>b. b = c) q @ rest)" by (simp flip: r add: join_split_on)
  then show "d = q \<or> (\<exists>r. d = q @ c # r)"
    by (cases "rest = []") (auto simp: join_parts_append join_split_on)
next
  assume "d = q \<or> (\<exists>r. d = q @ c # r)"
  then show "starts_with (split_on (\<lambda>b. b = c) d) (split_on (\<lambda>b. b = c) q)"
    by (auto simp: starts_with_iff split_on_at)
qed

lemma paths_apart_iff:
  "paths_apart ds \<longleftrightarrow> distinct (map to_ascii_lowercase ds) \<and> no_nesting (set (map to_ascii_lowercase ds))"
proof -
  let ?f = to_ascii_lowercase
  have "paths_apart ds \<longleftrightarrow> (\<forall>i < length ds. \<forall>j < length ds. i \<noteq> j \<longrightarrow>
      ?f (ds ! j) \<noteq> ?f (ds ! i) \<and> \<not> (\<exists>r. ?f (ds ! j) = ?f (ds ! i) @ SLASH # r))"
    by (simp add: paths_apart_def folded_parts_def starts_with_parts)
  also have "\<dots> \<longleftrightarrow> distinct (map ?f ds) \<and> no_nesting (set (map ?f ds))"
  proof (intro iffI conjI)
    assume *: "\<forall>i < length ds. \<forall>j < length ds. i \<noteq> j \<longrightarrow>
      ?f (ds ! j) \<noteq> ?f (ds ! i) \<and> \<not> (\<exists>r. ?f (ds ! j) = ?f (ds ! i) @ SLASH # r)"
    then show "distinct (map ?f ds)" by (auto simp: distinct_conv_nth)
    show "no_nesting (set (map ?f ds))"
      unfolding no_nesting_def set_map set_conv_nth using * by auto (metis append_self_conv list.distinct(1))
  next
    assume "distinct (map ?f ds) \<and> no_nesting (set (map ?f ds))"
    then show "\<forall>i < length ds. \<forall>j < length ds. i \<noteq> j \<longrightarrow>
      ?f (ds ! j) \<noteq> ?f (ds ! i) \<and> \<not> (\<exists>r. ?f (ds ! j) = ?f (ds ! i) @ SLASH # r)"
      by (auto simp: distinct_conv_nth no_nesting_def)
  qed
  finally show ?thesis .
qed

lemma check_slugs_eq_Inr: "check_slugs fs = Inr u \<longleftrightarrow> list_all (\<lambda>f. valid_slug (snd f)) fs"
  by (induction fs rule: check_slugs.induct) auto

lemma check_layout_eq_Inr: "check_layout p = Inr u \<longleftrightarrow> layout_valid p"
  by (auto simp: check_layout_def layout_valid_def mbr_ok_iff iso_ok_iff split: MediaLayout.splits)

lemma check_file_eq_Inr:
  "check_file seen f = Inr seen' \<longleftrightarrow>
     file_ok f \<and> rf_role f \<notin> seen_roles seen \<and> folded_destination f \<notin> seen_destinations seen \<and>
     set (map ext_pair (externals [f])) \<inter> seen_files seen = {} \<and>
     seen' = \<lparr>seen_roles = insert (rf_role f) (seen_roles seen),
              seen_destinations = insert (folded_destination f) (seen_destinations seen),
              seen_locks = set (map ext_lock_id (externals [f])) \<union> seen_locks seen,
              seen_files = set (map ext_pair (externals [f])) \<union> seen_files seen\<rparr>"
proof (cases "rf_external_input f")
  case None
  then show ?thesis
    by (cases seen) (auto simp: check_file_def check_external_def file_ok_def folded_destination_def Let_def externals_def)
next
  case (Some e)
  then show ?thesis
    by (cases seen) (auto simp: check_file_def check_external_def file_ok_def folded_destination_def Let_def externals_def ext_pair_def)
qed

lemma externals_Cons: "externals (f # fs) = externals [f] @ externals fs"
  by (auto simp: externals_def List.map_filter_def)

lemma check_files_eq_Inr:
  "check_files seen fs = Inr seen' \<longleftrightarrow>
     list_all file_ok fs \<and> distinct (map rf_role fs) \<and> set (map rf_role fs) \<inter> seen_roles seen = {} \<and>
     distinct (map folded_destination fs) \<and> set (map folded_destination fs) \<inter> seen_destinations seen = {} \<and>
     distinct (map ext_pair (externals fs)) \<and> set (map ext_pair (externals fs)) \<inter> seen_files seen = {} \<and>
     seen' = \<lparr>seen_roles = set (map rf_role fs) \<union> seen_roles seen,
              seen_destinations = set (map folded_destination fs) \<union> seen_destinations seen,
              seen_locks = set (map ext_lock_id (externals fs)) \<union> seen_locks seen,
              seen_files = set (map ext_pair (externals fs)) \<union> seen_files seen\<rparr>"
proof (induction fs arbitrary: seen)
  case Nil
  show ?case by (cases seen) (auto simp: externals_def)
next
  case (Cons f fs)
  have one: "distinct (map ext_pair (externals [f]))"
    by (cases "rf_external_input f") (auto simp: externals_def)
  show ?case
    unfolding check_files.simps rbind_eq_Inr check_file_eq_Inr Cons.IH externals_Cons [of f fs]
    using one by auto
qed

lemma check_trees_eq_Inr:
  "check_trees roles D ts = Inr () \<longleftrightarrow>
     list_all (tree_ok D) ts \<and> distinct (map rt_role ts) \<and> set (map rt_role ts) \<inter> roles = {}"
proof (induction ts arbitrary: roles)
  case (Cons t ts)
  show ?case unfolding check_trees.simps ensure_eq_Inr Cons.IH by (auto simp: tree_ok_def [of D t])
qed simp

lemma check_parents_eq_Inr: "check_parents D = Inr u \<longleftrightarrow> no_nesting D"
proof -
  have "(\<exists>d\<in>D. list_ex (\<lambda>parent. parent \<in> D) (path_parents d)) \<longleftrightarrow> (\<exists>d\<in>D. \<exists>q\<in>D. \<exists>r. d = q @ SLASH # r)"
    unfolding list_ex_iff Bex_def path_parents_iff by blast
  then show ?thesis by (simp add: check_parents_def no_nesting_def)
qed

lemma no_nesting_insert:
  "no_nesting D \<Longrightarrow> no_nesting (insert c D) \<longleftrightarrow> (\<forall>d\<in>D. \<not> (\<exists>r. d = c @ SLASH # r)) \<and> (\<forall>d\<in>D. \<not> (\<exists>r. c = d @ SLASH # r))"
  by (auto simp: no_nesting_def)

lemma check_catalog_eq_Inr:
  assumes "no_nesting D"
  shows "check_catalog layout D = Inr u \<longleftrightarrow>
    (\<forall>vol role catalog n. layout = Iso9660ElTorito vol role catalog n \<longrightarrow>
      no_nesting (insert (to_ascii_lowercase catalog) D) \<and> to_ascii_lowercase catalog \<notin> D)"
proof (cases layout)
  case (Iso9660ElTorito vol role catalog n)
  let ?c = "to_ascii_lowercase catalog"
  have "check_catalog layout D = Inr u \<longleftrightarrow>
      (\<forall>d\<in>D. \<not> (\<exists>r. d = ?c @ SLASH # r)) \<and> ?c \<notin> D \<and> (\<forall>q\<in>set (path_parents ?c). q \<notin> D)"
    by (auto simp: Iso9660ElTorito check_catalog_def Let_def list_ex_iff starts_with_iff)
  also have "\<dots> \<longleftrightarrow> no_nesting (insert ?c D) \<and> ?c \<notin> D"
    using no_nesting_insert [OF assms, of ?c] by (auto simp: path_parents_iff)
  finally show ?thesis by (simp add: Iso9660ElTorito)
qed (simp add: check_catalog_def)

lemma placed_paths_apart:
  "paths_apart (placed_paths p) \<longleftrightarrow>
     (let D = set (map folded_destination (mp_required_files p)) in
        distinct (map folded_destination (mp_required_files p)) \<and> no_nesting D \<and>
        (\<forall>vol role catalog n. mp_layout p = Iso9660ElTorito vol role catalog n \<longrightarrow>
           no_nesting (insert (to_ascii_lowercase catalog) D) \<and> to_ascii_lowercase catalog \<notin> D))"
proof -
  have [simp]: "to_ascii_lowercase (rf_destination f) = folded_destination f" for f
    by (simp add: folded_destination_def)
  have "no_nesting (insert c D) \<Longrightarrow> no_nesting D" for c D by (auto simp: no_nesting_def)
  then show ?thesis
    by (cases "mp_layout p") (auto simp: paths_apart_iff placed_paths_def Let_def o_def)
qed

lemma check_pins_eq_Inr:
  "check_pins pinned pins = Inr out \<longleftrightarrow>
     list_all (\<lambda>pin. valid_slug (pin_id pin) \<and> is_ok (digest_parse (pin_sha256 pin))) pins \<and> distinct (map pin_id pins) \<and>
     set (map pin_id pins) \<inter> pinned = {} \<and> out = set (map pin_id pins) \<union> pinned"
proof (induction pins arbitrary: pinned)
  case (Cons pin pins)
  show ?case by (auto simp: rbind_eq_Inr Cons.IH is_ok_iff)
qed auto

lemma validate_profile_iff: "validate_profile p = Inr () \<longleftrightarrow> profile_ok p"
proof -
  let ?D = "set (map folded_destination (mp_required_files p))"
  have "validate_profile p = Inr () \<longleftrightarrow>
      (mp_format_version p = FORMAT_VERSION \<or> mp_format_version p = TREE_FORMAT_VERSION) \<and>
      \<not> (mp_format_version p = FORMAT_VERSION \<and> mp_required_trees p \<noteq> [] \<or>
         mp_format_version p = TREE_FORMAT_VERSION \<and> mp_required_trees p = []) \<and>
      list_all (\<lambda>f. valid_slug (snd f)) (slug_fields p) \<and> valid_target_preset (mp_target_preset p) \<and>
      trim (mp_label p) \<noteq> [] \<and> \<not> list_ex is_control (str_chars (mp_label p)) \<and> layout_valid p \<and>
      (mp_required_files p \<noteq> [] \<or> mp_required_trees p \<noteq> []) \<and>
      list_all file_ok (mp_required_files p) \<and> distinct (map rf_role (mp_required_files p)) \<and>
      distinct (map folded_destination (mp_required_files p)) \<and> distinct (map ext_pair (externals (mp_required_files p))) \<and>
      check_trees (set (map rf_role (mp_required_files p))) ?D (mp_required_trees p) = Inr () \<and>
      check_parents ?D = Inr () \<and> check_catalog (mp_layout p) ?D = Inr () \<and>
      (\<exists>pinned. check_pins {} (mp_external_locks p) = Inr pinned \<and> pinned = set (map ext_lock_id (externals (mp_required_files p))))"
    unfolding validate_profile_def rbind_eq_Inr ensure_eq_Inr check_slugs_eq_Inr check_layout_eq_Inr check_files_eq_Inr nothing_seen_def
    by auto
  also have "\<dots> \<longleftrightarrow> profile_ok p"
    unfolding profile_ok_def placed_paths_apart check_trees_eq_Inr check_parents_eq_Inr check_pins_eq_Inr
      FORMAT_VERSION_def TREE_FORMAT_VERSION_def
    using check_catalog_eq_Inr [of ?D "mp_layout p"] by (auto simp: slug_fields_def)
  finally show ?thesis .
qed

section \<open>Properties\<close>

text \<open>
  C32. The profile check accepts exactly the consistent profiles: version and trees agree, the
  identities are well formed, the layout fits its medium, roles are distinct over files and
  trees, no file destination and no generated ISO catalog is another one up to ASCII case or a
  directory above another one, a tree goes to the root or to a safe path that is not the
  destination of a file up to ASCII case (nothing more is asked of trees), every external input
  maps to one role, and the pinned locks are exactly the referenced ones.
\<close>

theorem media_profile_exact: "validate_profile p = Inr () \<longleftrightarrow> profile_ok p"
  by (rule validate_profile_iff)

text \<open>
  The destinations of trees are less protected than those of files: this profile is accepted
  although two trees share a destination, which lies below a file, and a third tree takes the
  place of the boot catalog. The conflicts are found when an image is planned.
\<close>

definition tree_clash_profile :: MediaProfile where
  "tree_clash_profile =
     \<lparr>mp_format_version = 2, mp_id = ascii ''p'', mp_target_preset = ascii ''pc'', mp_model = ascii ''m'',
      mp_transport = ascii ''t'', mp_medium = ascii ''iso9660-el-torito'', mp_boot_protocol = ascii ''bios'',
      mp_label = ascii ''L'',
      mp_layout = Iso9660ElTorito (ascii ''V'') (ascii ''boot'') (ascii ''boot.cat'') (2 ^ 20),
      mp_external_locks = [],
      mp_required_files = [\<lparr>rf_role = ascii ''boot'', rf_destination = ascii ''a'', rf_external_input = None\<rparr>],
      mp_required_trees = [\<lparr>rt_role = ascii ''t1'', rt_destination = ascii ''a/b''\<rparr>,
        \<lparr>rt_role = ascii ''t2'', rt_destination = ascii ''a/b''\<rparr>,
        \<lparr>rt_role = ascii ''t3'', rt_destination = ascii ''boot.cat''\<rparr>]\<rparr>"

lemma tree_destinations_unchecked:
  "validate_profile tree_clash_profile = Inr () \<and>
   \<not> paths_apart (placed_paths tree_clash_profile @ map rt_destination (mp_required_trees tree_clash_profile))"
  by (intro conjI) code_simp+

text \<open>
  Selection is unambiguous: it succeeds exactly when identifiers are distinct and either
  the requested identifier names a profile compatible with target, model and transport, or,
  without a request, precisely one profile is compatible; it returns that profile.
\<close>

lemma select_media_profile_exact:
  "select_media_profile profiles requested target model transport = Inr e \<longleftrightarrow>
     distinct (map (\<lambda>e. mp_id (rp_profile e)) profiles) \<and> e \<in> set profiles \<and> profile_matches target model transport e \<and>
     (case requested of
        Some pid \<Rightarrow> mp_id (rp_profile e) = pid
      | None \<Rightarrow> filter (profile_matches target model transport) profiles = [e])"
proof (cases requested)
  case None
  have "e \<in> set xs \<and> P e" if "filter P xs = [e]" for P and xs :: "ResolvedMediaProfile list"
  proof -
    have "e \<in> set (filter P xs)" by (simp only: that) simp
    then show ?thesis by simp
  qed
  then show ?thesis
    using None by (auto simp: select_media_profile_def split: list.splits)
next
  case (Some pid)
  have found: "find (\<lambda>e. mp_id (rp_profile e) = pid) profiles = Some e \<longleftrightarrow> e \<in> set profiles \<and> mp_id (rp_profile e) = pid"
    if "distinct (map (\<lambda>e. mp_id (rp_profile e)) profiles)"
    using that by (induction profiles) (auto simp: image_iff)
  have "select_media_profile profiles requested target model transport = Inr e \<longleftrightarrow>
      distinct (map (\<lambda>e. mp_id (rp_profile e)) profiles) \<and> find (\<lambda>e. mp_id (rp_profile e) = pid) profiles = Some e \<and>
      profile_matches target model transport e"
    using Some by (auto simp: select_media_profile_def split: option.splits)
  then show ?thesis using found Some by auto
qed

end
