(* ===== verification/Rust_Url.thy ===== *)
theory Rust_Url
  imports Rust_Str
begin

text \<open>
  What the accessors of the \<open>url\<close> crate return for a parsed URL. The parser itself is a
  parameter of its clients.
\<close>

datatype UrlHost = UrlDomain rstring | UrlAddress

record Url =
  url_host :: "UrlHost option"
  url_scheme :: rstring
  url_username :: rstring
  url_password :: "rstring option"
  url_query :: "rstring option"
  url_fragment :: "rstring option"
  url_port :: "u16 option"
  url_path :: rstring

end
