(* ===== verification/Media_Lock.thy ===== *)
theory Media_Lock
  imports Media_Profile Rust_Url "HOL-Library.Multiset"
begin

text \<open>
  Locks of external media inputs, \<open>crates/aros-common/src/media_input_lock.rs\<close>. The TOML
  reader and the URL parser (crate \<open>url\<close>) are parameters, and so is what a no-follow open of a
  path shows: the results of its successive reads.
\<close>

section \<open>Measured files\<close>

datatype io_error = NotOpened | ReadError read_error | ReadsUnending

type_synonym opened_files = "rstring \<Rightarrow> (read_error, bytes) result list option"

text \<open>\<open>open_regular_file_nofollow\<close> followed by \<open>sha256_reader\<close>.\<close>

definition measure_path :: "(bytes \<Rightarrow> bytes) \<Rightarrow> opened_files \<Rightarrow> rstring \<Rightarrow> (io_error, Sha256Result) result" where
  "measure_path sha256 open_file path =
     rbind (ok_or (open_file path) NotOpened) (\<lambda>reads.
       case sha256_reader sha256 [] 0 reads of
         None \<Rightarrow> Inl ReadsUnending
       | Some r \<Rightarrow> map_err ReadError r)"

section \<open>Locks\<close>

definition LOCK_FORMAT_VERSION :: u32 where "LOCK_FORMAT_VERSION = 1"
definition LOCK_KIND :: rstring where "LOCK_KIND = ascii ''aros-media-external-inputs''"
definition MAX_LOCK_BYTES :: usize where "MAX_LOCK_BYTES = 1024 * 1024"
definition MAX_LOCK_FILES :: usize where "MAX_LOCK_FILES = 256"

record MediaLockedInput =
  li_id :: rstring
  li_origin_url :: rstring
  li_origin_revision :: rstring
  li_sha256 :: rstring
  li_size_bytes :: u64
  li_license_id :: rstring

record MediaInputLock =
  lock_format_version :: u32
  lock_kind :: rstring
  lock_id :: rstring
  lock_files :: "MediaLockedInput list"

record ResolvedMediaInputLock =
  rl_lock :: MediaInputLock
  rl_sha256 :: Sha256Digest

datatype lock_error =
    LockTooLarge
  | LockNotUtf8
  | LockSyntax
  | LockVersion
  | LockIdSlug
  | LockFileCount
  | LockFileId
  | LockFileDigest
  | LockFileSize
  | LockMetadata string
  | UrlInvalid
  | UrlNoDomain
  | UrlNotAllowed
  | ExpectedDigest
  | PinDiffers
  | LockSetDiffers
  | DuplicateLock
  | LockNotPinned
  | MissingLock
  | MissingLockedFile
  | LockIo io_error
  | LockedInputDiffers rstring

definition validate_origin_url :: "(rstring \<Rightarrow> Url option) \<Rightarrow> rstring \<Rightarrow> (lock_error, unit) result" where
  "validate_origin_url url_parse value =
     rbind (ok_or (url_parse value) UrlInvalid) (\<lambda>url.
     case url_host url of
       Some (UrlDomain host) \<Rightarrow>
         (let domain_suffix = (case rsplit_once 46 host of Some (_, suffix) \<Rightarrow> suffix | None \<Rightarrow> host)
          in ensure (\<not> (url_scheme url \<noteq> ascii ''https'' \<or> url_username url \<noteq> [] \<or> url_password url \<noteq> None \<or>
                        url_query url \<noteq> None \<or> url_fragment url \<noteq> None \<or>
                        (case url_port url of None \<Rightarrow> False | Some port \<Rightarrow> port \<noteq> 443) \<or>
                        46 \<notin> set host \<or> (host \<noteq> [] \<and> last host = 46) \<or>
                        domain_suffix \<in> {ascii ''localhost'', ascii ''local'', ascii ''internal''} \<or>
                        url_path url = [SLASH])) UrlNotAllowed (Inr ()))
     | _ \<Rightarrow> Inl UrlNoDomain)"

definition metadata_ok :: "rstring \<Rightarrow> bool" where
  "metadata_ok value = (\<not> (value = [] \<or> length value > 128 \<or> trim value \<noteq> value \<or> list_ex is_control (str_chars value)))"

definition validate_locked_input ::
  "(rstring \<Rightarrow> Url option) \<Rightarrow> rstring set \<Rightarrow> MediaLockedInput \<Rightarrow> (lock_error, unit) result" where
  "validate_locked_input url_parse ids input =
     ensure (\<not> (\<not> valid_slug (li_id input) \<or> li_id input \<in> ids)) LockFileId
     (rbind (map_err (\<lambda>_. LockFileDigest) (digest_parse (li_sha256 input))) (\<lambda>_.
      ensure (li_size_bytes input \<noteq> 0) LockFileSize
      (ensure (metadata_ok (li_origin_revision input)) (LockMetadata ''origin_revision'')
      (ensure (metadata_ok (li_license_id input)) (LockMetadata ''license_id'')
        (validate_origin_url url_parse (li_origin_url input))))))"

fun validate_locked_inputs ::
  "(rstring \<Rightarrow> Url option) \<Rightarrow> rstring set \<Rightarrow> MediaLockedInput list \<Rightarrow> (lock_error, unit) result" where
  "validate_locked_inputs url_parse ids [] = Inr ()"
| "validate_locked_inputs url_parse ids (input # inputs) =
     rbind (validate_locked_input url_parse ids input) (\<lambda>_.
       validate_locked_inputs url_parse (insert (li_id input) ids) inputs)"

definition validate_lock :: "(rstring \<Rightarrow> Url option) \<Rightarrow> MediaInputLock \<Rightarrow> (lock_error, unit) result" where
  "validate_lock url_parse lock =
     ensure (\<not> (lock_format_version lock \<noteq> LOCK_FORMAT_VERSION \<or> lock_kind lock \<noteq> LOCK_KIND)) LockVersion
     (ensure (valid_slug (lock_id lock)) LockIdSlug
     (ensure (\<not> (lock_files lock = [] \<or> length (lock_files lock) > MAX_LOCK_FILES)) LockFileCount
       (validate_locked_inputs url_parse {} (lock_files lock))))"

record lock_host =
  lh_sha256 :: "bytes \<Rightarrow> bytes"
  lh_toml :: "rstring \<Rightarrow> MediaInputLock option"
  lh_url :: "rstring \<Rightarrow> Url option"

definition parse_media_input_lock :: "lock_host \<Rightarrow> bytes \<Rightarrow> (lock_error, ResolvedMediaInputLock) result" where
  "parse_media_input_lock h bs =
     ensure (\<not> length bs > MAX_LOCK_BYTES) LockTooLarge
     (ensure (utf8_valid bs) LockNotUtf8
     (rbind (ok_or (lh_toml h bs) LockSyntax) (\<lambda>lock.
      rbind (validate_lock (lh_url h) lock) (\<lambda>_.
      Inr \<lparr>rl_lock = lock, rl_sha256 = sha256_bytes (lh_sha256 h) bs\<rparr>))))"

definition bind_media_input_lock :: "lock_host \<Rightarrow> rstring \<Rightarrow> rstring \<Rightarrow> bytes \<Rightarrow> (lock_error, ResolvedMediaInputLock) result" where
  "bind_media_input_lock h expected_id expected_sha256 bs =
     rbind (map_err (\<lambda>_. ExpectedDigest) (digest_parse expected_sha256)) (\<lambda>expected.
     rbind (parse_media_input_lock h bs) (\<lambda>resolved.
     ensure (\<not> (lock_id (rl_lock resolved) \<noteq> expected_id \<or> rl_sha256 resolved \<noteq> expected)) PinDiffers (Inr resolved)))"

fun bind_supplied ::
  "lock_host \<Rightarrow> MediaExternalLockPin list \<Rightarrow> rstring set \<Rightarrow> (rstring \<times> bytes) list \<Rightarrow> (lock_error, ResolvedMediaInputLock list) result" where
  "bind_supplied h pins seen [] = Inr []"
| "bind_supplied h pins seen ((sid, bs) # supplied) =
     ensure (sid \<notin> seen) DuplicateLock
     (rbind (ok_or (find (\<lambda>pin. pin_id pin = sid) pins) LockNotPinned) (\<lambda>pin.
      rbind (bind_media_input_lock h (pin_id pin) (pin_sha256 pin) bs) (\<lambda>lock.
      rbind (bind_supplied h pins (insert sid seen) supplied) (\<lambda>locks. Inr (lock # locks)))))"

definition locked_file :: "ResolvedMediaInputLock list \<Rightarrow> ExternalMediaInput \<Rightarrow> (lock_error, MediaLockedInput) result" where
  "locked_file locks e =
     rbind (ok_or (find (\<lambda>lock. lock_id (rl_lock lock) = ext_lock_id e) locks) MissingLock) (\<lambda>lock.
     ok_or (find (\<lambda>input. li_id input = ext_file_id e) (lock_files (rl_lock lock))) MissingLockedFile)"

fun check_external_roles :: "ResolvedMediaInputLock list \<Rightarrow> RequiredMediaFile list \<Rightarrow> (lock_error, unit) result" where
  "check_external_roles locks [] = Inr ()"
| "check_external_roles locks (f # fs) =
     (case rf_external_input f of
        None \<Rightarrow> check_external_roles locks fs
      | Some e \<Rightarrow> rbind (locked_file locks e) (\<lambda>_. check_external_roles locks fs))"

definition bind_profile_media_input_locks ::
  "lock_host \<Rightarrow> ResolvedMediaProfile \<Rightarrow> (rstring \<times> bytes) list \<Rightarrow> (lock_error, ResolvedMediaInputLock list) result" where
  "bind_profile_media_input_locks h profile supplied =
     ensure (length supplied = length (mp_external_locks (rp_profile profile))) LockSetDiffers
     (rbind (bind_supplied h (mp_external_locks (rp_profile profile)) {} supplied) (\<lambda>resolved.
      rbind (check_external_roles resolved (mp_required_files (rp_profile profile))) (\<lambda>_.
      Inr (sort_key (\<lambda>lock. lock_id (rl_lock lock)) resolved))))"

definition verify_media_locked_input ::
  "(bytes \<Rightarrow> bytes) \<Rightarrow> opened_files \<Rightarrow> rstring \<Rightarrow> MediaLockedInput \<Rightarrow> (lock_error, unit) result" where
  "verify_media_locked_input sha256 open_file path input =
     rbind (map_err (\<lambda>_. LockFileDigest) (digest_parse (li_sha256 input))) (\<lambda>expected.
     rbind (map_err LockIo (measure_path sha256 open_file path)) (\<lambda>actual.
     ensure (\<not> (res_size actual \<noteq> li_size_bytes input \<or> res_digest actual \<noteq> expected)) (LockedInputDiffers (li_id input))
       (Inr ())))"

section \<open>What a measured file is\<close>

text \<open>The bytes a file's reads deliver before its end.\<close>

definition file_content :: "opened_files \<Rightarrow> rstring \<Rightarrow> bytes \<Rightarrow> bool" where
  "file_content open_file path content =
     (\<exists>chunks rest. open_file path = Some (map Inr chunks @ Inr [] # rest) \<and> [] \<notin> set chunks \<and> content = concat chunks)"

lemma sha256_reader_eq_Some:
  "sha256_reader sha256 absorbed n reads = Some (Inr r) \<Longrightarrow>
     \<exists>chunks rest. reads = map Inr chunks @ Inr [] # rest \<and> [] \<notin> set chunks \<and> unat n + length (concat chunks) < 2 ^ 64 \<and>
       res_digest r = sha256_bytes sha256 (absorbed @ concat chunks) \<and> unat (res_size r) = unat n + length (concat chunks)"
proof (induction sha256 absorbed n reads rule: sha256_reader.induct)
  case (3 sha256 absorbed n chunk reads)
  show ?case
  proof (cases "chunk = []")
    case True
    then show ?thesis
      using 3(2) unat_u64_less [of n] by (intro exI [of _ "[]"] exI [of _ reads]) (auto simp: sha256_bytes_def)
  next
    case False
    then have fits: "unat n + length chunk < 2 ^ 64" using 3(2) by (auto split: if_splits)
    then have n: "unat (n + of_nat (length chunk)) = unat n + length chunk" by (simp add: unat_word_ariths unat_of_nat)
    from 3(1) [OF False fits] 3(2) False fits obtain chunks rest where
      "reads = map Inr chunks @ Inr [] # rest" "[] \<notin> set chunks" "unat n + length chunk + length (concat chunks) < 2 ^ 64"
      "res_digest r = sha256_bytes sha256 ((absorbed @ chunk) @ concat chunks)"
      "unat (res_size r) = unat n + length chunk + length (concat chunks)"
      by (auto simp: n)
    then show ?thesis using False by (intro exI [of _ "chunk # chunks"] exI [of _ rest]) auto
  qed
qed auto

lemma file_content_unique: "file_content open_file path a \<Longrightarrow> file_content open_file path b \<Longrightarrow> a = b"
proof -
  have "cs = ds" if "map Inr cs @ Inr [] # r = map Inr ds @ Inr [] # r'" "[] \<notin> set cs" "[] \<notin> set ds"
    for cs ds :: "bytes list" and r r' :: "(read_error, bytes) result list"
    using that
  proof (induction cs arbitrary: ds)
    case Nil
    then show ?case by (cases ds) auto
  next
    case (Cons c cs)
    then show ?case by (cases ds) auto
  qed
  then show "file_content open_file path a \<Longrightarrow> file_content open_file path b \<Longrightarrow> a = b"
    unfolding file_content_def by (metis option.inject)
qed

lemma measure_path_eq_Inr:
  assumes "measure_path sha256 open_file path = Inr m"
  shows "\<exists>content. file_content open_file path content \<and> res_digest m = sha256_bytes sha256 content \<and>
    unat (res_size m) = length content"
proof -
  from assms obtain reads where "open_file path = Some reads" "sha256_reader sha256 [] 0 reads = Some (Inr m)"
    by (auto simp: measure_path_def rbind_eq_Inr split: option.splits)
  with sha256_reader_eq_Some [of sha256 "[]" 0 reads m] show ?thesis
    by (auto simp: file_content_def)
qed

text \<open>A file passes a comparison with a size and digest exactly when its content has them.\<close>

lemma measured_as:
  "(\<exists>m. measure_path sha256 open_file path = Inr m \<and> d = Inr (res_digest m) \<and> res_size m = n) \<longleftrightarrow>
     (\<exists>content. file_content open_file path content \<and> d = Inr (sha256_bytes sha256 content) \<and> unat n = length content)"
proof
  assume "\<exists>content. file_content open_file path content \<and> d = Inr (sha256_bytes sha256 content) \<and> unat n = length content"
  then obtain chunks rest where c: "open_file path = Some (map Inr chunks @ Inr [] # rest)" "[] \<notin> set chunks"
    "d = Inr (sha256_bytes sha256 (concat chunks))" "unat n = length (concat chunks)"
    by (auto simp: file_content_def)
  have "unat (0 :: u64) + length (concat chunks) < 2 ^ 64" using c(4) unat_u64_less [of n] by simp
  moreover have "list_all (\<lambda>c. c \<noteq> []) chunks" using c(2) by (auto simp: list_all_iff)
  ultimately have "measure_path sha256 open_file path =
      Inr \<lparr>res_digest = sha256_bytes sha256 (concat chunks), res_size = of_nat (length (concat chunks))\<rparr>"
    using sha256_reader_chunks [of chunks 0 sha256 "[]" rest] c by (simp add: measure_path_def sha256_bytes_def)
  moreover have "of_nat (length (concat chunks)) = n" using c(4) by (simp flip: c(4))
  ultimately show "\<exists>m. measure_path sha256 open_file path = Inr m \<and> d = Inr (res_digest m) \<and> res_size m = n"
    using c(3) by simp
qed (use measure_path_eq_Inr in fastforce)

section \<open>What bound locks are\<close>

text \<open>A resolved lock that is the pinned document.\<close>

definition lock_bound :: "lock_host \<Rightarrow> (rstring \<times> bytes) list \<Rightarrow> MediaExternalLockPin \<Rightarrow> ResolvedMediaInputLock \<Rightarrow> bool" where
  "lock_bound h supplied pin lock =
     (\<exists>bs. (pin_id pin, bs) \<in> set supplied \<and> lh_toml h bs = Some (rl_lock lock) \<and> validate_lock (lh_url h) (rl_lock lock) = Inr () \<and>
       lock_id (rl_lock lock) = pin_id pin \<and> rl_sha256 lock = sha256_bytes (lh_sha256 h) bs \<and>
       digest_parse (pin_sha256 pin) = Inr (rl_sha256 lock))"

lemma bind_media_input_lock_eq_Inr:
  "bind_media_input_lock h sid sha bs = Inr lock \<Longrightarrow>
     lh_toml h bs = Some (rl_lock lock) \<and> validate_lock (lh_url h) (rl_lock lock) = Inr () \<and> lock_id (rl_lock lock) = sid \<and>
     rl_sha256 lock = sha256_bytes (lh_sha256 h) bs \<and> digest_parse sha = Inr (rl_sha256 lock)"
  by (auto simp: bind_media_input_lock_def parse_media_input_lock_def rbind_eq_Inr split: if_splits)

lemma bind_supplied_eq_Inr:
  "bind_supplied h pins seen supplied = Inr locks \<Longrightarrow>
     map (\<lambda>l. lock_id (rl_lock l)) locks = map fst supplied \<and> distinct (map fst supplied) \<and> set (map fst supplied) \<inter> seen = {} \<and>
     (\<forall>lock\<in>set locks. \<exists>pin\<in>set pins. lock_bound h supplied pin lock)"
proof (induction h pins seen supplied arbitrary: locks rule: bind_supplied.induct)
  case (2 h pins seen sid bs supplied)
  from 2(2) obtain pin lock locks' where pin: "find (\<lambda>pin. pin_id pin = sid) pins = Some pin" and new: "sid \<notin> seen"
    and lock: "bind_media_input_lock h (pin_id pin) (pin_sha256 pin) bs = Inr lock"
    and rest: "bind_supplied h pins (insert sid seen) supplied = Inr locks'" and locks: "locks = lock # locks'"
    by (auto simp: rbind_eq_Inr split: if_splits)
  have p: "pin \<in> set pins" "pin_id pin = sid" using pin by (auto simp: find_Some_iff)
  note l = bind_media_input_lock_eq_Inr [OF lock]
  have IH: "map (\<lambda>l. lock_id (rl_lock l)) locks' = map fst supplied" "distinct (map fst supplied)"
    "set (map fst supplied) \<inter> insert sid seen = {}" "\<forall>lock\<in>set locks'. \<exists>pin\<in>set pins. lock_bound h supplied pin lock"
    using 2(1) [OF new _ _ rest] pin lock by auto
  have "lock_bound h ((sid, bs) # supplied) pin lock" using l p by (auto simp: lock_bound_def)
  moreover have "lock_bound h supplied q x \<Longrightarrow> lock_bound h ((sid, bs) # supplied) q x" for q x
    by (auto simp: lock_bound_def)
  ultimately have "\<forall>x\<in>set locks. \<exists>q\<in>set pins. lock_bound h ((sid, bs) # supplied) q x"
    using IH(4) p(1) unfolding locks by (metis set_ConsD)
  then show ?case using IH(1-3) l p new locks by auto
qed auto

lemma check_external_roles_eq_Inr:
  "check_external_roles locks fs = Inr () \<longleftrightarrow> (\<forall>e\<in>set (externals fs). is_ok (locked_file locks e))"
proof (induction fs)
  case (Cons f fs)
  show ?case
  proof (cases "rf_external_input f")
    case None
    then show ?thesis using Cons by (simp add: externals_def)
  next
    case (Some e)
    then show ?thesis using Cons by (auto simp: externals_def rbind_eq_Inr is_ok_iff)
  qed
qed (simp add: externals_def)

lemma locked_file_eq_Inr:
  "locked_file locks e = Inr input \<Longrightarrow>
     \<exists>lock\<in>set locks. lock_id (rl_lock lock) = ext_lock_id e \<and> input \<in> set (lock_files (rl_lock lock)) \<and> li_id input = ext_file_id e"
  by (auto simp: locked_file_def rbind_eq_Inr find_Some_iff)

text \<open>Sorting the locks does not change what an external reference resolves to.\<close>

lemma locked_file_permute:
  assumes "mset locks = mset locks'" "distinct (map (\<lambda>l. lock_id (rl_lock l)) locks)"
  shows "locked_file locks e = locked_file locks' e"
proof -
  have d: "distinct (map (\<lambda>l. lock_id (rl_lock l)) locks')" using assms by (metis mset_eq_imp_distinct_iff mset_map)
  have s: "set locks = set locks'" using assms(1) by (rule mset_eq_setD)
  have "find (\<lambda>lock. lock_id (rl_lock lock) = k) locks = find (\<lambda>lock. lock_id (rl_lock lock) = k) locks'" for k
  proof (cases "\<exists>lock\<in>set locks. lock_id (rl_lock lock) = k")
    case True
    then obtain lock where "lock \<in> set locks" "lock_id (rl_lock lock) = k" by blast
    then show ?thesis using find_unique [OF assms(2), of lock k] find_unique [OF d, of lock k] s by simp
  next
    case False
    then have "find (\<lambda>lock. lock_id (rl_lock lock) = k) xs = None" if "set xs = set locks" for xs
      using that by (auto simp: find_None_iff)
    then show ?thesis using s by simp
  qed
  then show ?thesis by (simp add: locked_file_def)
qed

lemma bind_profile_locks_eq_Inr:
  assumes "bind_profile_media_input_locks h profile supplied = Inr locks"
  shows "sorted (map (\<lambda>l. lock_id (rl_lock l)) locks)" "distinct (map (\<lambda>l. lock_id (rl_lock l)) locks)"
    "length locks = length (mp_external_locks (rp_profile profile))"
    "\<forall>lock\<in>set locks. \<exists>pin\<in>set (mp_external_locks (rp_profile profile)). lock_bound h supplied pin lock"
    "\<forall>e\<in>set (externals (mp_required_files (rp_profile profile))). is_ok (locked_file locks e)"
proof -
  from assms obtain resolved where
    len: "length supplied = length (mp_external_locks (rp_profile profile))" and
    b: "bind_supplied h (mp_external_locks (rp_profile profile)) {} supplied = Inr resolved" and
    roles: "check_external_roles resolved (mp_required_files (rp_profile profile)) = Inr ()" and
    locks: "locks = sort_key (\<lambda>lock. lock_id (rl_lock lock)) resolved"
    by (auto simp: bind_profile_media_input_locks_def rbind_eq_Inr split: if_splits)
  note bs = bind_supplied_eq_Inr [OF b]
  have d: "distinct (map (\<lambda>l. lock_id (rl_lock l)) resolved)" using bs by simp
  have m: "mset locks = mset resolved" by (simp add: locks)
  show "sorted (map (\<lambda>l. lock_id (rl_lock l)) locks)" by (simp add: locks)
  show "distinct (map (\<lambda>l. lock_id (rl_lock l)) locks)" using d m by (metis mset_eq_imp_distinct_iff mset_map)
  have "length resolved = length supplied" using bs by (metis length_map)
  then show "length locks = length (mp_external_locks (rp_profile profile))" using len by (simp add: locks)
  show "\<forall>lock\<in>set locks. \<exists>pin\<in>set (mp_external_locks (rp_profile profile)). lock_bound h supplied pin lock"
    using bs by (simp add: locks)
  show "\<forall>e\<in>set (externals (mp_required_files (rp_profile profile))). is_ok (locked_file locks e)"
    using roles locked_file_permute [OF m [symmetric] d] by (simp add: check_external_roles_eq_Inr)
qed

lemma verify_media_locked_input_eq_Inr:
  assumes "verify_media_locked_input sha256 open_file path input = Inr ()"
  shows "\<exists>content. file_content open_file path content \<and> digest_parse (li_sha256 input) = Inr (sha256_bytes sha256 content) \<and>
    unat (li_size_bytes input) = length content"
proof -
  from assms obtain m where "measure_path sha256 open_file path = Inr m" "digest_parse (li_sha256 input) = Inr (res_digest m)"
    "res_size m = li_size_bytes input"
    by (auto simp: verify_media_locked_input_def rbind_eq_Inr split: if_splits)
  with measure_path_eq_Inr [of sha256 open_file path m] show ?thesis by metis
qed

section \<open>A sample profile with its lock\<close>

definition sample_hash :: "bytes \<Rightarrow> bytes" where "sample_hash bs = replicate 32 0"
definition sample_digest :: rstring where "sample_digest = replicate 64 48"

definition sample_input :: MediaLockedInput where
  "sample_input = \<lparr>li_id = ascii ''start'', li_origin_url = ascii ''https://example.org/start4.elf'', li_origin_revision = ascii ''r1'',
     li_sha256 = sample_digest, li_size_bytes = 3, li_license_id = ascii ''Broadcom''\<rparr>"

definition sample_lock :: MediaInputLock where
  "sample_lock = \<lparr>lock_format_version = 1, lock_kind = ascii ''aros-media-external-inputs'', lock_id = ascii ''firmware'',
     lock_files = [sample_input]\<rparr>"

definition sample_url :: Url where
  "sample_url = \<lparr>url_host = Some (UrlDomain (ascii ''example.org'')), url_scheme = ascii ''https'', url_username = [], url_password = None,
     url_query = None, url_fragment = None, url_port = None, url_path = ascii ''/start4.elf''\<rparr>"

definition sample_lock_host :: lock_host where
  "sample_lock_host = \<lparr>lh_sha256 = sample_hash, lh_toml = \<lambda>_. Some sample_lock, lh_url = \<lambda>_. Some sample_url\<rparr>"

definition sample_profile :: ResolvedMediaProfile where
  "sample_profile =
     \<lparr>rp_profile = \<lparr>mp_format_version = 1, mp_id = ascii ''pi'', mp_target_preset = ascii ''rpi'', mp_model = ascii ''rpi5'',
        mp_transport = ascii ''sd'', mp_medium = ascii ''mbr-fat32'', mp_boot_protocol = ascii ''pi'', mp_label = ascii ''Pi'',
        mp_layout = MbrFat32 2048 67108864 (ascii ''AROS''),
        mp_external_locks = [\<lparr>pin_id = ascii ''firmware'', pin_sha256 = sample_digest\<rparr>],
        mp_required_files =
          [\<lparr>rf_role = ascii ''kernel'', rf_destination = ascii ''boot/kernel8.img'', rf_external_input = None\<rparr>,
           \<lparr>rf_role = ascii ''start'', rf_destination = ascii ''start4.elf'',
            rf_external_input = Some \<lparr>ext_lock_id = ascii ''firmware'', ext_file_id = ascii ''start''\<rparr>\<rparr>],
        mp_required_trees = []\<rparr>,
      rp_sha256 = Sha256Digest sample_digest\<rparr>"

lemma sample_digest_parse: "digest_parse sample_digest = Inr (Sha256Digest sample_digest)"
proof -
  have "is_ascii_hexdigit 48" "ascii_lower 48 = 48" by code_simp+
  then show ?thesis
    by (simp add: digest_parse_def sample_digest_def SHA256_HEX_LENGTH_def SHA256_BYTES_def to_ascii_lowercase_def list_all_iff)
qed

lemma sample_sha256: "sha256_bytes sample_hash bs = Sha256Digest sample_digest"
proof -
  have "hex_byte 0 = [48, 48]" by code_simp
  then show ?thesis
    by (simp add: sha256_bytes_def digest_from_bytes_def sample_hash_def sample_digest_def eval_nat_numeral)
qed

lemma sample_slugs: "valid_slug (ascii ''firmware'')" "valid_slug (ascii ''start'')" "valid_slug (ascii ''kernel'')"
   "metadata_ok (ascii ''r1'')" "metadata_ok (ascii ''Broadcom'')"
  by code_simp+

lemma sample_url_ok: "validate_origin_url (\<lambda>_. Some sample_url) x = Inr ()"
proof -
  have "validate_origin_url (\<lambda>_. Some sample_url) [] = Inr ()" by code_simp
  then show ?thesis by (simp add: validate_origin_url_def)
qed

lemma sample_lock_ok: "validate_lock (\<lambda>_. Some sample_url) sample_lock = Inr ()"
  by (simp add: validate_lock_def sample_lock_def LOCK_FORMAT_VERSION_def LOCK_KIND_def MAX_LOCK_FILES_def validate_locked_input_def
      sample_input_def sample_slugs sample_digest_parse sample_url_ok)

lemma sample_locks_bind:
  "bind_profile_media_input_locks sample_lock_host sample_profile [(ascii ''firmware'', ascii ''x'')] =
     Inr [\<lparr>rl_lock = sample_lock, rl_sha256 = Sha256Digest sample_digest\<rparr>]"
proof -
  have "utf8_valid (ascii ''x'')" by code_simp
  then show ?thesis
    by (simp add: bind_profile_media_input_locks_def sample_profile_def sample_lock_host_def bind_media_input_lock_def
        parse_media_input_lock_def sample_digest_parse sample_lock_ok sample_sha256 locked_file_def MAX_LOCK_BYTES_def)
      (simp add: sample_lock_def sample_input_def ascii_def)
qed

section \<open>Properties\<close>

text \<open>
  C33. Locks bound to a profile are its pins, one for one: they are sorted by identifier, each
  document decodes to a valid lock with the pinned identifier and has the pinned SHA-256, no pin
  is left without its lock, and every external input of the profile resolves to a locked file.
\<close>

theorem media_locks_bound:
  assumes "bind_profile_media_input_locks h profile supplied = Inr locks"
  shows "sorted (map (\<lambda>l. lock_id (rl_lock l)) locks) \<and> distinct (map (\<lambda>l. lock_id (rl_lock l)) locks) \<and>
    set (map (\<lambda>l. lock_id (rl_lock l)) locks) = set (map pin_id (mp_external_locks (rp_profile profile))) \<and>
    (\<forall>lock\<in>set locks. \<exists>pin\<in>set (mp_external_locks (rp_profile profile)). lock_bound h supplied pin lock) \<and>
    (\<forall>e\<in>set (externals (mp_required_files (rp_profile profile))). \<exists>input. locked_file locks e = Inr input)"
proof -
  note b = bind_profile_locks_eq_Inr [OF assms]
  let ?ids = "map (\<lambda>l. lock_id (rl_lock l)) locks"
  let ?pins = "map pin_id (mp_external_locks (rp_profile profile))"
  have sub: "set ?ids \<subseteq> set ?pins" using b(4) by (fastforce simp: lock_bound_def)
  have "card (set ?pins) \<le> length ?pins" by (rule card_length)
  also have "\<dots> = card (set ?ids)" using b(2,3) distinct_card [OF b(2)] by simp
  finally have "set ?ids = set ?pins" using sub by (intro card_seteq) auto
  then show ?thesis using b by (simp add: is_ok_iff)
qed

theorem media_locks_bound_witness:
  "\<exists>locks. bind_profile_media_input_locks sample_lock_host sample_profile [(ascii ''firmware'', ascii ''x'')] = Inr locks \<and>
     map (\<lambda>l. lock_id (rl_lock l)) locks = [ascii ''firmware'']"
proof -
  from media_locks_bound [OF sample_locks_bind] sample_locks_bind show ?thesis by (auto simp: sample_lock_def)
qed

end
