(* ===== verification/Media_Tree.thy ===== *)
theory Media_Tree
  imports Media_Lock
begin

text \<open>
  Inventories of built directories, \<open>crates/aros-common/src/media_tree.rs\<close>. The directory walk
  (crate \<open>walkdir\<close>), file kinds and opened files are what the host shows, as parameters. On Unix
  the host separator is already \<open>/\<close>.
\<close>

section \<open>Measuring a tree\<close>

definition MAX_ENTRIES :: usize where "MAX_ENTRIES = 20000"

record MediaTreeFile =
  tf_relative :: rstring
  tf_source_path :: rstring
  tf_sha256 :: Sha256Digest
  tf_size_bytes :: u64

record MediaTreeInventory =
  ti_sha256 :: Sha256Digest
  ti_directories :: "rstring list"
  ti_files :: "MediaTreeFile list"

datatype entry_kind = DirEntry | FileEntry | OtherEntry

text \<open>One entry of the walk: its path, and the path without the root when it lies below.\<close>

record walk_entry =
  we_path :: rstring
  we_relative :: "rstring option"

record tree_host =
  th_sha256 :: "bytes \<Rightarrow> bytes"
  th_open :: opened_files
  th_prefix_ok :: "rstring \<Rightarrow> bool"
  th_kind :: "rstring \<Rightarrow> entry_kind option"
  th_walk :: "rstring \<Rightarrow> walk_entry option list"

datatype tree_error =
    TreePrefix
  | TreeMetadata
  | TreeRootKind
  | TreeWalk
  | TreeEscaped
  | TreeNotUtf8
  | TreeUnsafePath
  | TreeFileIo io_error
  | TreeSpecial
  | TreeTooLarge

definition tree_relative :: "walk_entry \<Rightarrow> (tree_error, rstring) result" where
  "tree_relative entry =
     rbind (ok_or (we_relative entry) TreeEscaped) (\<lambda>relative.
     ensure (utf8_valid relative) TreeNotUtf8
     (ensure (\<not> (length relative > 1024 \<or> \<not> valid_destination relative)) TreeUnsafePath (Inr relative)))"

definition tree_entry ::
  "tree_host \<Rightarrow> rstring list \<times> MediaTreeFile list \<Rightarrow> walk_entry option \<Rightarrow> (tree_error, rstring list \<times> MediaTreeFile list) result" where
  "tree_entry h st entry' =
     rbind (ok_or entry' TreeWalk) (\<lambda>entry.
     rbind (tree_relative entry) (\<lambda>relative.
     rbind (ok_or (th_kind h (we_path entry)) TreeMetadata) (\<lambda>kind.
     rbind (case kind of
              DirEntry \<Rightarrow> Inr (fst st @ [relative], snd st)
            | FileEntry \<Rightarrow>
                rbind (map_err TreeFileIo (measure_path (th_sha256 h) (th_open h) (we_path entry))) (\<lambda>measured.
                Inr (fst st, snd st @ [\<lparr>tf_relative = relative, tf_source_path = we_path entry,
                                        tf_sha256 = res_digest measured, tf_size_bytes = res_size measured\<rparr>]))
            | OtherEntry \<Rightarrow> Inl TreeSpecial) (\<lambda>st'.
     ensure (\<not> length (fst st') + length (snd st') > MAX_ENTRIES) TreeTooLarge (Inr st')))))"

fun tree_entries ::
  "tree_host \<Rightarrow> rstring list \<times> MediaTreeFile list \<Rightarrow> walk_entry option list \<Rightarrow> (tree_error, rstring list \<times> MediaTreeFile list) result" where
  "tree_entries h st [] = Inr st"
| "tree_entries h st (e # es) = rbind (tree_entry h st e) (\<lambda>st'. tree_entries h st' es)"

definition directory_line :: "rstring \<Rightarrow> bytes" where
  "directory_line d = ascii ''D'' @ [0] @ d @ [10]"

definition file_line :: "MediaTreeFile \<Rightarrow> bytes" where
  "file_line f =
     ascii ''F'' @ [0] @ tf_relative f @ [0] @ as_str (tf_sha256 f) @ [0] @ decimal (unat (tf_size_bytes f)) @ [10]"

text \<open>Everything the hasher absorbs.\<close>

definition tree_bytes :: "rstring list \<Rightarrow> MediaTreeFile list \<Rightarrow> bytes" where
  "tree_bytes directories files =
     ascii ''aros-media-tree-v1'' @ [0] @ concat (map directory_line directories) @ concat (map file_line files)"

definition measure_media_tree :: "tree_host \<Rightarrow> rstring \<Rightarrow> (tree_error, MediaTreeInventory) result" where
  "measure_media_tree h root =
     ensure (th_prefix_ok h root) TreePrefix
     (rbind (ok_or (th_kind h root) TreeMetadata) (\<lambda>kind.
      ensure (kind = DirEntry) TreeRootKind
      (rbind (tree_entries h ([], []) (th_walk h root)) (\<lambda>(directories, files).
       let directories' = sort directories; files' = sort_key tf_relative files
       in Inr \<lparr>ti_sha256 = sha256_bytes (th_sha256 h) (tree_bytes directories' files'), ti_directories = directories',
               ti_files = files'\<rparr>))))"

section \<open>What an inventory holds\<close>

definition tree_file_ok :: "tree_host \<Rightarrow> MediaTreeFile \<Rightarrow> bool" where
  "tree_file_ok h f =
     (valid_destination (tf_relative f) \<and> utf8_valid (tf_relative f) \<and>
      (\<exists>content. file_content (th_open h) (tf_source_path f) content \<and>
        tf_sha256 f = sha256_bytes (th_sha256 h) content \<and> unat (tf_size_bytes f) = length content))"

definition inventory_ok :: "tree_host \<Rightarrow> rstring list \<times> MediaTreeFile list \<Rightarrow> bool" where
  "inventory_ok h st =
     (list_all (\<lambda>d. valid_destination d \<and> utf8_valid d) (fst st) \<and> list_all (tree_file_ok h) (snd st) \<and>
      length (fst st) + length (snd st) \<le> MAX_ENTRIES)"

lemma tree_entry_ok:
  assumes "tree_entry h st e = Inr st'" "inventory_ok h st"
  shows "inventory_ok h st'"
proof -
  from assms(1) obtain entry relative kind where
    e: "e = Some entry" "tree_relative entry = Inr relative" "th_kind h (we_path entry) = Some kind" and
    small: "length (fst st') + length (snd st') \<le> MAX_ENTRIES" and
    step: "(case kind of
              DirEntry \<Rightarrow> Inr (fst st @ [relative], snd st)
            | FileEntry \<Rightarrow>
                rbind (map_err TreeFileIo (measure_path (th_sha256 h) (th_open h) (we_path entry))) (\<lambda>measured.
                Inr (fst st, snd st @ [\<lparr>tf_relative = relative, tf_source_path = we_path entry,
                                        tf_sha256 = res_digest measured, tf_size_bytes = res_size measured\<rparr>]))
            | OtherEntry \<Rightarrow> Inl TreeSpecial) = Inr st'"
    by (auto simp: tree_entry_def rbind_eq_Inr split: if_splits)
  have rel: "valid_destination relative" "utf8_valid relative"
    using e(2) by (auto simp: tree_relative_def rbind_eq_Inr split: if_splits)
  show ?thesis
  proof (cases kind)
    case DirEntry
    then show ?thesis using step small rel assms(2) by (auto simp: inventory_ok_def)
  next
    case FileEntry
    then obtain m where m: "measure_path (th_sha256 h) (th_open h) (we_path entry) = Inr m"
      "st' = (fst st, snd st @ [\<lparr>tf_relative = relative, tf_source_path = we_path entry, tf_sha256 = res_digest m,
         tf_size_bytes = res_size m\<rparr>])"
      using step by (auto simp: rbind_eq_Inr)
    then show ?thesis
      using small rel assms(2) measure_path_eq_Inr [OF m(1)] by (auto simp: inventory_ok_def tree_file_ok_def)
  next
    case OtherEntry
    then show ?thesis using step by simp
  qed
qed

lemma tree_entries_ok: "tree_entries h st es = Inr st' \<Longrightarrow> inventory_ok h st \<Longrightarrow> inventory_ok h st'"
  by (induction h st es rule: tree_entries.induct) (auto simp: rbind_eq_Inr dest: tree_entry_ok)

lemma measure_media_tree_eq_Inr:
  assumes "measure_media_tree h root = Inr ti"
  shows "inventory_ok h (ti_directories ti, ti_files ti)" "sorted (ti_directories ti)"
    "sorted (map tf_relative (ti_files ti))" "ti_sha256 ti = sha256_bytes (th_sha256 h) (tree_bytes (ti_directories ti) (ti_files ti))"
proof -
  from assms obtain ds fs where e: "tree_entries h ([], []) (th_walk h root) = Inr (ds, fs)" and
    ti: "ti_directories ti = sort ds" "ti_files ti = sort_key tf_relative fs"
      "ti_sha256 ti = sha256_bytes (th_sha256 h) (tree_bytes (ti_directories ti) (ti_files ti))"
    by (auto simp: measure_media_tree_def rbind_eq_Inr Let_def split: if_splits)
  have "inventory_ok h (ds, fs)" using tree_entries_ok [OF e] by (simp add: inventory_ok_def)
  then show "inventory_ok h (ti_directories ti, ti_files ti)" by (simp add: inventory_ok_def ti list_all_iff)
  show "sorted (ti_directories ti)" "sorted (map tf_relative (ti_files ti))" by (simp_all add: ti)
  show "ti_sha256 ti = sha256_bytes (th_sha256 h) (tree_bytes (ti_directories ti) (ti_files ti))" by (rule ti(3))
qed

section \<open>The hashed text determines the inventory\<close>

text \<open>What the digest identifies of a file.\<close>

definition file_key :: "MediaTreeFile \<Rightarrow> rstring \<times> Sha256Digest \<times> u64" where
  "file_key f = (tf_relative f, tf_sha256 f, tf_size_bytes f)"

lemma destination_no_control:
  assumes "valid_destination s" "utf8_valid s" "b \<in> set s"
  shows "32 \<le> unat b"
proof (rule ccontr)
  assume small: "\<not> 32 \<le> unat b"
  obtain part where part: "part \<in> set (split_on (\<lambda>b. b = SLASH) s)" "b \<in> set part"
  proof -
    have "b \<noteq> SLASH" using small by (auto simp: SLASH_def)
    then have "\<exists>part\<in>set (split_on (\<lambda>b. b = SLASH) s). b \<in> set part" using assms(3)
    proof (induction s)
      case (Cons x s)
      then show ?case by (cases "split_on (\<lambda>b. b = SLASH) s") auto
    qed simp
    then show thesis using that by blast
  qed
  have "utf8_valid part" using utf8_valid_split_on [OF assms(2) _ part(1)] by (simp add: SLASH_def)
  then obtain cs where cs: "utf8_chars part = Some cs" by (auto simp: utf8_valid_def)
  have "unat b \<in> set cs" using ascii_in_chars [OF cs part(2)] small by simp
  moreover have "is_control (unat b)" using small by (simp add: is_control_def)
  ultimately have "list_ex is_control (str_chars part)" using cs by (auto simp: str_chars_def list_ex_iff)
  then show False using assms(1) part(1) by (auto simp: valid_destination_def list_all_iff)
qed

definition line_bodies :: "rstring list \<Rightarrow> MediaTreeFile list \<Rightarrow> bytes list" where
  "line_bodies ds fs =
     map (\<lambda>d. 68 # 0 # d) ds @
     map (\<lambda>f. 70 # 0 # tf_relative f @ 0 # as_str (tf_sha256 f) @ 0 # decimal (unat (tf_size_bytes f))) fs"

lemma tree_bytes_lines: "tree_bytes ds fs = (ascii ''aros-media-tree-v1'' @ [0]) @ concat (map (\<lambda>l. l @ [10]) (line_bodies ds fs))"
proof -
  have "ascii ''D'' = [68]" "ascii ''F'' = [70]" by (simp_all add: ascii_def)
  then have "directory_line = (\<lambda>d. (68 # 0 # d) @ [10])"
    "file_line = (\<lambda>f. (70 # 0 # tf_relative f @ 0 # as_str (tf_sha256 f) @ 0 # decimal (unat (tf_size_bytes f))) @ [10])"
    by (simp_all add: fun_eq_iff directory_line_def file_line_def)
  then show ?thesis by (simp only: tree_bytes_def line_bodies_def map_append map_map comp_def concat_append append_assoc)
qed

lemma concat_lines_inject:
  assumes "\<forall>l\<in>set xs \<union> set ys. 10 \<notin> set l" "concat (map (\<lambda>l. l @ [10]) xs) = concat (map (\<lambda>l. l @ [10]) ys)"
  shows "xs = (ys :: bytes list)"
proof -
  have "split_on (\<lambda>b. b = 10) (concat (map (\<lambda>l. l @ [10]) zs)) = zs @ [[]]" if "\<forall>l\<in>set zs. 10 \<notin> set l" for zs :: "bytes list"
    using that
  proof (induction zs)
    case (Cons z zs)
    then have "split_on (\<lambda>b. b = 10) (z @ 10 # concat (map (\<lambda>l. l @ [10]) zs)) = z # split_on (\<lambda>b. b = 10) (concat (map (\<lambda>l. l @ [10]) zs))"
      by (intro split_on_append_sep) auto
    with Cons show ?case by simp
  qed simp
  then show ?thesis using assms by (metis UnI1 UnI2 append1_eq_conv)
qed

lemma field_inject:
  assumes "l @ c # r = l' @ c # r'" "c \<notin> set l" "c \<notin> set l'"
  shows "l = l' \<and> r = r'"
proof -
  have "split_once c (l @ c # r) = Some (l, r)" using assms(2) by (simp add: split_once_eq_Some)
  moreover have "split_once c (l @ c # r) = Some (l', r')" unfolding assms(1) using assms(3) by (simp add: split_once_eq_Some)
  ultimately show ?thesis by simp
qed

lemma decimal_inject: "decimal m = decimal n \<Longrightarrow> m = n"
  by (metis digits_value_decimal option.inject)

lemma hex_text: "b \<in> set (as_str (sha256_bytes sha256 bs)) \<Longrightarrow> 48 \<le> unat b"
  using digest_text [of b "sha256 bs"] by (auto simp: sha256_bytes_def is_ascii_hexdigit_def is_ascii_digit_def word_le_nat_alt)

lemma decimal_text: "b \<in> set (decimal n) \<Longrightarrow> 48 \<le> unat b"
  using decimal_is_digit [of b n] by (auto simp: is_ascii_digit_def word_le_nat_alt)

lemma file_body_inject:
  assumes "tree_file_ok h f" "tree_file_ok h' g"
    "tf_relative f @ 0 # as_str (tf_sha256 f) @ 0 # decimal (unat (tf_size_bytes f)) =
     tf_relative g @ 0 # as_str (tf_sha256 g) @ 0 # decimal (unat (tf_size_bytes g))"
  shows "file_key f = file_key g"
proof -
  have no0: "0 \<notin> set (tf_relative x)" "0 \<notin> set (as_str (tf_sha256 x))" if "tree_file_ok k x" for k x
    using that destination_no_control [of "tf_relative x" 0] hex_text [of 0] by (auto simp: tree_file_ok_def)
  have r: "tf_relative f = tf_relative g" and
    rest: "as_str (tf_sha256 f) @ 0 # decimal (unat (tf_size_bytes f)) = as_str (tf_sha256 g) @ 0 # decimal (unat (tf_size_bytes g))"
    using field_inject [OF assms(3) no0(1) [OF assms(1)] no0(1) [OF assms(2)]] by auto
  have "as_str (tf_sha256 f) = as_str (tf_sha256 g)" "decimal (unat (tf_size_bytes f)) = decimal (unat (tf_size_bytes g))"
    using field_inject [OF rest no0(2) [OF assms(1)] no0(2) [OF assms(2)]] by auto
  with r show ?thesis
    by (auto simp: file_key_def word_unat_eq_iff dest!: decimal_inject intro: Sha256Digest.expand)
qed

lemma line_bodies_no_newline:
  assumes "inventory_ok h (ds, fs)" "l \<in> set (line_bodies ds fs)"
  shows "10 \<notin> set l"
proof
  assume ten: "10 \<in> set l"
  from assms(2) consider d where "d \<in> set ds" "l = 68 # 0 # d"
    | f where "f \<in> set fs" "l = 70 # 0 # tf_relative f @ 0 # as_str (tf_sha256 f) @ 0 # decimal (unat (tf_size_bytes f))"
    by (auto simp: line_bodies_def)
  then show False
  proof cases
    case 1
    then show False using ten assms(1) destination_no_control [of d 10] by (auto simp: inventory_ok_def list_all_iff)
  next
    case 2
    then have ok: "tree_file_ok h f" using assms(1) by (simp add: inventory_ok_def list_all_iff)
    then show False
      using 2(2) ten destination_no_control [of "tf_relative f" 10] hex_text [of 10] decimal_text [of 10]
      by (auto simp: tree_file_ok_def)
  qed
qed

lemma line_bodies_inject:
  assumes "inventory_ok h (ds, fs)" "inventory_ok h' (ds', fs')" "line_bodies ds fs = line_bodies ds' fs'"
  shows "ds = ds' \<and> map file_key fs = map file_key fs'"
proof -
  have split: "filter (\<lambda>l. hd l = 68) (line_bodies xs ys) = map (\<lambda>d. 68 # 0 # d) xs"
    "filter (\<lambda>l. hd l \<noteq> 68) (line_bodies xs ys) =
       map (\<lambda>f. 70 # 0 # tf_relative f @ 0 # as_str (tf_sha256 f) @ 0 # decimal (unat (tf_size_bytes f))) ys" for xs ys
    by (simp_all add: line_bodies_def filter_map comp_def)
  have "map (\<lambda>d. 68 # 0 # d) ds = map (\<lambda>d. 68 # 0 # d) ds'"
    using arg_cong [OF assms(3), of "filter (\<lambda>l. hd l = 68)"] by (simp only: split)
  moreover have files: "map (\<lambda>f. 70 # 0 # tf_relative f @ 0 # as_str (tf_sha256 f) @ 0 # decimal (unat (tf_size_bytes f))) fs =
      map (\<lambda>f. 70 # 0 # tf_relative f @ 0 # as_str (tf_sha256 f) @ 0 # decimal (unat (tf_size_bytes f))) fs'"
    using arg_cong [OF assms(3), of "filter (\<lambda>l. hd l \<noteq> 68)"] by (simp only: split)
  have len: "length fs = length fs'" using arg_cong [OF files, of length] by simp
  have "map file_key fs = map file_key fs'"
  proof (rule nth_equalityI)
    fix i assume "i < length (map file_key fs)"
    then have i: "i < length fs" "i < length fs'" using len by simp_all
    have "tree_file_ok h (fs ! i)" "tree_file_ok h' (fs' ! i)" using assms(1,2) i by (simp_all add: inventory_ok_def list_all_iff)
    with arg_cong [OF files, of "\<lambda>l. l ! i"] i have "file_key (fs ! i) = file_key (fs' ! i)" by (intro file_body_inject) auto
    then show "map file_key fs ! i = map file_key fs' ! i" using i by simp
  qed (simp add: len)
  ultimately show ?thesis by (simp add: inj_map_eq_map inj_def)
qed

section \<open>A sample tree\<close>

definition walked_host :: tree_host where
  "walked_host =
     \<lparr>th_sha256 = sample_hash, th_open = \<lambda>_. Some [Inr [1, 2], Inr [3], Inr []], th_prefix_ok = \<lambda>_. True,
      th_kind = \<lambda>path. Some (if path = ascii ''/t/d/a'' then FileEntry else DirEntry),
      th_walk = \<lambda>_. [Some \<lparr>we_path = ascii ''/t/d'', we_relative = Some (ascii ''d'')\<rparr>,
                      Some \<lparr>we_path = ascii ''/t/d/a'', we_relative = Some (ascii ''d/a'')\<rparr>]\<rparr>"

lemma walked_inventory:
  obtains inventory where "measure_media_tree walked_host (ascii ''/t'') = Inr inventory" "ti_directories inventory = [ascii ''d'']"
    "map file_key (ti_files inventory) = [(ascii ''d/a'', Sha256Digest sample_digest, 3)]"
proof -
  have paths: "valid_destination (ascii ''d'')" "valid_destination (ascii ''d/a'')" "utf8_valid (ascii ''d'')" "utf8_valid (ascii ''d/a'')"
    "length (ascii ''d/a'') = 3" "length (ascii ''d'') = 1" "ascii ''/t'' \<noteq> ascii ''/t/d/a''" "ascii ''/t/d'' \<noteq> ascii ''/t/d/a''"
    by code_simp+
  have "measure_path sample_hash (\<lambda>_. Some [Inr [1, 2], Inr [3], Inr []]) path = Inr \<lparr>res_digest = Sha256Digest sample_digest, res_size = 3\<rparr>"
    for path by (simp add: measure_path_def sample_sha256 flip: sha256_bytes_def)
  then have
    "tree_entry walked_host ([], []) (Some \<lparr>we_path = ascii ''/t/d'', we_relative = Some (ascii ''d'')\<rparr>) = Inr ([ascii ''d''], [])"
    "tree_entry walked_host ([ascii ''d''], []) (Some \<lparr>we_path = ascii ''/t/d/a'', we_relative = Some (ascii ''d/a'')\<rparr>) =
      Inr ([ascii ''d''], [\<lparr>tf_relative = ascii ''d/a'', tf_source_path = ascii ''/t/d/a'', tf_sha256 = Sha256Digest sample_digest, tf_size_bytes = 3\<rparr>])"
    by (simp_all add: walked_host_def tree_entry_def tree_relative_def paths MAX_ENTRIES_def)
  moreover have "th_walk walked_host (ascii ''/t'') = [Some \<lparr>we_path = ascii ''/t/d'', we_relative = Some (ascii ''d'')\<rparr>,
      Some \<lparr>we_path = ascii ''/t/d/a'', we_relative = Some (ascii ''d/a'')\<rparr>]"
    by (simp add: walked_host_def)
  ultimately have "tree_entries walked_host ([], []) (th_walk walked_host (ascii ''/t'')) =
      Inr ([ascii ''d''], [\<lparr>tf_relative = ascii ''d/a'', tf_source_path = ascii ''/t/d/a'', tf_sha256 = Sha256Digest sample_digest, tf_size_bytes = 3\<rparr>])"
    by simp
  moreover have "th_prefix_ok walked_host (ascii ''/t'')" "th_kind walked_host (ascii ''/t'') = Some DirEntry"
    by (simp_all add: walked_host_def paths)
  ultimately have "\<exists>inventory. measure_media_tree walked_host (ascii ''/t'') = Inr inventory \<and> ti_directories inventory = [ascii ''d''] \<and>
      map file_key (ti_files inventory) = [(ascii ''d/a'', Sha256Digest sample_digest, 3)]"
    by (simp add: measure_media_tree_def file_key_def Let_def)
  then show thesis by (elim exE conjE) (rule that)
qed

section \<open>Properties\<close>

text \<open>
  C34. The digest of a tree identifies it: the text that is hashed for two measured trees is the
  same exactly when both have the same directories and the same files with the same sizes and
  digests. No name, size or digest can be moved across a field or line of that text.
\<close>

theorem media_tree_digest_binds:
  assumes "measure_media_tree h root = Inr a" and "measure_media_tree h' root' = Inr b"
  shows "(tree_bytes (ti_directories a) (ti_files a) = tree_bytes (ti_directories b) (ti_files b) \<longleftrightarrow>
      ti_directories a = ti_directories b \<and> map file_key (ti_files a) = map file_key (ti_files b)) \<and>
    ti_sha256 a = sha256_bytes (th_sha256 h) (tree_bytes (ti_directories a) (ti_files a))"
proof -
  note ia = measure_media_tree_eq_Inr [OF assms(1)] and ib = measure_media_tree_eq_Inr [OF assms(2)]
  let ?la = "line_bodies (ti_directories a) (ti_files a)" and ?lb = "line_bodies (ti_directories b) (ti_files b)"
  have "\<forall>l\<in>set ?la \<union> set ?lb. 10 \<notin> set l"
    using line_bodies_no_newline [OF ia(1)] line_bodies_no_newline [OF ib(1)] by blast
  then have "tree_bytes (ti_directories a) (ti_files a) = tree_bytes (ti_directories b) (ti_files b) \<longleftrightarrow> ?la = ?lb"
    unfolding tree_bytes_lines by (auto dest: concat_lines_inject)
  also have "\<dots> \<longleftrightarrow> ti_directories a = ti_directories b \<and> map file_key (ti_files a) = map file_key (ti_files b)"
  proof
    assume "?la = ?lb"
    then show "ti_directories a = ti_directories b \<and> map file_key (ti_files a) = map file_key (ti_files b)"
      by (rule line_bodies_inject [OF ia(1) ib(1)])
  next
    have "line_bodies ds fs =
        map (\<lambda>d. 68 # 0 # d) ds @ map (\<lambda>(r, s, n). 70 # 0 # r @ 0 # as_str s @ 0 # decimal (unat n)) (map file_key fs)" for ds fs
      by (simp add: line_bodies_def file_key_def comp_def)
    then show "?la = ?lb" if "ti_directories a = ti_directories b \<and> map file_key (ti_files a) = map file_key (ti_files b)"
      using that by (simp only:)
  qed
  finally show ?thesis using ia(4) by simp
qed

theorem media_tree_digest_binds_witness:
  "\<exists>a. measure_media_tree walked_host (ascii ''/t'') = Inr a \<and> ti_directories a = [ascii ''d''] \<and>
     ti_sha256 a = sha256_bytes sample_hash (tree_bytes (ti_directories a) (ti_files a))"
proof -
  obtain a where a: "measure_media_tree walked_host (ascii ''/t'') = Inr a" "ti_directories a = [ascii ''d'']"
    by (rule walked_inventory)
  with media_tree_digest_binds [OF a(1) a(1)] show ?thesis by (auto simp: walked_host_def)
qed

end
