(* ===== verification/Media_Receipt.thy ===== *)
theory Media_Receipt
  imports Media_Tree
begin

text \<open>
  Receipts of built media inputs, \<open>crates/aros-common/src/media_receipt.rs\<close>: their check and the
  remeasurement of what they declare. The JSON reader and writer, \<open>canonicalize\<close> and \<open>is_dir\<close>
  are parameters.
\<close>

section \<open>Data\<close>

definition RECEIPT_FORMAT_VERSION :: u32 where "RECEIPT_FORMAT_VERSION = 1"
definition BOUND_FORMAT_VERSION :: u32 where "BOUND_FORMAT_VERSION = 2"
definition RECEIPT_TREE_FORMAT_VERSION :: u32 where "RECEIPT_TREE_FORMAT_VERSION = 3"
definition KIND :: rstring where "KIND = ascii ''aros-media-inputs''"
definition MAX_RECEIPT_BYTES :: usize where "MAX_RECEIPT_BYTES = 1024 * 1024"
definition MAX_FILES :: usize where "MAX_FILES = 1024"

record MediaBuildFile =
  bf_role :: rstring
  bf_path :: rstring
  bf_sha256 :: rstring
  bf_size_bytes :: u64

record MediaBuildTree =
  bt_role :: rstring
  bt_path :: rstring
  bt_sha256 :: Sha256Digest
  bt_file_count :: usize
  bt_directory_count :: usize

datatype MediaReceiptOrigin = Cmake | LegacyV1

record MediaBuildIdentity =
  source_commit :: rstring
  source_tree :: rstring
  toolchain_release_id :: rstring
  toolchain_tree_sha256 :: Sha256Digest
  toolchain_manifest_sha256 :: Sha256Digest

record MediaBuildReceipt =
  br_format_version :: u32
  br_kind :: rstring
  br_origin :: MediaReceiptOrigin
  br_target_preset :: rstring
  br_model :: rstring
  br_transport :: rstring
  br_build_identity :: "MediaBuildIdentity option"
  br_files :: "MediaBuildFile list"
  br_trees :: "MediaBuildTree list"

datatype receipt_error =
    ReceiptTooLarge
  | ReceiptSyntax
  | ReceiptNotSerialized
  | ReceiptVersion
  | ReceiptDisagrees
  | GitObjectId string
  | ReleaseId
  | ReceiptTarget
  | ReceiptSlug string
  | ReceiptFileCount
  | FileRole
  | FilePathUnsafe
  | FilePathNotPortable
  | FilePathDuplicate
  | FileDigest
  | ReceiptTreeRole
  | TreePath
  | TreeCardinality
  | ReceiptProfile
  | ClaimsExternal rstring
  | MissingRole rstring
  | TreeRolesDiffer
  | RootNotFound
  | RootNotDirectory
  | ReceiptIo io_error
  | FileDiffers rstring
  | ReceiptTreeIo tree_error
  | TreeDiffers rstring
  | NoIdentity
  | IdentityDiffers

record receipt_host =
  rh_json_decode :: "bytes \<Rightarrow> MediaBuildReceipt option"
  rh_json_encode :: "MediaBuildReceipt \<Rightarrow> bytes option"
  rh_canonicalize :: "rstring \<Rightarrow> rstring option"
  rh_is_dir :: "rstring \<Rightarrow> bool"
  rh_tree :: tree_host

section \<open>The check of a receipt\<close>

definition git_object_id :: "rstring \<Rightarrow> bool" where
  "git_object_id value = (\<not> (length value \<noteq> 40 \<or> \<not> list_all (\<lambda>b. is_ascii_digit b \<or> 97 \<le> b \<and> b \<le> 102) value))"

definition release_id_ok :: "rstring \<Rightarrow> bool" where
  "release_id_ok value =
     (\<not> (value = [] \<or> length value > 128 \<or> trim value \<noteq> value \<or> list_ex is_control (str_chars value)))"

definition validate_media_build_identity :: "MediaBuildIdentity \<Rightarrow> (receipt_error, unit) result" where
  "validate_media_build_identity identity =
     ensure (git_object_id (source_commit identity)) (GitObjectId ''source_commit'')
     (ensure (git_object_id (source_tree identity)) (GitObjectId ''source_tree'')
     (ensure (release_id_ok (toolchain_release_id identity)) ReleaseId (Inr ())))"

definition receipt_valid_slug :: "rstring \<Rightarrow> bool" where
  "receipt_valid_slug value =
     (value \<noteq> [] \<and> (is_ascii_lowercase (hd value) \<or> is_ascii_digit (hd value)) \<and>
      list_all (\<lambda>b. is_ascii_lowercase b \<or> is_ascii_digit b \<or> b = 45) value)"

definition check_binding :: "MediaBuildReceipt \<Rightarrow> (receipt_error, unit) result" where
  "check_binding r =
     (case (br_origin r, br_build_identity r) of
        (_, None) \<Rightarrow>
          ensure (br_format_version r = RECEIPT_FORMAT_VERSION \<and> br_trees r = []) ReceiptDisagrees (Inr ())
      | (Cmake, Some identity) \<Rightarrow>
          ensure (br_format_version r = BOUND_FORMAT_VERSION \<and> br_trees r = [] \<or>
                  br_format_version r = RECEIPT_TREE_FORMAT_VERSION \<and> br_trees r \<noteq> []) ReceiptDisagrees
            (validate_media_build_identity identity)
      | (LegacyV1, Some _) \<Rightarrow> Inl ReceiptDisagrees)"

definition safe_file_path :: "rstring \<Rightarrow> bool" where
  "safe_file_path path =
     (\<not> (path = [] \<or> 92 \<in> set path \<or>
         list_ex (\<lambda>part. part = [] \<or> part = [46] \<or> part = [46, 46]) (split_on (\<lambda>b. b = SLASH) path)))"

fun check_receipt_files ::
  "rstring set \<Rightarrow> rstring set \<Rightarrow> MediaBuildFile list \<Rightarrow> (receipt_error, rstring set) result" where
  "check_receipt_files roles paths [] = Inr roles"
| "check_receipt_files roles paths (f # fs) =
     ensure (\<not> (\<not> receipt_valid_slug (bf_role f) \<or> bf_role f \<in> roles)) FileRole
     (ensure (safe_file_path (bf_path f)) FilePathUnsafe
     (rbind (map_err (\<lambda>_. FilePathNotPortable) (casefold_path_key (bf_path f))) (\<lambda>folded.
      ensure (folded \<notin> paths) FilePathDuplicate
      (rbind (map_err (\<lambda>_. FileDigest) (digest_parse (bf_sha256 f))) (\<lambda>_.
       check_receipt_files (insert (bf_role f) roles) (insert folded paths) fs)))))"

fun check_receipt_trees ::
  "rstring set \<Rightarrow> rstring set \<Rightarrow> rstring set \<Rightarrow> MediaBuildTree list \<Rightarrow> (receipt_error, unit) result" where
  "check_receipt_trees roles tree_roles tree_paths [] = Inr ()"
| "check_receipt_trees roles tree_roles tree_paths (t # ts) =
     ensure (\<not> (\<not> receipt_valid_slug (bt_role t) \<or> bt_role t \<in> tree_roles \<or> bt_role t \<in> roles)) ReceiptTreeRole
     (ensure (\<not> (\<not> valid_destination (bt_path t) \<or> bt_path t \<in> tree_paths)) TreePath
     (ensure (\<not> (bt_file_count t = 0 \<or> bt_file_count t > 20000 \<or> bt_directory_count t > 20000)) TreeCardinality
       (check_receipt_trees roles (insert (bt_role t) tree_roles) (insert (bt_path t) tree_paths) ts)))"

definition validate_receipt :: "receipt_host \<Rightarrow> MediaBuildReceipt \<Rightarrow> (receipt_error, unit) result" where
  "validate_receipt h r =
     rbind (ok_or (rh_json_encode h r) ReceiptNotSerialized) (\<lambda>encoded.
     ensure (\<not> length encoded > MAX_RECEIPT_BYTES) ReceiptTooLarge
     (ensure (\<not> (br_format_version r \<notin> {RECEIPT_FORMAT_VERSION, BOUND_FORMAT_VERSION, RECEIPT_TREE_FORMAT_VERSION} \<or>
                 br_kind r \<noteq> KIND)) ReceiptVersion
     (rbind (check_binding r) (\<lambda>_.
      ensure (valid_target_preset (br_target_preset r)) ReceiptTarget
      (ensure (receipt_valid_slug (br_model r)) (ReceiptSlug ''model'')
      (ensure (receipt_valid_slug (br_transport r)) (ReceiptSlug ''transport'')
      (ensure (\<not> (br_files r = [] \<or> length (br_files r) > MAX_FILES)) ReceiptFileCount
      (rbind (check_receipt_files {} {} (br_files r)) (\<lambda>roles.
       check_receipt_trees roles {} {} (br_trees r))))))))))"

definition parse_media_build_receipt :: "receipt_host \<Rightarrow> bytes \<Rightarrow> (receipt_error, MediaBuildReceipt) result" where
  "parse_media_build_receipt h bs =
     ensure (\<not> length bs > MAX_RECEIPT_BYTES) ReceiptTooLarge
     (rbind (ok_or (rh_json_decode h bs) ReceiptSyntax) (\<lambda>receipt.
      rbind (validate_receipt h receipt) (\<lambda>_. Inr receipt)))"

text \<open>The constructors \<open>MediaBuildReceipt::new\<close>, \<open>new_bound_cmake\<close>, \<open>new_bound_cmake_with_trees\<close>.\<close>

definition receipt_new ::
  "receipt_host \<Rightarrow> MediaReceiptOrigin \<Rightarrow> rstring \<Rightarrow> rstring \<Rightarrow> rstring \<Rightarrow> MediaBuildFile list \<Rightarrow> (receipt_error, MediaBuildReceipt) result" where
  "receipt_new h origin target_preset model transport files =
     (let receipt = \<lparr>br_format_version = RECEIPT_FORMAT_VERSION, br_kind = KIND, br_origin = origin,
            br_target_preset = target_preset, br_model = model, br_transport = transport, br_build_identity = None,
            br_files = files, br_trees = []\<rparr>
      in rbind (validate_receipt h receipt) (\<lambda>_. Inr receipt))"

definition receipt_new_bound_cmake ::
  "receipt_host \<Rightarrow> rstring \<Rightarrow> rstring \<Rightarrow> rstring \<Rightarrow> MediaBuildIdentity \<Rightarrow> MediaBuildFile list \<Rightarrow> (receipt_error, MediaBuildReceipt) result" where
  "receipt_new_bound_cmake h target_preset model transport identity files =
     (let receipt = \<lparr>br_format_version = BOUND_FORMAT_VERSION, br_kind = KIND, br_origin = Cmake,
            br_target_preset = target_preset, br_model = model, br_transport = transport, br_build_identity = Some identity,
            br_files = files, br_trees = []\<rparr>
      in rbind (validate_receipt h receipt) (\<lambda>_. Inr receipt))"

definition receipt_new_bound_cmake_with_trees ::
  "receipt_host \<Rightarrow> rstring \<Rightarrow> rstring \<Rightarrow> rstring \<Rightarrow> MediaBuildIdentity \<Rightarrow> MediaBuildFile list \<Rightarrow> MediaBuildTree list \<Rightarrow>
     (receipt_error, MediaBuildReceipt) result" where
  "receipt_new_bound_cmake_with_trees h target_preset model transport identity files trees =
     (let receipt = \<lparr>br_format_version = RECEIPT_TREE_FORMAT_VERSION, br_kind = KIND, br_origin = Cmake,
            br_target_preset = target_preset, br_model = model, br_transport = transport, br_build_identity = Some identity,
            br_files = files, br_trees = trees\<rparr>
      in rbind (validate_receipt h receipt) (\<lambda>_. Inr receipt))"

section \<open>Remeasurement\<close>

fun check_required_roles ::
  "MediaReceiptOrigin \<Rightarrow> rstring set \<Rightarrow> RequiredMediaFile list \<Rightarrow> (receipt_error, unit) result" where
  "check_required_roles origin actual [] = Inr ()"
| "check_required_roles origin actual (required # rest) =
     (if origin = Cmake \<and> rf_external_input required \<noteq> None
      then ensure (rf_role required \<notin> actual) (ClaimsExternal (rf_role required)) (check_required_roles origin actual rest)
      else ensure (rf_role required \<in> actual) (MissingRole (rf_role required)) (check_required_roles origin actual rest))"

fun verify_build_files :: "receipt_host \<Rightarrow> rstring \<Rightarrow> MediaBuildFile list \<Rightarrow> (receipt_error, unit) result" where
  "verify_build_files h root [] = Inr ()"
| "verify_build_files h root (declared # rest) =
     rbind (map_err ReceiptIo (measure_path (th_sha256 (rh_tree h)) (th_open (rh_tree h)) (path_join root (bf_path declared))))
       (\<lambda>actual.
     rbind (map_err (\<lambda>_. FileDigest) (digest_parse (bf_sha256 declared))) (\<lambda>expected.
     ensure (\<not> (res_size actual \<noteq> bf_size_bytes declared \<or> res_digest actual \<noteq> expected)) (FileDiffers (bf_role declared))
       (verify_build_files h root rest)))"

fun verify_build_trees :: "receipt_host \<Rightarrow> rstring \<Rightarrow> MediaBuildTree list \<Rightarrow> (receipt_error, unit) result" where
  "verify_build_trees h root [] = Inr ()"
| "verify_build_trees h root (declared # rest) =
     rbind (map_err ReceiptTreeIo (measure_media_tree (rh_tree h) (path_join root (bt_path declared)))) (\<lambda>measured.
     ensure (\<not> (ti_sha256 measured \<noteq> bt_sha256 declared \<or> length (ti_files measured) \<noteq> bt_file_count declared \<or>
                length (ti_directories measured) \<noteq> bt_directory_count declared)) (TreeDiffers (bt_role declared))
       (verify_build_trees h root rest))"

definition verify_media_build_receipt ::
  "receipt_host \<Rightarrow> rstring \<Rightarrow> MediaBuildReceipt \<Rightarrow> MediaProfile \<Rightarrow> (receipt_error, unit) result" where
  "verify_media_build_receipt h root receipt profile =
     rbind (validate_receipt h receipt) (\<lambda>_.
     ensure (\<not> (br_target_preset receipt \<noteq> mp_target_preset profile \<or> br_model receipt \<noteq> mp_model profile \<or>
                br_transport receipt \<noteq> mp_transport profile)) ReceiptProfile
     (rbind (check_required_roles (br_origin receipt) (set (map bf_role (br_files receipt))) (mp_required_files profile)) (\<lambda>_.
      ensure (set (map rt_role (mp_required_trees profile)) = set (map bt_role (br_trees receipt))) TreeRolesDiffer
      (rbind (ok_or (rh_canonicalize h root) RootNotFound) (\<lambda>root'.
       ensure (rh_is_dir h root') RootNotDirectory
       (rbind (verify_build_files h root' (br_files receipt)) (\<lambda>_.
        verify_build_trees h root' (br_trees receipt))))))))"

section \<open>The declarative form of a valid receipt\<close>

definition identity_ok :: "MediaBuildIdentity \<Rightarrow> bool" where
  "identity_ok i = (git_object_id (source_commit i) \<and> git_object_id (source_tree i) \<and> release_id_ok (toolchain_release_id i))"

definition build_file_ok :: "MediaBuildFile \<Rightarrow> bool" where
  "build_file_ok f =
     (valid_slug (bf_role f) \<and> safe_file_path (bf_path f) \<and> is_ok (casefold_path_key (bf_path f)) \<and> is_ok (digest_parse (bf_sha256 f)))"

definition build_tree_ok :: "MediaBuildTree \<Rightarrow> bool" where
  "build_tree_ok t =
     (valid_slug (bt_role t) \<and> valid_destination (bt_path t) \<and> 0 < bt_file_count t \<and> bt_file_count t \<le> 20000 \<and>
      bt_directory_count t \<le> 20000)"

text \<open>What the version of a receipt says about its origin.\<close>

definition binding_ok :: "MediaBuildReceipt \<Rightarrow> bool" where
  "binding_ok r =
     (br_format_version r = 1 \<and> br_build_identity r = None \<and> br_trees r = [] \<or>
      br_origin r = Cmake \<and> (\<exists>i. br_build_identity r = Some i \<and> identity_ok i) \<and>
        (br_format_version r = 2 \<and> br_trees r = [] \<or> br_format_version r = 3 \<and> br_trees r \<noteq> []))"

definition receipt_ok :: "receipt_host \<Rightarrow> MediaBuildReceipt \<Rightarrow> bool" where
  "receipt_ok h r =
     ((\<exists>encoded. rh_json_encode h r = Some encoded \<and> length encoded \<le> MAX_RECEIPT_BYTES) \<and> br_kind r = KIND \<and> binding_ok r \<and>
      valid_target_preset (br_target_preset r) \<and> valid_slug (br_model r) \<and> valid_slug (br_transport r) \<and>
      br_files r \<noteq> [] \<and> length (br_files r) \<le> MAX_FILES \<and> list_all build_file_ok (br_files r) \<and>
      list_all build_tree_ok (br_trees r) \<and> distinct (map bf_role (br_files r) @ map bt_role (br_trees r)) \<and>
      distinct (map (\<lambda>f. casefold_path_key (bf_path f)) (br_files r)) \<and> distinct (map bt_path (br_trees r)))"

lemma receipt_valid_slug_eq: "receipt_valid_slug = valid_slug"
  by (auto simp: fun_eq_iff receipt_valid_slug_def valid_slug_def slug_start_def list_all_iff)

lemma check_binding_eq_Inr: "check_binding r = Inr u \<longleftrightarrow> binding_ok r"
proof (cases "br_build_identity r")
  case None
  then show ?thesis
    by (cases "br_origin r") (auto simp: check_binding_def binding_ok_def RECEIPT_FORMAT_VERSION_def)
next
  case (Some i)
  then show ?thesis
    by (cases "br_origin r")
      (auto simp: check_binding_def binding_ok_def validate_media_build_identity_def identity_ok_def
        BOUND_FORMAT_VERSION_def RECEIPT_TREE_FORMAT_VERSION_def)
qed

lemma check_receipt_files_eq_Inr:
  "check_receipt_files roles paths fs = Inr out \<longleftrightarrow>
     list_all build_file_ok fs \<and> distinct (map bf_role fs) \<and> set (map bf_role fs) \<inter> roles = {} \<and>
     distinct (map (\<lambda>f. casefold_path_key (bf_path f)) fs) \<and>
     set (map (\<lambda>f. casefold_path_key (bf_path f)) fs) \<inter> Inr ` paths = {} \<and> out = set (map bf_role fs) \<union> roles"
proof (induction fs arbitrary: roles paths)
  case (Cons f fs)
  show ?case
  proof (cases "build_file_ok f \<and> bf_role f \<notin> roles \<and> casefold_path_key (bf_path f) \<notin> Inr ` paths")
    case True
    then obtain folded d where "casefold_path_key (bf_path f) = Inr folded" "digest_parse (bf_sha256 f) = Inr d" "folded \<notin> paths"
      by (auto simp: build_file_ok_def is_ok_iff)
    with True have "check_receipt_files roles paths (f # fs) = check_receipt_files (insert (bf_role f) roles) (insert folded paths) fs"
      by (simp add: build_file_ok_def receipt_valid_slug_eq)
    then show ?thesis using True \<open>casefold_path_key (bf_path f) = Inr folded\<close> by (auto simp: Cons.IH)
  next
    case False
    then have "check_receipt_files roles paths (f # fs) \<noteq> Inr out"
      by (auto simp: rbind_eq_Inr build_file_ok_def receipt_valid_slug_eq is_ok_iff image_iff)
    then show ?thesis using False by auto
  qed
qed auto

lemma check_receipt_trees_eq_Inr:
  "check_receipt_trees roles tree_roles tree_paths ts = Inr () \<longleftrightarrow>
     list_all build_tree_ok ts \<and> distinct (map bt_role ts) \<and> set (map bt_role ts) \<inter> (roles \<union> tree_roles) = {} \<and>
     distinct (map bt_path ts) \<and> set (map bt_path ts) \<inter> tree_paths = {}"
proof (induction ts arbitrary: tree_roles tree_paths)
  case (Cons t ts)
  show ?case
    unfolding check_receipt_trees.simps ensure_eq_Inr Cons.IH receipt_valid_slug_eq by (auto simp: build_tree_ok_def [of t])
qed simp

lemma validate_receipt_iff: "validate_receipt h r = Inr () \<longleftrightarrow> receipt_ok h r"
proof -
  have versions: "br_format_version r \<in> {RECEIPT_FORMAT_VERSION, BOUND_FORMAT_VERSION, RECEIPT_TREE_FORMAT_VERSION}"
    if "binding_ok r"
    using that
    by (auto simp: binding_ok_def RECEIPT_FORMAT_VERSION_def BOUND_FORMAT_VERSION_def RECEIPT_TREE_FORMAT_VERSION_def)
  show ?thesis
    unfolding validate_receipt_def rbind_eq_Inr ensure_eq_Inr check_binding_eq_Inr check_receipt_files_eq_Inr
      check_receipt_trees_eq_Inr receipt_valid_slug_eq receipt_ok_def
    using versions by (auto simp: not_less)
qed

text \<open>Every constructor returns a valid receipt or an error.\<close>

lemma receipt_constructors_ok:
  "receipt_new h origin t m tr files = Inr r \<Longrightarrow> receipt_ok h r \<and> br_build_identity r = None"
  "receipt_new_bound_cmake h t m tr i files = Inr r \<Longrightarrow> receipt_ok h r \<and> br_build_identity r = Some i"
  "receipt_new_bound_cmake_with_trees h t m tr i files trees = Inr r \<Longrightarrow> receipt_ok h r \<and> br_build_identity r = Some i"
  by (auto simp: receipt_new_def receipt_new_bound_cmake_def receipt_new_bound_cmake_with_trees_def Let_def rbind_eq_Inr
      simp flip: validate_receipt_iff)

section \<open>What a verified receipt says\<close>

definition build_file_measured :: "receipt_host \<Rightarrow> rstring \<Rightarrow> MediaBuildFile \<Rightarrow> bool" where
  "build_file_measured h root f =
     (\<exists>content. file_content (th_open (rh_tree h)) (path_join root (bf_path f)) content \<and>
       digest_parse (bf_sha256 f) = Inr (sha256_bytes (th_sha256 (rh_tree h)) content) \<and> unat (bf_size_bytes f) = length content)"

definition build_tree_measured :: "receipt_host \<Rightarrow> rstring \<Rightarrow> MediaBuildTree \<Rightarrow> bool" where
  "build_tree_measured h root t =
     (\<exists>inventory. measure_media_tree (rh_tree h) (path_join root (bt_path t)) = Inr inventory \<and>
       ti_sha256 inventory = bt_sha256 t \<and> length (ti_files inventory) = bt_file_count t \<and>
       length (ti_directories inventory) = bt_directory_count t)"

text \<open>Which of the required roles a receipt has to claim, and which it must not.\<close>

definition roles_claimed :: "MediaReceiptOrigin \<Rightarrow> rstring set \<Rightarrow> RequiredMediaFile \<Rightarrow> bool" where
  "roles_claimed origin actual f =
     (rf_role f \<in> actual \<longleftrightarrow> origin = LegacyV1 \<or> rf_external_input f = None)"

lemma check_required_roles_eq_Inr:
  "check_required_roles origin actual fs = Inr () \<longleftrightarrow> list_all (roles_claimed origin actual) fs"
  by (induction origin actual fs rule: check_required_roles.induct) (auto simp: roles_claimed_def intro: MediaReceiptOrigin.exhaust)


lemma verify_build_files_eq_Inr:
  "verify_build_files h root fs = Inr () \<longleftrightarrow> list_all (build_file_measured h root) fs"
proof (induction fs)
  case (Cons f fs)
  have "verify_build_files h root (f # fs) = Inr () \<longleftrightarrow>
      (\<exists>m. measure_path (th_sha256 (rh_tree h)) (th_open (rh_tree h)) (path_join root (bf_path f)) = Inr m \<and>
        digest_parse (bf_sha256 f) = Inr (res_digest m) \<and> res_size m = bf_size_bytes f) \<and> list_all (build_file_measured h root) fs"
    unfolding verify_build_files.simps rbind_eq_Inr ensure_eq_Inr map_err_eq_Inr Cons.IH by auto
  also have "\<dots> \<longleftrightarrow> list_all (build_file_measured h root) (f # fs)"
    by (auto simp: build_file_measured_def measured_as)
  finally show ?case .
qed simp

lemma verify_build_trees_eq_Inr:
  "verify_build_trees h root ts = Inr () \<longleftrightarrow> list_all (build_tree_measured h root) ts"
  by (induction h root ts rule: verify_build_trees.induct) (auto simp: rbind_eq_Inr build_tree_measured_def)

definition receipt_matches :: "receipt_host \<Rightarrow> rstring \<Rightarrow> MediaBuildReceipt \<Rightarrow> MediaProfile \<Rightarrow> bool" where
  "receipt_matches h root r p =
     (receipt_ok h r \<and> br_target_preset r = mp_target_preset p \<and> br_model r = mp_model p \<and> br_transport r = mp_transport p \<and>
      list_all (roles_claimed (br_origin r) (set (map bf_role (br_files r)))) (mp_required_files p) \<and>
      set (map rt_role (mp_required_trees p)) = set (map bt_role (br_trees r)) \<and>
      (\<exists>real. rh_canonicalize h root = Some real \<and> rh_is_dir h real \<and> list_all (build_file_measured h real) (br_files r) \<and>
        list_all (build_tree_measured h real) (br_trees r)))"

lemma verify_media_build_receipt_iff: "verify_media_build_receipt h root r p = Inr () \<longleftrightarrow> receipt_matches h root r p"
  unfolding verify_media_build_receipt_def rbind_eq_Inr ensure_eq_Inr
  by (auto simp: receipt_matches_def check_required_roles_eq_Inr verify_build_files_eq_Inr verify_build_trees_eq_Inr
      validate_receipt_iff)

section \<open>Properties\<close>

text \<open>
  C35. A receipt verifies against a profile exactly when it is valid for its version and origin,
  names the profile's target, model and transport, claims every required role and no external
  one unless it is a legacy inventory, has the profile's trees, and every declared file and tree
  below the build root has the declared size, SHA-256 and number of entries when read again.
\<close>

theorem media_receipt_exact: "verify_media_build_receipt h root r p = Inr () \<longleftrightarrow> receipt_matches h root r p"
  by (rule verify_media_build_receipt_iff)

end
