(* ===== verification/Media_Plan.thy ===== *)
theory Media_Plan
  imports Media_Receipt "HOL-Library.Product_Lexorder"
begin

text \<open>
  Resolution of a media profile into exact image inputs, \<open>crates/aros-common/src/media_plan.rs\<close>.
\<close>

section \<open>Data\<close>

record MediaExternalFile =
  ef_lock_id :: rstring
  ef_file_id :: rstring
  ef_path :: rstring

datatype MediaPlanFileOrigin = Build | External rstring rstring

record MediaPlanFile =
  pf_role :: rstring
  pf_destination :: rstring
  pf_sha256 :: Sha256Digest
  pf_size_bytes :: u64
  pf_source_path :: rstring
  pf_origin :: MediaPlanFileOrigin

record MediaImagePlan =
  ip_profile_id :: rstring
  ip_profile_sha256 :: Sha256Digest
  ip_receipt_sha256 :: Sha256Digest
  ip_receipt_origin :: MediaReceiptOrigin
  ip_build_identity :: "MediaBuildIdentity option"
  ip_target_preset :: rstring
  ip_model :: rstring
  ip_transport :: rstring
  ip_medium :: rstring
  ip_layout :: MediaLayout
  ip_external_lock_sha256 :: "(rstring, Sha256Digest) btreemap"
  ip_files :: "MediaPlanFile list"
  ip_directories :: "rstring list"
  ip_generated_files :: "rstring list"
  ip_total_payload_bytes :: u64
  ip_image_capacity_bytes :: "u64 option"
  ip_raw_image_size_bytes :: "u64 option"

datatype plan_error =
    PlanReceipt receipt_error
  | PlanExternal lock_error
  | BuildRolesDiffer
  | DuplicateExternalPath
  | ExternalPathsDiffer
  | PlanLockMissing
  | PlanLockedFileMissing
  | ExternalPathMissing
  | LegacyDigest
  | LockedDigest
  | LegacyDiffers
  | BuildRoleMissing
  | BuildDigest
  | PayloadOverflow
  | UnselectedTree
  | PlanTree tree_error
  | ExplicitDiffers
  | PayloadExceedsFat
  | RawImageOverflow
  | PayloadExceedsIso
  | FileIsDirectory
  | DuplicatePlacement
  | GeneratedConflict
  | GeneratedIsDirectory
  | IsoPath

record plan_host =
  ph_receipt :: receipt_host
  ph_lock :: lock_host

section \<open>Paths\<close>

definition join_destination :: "rstring \<Rightarrow> rstring \<Rightarrow> rstring" where
  "join_destination prefix' relative = (if prefix' = [] then relative else prefix' @ [SLASH] @ relative)"

definition iso_character :: "nat \<Rightarrow> bool" where
  "iso_character c = (\<not> is_control c \<and> c \<notin> {92, 58, 61, 39, 34, 0x2028, 0x2029})"

definition valid_iso_media_path :: "rstring \<Rightarrow> bool" where
  "valid_iso_media_path value =
     (value \<noteq> [] \<and> list_all iso_character (str_chars value) \<and>
      list_all (\<lambda>part. part \<noteq> [] \<and> part \<noteq> [46] \<and> part \<noteq> [46, 46]) (split_on (\<lambda>b. b = SLASH) value))"

section \<open>Inputs\<close>

definition expected_build_roles :: "MediaReceiptOrigin \<Rightarrow> RequiredMediaFile list \<Rightarrow> rstring set" where
  "expected_build_roles origin required =
     set (map rf_role (filter (\<lambda>f. origin = LegacyV1 \<or> rf_external_input f = None) required))"

fun supply_external ::
  "(rstring \<times> rstring, rstring) btreemap \<Rightarrow> MediaExternalFile list \<Rightarrow> (plan_error, (rstring \<times> rstring, rstring) btreemap) result" where
  "supply_external supplied [] = Inr supplied"
| "supply_external supplied (f # fs) =
     ensure (\<not> btree_contains supplied (ef_lock_id f, ef_file_id f)) DuplicateExternalPath
       (supply_external (btree_insert (ef_lock_id f, ef_file_id f) (ef_path f) supplied) fs)"

definition receipt_file_map :: "MediaBuildFile list \<Rightarrow> (rstring, MediaBuildFile) btreemap" where
  "receipt_file_map files = btree.insert_all (map (\<lambda>f. (bf_role f, f)) files) []"

text \<open>A legacy receipt also lists the external files; they have to be the locked ones.\<close>

definition check_legacy_file ::
  "(rstring, MediaBuildFile) btreemap \<Rightarrow> rstring \<Rightarrow> MediaLockedInput \<Rightarrow> (plan_error, unit) result" where
  "check_legacy_file receipt_files role input =
     (case btree_get receipt_files role of
        None \<Rightarrow> Inr ()
      | Some legacy_file \<Rightarrow>
          rbind (map_err (\<lambda>_. LegacyDigest) (digest_parse (bf_sha256 legacy_file))) (\<lambda>legacy_digest.
          rbind (map_err (\<lambda>_. LockedDigest) (digest_parse (li_sha256 input))) (\<lambda>locked_digest.
          ensure (\<not> (legacy_digest \<noteq> locked_digest \<or> bf_size_bytes legacy_file \<noteq> li_size_bytes input)) LegacyDiffers
            (Inr ()))))"

record plan_inputs =
  pi_build_root :: rstring
  pi_locks :: "ResolvedMediaInputLock list"
  pi_supplied :: "(rstring \<times> rstring, rstring) btreemap"
  pi_receipt_files :: "(rstring, MediaBuildFile) btreemap"

definition plan_external_file ::
  "plan_host \<Rightarrow> plan_inputs \<Rightarrow> RequiredMediaFile \<Rightarrow> ExternalMediaInput \<Rightarrow> (plan_error, MediaPlanFile) result" where
  "plan_external_file h inp required external =
     rbind (ok_or (find (\<lambda>lock. lock_id (rl_lock lock) = ext_lock_id external) (pi_locks inp)) PlanLockMissing) (\<lambda>lock.
     rbind (ok_or (find (\<lambda>input. li_id input = ext_file_id external) (lock_files (rl_lock lock))) PlanLockedFileMissing) (\<lambda>input.
     rbind (ok_or (btree_get (pi_supplied inp) (ext_lock_id external, ext_file_id external)) ExternalPathMissing) (\<lambda>source_path.
     rbind (map_err PlanExternal (verify_media_locked_input (th_sha256 (rh_tree (ph_receipt h))) (th_open (rh_tree (ph_receipt h)))
              source_path input)) (\<lambda>_.
     rbind (check_legacy_file (pi_receipt_files inp) (rf_role required) input) (\<lambda>_.
     rbind (map_err (\<lambda>_. LockedDigest) (digest_parse (li_sha256 input))) (\<lambda>sha256.
     Inr \<lparr>pf_role = rf_role required, pf_destination = rf_destination required, pf_sha256 = sha256,
          pf_size_bytes = li_size_bytes input, pf_source_path = source_path,
          pf_origin = External (ext_lock_id external) (ext_file_id external)\<rparr>))))))"

definition plan_build_file :: "plan_inputs \<Rightarrow> RequiredMediaFile \<Rightarrow> (plan_error, MediaPlanFile) result" where
  "plan_build_file inp required =
     rbind (ok_or (btree_get (pi_receipt_files inp) (rf_role required)) BuildRoleMissing) (\<lambda>input.
     rbind (map_err (\<lambda>_. BuildDigest) (digest_parse (bf_sha256 input))) (\<lambda>sha256.
     Inr \<lparr>pf_role = rf_role required, pf_destination = rf_destination required, pf_sha256 = sha256,
          pf_size_bytes = bf_size_bytes input, pf_source_path = path_join (pi_build_root inp) (bf_path input), pf_origin = Build\<rparr>))"

definition plan_required_file :: "plan_host \<Rightarrow> plan_inputs \<Rightarrow> RequiredMediaFile \<Rightarrow> (plan_error, MediaPlanFile) result" where
  "plan_required_file h inp required =
     (case rf_external_input required of
        Some external \<Rightarrow> plan_external_file h inp required external
      | None \<Rightarrow> plan_build_file inp required)"

text \<open>Adding a file to the plan, with the running total of its payload.\<close>

definition add_plan_file ::
  "u64 \<times> MediaPlanFile list \<Rightarrow> MediaPlanFile \<Rightarrow> (plan_error, u64 \<times> MediaPlanFile list) result" where
  "add_plan_file st f =
     rbind (ok_or (checked_add_u64 (fst st) (pf_size_bytes f)) PayloadOverflow) (\<lambda>payload. Inr (payload, snd st @ [f]))"

fun plan_required_files ::
  "plan_host \<Rightarrow> plan_inputs \<Rightarrow> u64 \<times> MediaPlanFile list \<Rightarrow> RequiredMediaFile list \<Rightarrow> (plan_error, u64 \<times> MediaPlanFile list) result" where
  "plan_required_files h inp st [] = Inr st"
| "plan_required_files h inp st (required # rest) =
     rbind (plan_required_file h inp required) (\<lambda>f.
     rbind (add_plan_file st f) (\<lambda>st'. plan_required_files h inp st' rest))"

section \<open>Trees\<close>

definition plan_tree_file ::
  "rstring \<Rightarrow> rstring \<Rightarrow> nat \<Rightarrow> u64 \<times> MediaPlanFile list \<Rightarrow> MediaTreeFile \<Rightarrow> (plan_error, u64 \<times> MediaPlanFile list) result" where
  "plan_tree_file role prefix' index st f =
     (let destination = join_destination prefix' (tf_relative f)
      in case find (\<lambda>item. pf_destination item = destination) (snd st) of
           Some explicit \<Rightarrow>
             ensure (\<not> (pf_sha256 explicit \<noteq> tf_sha256 f \<or> pf_size_bytes explicit \<noteq> tf_size_bytes f)) ExplicitDiffers (Inr st)
         | None \<Rightarrow>
             add_plan_file st
               \<lparr>pf_role = role @ ascii ''-'' @ decimal (index + 1), pf_destination = destination, pf_sha256 = tf_sha256 f,
                pf_size_bytes = tf_size_bytes f, pf_source_path = tf_source_path f, pf_origin = Build\<rparr>)"

fun plan_tree_files ::
  "rstring \<Rightarrow> rstring \<Rightarrow> nat \<Rightarrow> u64 \<times> MediaPlanFile list \<Rightarrow> MediaTreeFile list \<Rightarrow> (plan_error, u64 \<times> MediaPlanFile list) result" where
  "plan_tree_files role prefix' index st [] = Inr st"
| "plan_tree_files role prefix' index st (f # fs) =
     rbind (plan_tree_file role prefix' index st f) (\<lambda>st'. plan_tree_files role prefix' (index + 1) st' fs)"

fun plan_trees ::
  "plan_host \<Rightarrow> plan_inputs \<Rightarrow> RequiredMediaTree list \<Rightarrow> rstring set \<times> u64 \<times> MediaPlanFile list \<Rightarrow> MediaBuildTree list \<Rightarrow>
     (plan_error, rstring set \<times> u64 \<times> MediaPlanFile list) result" where
  "plan_trees h inp required_trees st [] = Inr st"
| "plan_trees h inp required_trees st (declared # rest) =
     rbind (ok_or (find (\<lambda>tree. rt_role tree = bt_role declared) required_trees) UnselectedTree) (\<lambda>required.
     rbind (map_err PlanTree (measure_media_tree (rh_tree (ph_receipt h)) (path_join (pi_build_root inp) (bt_path declared))))
       (\<lambda>inventory.
     let directories = fst st \<union> set (map (join_destination (rt_destination required)) (ti_directories inventory))
     in rbind (plan_tree_files (bt_role declared) (rt_destination required) 0 (snd st) (ti_files inventory)) (\<lambda>st'.
        plan_trees h inp required_trees (directories, st') rest)))"

section \<open>The plan\<close>

text \<open>Raw image size, generated files and capacity of a layout that can hold the payload.\<close>

definition plan_extent :: "MediaLayout \<Rightarrow> u64 \<Rightarrow> (plan_error, u64 option \<times> rstring list \<times> u64 option) result" where
  "plan_extent layout payload =
     (case layout of
        MbrFat32 start_lba size_bytes _ \<Rightarrow>
          ensure (\<not> payload > size_bytes) PayloadExceedsFat
          (rbind (ok_or (Option.bind (checked_mul_u64 start_lba 512) (\<lambda>start. checked_add_u64 start size_bytes)) RawImageOverflow)
            (\<lambda>image_size. Inr (Some image_size, [], Some image_size)))
      | Iso9660ElTorito _ _ catalog_path max_size_bytes \<Rightarrow>
          ensure (\<not> payload > max_size_bytes) PayloadExceedsIso (Inr (None, [catalog_path], Some max_size_bytes)))"

fun check_placements :: "rstring set \<Rightarrow> rstring set \<Rightarrow> MediaPlanFile list \<Rightarrow> (plan_error, rstring set) result" where
  "check_placements roles destinations [] = Inr destinations"
| "check_placements roles destinations (f # fs) =
     ensure (\<not> (pf_role f \<in> roles \<or> pf_destination f \<in> destinations)) DuplicatePlacement
       (check_placements (insert (pf_role f) roles) (insert (pf_destination f) destinations) fs)"

definition is_iso :: "MediaLayout \<Rightarrow> bool" where
  "is_iso layout = (case layout of Iso9660ElTorito _ _ _ _ \<Rightarrow> True | _ \<Rightarrow> False)"

definition check_plan :: "MediaLayout \<Rightarrow> MediaPlanFile list \<Rightarrow> rstring set \<Rightarrow> rstring list \<Rightarrow> (plan_error, unit) result" where
  "check_plan layout files directories generated =
     ensure (\<not> list_ex (\<lambda>f. pf_destination f \<in> directories) files) FileIsDirectory
     (rbind (check_placements {} {} files) (\<lambda>destinations.
      ensure (\<not> list_ex (\<lambda>path. path \<in> destinations) generated) GeneratedConflict
      (ensure (\<not> list_ex (\<lambda>path. path \<in> directories) generated) GeneratedIsDirectory
      (ensure (\<not> (is_iso layout \<and>
                  \<not> (list_all (\<lambda>f. valid_iso_media_path (pf_destination f)) files \<and> (\<forall>d\<in>directories. valid_iso_media_path d) \<and>
                     list_all valid_iso_media_path generated))) IsoPath (Inr ())))))"

definition plan_media_image ::
  "plan_host \<Rightarrow> ResolvedMediaProfile \<Rightarrow> rstring \<Rightarrow> bytes \<Rightarrow> (rstring \<times> bytes) list \<Rightarrow> MediaExternalFile list \<Rightarrow>
     (plan_error, MediaImagePlan) result" where
  "plan_media_image h profile build_root receipt_bytes lock_documents external_files =
     (let p = rp_profile profile in
      rbind (map_err PlanReceipt (parse_media_build_receipt (ph_receipt h) receipt_bytes)) (\<lambda>receipt.
      rbind (map_err PlanReceipt (verify_media_build_receipt (ph_receipt h) build_root receipt p)) (\<lambda>_.
      rbind (map_err PlanExternal (bind_profile_media_input_locks (ph_lock h) profile lock_documents)) (\<lambda>locks.
      ensure (set (map bf_role (br_files receipt)) = expected_build_roles (br_origin receipt) (mp_required_files p)) BuildRolesDiffer
      (rbind (supply_external [] external_files) (\<lambda>supplied.
       ensure (set (map fst supplied) = set (map ext_pair (externals (mp_required_files p)))) ExternalPathsDiffer
       (let inp = \<lparr>pi_build_root = build_root, pi_locks = locks, pi_supplied = supplied,
                   pi_receipt_files = receipt_file_map (br_files receipt)\<rparr> in
        rbind (plan_required_files h inp (0, []) (mp_required_files p)) (\<lambda>st.
        rbind (plan_trees h inp (mp_required_trees p) ({}, st) (br_trees receipt)) (\<lambda>(tree_directories, payload, planned).
        let files = sort_key pf_destination planned in
        rbind (plan_extent (mp_layout p) payload) (\<lambda>(raw_image_size, generated, capacity).
        let directories = tree_directories \<union> set (concat (map path_parents (map pf_destination files @ generated))) in
        rbind (check_plan (mp_layout p) files directories generated) (\<lambda>_.
        Inr \<lparr>ip_profile_id = mp_id p, ip_profile_sha256 = rp_sha256 profile,
             ip_receipt_sha256 = sha256_bytes (th_sha256 (rh_tree (ph_receipt h))) receipt_bytes,
             ip_receipt_origin = br_origin receipt, ip_build_identity = br_build_identity receipt,
             ip_target_preset = mp_target_preset p, ip_model = mp_model p, ip_transport = mp_transport p,
             ip_medium = mp_medium p, ip_layout = mp_layout p,
             ip_external_lock_sha256 = btree.insert_all (map (\<lambda>lock. (lock_id (rl_lock lock), rl_sha256 lock)) locks) [],
             ip_files = files, ip_directories = sorted_list_of_set directories, ip_generated_files = generated,
             ip_total_payload_bytes = payload, ip_image_capacity_bytes = capacity, ip_raw_image_size_bytes = raw_image_size\<rparr>)))))))))))"

section \<open>The running total\<close>

definition payload_sum :: "MediaPlanFile list \<Rightarrow> nat" where
  "payload_sum files = sum_list (map (\<lambda>f. unat (pf_size_bytes f)) files)"

lemma payload_sum_append [simp]: "payload_sum (xs @ ys) = payload_sum xs + payload_sum ys"
  by (simp add: payload_sum_def)

lemma payload_sum_sort: "payload_sum (sort_key k files) = payload_sum files"
proof -
  have "mset (map (\<lambda>f. unat (pf_size_bytes f)) (sort_key k files)) = mset (map (\<lambda>f. unat (pf_size_bytes f)) files)"
    by simp
  then show ?thesis unfolding payload_sum_def by (metis sum_mset_sum_list)
qed

lemma add_plan_file_eq_Inr:
  "add_plan_file st f = Inr st' \<longleftrightarrow> snd st' = snd st @ [f] \<and> unat (fst st') = unat (fst st) + unat (pf_size_bytes f)"
  by (cases st') (auto simp: add_plan_file_def rbind_eq_Inr checked_add_u64_eq_Some)

text \<open>\<open>plan_grows st st' new\<close>: a loop has appended \<open>new\<close> and counted it.\<close>

definition plan_grows :: "u64 \<times> MediaPlanFile list \<Rightarrow> u64 \<times> MediaPlanFile list \<Rightarrow> MediaPlanFile list \<Rightarrow> bool" where
  "plan_grows st st' new = (snd st' = snd st @ new \<and> unat (fst st') = unat (fst st) + payload_sum new)"

lemma plan_grows_refl: "plan_grows st st []"
  by (simp add: plan_grows_def payload_sum_def)

lemma plan_grows_trans: "plan_grows st st' xs \<Longrightarrow> plan_grows st' st'' ys \<Longrightarrow> plan_grows st st'' (xs @ ys)"
  by (simp add: plan_grows_def)

lemma plan_grows_add: "add_plan_file st f = Inr st' \<longleftrightarrow> plan_grows st st' [f]"
  by (simp add: add_plan_file_eq_Inr plan_grows_def payload_sum_def)

lemma plan_required_files_eq_Inr:
  "plan_required_files h inp st required = Inr st' \<longleftrightarrow>
     (\<exists>new. list_all2 (\<lambda>r f. plan_required_file h inp r = Inr f) required new \<and> plan_grows st st' new)"
proof (induction required arbitrary: st)
  case Nil
  show ?case by (cases st; cases st') (auto simp: plan_grows_def payload_sum_def word_unat_eq_iff)
next
  case (Cons r rs)
  show ?case (is "?l \<longleftrightarrow> ?r")
  proof
    assume ?l
    then obtain f st1 where f: "plan_required_file h inp r = Inr f" "plan_grows st st1 [f]" and
      "plan_required_files h inp st1 rs = Inr st'"
      by (auto simp: rbind_eq_Inr plan_grows_add)
    then obtain new where new: "list_all2 (\<lambda>r f. plan_required_file h inp r = Inr f) rs new" "plan_grows st1 st' new"
      using Cons.IH by blast
    have "plan_grows st st' (f # new)" using plan_grows_trans [OF f(2) new(2)] by simp
    with f(1) new(1) show ?r by blast
  next
    assume ?r
    then obtain f new where f: "plan_required_file h inp r = Inr f" and new: "list_all2 (\<lambda>r f. plan_required_file h inp r = Inr f) rs new"
      and g: "plan_grows st st' (f # new)"
      by (auto simp: list_all2_Cons1)
    have fits: "unat (fst st) + unat (pf_size_bytes f) < 2 ^ 64"
      using g unat_u64_less [of "fst st'"] by (simp add: plan_grows_def payload_sum_def)
    then obtain st1 where st1: "plan_grows st st1 [f]"
      by (auto simp: add_plan_file_def checked_add_u64_def simp flip: plan_grows_add)
    with g have "plan_grows st1 st' new" by (simp add: plan_grows_def payload_sum_def)
    with new have "plan_required_files h inp st1 rs = Inr st'" using Cons.IH by blast
    with f st1 show ?l unfolding plan_required_files.simps rbind_eq_Inr plan_grows_add by blast
  qed
qed

section \<open>Where tree files go\<close>

text \<open>The plan has the file of an inventory at its destination, with its content.\<close>

definition tree_file_placed :: "rstring \<Rightarrow> MediaPlanFile list \<Rightarrow> MediaTreeFile \<Rightarrow> bool" where
  "tree_file_placed prefix' files f =
     (\<exists>item\<in>set files. pf_destination item = join_destination prefix' (tf_relative f) \<and> pf_sha256 item = tf_sha256 f \<and>
       pf_size_bytes item = tf_size_bytes f)"

definition from_tree_file :: "rstring \<Rightarrow> MediaTreeFile list \<Rightarrow> MediaPlanFile \<Rightarrow> bool" where
  "from_tree_file prefix' fs item =
     (pf_origin item = Build \<and>
      (\<exists>f\<in>set fs. pf_destination item = join_destination prefix' (tf_relative f) \<and> pf_source_path item = tf_source_path f \<and>
        pf_sha256 item = tf_sha256 f \<and> pf_size_bytes item = tf_size_bytes f))"

lemma plan_tree_file_eq_Inr:
  assumes "plan_tree_file role prefix' index st f = Inr st'"
  shows "\<exists>new. plan_grows st st' new \<and> list_all (from_tree_file prefix' [f]) new \<and> tree_file_placed prefix' (snd st') f"
proof (cases "find (\<lambda>item. pf_destination item = join_destination prefix' (tf_relative f)) (snd st)")
  case None
  then obtain item where "plan_grows st st' [item]" "from_tree_file prefix' [f] item" "tree_file_placed prefix' [item] f"
    using assms by (auto simp: plan_tree_file_def plan_grows_add from_tree_file_def tree_file_placed_def)
  then show ?thesis by (intro exI [of _ "[item]"]) (auto simp: plan_grows_def tree_file_placed_def)
next
  case (Some item)
  then have "st' = st" "item \<in> set (snd st)" "pf_destination item = join_destination prefix' (tf_relative f)"
    "pf_sha256 item = tf_sha256 f" "pf_size_bytes item = tf_size_bytes f"
    using assms find_SomeD [OF Some] by (auto simp: plan_tree_file_def Let_def split: if_splits)
  then show ?thesis by (intro exI [of _ "[]"]) (auto simp: plan_grows_refl tree_file_placed_def)
qed

lemma tree_file_placed_mono: "tree_file_placed p xs f \<Longrightarrow> set xs \<subseteq> set ys \<Longrightarrow> tree_file_placed p ys f"
  by (auto simp: tree_file_placed_def)

lemma from_tree_file_mono: "from_tree_file p fs item \<Longrightarrow> set fs \<subseteq> set gs \<Longrightarrow> from_tree_file p gs item"
  by (auto simp: from_tree_file_def)

lemma plan_tree_files_eq_Inr:
  "plan_tree_files role prefix' index st fs = Inr st' \<Longrightarrow>
     \<exists>new. plan_grows st st' new \<and> list_all (from_tree_file prefix' fs) new \<and> list_all (tree_file_placed prefix' (snd st')) fs"
proof (induction fs arbitrary: index st)
  case Nil
  then show ?case by (auto intro: plan_grows_refl)
next
  case (Cons f fs)
  then obtain st1 where f: "plan_tree_file role prefix' index st f = Inr st1" and
    rest: "plan_tree_files role prefix' (index + 1) st1 fs = Inr st'"
    by (auto simp: rbind_eq_Inr)
  obtain xs where xs: "plan_grows st st1 xs" "list_all (from_tree_file prefix' [f]) xs" "tree_file_placed prefix' (snd st1) f"
    using plan_tree_file_eq_Inr [OF f] by blast
  obtain ys where ys: "plan_grows st1 st' ys" "list_all (from_tree_file prefix' fs) ys" "list_all (tree_file_placed prefix' (snd st')) fs"
    using Cons.IH [OF rest] by blast
  have "set (snd st1) \<subseteq> set (snd st')" using ys(1) by (simp add: plan_grows_def)
  with xs(3) ys(3) have "list_all (tree_file_placed prefix' (snd st')) (f # fs)" by (simp add: tree_file_placed_mono)
  moreover have "list_all (from_tree_file prefix' (f # fs)) (xs @ ys)"
    using xs(2) ys(2) by (auto simp: list_all_iff intro: from_tree_file_mono)
  ultimately show ?case using plan_grows_trans [OF xs(1) ys(1)] by blast
qed

text \<open>A declared tree with the destination of its role and its inventory.\<close>

definition tree_resolved ::
  "plan_host \<Rightarrow> rstring \<Rightarrow> RequiredMediaTree list \<Rightarrow> MediaBuildTree \<Rightarrow> RequiredMediaTree \<Rightarrow> MediaTreeInventory \<Rightarrow> bool" where
  "tree_resolved h build_root required_trees t required inventory =
     (required \<in> set required_trees \<and> rt_role required = bt_role t \<and>
      measure_media_tree (rh_tree (ph_receipt h)) (path_join build_root (bt_path t)) = Inr inventory)"

definition tree_placed ::
  "plan_host \<Rightarrow> rstring \<Rightarrow> RequiredMediaTree list \<Rightarrow> rstring set \<Rightarrow> MediaPlanFile list \<Rightarrow> MediaBuildTree \<Rightarrow> bool" where
  "tree_placed h build_root required_trees directories files t =
     (\<exists>required inventory. tree_resolved h build_root required_trees t required inventory \<and>
       join_destination (rt_destination required) ` set (ti_directories inventory) \<subseteq> directories \<and>
       list_all (tree_file_placed (rt_destination required) files) (ti_files inventory))"

definition from_tree :: "plan_host \<Rightarrow> rstring \<Rightarrow> RequiredMediaTree list \<Rightarrow> MediaBuildTree list \<Rightarrow> MediaPlanFile \<Rightarrow> bool" where
  "from_tree h build_root required_trees ts item =
     (\<exists>t\<in>set ts. \<exists>required inventory. tree_resolved h build_root required_trees t required inventory \<and>
       from_tree_file (rt_destination required) (ti_files inventory) item)"

lemma tree_placed_mono:
  assumes "tree_placed h root rts D xs t" "D \<subseteq> D'" "set xs \<subseteq> set ys"
  shows "tree_placed h root rts D' ys t"
  using assms tree_file_placed_mono [OF _ assms(3)] unfolding tree_placed_def list_all_iff by (meson subset_trans)

lemma plan_trees_eq_Inr:
  "plan_trees h inp rts st ts = Inr st' \<Longrightarrow>
     fst st \<subseteq> fst st' \<and> (finite (fst st) \<longrightarrow> finite (fst st')) \<and>
     (\<exists>new. plan_grows (snd st) (snd st') new \<and> list_all (from_tree h (pi_build_root inp) rts ts) new) \<and>
     list_all (tree_placed h (pi_build_root inp) rts (fst st') (snd (snd st'))) ts"
proof (induction ts arbitrary: st)
  case Nil
  then show ?case by (auto intro: plan_grows_refl)
next
  case (Cons t ts)
  from Cons.prems obtain r i st1 where
    r: "find (\<lambda>tree. rt_role tree = bt_role t) rts = Some r" and
    i: "measure_media_tree (rh_tree (ph_receipt h)) (path_join (pi_build_root inp) (bt_path t)) = Inr i" and
    fs: "plan_tree_files (bt_role t) (rt_destination r) 0 (snd st) (ti_files i) = Inr st1" and
    rest: "plan_trees h inp rts (fst st \<union> set (map (join_destination (rt_destination r)) (ti_directories i)), st1) ts = Inr st'"
    by (auto simp: rbind_eq_Inr Let_def)
  have res: "tree_resolved h (pi_build_root inp) rts t r i"
    using r i by (auto simp: tree_resolved_def find_Some_iff)
  obtain xs where xs: "plan_grows (snd st) st1 xs" "list_all (from_tree_file (rt_destination r) (ti_files i)) xs"
    "list_all (tree_file_placed (rt_destination r) (snd st1)) (ti_files i)"
    using plan_tree_files_eq_Inr [OF fs] by blast
  note IH = Cons.IH [OF rest, simplified]
  then obtain ys where ys: "plan_grows st1 (snd st') ys" "list_all (from_tree h (pi_build_root inp) rts ts) ys" by auto
  have "tree_placed h (pi_build_root inp) rts (fst st') (snd st1) t"
    using res xs(3) IH by (auto simp: tree_placed_def)
  then have "tree_placed h (pi_build_root inp) rts (fst st') (snd (snd st')) t"
    using ys(1) by (auto simp: plan_grows_def elim!: tree_placed_mono)
  moreover have "list_all (from_tree h (pi_build_root inp) rts (t # ts)) (xs @ ys)"
    using res xs(2) ys(2) by (auto simp: from_tree_def list_all_iff)
  ultimately show ?case using IH plan_grows_trans [OF xs(1) ys(1)] by auto
qed

section \<open>What a plan rests on\<close>

lemma check_placements_eq_Inr:
  "check_placements roles destinations files = Inr out \<longleftrightarrow>
     distinct (map pf_role files) \<and> set (map pf_role files) \<inter> roles = {} \<and> distinct (map pf_destination files) \<and>
     set (map pf_destination files) \<inter> destinations = {} \<and> out = set (map pf_destination files) \<union> destinations"
  by (induction roles destinations files rule: check_placements.induct) auto

definition placements_ok :: "MediaLayout \<Rightarrow> MediaPlanFile list \<Rightarrow> rstring set \<Rightarrow> rstring list \<Rightarrow> bool" where
  "placements_ok layout files directories generated =
     (distinct (map pf_role files) \<and> distinct (map pf_destination files) \<and> set (map pf_destination files) \<inter> directories = {} \<and>
      set generated \<inter> (set (map pf_destination files) \<union> directories) = {} \<and>
      (is_iso layout \<longrightarrow> (\<forall>path\<in>set (map pf_destination files) \<union> directories \<union> set generated. valid_iso_media_path path)))"

lemma check_plan_eq_Inr: "check_plan layout files directories generated = Inr u \<longleftrightarrow> placements_ok layout files directories generated"
proof -
  have "check_plan layout files directories generated = Inr u \<longleftrightarrow>
      \<not> list_ex (\<lambda>f. pf_destination f \<in> directories) files \<and> distinct (map pf_role files) \<and> distinct (map pf_destination files) \<and>
      \<not> list_ex (\<lambda>path. path \<in> set (map pf_destination files)) generated \<and> \<not> list_ex (\<lambda>path. path \<in> directories) generated \<and>
      \<not> (is_iso layout \<and> \<not> (list_all (\<lambda>f. valid_iso_media_path (pf_destination f)) files \<and> (\<forall>d\<in>directories. valid_iso_media_path d) \<and>
          list_all valid_iso_media_path generated))"
    unfolding check_plan_def rbind_eq_Inr ensure_eq_Inr check_placements_eq_Inr by auto
  also have "\<dots> \<longleftrightarrow> placements_ok layout files directories generated"
    unfolding placements_ok_def list_ex_iff list_all_iff by auto
  finally show ?thesis .
qed

text \<open>The capacity of a layout, and what it says about the image.\<close>

definition payload_capacity :: "MediaLayout \<Rightarrow> u64" where
  "payload_capacity layout = (case layout of MbrFat32 _ size_bytes _ \<Rightarrow> size_bytes | Iso9660ElTorito _ _ _ max_size \<Rightarrow> max_size)"

definition generated_of :: "MediaLayout \<Rightarrow> rstring list" where
  "generated_of layout = (case layout of MbrFat32 _ _ _ \<Rightarrow> [] | Iso9660ElTorito _ _ catalog _ \<Rightarrow> [catalog])"

definition extent_ok :: "MediaLayout \<Rightarrow> u64 option \<Rightarrow> u64 option \<Rightarrow> bool" where
  "extent_ok layout raw capacity =
     (case layout of
        MbrFat32 start_lba size_bytes _ \<Rightarrow>
          (\<exists>n. raw = Some n \<and> capacity = Some n \<and> unat n = unat start_lba * 512 + unat size_bytes)
      | Iso9660ElTorito _ _ _ max_size \<Rightarrow> raw = None \<and> capacity = Some max_size)"

lemma plan_extent_eq_Inr:
  "plan_extent layout payload = Inr (raw, generated, capacity) \<longleftrightarrow>
     payload \<le> payload_capacity layout \<and> generated = generated_of layout \<and> extent_ok layout raw capacity"
proof (cases layout)
  case (MbrFat32 start n label)
  have "Option.bind (checked_mul_u64 start 512) (\<lambda>s. checked_add_u64 s n) = Some x \<longleftrightarrow> unat x = unat start * 512 + unat n" for x
  proof -
    have "Option.bind (checked_mul_u64 start 512) (\<lambda>s. checked_add_u64 s n) = Some x \<longleftrightarrow>
        (\<exists>s :: u64. unat s = unat start * 512 \<and> unat x = unat s + unat n)"
      by (auto simp: Option.bind_eq_Some_conv checked_mul_u64_eq_Some checked_add_u64_eq_Some)
    also have "\<dots> \<longleftrightarrow> unat x = unat start * 512 + unat n"
    proof
      assume x: "unat x = unat start * 512 + unat n"
      then have "unat start * 512 < 2 ^ 64" using unat_u64_less [of x] by simp
      then have "unat (of_nat (unat start * 512) :: u64) = unat start * 512" by (simp only: unat_of_nat) simp
      then show "\<exists>s :: u64. unat s = unat start * 512 \<and> unat x = unat s + unat n" using x by metis
    qed auto
    finally show ?thesis .
  qed
  then show ?thesis
    by (auto simp: MbrFat32 plan_extent_def payload_capacity_def generated_of_def extent_ok_def rbind_eq_Inr not_less)
next
  case (Iso9660ElTorito v b c n)
  then show ?thesis
    by (auto simp: plan_extent_def payload_capacity_def generated_of_def extent_ok_def not_less)
qed

lemma supply_external_eq_Inr:
  "supply_external m files = Inr out \<Longrightarrow> btree_wf m \<Longrightarrow> btree_get out k = Some path \<Longrightarrow>
     btree_get m k = Some path \<or> (\<exists>f\<in>set files. k = (ef_lock_id f, ef_file_id f) \<and> path = ef_path f)"
proof (induction m files rule: supply_external.induct)
  case (2 m f fs)
  let ?k = "(ef_lock_id f, ef_file_id f)"
  from 2(2) have new: "\<not> btree_contains m ?k" and rest: "supply_external (btree_insert ?k (ef_path f) m) fs = Inr out"
    by (auto split: if_splits)
  from 2(1) [OF new rest btree_wf_insert [OF 2(3)] 2(4)]
  show ?case unfolding btree.get_insert [OF 2(3)] by (auto split: if_splits)
qed simp

text \<open>Everything a successful run of the planner has established, by the stage that did.\<close>

definition plan_stages ::
  "plan_host \<Rightarrow> ResolvedMediaProfile \<Rightarrow> rstring \<Rightarrow> bytes \<Rightarrow> (rstring \<times> bytes) list \<Rightarrow> MediaExternalFile list \<Rightarrow> MediaImagePlan \<Rightarrow>
     MediaBuildReceipt \<Rightarrow> plan_inputs \<Rightarrow> MediaPlanFile list \<Rightarrow> MediaPlanFile list \<Rightarrow> rstring set \<Rightarrow> bool" where
  "plan_stages h profile build_root rb docs ext plan receipt inp explicit added tree_directories =
     (parse_media_build_receipt (ph_receipt h) rb = Inr receipt \<and> receipt_matches (ph_receipt h) build_root receipt (rp_profile profile) \<and>
      bind_profile_media_input_locks (ph_lock h) profile docs = Inr (pi_locks inp) \<and>
      set (map bf_role (br_files receipt)) = expected_build_roles (br_origin receipt) (mp_required_files (rp_profile profile)) \<and>
      supply_external [] ext = Inr (pi_supplied inp) \<and>
      set (map fst (pi_supplied inp)) = set (map ext_pair (externals (mp_required_files (rp_profile profile)))) \<and>
      pi_build_root inp = build_root \<and> pi_receipt_files inp = receipt_file_map (br_files receipt) \<and>
      list_all2 (\<lambda>r f. plan_required_file h inp r = Inr f) (mp_required_files (rp_profile profile)) explicit \<and>
      list_all (from_tree h build_root (mp_required_trees (rp_profile profile)) (br_trees receipt)) added \<and> finite tree_directories \<and>
      list_all (tree_placed h build_root (mp_required_trees (rp_profile profile)) tree_directories (explicit @ added)) (br_trees receipt) \<and>
      ip_files plan = sort_key pf_destination (explicit @ added) \<and>
      unat (ip_total_payload_bytes plan) = payload_sum (explicit @ added) \<and>
      ip_layout plan = mp_layout (rp_profile profile) \<and> ip_total_payload_bytes plan \<le> payload_capacity (ip_layout plan) \<and>
      ip_generated_files plan = generated_of (ip_layout plan) \<and>
      extent_ok (ip_layout plan) (ip_raw_image_size_bytes plan) (ip_image_capacity_bytes plan) \<and>
      ip_directories plan = sorted_list_of_set (tree_directories \<union>
        set (concat (map path_parents (map pf_destination (ip_files plan) @ ip_generated_files plan)))) \<and>
      placements_ok (ip_layout plan) (ip_files plan) (set (ip_directories plan)) (ip_generated_files plan) \<and>
      ip_external_lock_sha256 plan = btree.insert_all (map (\<lambda>lock. (lock_id (rl_lock lock), rl_sha256 lock)) (pi_locks inp)) [])"

lemma plan_media_image_stages:
  assumes "plan_media_image h profile build_root rb docs ext = Inr plan"
  obtains receipt inp explicit added tree_directories where
    "plan_stages h profile build_root rb docs ext plan receipt inp explicit added tree_directories"
proof -
  let ?p = "rp_profile profile"
  from assms obtain receipt locks supplied st D payload planned raw generated capacity where
    r: "parse_media_build_receipt (ph_receipt h) rb = Inr receipt" and
    v: "receipt_matches (ph_receipt h) build_root receipt ?p" and
    l: "bind_profile_media_input_locks (ph_lock h) profile docs = Inr locks" and
    roles: "set (map bf_role (br_files receipt)) = expected_build_roles (br_origin receipt) (mp_required_files ?p)" and
    s: "supply_external [] ext = Inr supplied" "set (map fst supplied) = set (map ext_pair (externals (mp_required_files ?p)))" and
    files: "plan_required_files h \<lparr>pi_build_root = build_root, pi_locks = locks, pi_supplied = supplied,
       pi_receipt_files = receipt_file_map (br_files receipt)\<rparr> (0, []) (mp_required_files ?p) = Inr st" and
    trees: "plan_trees h \<lparr>pi_build_root = build_root, pi_locks = locks, pi_supplied = supplied,
       pi_receipt_files = receipt_file_map (br_files receipt)\<rparr> (mp_required_trees ?p) ({}, st) (br_trees receipt) = Inr (D, payload, planned)" and
    e: "plan_extent (mp_layout ?p) payload = Inr (raw, generated, capacity)" and
    c: "placements_ok (mp_layout ?p) (sort_key pf_destination planned)
       (D \<union> set (concat (map path_parents (map pf_destination (sort_key pf_destination planned) @ generated)))) generated" and
    plan: "ip_files plan = sort_key pf_destination planned" "ip_layout plan = mp_layout ?p" "ip_total_payload_bytes plan = payload"
      "ip_generated_files plan = generated" "ip_raw_image_size_bytes plan = raw" "ip_image_capacity_bytes plan = capacity"
      "ip_directories plan = sorted_list_of_set
         (D \<union> set (concat (map path_parents (map pf_destination (sort_key pf_destination planned) @ generated))))"
      "ip_external_lock_sha256 plan = btree.insert_all (map (\<lambda>lock. (lock_id (rl_lock lock), rl_sha256 lock)) locks) []"
    unfolding plan_media_image_def Let_def rbind_eq_Inr ensure_eq_Inr map_err_eq_Inr verify_media_build_receipt_iff check_plan_eq_Inr
    by (auto simp: rbind_eq_Inr verify_media_build_receipt_iff check_plan_eq_Inr)
  let ?inp = "\<lparr>pi_build_root = build_root, pi_locks = locks, pi_supplied = supplied,
       pi_receipt_files = receipt_file_map (br_files receipt)\<rparr>"
  obtain explicit where explicit: "list_all2 (\<lambda>r f. plan_required_file h ?inp r = Inr f) (mp_required_files ?p) explicit"
    "plan_grows (0, []) st explicit"
    using files by (auto simp: plan_required_files_eq_Inr)
  obtain added where added: "plan_grows st (payload, planned) added" "finite D"
    "list_all (from_tree h build_root (mp_required_trees ?p) (br_trees receipt)) added"
    "list_all (tree_placed h build_root (mp_required_trees ?p) D planned) (br_trees receipt)"
    using plan_trees_eq_Inr [OF trees] by auto
  have g: "planned = explicit @ added" "unat payload = payload_sum (explicit @ added)"
    using plan_grows_trans [OF explicit(2) added(1)] by (auto simp: plan_grows_def)
  have fin: "finite (D \<union> set (concat (map path_parents (map pf_destination (sort_key pf_destination planned) @ generated))))"
    using added(2) by simp
  have "plan_stages h profile build_root rb docs ext plan receipt ?inp explicit added D"
    unfolding plan_stages_def plan set_sorted_list_of_set [OF fin]
    using r v l roles s explicit(1) added e c g by (simp add: plan_extent_eq_Inr)
  then show thesis by (rule that)
qed

section \<open>Where the bytes come from\<close>

lemma receipt_file_map_get:
  assumes "distinct (map bf_role files)" "btree_get (receipt_file_map files) role = Some f"
  shows "f \<in> set files \<and> bf_role f = role"
proof -
  have "distinct (map fst (map (\<lambda>f. (bf_role f, f)) files))" using assms(1) by (simp add: comp_def)
  from btree.get_insert_all_distinct [OF this] assms(2) have "map_of (map (\<lambda>f. (bf_role f, f)) files) role = Some f"
    by (simp add: receipt_file_map_def)
  then show ?thesis by (auto dest: map_of_SomeD)
qed

text \<open>A file of the plan that comes from an external lock: the pinned bytes, at the supplied path.\<close>

definition from_lock :: "plan_host \<Rightarrow> ResolvedMediaInputLock list \<Rightarrow> MediaExternalFile list \<Rightarrow> ExternalMediaInput \<Rightarrow> MediaPlanFile \<Rightarrow> bool" where
  "from_lock h locks ext e f =
     (pf_origin f = External (ext_lock_id e) (ext_file_id e) \<and>
      (\<exists>x\<in>set ext. ext_pair e = (ef_lock_id x, ef_file_id x) \<and> pf_source_path f = ef_path x) \<and>
      (\<exists>lock\<in>set locks. \<exists>input\<in>set (lock_files (rl_lock lock)). lock_id (rl_lock lock) = ext_lock_id e \<and> li_id input = ext_file_id e \<and>
        digest_parse (li_sha256 input) = Inr (pf_sha256 f) \<and> li_size_bytes input = pf_size_bytes f) \<and>
      (\<exists>content. file_content (th_open (rh_tree (ph_receipt h))) (pf_source_path f) content \<and>
        pf_sha256 f = sha256_bytes (th_sha256 (rh_tree (ph_receipt h))) content \<and> unat (pf_size_bytes f) = length content))"

text \<open>A file of the plan that comes from the build: the receipt's file of the role.\<close>

definition from_receipt :: "rstring \<Rightarrow> MediaBuildReceipt \<Rightarrow> MediaPlanFile \<Rightarrow> bool" where
  "from_receipt build_root receipt f =
     (pf_origin f = Build \<and>
      (\<exists>b\<in>set (br_files receipt). bf_role b = pf_role f \<and> digest_parse (bf_sha256 b) = Inr (pf_sha256 f) \<and>
        bf_size_bytes b = pf_size_bytes f \<and> pf_source_path f = path_join build_root (bf_path b)))"

definition required_placed ::
  "plan_host \<Rightarrow> rstring \<Rightarrow> ResolvedMediaInputLock list \<Rightarrow> MediaExternalFile list \<Rightarrow> MediaBuildReceipt \<Rightarrow> RequiredMediaFile \<Rightarrow> MediaPlanFile \<Rightarrow> bool" where
  "required_placed h build_root locks ext receipt r f =
     (pf_role f = rf_role r \<and> pf_destination f = rf_destination r \<and>
      (case rf_external_input r of Some e \<Rightarrow> from_lock h locks ext e f | None \<Rightarrow> from_receipt build_root receipt f))"

lemma plan_external_file_eq_Inr:
  assumes "plan_external_file h inp r e = Inr f" "supply_external [] ext = Inr (pi_supplied inp)"
  shows "pf_role f = rf_role r \<and> pf_destination f = rf_destination r \<and> from_lock h (pi_locks inp) ext e f"
proof -
  from assms(1) obtain lock input path where
    lock: "find (\<lambda>lock. lock_id (rl_lock lock) = ext_lock_id e) (pi_locks inp) = Some lock" and
    input: "find (\<lambda>input. li_id input = ext_file_id e) (lock_files (rl_lock lock)) = Some input" and
    path: "btree_get (pi_supplied inp) (ext_lock_id e, ext_file_id e) = Some path" and
    v: "verify_media_locked_input (th_sha256 (rh_tree (ph_receipt h))) (th_open (rh_tree (ph_receipt h))) path input = Inr ()" and
    f: "digest_parse (li_sha256 input) = Inr (pf_sha256 f)" "pf_size_bytes f = li_size_bytes input" "pf_source_path f = path"
      "pf_role f = rf_role r" "pf_destination f = rf_destination r" "pf_origin f = External (ext_lock_id e) (ext_file_id e)"
    unfolding plan_external_file_def rbind_eq_Inr map_err_eq_Inr by auto
  have x: "\<exists>x\<in>set ext. (ext_lock_id e, ext_file_id e) = (ef_lock_id x, ef_file_id x) \<and> path = ef_path x"
    using supply_external_eq_Inr [OF assms(2) btree_wf_Nil path] by (simp add: btree_get_def)
  obtain content where "file_content (th_open (rh_tree (ph_receipt h))) path content"
    "pf_sha256 f = sha256_bytes (th_sha256 (rh_tree (ph_receipt h))) content" "unat (pf_size_bytes f) = length content"
    using verify_media_locked_input_eq_Inr [OF v] f by auto
  then show ?thesis using f x find_SomeD [OF lock] find_SomeD [OF input] by (auto simp: from_lock_def ext_pair_def)
qed

lemma plan_build_file_eq_Inr:
  assumes "plan_build_file inp r = Inr f" "pi_receipt_files inp = receipt_file_map (br_files receipt)"
    "distinct (map bf_role (br_files receipt))"
  shows "pf_role f = rf_role r \<and> pf_destination f = rf_destination r \<and> from_receipt (pi_build_root inp) receipt f"
proof -
  from assms(1,2) obtain b where b: "btree_get (receipt_file_map (br_files receipt)) (rf_role r) = Some b" and
    f: "digest_parse (bf_sha256 b) = Inr (pf_sha256 f)" "pf_size_bytes f = bf_size_bytes b" "pf_role f = rf_role r"
      "pf_destination f = rf_destination r" "pf_origin f = Build" "pf_source_path f = path_join (pi_build_root inp) (bf_path b)"
    unfolding plan_build_file_def rbind_eq_Inr map_err_eq_Inr by auto
  from receipt_file_map_get [OF assms(3) b] f show ?thesis by (auto simp: from_receipt_def)
qed

lemma plan_stages_required:
  assumes "plan_stages h profile build_root rb docs ext plan receipt inp explicit added D"
  shows "list_all2 (required_placed h build_root (pi_locks inp) ext receipt) (mp_required_files (rp_profile profile)) explicit"
proof -
  have s: "supply_external [] ext = Inr (pi_supplied inp)" "pi_build_root inp = build_root"
    "pi_receipt_files inp = receipt_file_map (br_files receipt)" "distinct (map bf_role (br_files receipt))"
    using assms by (simp_all add: plan_stages_def receipt_matches_def receipt_ok_def)
  have one: "required_placed h build_root (pi_locks inp) ext receipt r f" if "plan_required_file h inp r = Inr f" for r f
  proof (cases "rf_external_input r")
    case None
    with that have "plan_build_file inp r = Inr f" by (simp add: plan_required_file_def)
    from plan_build_file_eq_Inr [OF this s(3,4)] show ?thesis using None s(2) by (simp add: required_placed_def)
  next
    case (Some e)
    with that have "plan_external_file h inp r e = Inr f" by (simp add: plan_required_file_def)
    from plan_external_file_eq_Inr [OF this s(1)] show ?thesis using Some by (simp add: required_placed_def)
  qed
  have "list_all2 (\<lambda>r f. plan_required_file h inp r = Inr f) (mp_required_files (rp_profile profile)) explicit"
    using assms by (simp add: plan_stages_def)
  then show ?thesis by (rule list_all2_mono) (rule one)
qed

section \<open>A sample plan\<close>

definition sample_receipt :: MediaBuildReceipt where
  "sample_receipt =
     \<lparr>br_format_version = 1, br_kind = ascii ''aros-media-inputs'', br_origin = Cmake, br_target_preset = ascii ''rpi'',
      br_model = ascii ''rpi5'', br_transport = ascii ''sd'', br_build_identity = None,
      br_files = [\<lparr>bf_role = ascii ''kernel'', bf_path = ascii ''kernel8.img'', bf_sha256 = sample_digest, bf_size_bytes = 3\<rparr>],
      br_trees = []\<rparr>"

definition sample_tree_host :: tree_host where
  "sample_tree_host =
     \<lparr>th_sha256 = sample_hash, th_open = \<lambda>_. Some [Inr [1, 2, 3], Inr []], th_prefix_ok = \<lambda>_. True, th_kind = \<lambda>_. None,
      th_walk = \<lambda>_. []\<rparr>"

definition sample_plan_host :: plan_host where
  "sample_plan_host =
     \<lparr>ph_receipt = \<lparr>rh_json_decode = \<lambda>_. Some sample_receipt, rh_json_encode = \<lambda>_. Some [], rh_canonicalize = Some,
        rh_is_dir = \<lambda>_. True, rh_tree = sample_tree_host\<rparr>,
      ph_lock = sample_lock_host\<rparr>"

definition sample_external :: MediaExternalFile where
  "sample_external = \<lparr>ef_lock_id = ascii ''firmware'', ef_file_id = ascii ''start'', ef_path = ascii ''/cache/start4.elf''\<rparr>"

lemma sample_measure:
  "measure_path sample_hash (\<lambda>_. Some [Inr [1, 2, 3], Inr []]) path = Inr \<lparr>res_digest = Sha256Digest sample_digest, res_size = 3\<rparr>"
  by (simp add: measure_path_def sample_sha256 flip: sha256_bytes_def)

lemma sample_receipt_ok: "validate_receipt (ph_receipt sample_plan_host) sample_receipt = Inr ()"
proof -
  have "valid_target_preset (ascii ''rpi'')" "valid_slug (ascii ''rpi5'')" "valid_slug (ascii ''sd'')"
    "safe_file_path (ascii ''kernel8.img'')" "casefold_path_key (ascii ''kernel8.img'') = Inr (ascii ''kernel8.img'')"
    by code_simp+
  then show ?thesis
    by (simp add: validate_receipt_def sample_plan_host_def sample_receipt_def check_binding_def RECEIPT_FORMAT_VERSION_def KIND_def
        MAX_FILES_def receipt_valid_slug_eq sample_slugs sample_digest_parse)
qed

lemma sample_receipt_parse: "parse_media_build_receipt (ph_receipt sample_plan_host) [] = Inr sample_receipt"
proof -
  have "rh_json_decode (ph_receipt sample_plan_host) [] = Some sample_receipt" by (simp add: sample_plan_host_def)
  then show ?thesis by (simp add: parse_media_build_receipt_def sample_receipt_ok)
qed

lemma sample_receipt_verify:
  "verify_media_build_receipt (ph_receipt sample_plan_host) root sample_receipt (rp_profile sample_profile) = Inr ()"
proof -
  have "ascii ''start'' \<noteq> ascii ''kernel''" by code_simp
  then show ?thesis
    unfolding verify_media_build_receipt_def sample_receipt_ok
    by (simp add: sample_receipt_def sample_profile_def sample_plan_host_def sample_tree_host_def sample_measure sample_digest_parse)
qed

lemma sample_required_files:
  "\<exists>files. plan_required_files sample_plan_host
      \<lparr>pi_build_root = ascii ''/build'', pi_locks = [\<lparr>rl_lock = sample_lock, rl_sha256 = Sha256Digest sample_digest\<rparr>],
       pi_supplied = [((ascii ''firmware'', ascii ''start''), ascii ''/cache/start4.elf'')],
       pi_receipt_files = receipt_file_map (br_files sample_receipt)\<rparr> (0, []) (mp_required_files (rp_profile sample_profile)) = Inr (6, files) \<and>
     map pf_destination files = [ascii ''boot/kernel8.img'', ascii ''start4.elf''] \<and>
     map pf_role files = [ascii ''kernel'', ascii ''start'']"
proof -
  have "ascii ''start'' \<noteq> ascii ''kernel''" by code_simp
  then show ?thesis
    by (simp add: plan_required_file_def plan_build_file_def plan_external_file_def sample_profile_def sample_receipt_def
        receipt_file_map_def btree_get_def sample_digest_parse sample_lock_def sample_input_def verify_media_locked_input_def
        sample_plan_host_def sample_tree_host_def sample_measure check_legacy_file_def add_plan_file_def checked_add_u64_def)
qed

lemma sample_plan:
  obtains plan where
    "plan_media_image sample_plan_host sample_profile (ascii ''/build'') [] [(ascii ''firmware'', ascii ''x'')] [sample_external] = Inr plan"
    "ip_directories plan = [ascii ''boot'']" "map pf_destination (ip_files plan) = [ascii ''boot/kernel8.img'', ascii ''start4.elf'']"
    "ip_total_payload_bytes plan = 6"
proof -
  obtain files where files: "plan_required_files sample_plan_host
      \<lparr>pi_build_root = ascii ''/build'', pi_locks = [\<lparr>rl_lock = sample_lock, rl_sha256 = Sha256Digest sample_digest\<rparr>],
       pi_supplied = [((ascii ''firmware'', ascii ''start''), ascii ''/cache/start4.elf'')],
       pi_receipt_files = receipt_file_map (br_files sample_receipt)\<rparr> (0, []) (mp_required_files (rp_profile sample_profile)) = Inr (6, files)"
    "map pf_destination files = [ascii ''boot/kernel8.img'', ascii ''start4.elf'']" "map pf_role files = [ascii ''kernel'', ascii ''start'']"
    using sample_required_files by (elim exE conjE) (rule that)
  have split: "rsplit_once SLASH (ascii ''boot/kernel8.img'') = Some (ascii ''boot'', ascii ''kernel8.img'')"
    "rsplit_once SLASH (ascii ''boot'') = None" "rsplit_once SLASH (ascii ''start4.elf'') = None"
    by code_simp+
  then have p: "path_parents (ascii ''boot/kernel8.img'') = [ascii ''boot'']" "path_parents (ascii ''start4.elf'') = []"
    by (simp_all add: path_parents.simps [of "ascii ''boot/kernel8.img''"] path_parents.simps [of "ascii ''boot''"]
        path_parents.simps [of "ascii ''start4.elf''"])
  have d: "ascii ''boot/kernel8.img'' < ascii ''start4.elf''" "ascii ''boot/kernel8.img'' \<noteq> ascii ''boot''" "ascii ''start4.elf'' \<noteq> ascii ''boot''"
    "ascii ''start'' \<noteq> ascii ''kernel''"
    by code_simp+
  have sorted: "sort_key pf_destination files = files"
    using files(2) d(1) by (intro sort_key_id_if_sorted) simp
  have parents: "concat (map path_parents (map pf_destination files)) = [ascii ''boot'']" using files(2) p by simp
  have c: "check_plan (MbrFat32 2048 67108864 (ascii ''AROS'')) files (set [ascii ''boot'']) [] = Inr ()"
    using files(2,3) d by (auto simp: check_plan_eq_Inr placements_ok_def is_iso_def map_eq_Cons_conv)
  have e: "plan_extent (MbrFat32 2048 67108864 (ascii ''AROS'')) 6 = Inr (Some 68157440, [], Some 68157440)"
    by (simp add: plan_extent_eq_Inr payload_capacity_def generated_of_def extent_ok_def)
  have s: "supply_external [] [sample_external] = Inr [((ascii ''firmware'', ascii ''start''), ascii ''/cache/start4.elf'')]"
    by (simp add: sample_external_def btree_contains_def)
  have roles: "set (map bf_role (br_files sample_receipt)) =
      expected_build_roles (br_origin sample_receipt) (mp_required_files (rp_profile sample_profile))"
    "set (map fst [((ascii ''firmware'', ascii ''start''), ascii ''/cache/start4.elf'')]) =
      set (map ext_pair (externals (mp_required_files (rp_profile sample_profile))))"
    "br_trees sample_receipt = []" "mp_layout (rp_profile sample_profile) = MbrFat32 2048 67108864 (ascii ''AROS'')"
    by (simp_all add: sample_receipt_def sample_profile_def expected_build_roles_def externals_def ext_pair_def)
  have l: "bind_profile_media_input_locks (ph_lock sample_plan_host) sample_profile [(ascii ''firmware'', ascii ''x'')] =
      Inr [\<lparr>rl_lock = sample_lock, rl_sha256 = Sha256Digest sample_digest\<rparr>]"
    using sample_locks_bind by (simp add: sample_plan_host_def)
  have dirs: "sorted_list_of_set (set (concat (map path_parents (map pf_destination files)))) = [ascii ''boot'']"
    unfolding parents by simp
  let ?plan = "\<lparr>ip_profile_id = mp_id (rp_profile sample_profile), ip_profile_sha256 = rp_sha256 sample_profile,
      ip_receipt_sha256 = sha256_bytes (th_sha256 (rh_tree (ph_receipt sample_plan_host))) [],
      ip_receipt_origin = br_origin sample_receipt, ip_build_identity = br_build_identity sample_receipt,
      ip_target_preset = mp_target_preset (rp_profile sample_profile), ip_model = mp_model (rp_profile sample_profile),
      ip_transport = mp_transport (rp_profile sample_profile), ip_medium = mp_medium (rp_profile sample_profile),
      ip_layout = mp_layout (rp_profile sample_profile),
      ip_external_lock_sha256 = btree.insert_all (map (\<lambda>lock. (lock_id (rl_lock lock), rl_sha256 lock))
        [\<lparr>rl_lock = sample_lock, rl_sha256 = Sha256Digest sample_digest\<rparr>]) [],
      ip_files = files, ip_directories = [ascii ''boot''], ip_generated_files = [], ip_total_payload_bytes = 6,
      ip_image_capacity_bytes = Some 68157440, ip_raw_image_size_bytes = Some 68157440\<rparr> :: MediaImagePlan"
  have "plan_media_image sample_plan_host sample_profile (ascii ''/build'') [] [(ascii ''firmware'', ascii ''x'')] [sample_external] = Inr ?plan"
    by (simp only: plan_media_image_def Let_def sample_receipt_parse sample_receipt_verify l s roles files(1) sorted e dirs
        c [folded parents] plan_trees.simps append_Nil2 map_err_simps sum.case prod.case simp_thms if_True Un_empty_left)
  then show thesis by (rule that) (simp_all add: files(2))
qed

section \<open>Properties\<close>

text \<open>
  C30. In an accepted plan roles and destinations are distinct, files are in order of
  destination, no file and no generated file is a directory of the image or lies below another
  file, every directory above a file is listed, and on an ISO every path is one xorriso can take.
\<close>

theorem media_plan_placements:
  assumes "plan_media_image h profile build_root rb docs ext = Inr plan"
  shows "sorted (map pf_destination (ip_files plan)) \<and> sorted (ip_directories plan) \<and>
    placements_ok (ip_layout plan) (ip_files plan) (set (ip_directories plan)) (ip_generated_files plan) \<and>
    no_nesting (set (map pf_destination (ip_files plan)) \<union> set (ip_generated_files plan)) \<and>
    (\<forall>path\<in>set (map pf_destination (ip_files plan)) \<union> set (ip_generated_files plan). \<forall>q r. path = q @ SLASH # r \<longrightarrow>
      q \<in> set (ip_directories plan))"
proof -
  let ?F = "set (map pf_destination (ip_files plan)) \<union> set (ip_generated_files plan)"
  obtain receipt inp explicit added D where "plan_stages h profile build_root rb docs ext plan receipt inp explicit added D"
    using plan_media_image_stages [OF assms] .
  then have p: "placements_ok (ip_layout plan) (ip_files plan) (set (ip_directories plan)) (ip_generated_files plan)" and
    fin: "finite D" and files: "ip_files plan = sort_key pf_destination (explicit @ added)" and
    d: "ip_directories plan = sorted_list_of_set (D \<union>
        set (concat (map path_parents (map pf_destination (ip_files plan) @ ip_generated_files plan))))"
    unfolding plan_stages_def by blast+
  have "set (concat (map path_parents (map pf_destination (ip_files plan) @ ip_generated_files plan))) \<subseteq> set (ip_directories plan)"
    unfolding d using fin by (subst set_sorted_list_of_set) auto
  moreover have "q \<in> set (concat (map path_parents (map pf_destination (ip_files plan) @ ip_generated_files plan)))"
    if "path \<in> ?F" "path = q @ SLASH # r" for path q r
  proof -
    have "q \<in> set (path_parents path)" using that(2) by (auto simp: path_parents_iff)
    then show ?thesis using that(1) by fastforce
  qed
  ultimately have up: "\<forall>path\<in>?F. \<forall>q r. path = q @ SLASH # r \<longrightarrow> q \<in> set (ip_directories plan)" by blast
  moreover have "?F \<inter> set (ip_directories plan) = {}" using p unfolding placements_ok_def by blast
  ultimately have "no_nesting ?F" unfolding no_nesting_def by blast
  moreover have "sorted (map pf_destination (ip_files plan))" unfolding files by (rule sorted_sort_key)
  moreover have "sorted (ip_directories plan)" unfolding d by simp
  ultimately show ?thesis using p up by blast
qed

theorem media_plan_placements_witness:
  "\<exists>plan. plan_media_image sample_plan_host sample_profile (ascii ''/build'') [] [(ascii ''firmware'', ascii ''x'')] [sample_external] = Inr plan \<and>
     ip_directories plan = [ascii ''boot''] \<and> no_nesting (set (map pf_destination (ip_files plan)) \<union> set (ip_generated_files plan))"
proof -
  obtain plan where "plan_media_image sample_plan_host sample_profile (ascii ''/build'') [] [(ascii ''firmware'', ascii ''x'')] [sample_external] = Inr plan"
    "ip_directories plan = [ascii ''boot'']"
    by (rule sample_plan)
  with media_plan_placements [OF this(1)] show ?thesis by blast
qed

text \<open>
  C31. The payload of a plan is the exact sum of its file sizes, without wrap-around, and fits
  the FAT partition or the ISO limit of the profile; a raw image ends exactly behind its
  partition.
\<close>

theorem media_plan_payload:
  assumes "plan_media_image h profile build_root rb docs ext = Inr plan"
  shows "unat (ip_total_payload_bytes plan) = (\<Sum>f\<leftarrow>ip_files plan. unat (pf_size_bytes f)) \<and>
    ip_layout plan = mp_layout (rp_profile profile) \<and> ip_total_payload_bytes plan \<le> payload_capacity (ip_layout plan) \<and>
    extent_ok (ip_layout plan) (ip_raw_image_size_bytes plan) (ip_image_capacity_bytes plan)"
proof -
  obtain receipt inp explicit added D where s: "plan_stages h profile build_root rb docs ext plan receipt inp explicit added D"
    using plan_media_image_stages [OF assms] .
  then have "unat (ip_total_payload_bytes plan) = payload_sum (ip_files plan)"
    by (simp add: plan_stages_def payload_sum_sort)
  then show ?thesis using s unfolding plan_stages_def payload_sum_def by blast
qed

theorem media_plan_payload_witness:
  "\<exists>plan. plan_media_image sample_plan_host sample_profile (ascii ''/build'') [] [(ascii ''firmware'', ascii ''x'')] [sample_external] = Inr plan \<and>
     (\<Sum>f\<leftarrow>ip_files plan. unat (pf_size_bytes f)) = 6"
proof -
  obtain plan where "plan_media_image sample_plan_host sample_profile (ascii ''/build'') [] [(ascii ''firmware'', ascii ''x'')] [sample_external] = Inr plan"
    "ip_total_payload_bytes plan = 6"
    by (rule sample_plan)
  with media_plan_payload [OF this(1)] show ?thesis by auto
qed

text \<open>
  C29. A plan is complete and exact: its files are one placement per required role, at the
  profile's destination and with either the pinned external bytes measured at the supplied path
  or the receipt's verified build file, and otherwise only files of the declared trees; every
  directory and file of every declared tree is placed with its content.
\<close>

theorem media_plan_complete:
  assumes "plan_media_image h profile build_root rb docs ext = Inr plan"
  shows "\<exists>receipt locks explicit added.
    parse_media_build_receipt (ph_receipt h) rb = Inr receipt \<and> receipt_matches (ph_receipt h) build_root receipt (rp_profile profile) \<and>
    bind_profile_media_input_locks (ph_lock h) profile docs = Inr locks \<and> mset (ip_files plan) = mset (explicit @ added) \<and>
    list_all2 (required_placed h build_root locks ext receipt) (mp_required_files (rp_profile profile)) explicit \<and>
    list_all (from_tree h build_root (mp_required_trees (rp_profile profile)) (br_trees receipt)) added \<and>
    list_all (tree_placed h build_root (mp_required_trees (rp_profile profile)) (set (ip_directories plan)) (ip_files plan)) (br_trees receipt)"
proof -
  obtain receipt inp explicit added D where s: "plan_stages h profile build_root rb docs ext plan receipt inp explicit added D"
    using plan_media_image_stages [OF assms] .
  have files: "ip_files plan = sort_key pf_destination (explicit @ added)" using s by (simp add: plan_stages_def)
  have "D \<subseteq> set (ip_directories plan)" using s by (auto simp: plan_stages_def)
  moreover have "set (explicit @ added) \<subseteq> set (ip_files plan)" unfolding files by simp
  ultimately have "list_all (tree_placed h build_root (mp_required_trees (rp_profile profile)) (set (ip_directories plan)) (ip_files plan))
      (br_trees receipt)"
    using s unfolding plan_stages_def list_all_iff by (blast intro: tree_placed_mono)
  moreover have "mset (ip_files plan) = mset (explicit @ added)" unfolding files by simp
  ultimately show ?thesis using s plan_stages_required [OF s] unfolding plan_stages_def by blast
qed

theorem media_plan_complete_witness:
  "\<exists>plan explicit added.
     plan_media_image sample_plan_host sample_profile (ascii ''/build'') [] [(ascii ''firmware'', ascii ''x'')] [sample_external] = Inr plan \<and>
     mset (ip_files plan) = mset (explicit @ added) \<and> length explicit = 2"
proof -
  obtain plan where p: "plan_media_image sample_plan_host sample_profile (ascii ''/build'') [] [(ascii ''firmware'', ascii ''x'')] [sample_external] = Inr plan"
    by (rule sample_plan)
  have "length (mp_required_files (rp_profile sample_profile)) = 2" by (simp add: sample_profile_def)
  with media_plan_complete [OF p] p show ?thesis by (metis list_all2_lengthD)
qed

end
