(* ===== verification/Elf_Riscv.thy ===== *)
theory Elf_Riscv
  imports Elf_Attr Rust_Collections
begin

unbundle bit_operations_syntax

text \<open>
  The RISC-V attribute decoder of \<open>crates/aros-common/src/elf/riscv.rs\<close>: exactly one
  \<open>riscv\<close> vendor block that holds exactly one File scope, UTF-8 strings under odd tags,
  integers under even ones and a mandatory, plainly spelled architecture string.
\<close>

section \<open>Data\<close>

definition RISCV_MACHINE :: u16 where "RISCV_MACHINE = 243"
definition RISCV_SHT_ATTRIBUTES :: u32 where "RISCV_SHT_ATTRIBUTES = 0x70000003"
definition FLOAT_ABI_MASK :: u32 where "FLOAT_ABI_MASK = 6"

datatype RiscvValue = RvInteger u64 | RvString rstring

record RiscvAttributes =
  rv_architecture :: rstring
  rv_values :: "(u64, RiscvValue) btreemap"

section \<open>Operations\<close>

definition riscv_uleb :: "bytes \<Rightarrow> (attr_error, u64 \<times> bytes) result" where
  "riscv_uleb = uleb_loop False [0..<10] 0"

definition riscv_string :: "bytes \<Rightarrow> (attr_error, rstring \<times> bytes) result" where
  "riscv_string bs =
     rbind (ok_or (position (\<lambda>b. b = 0) bs) AttrUnterminatedString) (\<lambda>size.
     ensure (utf8_valid (take size bs)) AttrNotUtf8 (Inr (take size bs, drop (size + 1) bs)))"

text \<open>Tags below 64 in their group of 128 are mandatory to understand.\<close>

definition riscv_known_tag :: "u64 \<Rightarrow> bool" where
  "riscv_known_tag tag = (tag \<in> {4, 5, 6, 8, 10, 12, 14, 16} \<or> 64 \<le> tag mod 128)"

definition riscv_value :: "u64 \<Rightarrow> bytes \<Rightarrow> (attr_error, RiscvValue \<times> bytes) result" where
  "riscv_value tag bs =
     (if tag mod 2 = 1 then rbind (riscv_string bs) (\<lambda>(s, rest). Inr (RvString s, rest))
      else rbind (riscv_uleb bs) (\<lambda>(n, rest). Inr (RvInteger n, rest)))"

definition plain_selector :: "rstring \<Rightarrow> bool" where
  "plain_selector s =
     (s \<noteq> [] \<and> length s \<le> 4096 \<and>
      list_all (\<lambda>b. is_ascii_lowercase b \<or> is_ascii_digit b \<or> b = 0x5f) s)"

interpretation riscv_uleb: prefix_reader riscv_uleb
  unfolding riscv_uleb_def by (rule uleb.prefix_reader_axioms)

lemma riscv_string_iff:
  "riscv_string bs = Inr (s, rest) \<longleftrightarrow> bs = s @ 0 # rest \<and> 0 \<notin> set s \<and> utf8_valid s"
proof -
  have "riscv_string bs = Inr (s, rest) \<longleftrightarrow> attr_string bs = Inr (s, rest) \<and> utf8_valid s"
    by (cases "position (\<lambda>b. b = 0) bs") (auto simp: riscv_string_def attr_string_def)
  then show ?thesis by (simp add: attr_string_eq_Inr)
qed

interpretation riscv_string: prefix_reader riscv_string
  by unfold_locales (auto simp: riscv_string_iff intro: exI [of _ "_ @ [0]"])

interpretation riscv_value: prefix_reader "riscv_value tag" for tag
  using riscv_uleb.consumes riscv_string.consumes
  by unfold_locales (fastforce simp: riscv_value_def rbind_eq_Inr split: if_splits)

function riscv_attributes_loop ::
  "(u64, RiscvValue) btreemap \<Rightarrow> bytes \<Rightarrow> (attr_error, (u64, RiscvValue) btreemap) result" where
  "riscv_attributes_loop vals attributes =
     (if attributes = [] then Inr vals
      else rbind (riscv_uleb attributes) (\<lambda>(tag, attributes').
        ensure (riscv_known_tag tag) (AttrUnknownMandatory tag)
          (rbind (riscv_value tag attributes') (\<lambda>(value, attributes'').
             ensure (\<not> btree_contains vals tag) (AttrDuplicateTag tag)
               (riscv_attributes_loop (btree_insert tag value vals) attributes'')))))"
  by auto
termination
  by (relation "measure (\<lambda>(vals, attributes). length attributes)")
    (auto dest!: riscv_uleb.shrinks riscv_value.shrinks)

text \<open>The body of the vendor loop: one subsection, after its length field.\<close>

definition riscv_subsection :: "bool \<Rightarrow> bytes \<Rightarrow> (attr_error, RiscvAttributes) result" where
  "riscv_subsection seen body0 =
     rbind (riscv_string body0) (\<lambda>(vendor, body).
     ensure (vendor = ascii ''riscv'') AttrUnsupportedVendor
      (ensure (\<not> seen) AttrDuplicateVendor
       (rbind (riscv_uleb body) (\<lambda>(tag, body').
        ensure (tag = 1) (AttrUnsupportedScope tag)
         (rbind (attr_block (length body - length body') body') (\<lambda>(contents, body'').
          ensure (body'' = []) AttrMultipleFiles
           (rbind (riscv_attributes_loop [] (drop 4 contents)) (\<lambda>vals.
             (case btree_get vals 5 of
                Some (RvString architecture) \<Rightarrow>
                  ensure (plain_selector architecture) AttrInvalidArchitecture
                    (Inr \<lparr>rv_architecture = architecture, rv_values = vals\<rparr>)
              | _ \<Rightarrow> Inl AttrMissingArchitecture)))))))))"

function riscv_decode_loop :: "RiscvAttributes option \<Rightarrow> bytes \<Rightarrow> (attr_error, RiscvAttributes) result" where
  "riscv_decode_loop file remaining =
     (if remaining = [] then ok_or file AttrMissingVendor
      else rbind (attr_block 0 remaining) (\<lambda>(subsection, remaining').
           rbind (riscv_subsection (file \<noteq> None) (drop 4 subsection)) (\<lambda>attrs.
             riscv_decode_loop (Some attrs) remaining')))"
  by auto
termination
  by (relation "measure (\<lambda>(file, remaining). length remaining)") (auto dest!: blk.shrinks)

declare riscv_attributes_loop.simps [simp del] riscv_decode_loop.simps [simp del]

definition riscv_decode :: "bytes \<Rightarrow> (attr_error, RiscvAttributes) result" where
  "riscv_decode bs =
     ensure (length bs \<le> 65536) AttrTooLarge
       (ensure (get_at bs 0 = Some 0x41) AttrUnsupportedFormat
         (riscv_decode_loop None (drop 1 bs)))"

definition riscv_read :: "bytes \<Rightarrow> (attr_error, RiscvAttributes) result" where
  "riscv_read bs =
     rbind (map_err AttrElf (elf_read bs)) (\<lambda>object'.
     ensure (obj_machine object' = RISCV_MACHINE) AttrWrongMachine
       (case filter (\<lambda>s. sec_name s = ascii ''.riscv.attributes'') (obj_sections object') of
          [] \<Rightarrow> Inl AttrMissingSection
        | sec # others \<Rightarrow>
            ensure (others = []) AttrDuplicateSection
             (ensure (sec_kind sec = RISCV_SHT_ATTRIBUTES) AttrWrongSectionType
               (let start = unat (sec_offset sec)
                in rbind (ok_or (checked_add start (unat (sec_size sec))) AttrRangeOverflow) (\<lambda>end'.
                   rbind (ok_or (get_range bs start end') AttrTruncatedSection) riscv_decode)))))"

section \<open>What a decoded set holds\<close>

fun riscv_entry_ok :: "u64 \<times> RiscvValue \<Rightarrow> bool" where
  "riscv_entry_ok (tag, RvString s) = (riscv_known_tag tag \<and> tag mod 2 = 1 \<and> 0 \<notin> set s \<and> utf8_valid s)"
| "riscv_entry_ok (tag, RvInteger n) = (riscv_known_tag tag \<and> tag mod 2 \<noteq> 1)"

lemma riscv_value_entry_ok:
  "riscv_known_tag tag \<Longrightarrow> riscv_value tag bs = Inr (v, rest) \<Longrightarrow> riscv_entry_ok (tag, v)"
  by (auto simp: riscv_value_def rbind_eq_Inr riscv_string_iff even_iff_mod_2_eq_zero [symmetric]
      dest: even_iff_mod_2_eq_zero [THEN iffD1] split: if_splits)

lemma riscv_attributes_step:
  "riscv_attributes_loop vals bs = Inr out \<longleftrightarrow>
     (if bs = [] then out = vals
      else \<exists>tag bs' v rest. riscv_uleb bs = Inr (tag, bs') \<and> riscv_known_tag tag \<and>
        riscv_value tag bs' = Inr (v, rest) \<and> \<not> btree_contains vals tag \<and>
        riscv_attributes_loop (btree_insert tag v vals) rest = Inr out)"
  by (subst riscv_attributes_loop.simps) (auto simp: rbind_eq_Inr split: if_splits)

lemma riscv_attributes_sound:
  "riscv_attributes_loop vals bs = Inr out \<Longrightarrow> btree_wf vals \<Longrightarrow> (\<forall>kv\<in>set vals. riscv_entry_ok kv) \<Longrightarrow>
     btree_wf out \<and> (\<forall>kv\<in>set out. riscv_entry_ok kv)"
proof (induction bs arbitrary: vals rule: length_induct)
  case (1 bs)
  show ?case
  proof (cases "bs = []")
    case True
    with 1 show ?thesis by (simp add: riscv_attributes_step)
  next
    case False
    with riscv_attributes_step [THEN iffD1, OF 1(2)] obtain tag bs' v rest where
      s: "riscv_uleb bs = Inr (tag, bs')" "riscv_known_tag tag" "riscv_value tag bs' = Inr (v, rest)"
      "\<not> btree_contains vals tag" "riscv_attributes_loop (btree_insert tag v vals) rest = Inr out" by auto
    have "length rest < length bs"
      using riscv_uleb.shrinks [OF s(1)] riscv_value.shrinks [OF s(3)] by simp
    moreover have "btree_wf (btree_insert tag v vals)" using 1(3) by simp
    moreover have "\<forall>kv\<in>set (btree_insert tag v vals). riscv_entry_ok kv"
      using 1(4) s(4) riscv_value_entry_ok [OF s(2,3)] by (simp add: set_btree_insert_new)
    ultimately show ?thesis using 1(1) s(5) by blast
  qed
qed

section \<open>The encoding\<close>

fun riscv_entry_bytes :: "u64 \<times> RiscvValue \<Rightarrow> bytes" where
  "riscv_entry_bytes (tag, RvString s) = uleb_encode (unat tag) @ s @ [0]"
| "riscv_entry_bytes (tag, RvInteger n) = uleb_encode (unat tag) @ uleb_encode (unat n)"

definition riscv_entries_bytes :: "(u64 \<times> RiscvValue) list \<Rightarrow> bytes" where
  "riscv_entries_bytes kvs = concat (map riscv_entry_bytes kvs)"

definition riscv_section_bytes :: "(u64 \<times> RiscvValue) list \<Rightarrow> bytes" where
  "riscv_section_bytes kvs =
     0x41 # block_bytes 0 (ascii ''riscv'' @ 0 # 1 # block_bytes 1 (riscv_entries_bytes kvs))"

lemma riscv_uleb_encode [simp]: "riscv_uleb (uleb_encode (unat v) @ rest) = Inr (v, rest)"
  by (simp add: riscv_uleb_def uleb_loop_encode)

lemma riscv_entry_bytes_not_Nil [simp]: "riscv_entry_bytes kv \<noteq> []"
  by (cases kv rule: riscv_entry_bytes.cases) auto

lemma riscv_entry_reads:
  assumes "riscv_entry_ok (tag, v)"
  shows "\<exists>bs'. riscv_uleb (riscv_entry_bytes (tag, v) @ rest) = Inr (tag, bs') \<and> riscv_known_tag tag \<and>
    riscv_value tag bs' = Inr (v, rest)"
proof (cases v)
  case (RvInteger n)
  then show ?thesis using assms by (simp add: riscv_value_def)
next
  case (RvString s)
  then have "riscv_string (s @ 0 # rest) = Inr (s, rest)" using assms by (simp add: riscv_string_iff)
  with RvString show ?thesis using assms by (simp add: riscv_value_def)
qed

lemma riscv_attributes_complete:
  "distinct (map fst kvs) \<Longrightarrow> (\<forall>k\<in>set (map fst kvs). \<not> btree_contains vals k) \<Longrightarrow>
     (\<forall>kv\<in>set kvs. riscv_entry_ok kv) \<Longrightarrow>
     riscv_attributes_loop vals (riscv_entries_bytes kvs) = Inr (btree.insert_all kvs vals)"
proof (induction kvs arbitrary: vals)
  case Nil
  then show ?case by (simp add: riscv_attributes_step riscv_entries_bytes_def)
next
  case (Cons kv kvs)
  obtain tag v where kv: "kv = (tag, v)" by (cases kv)
  have "riscv_attributes_loop (btree_insert tag v vals) (riscv_entries_bytes kvs) =
      Inr (btree.insert_all kvs (btree_insert tag v vals))"
    using Cons.prems kv by (intro Cons.IH) auto
  moreover have "riscv_entries_bytes (kv # kvs) = riscv_entry_bytes (tag, v) @ riscv_entries_bytes kvs"
    by (simp add: riscv_entries_bytes_def kv)
  moreover have "riscv_entry_ok (tag, v)" using Cons.prems(3) kv by simp
  ultimately show ?case
    using Cons.prems kv riscv_entry_reads [of tag v "riscv_entries_bytes kvs"]
    by (subst riscv_attributes_step) auto
qed

lemma rv_string_case_Inr:
  "(case m of Some (RvString s) \<Rightarrow> ensure (P s) e (Inr (f s)) | _ \<Rightarrow> Inl e') = Inr a \<longleftrightarrow>
     (\<exists>s. m = Some (RvString s) \<and> P s \<and> a = f s)"
  by (auto split: option.splits RiscvValue.splits)

lemma riscv_subsection_eq_Inr:
  "riscv_subsection seen body0 = Inr a \<longleftrightarrow>
     (\<exists>body body' contents vals architecture.
        riscv_string body0 = Inr (ascii ''riscv'', body) \<and> \<not> seen \<and> riscv_uleb body = Inr (1, body') \<and>
        attr_block (length body - length body') body' = Inr (contents, []) \<and>
        riscv_attributes_loop [] (drop 4 contents) = Inr vals \<and>
        btree_get vals 5 = Some (RvString architecture) \<and> plain_selector architecture \<and>
        a = \<lparr>rv_architecture = architecture, rv_values = vals\<rparr>)"
  by (auto simp: riscv_subsection_def rbind_eq_Inr rv_string_case_Inr split: if_splits)

lemma riscv_decode_loop_sound:
  "riscv_decode_loop found bs = Inr a \<Longrightarrow> found = Some a \<or> (\<exists>seen body. riscv_subsection seen body = Inr a)"
proof (induction bs arbitrary: found rule: length_induct)
  case (1 bs)
  show ?case
  proof (cases "bs = []")
    case True
    with 1(2) show ?thesis by (simp add: riscv_decode_loop.simps)
  next
    case False
    with 1(2) obtain sub rest attrs where s: "attr_block 0 bs = Inr (sub, rest)"
      "riscv_subsection (found \<noteq> None) (drop 4 sub) = Inr attrs" "riscv_decode_loop (Some attrs) rest = Inr a"
      by (subst (asm) riscv_decode_loop.simps) (auto simp: rbind_eq_Inr)
    from 1(1) [rule_format, OF blk.shrinks [OF s(1)] s(3)] s(2) show ?thesis by auto
  qed
qed

lemma riscv_section_decodes:
  assumes "distinct (map fst kvs)" and "list_all riscv_entry_ok kvs"
    and "map_of kvs 5 = Some (RvString architecture)" and "plain_selector architecture"
    and "length (riscv_section_bytes kvs) \<le> 65536"
    and "btree_wf vals" and "map_of vals = map_of kvs"
  shows "riscv_decode (riscv_section_bytes kvs) = Inr \<lparr>rv_architecture = architecture, rv_values = vals\<rparr>"
proof -
  let ?blk = "block_bytes 1 (riscv_entries_bytes kvs)"
  let ?body = "ascii ''riscv'' @ 0 # 1 # ?blk"
  have vals: "vals = btree.insert_all kvs []"
    using assms(1,6,7) btree.wf_insert_all [of "[]" kvs] btree.get_insert_all_distinct [of kvs]
    by (intro btree.entries_unique) (auto simp: btree_get_def fun_eq_iff)
  have len: "length ?body + 5 \<le> 65536" using assms(5) by (simp add: riscv_section_bytes_def)
  have "riscv_string ?body = Inr (ascii ''riscv'', 1 # ?blk)"
    unfolding riscv_string_iff by (simp, code_simp)
  moreover have "riscv_uleb (1 # ?blk) = Inr (1, ?blk)"
    using riscv_uleb_encode [of 1 ?blk] by (simp add: uleb_encode.simps [of "Suc 0"])
  moreover have "attr_block 1 ?blk = Inr (?blk, [])"
    using len by (auto simp: attr_block_iff)
  moreover have "riscv_attributes_loop [] (riscv_entries_bytes kvs) = Inr vals"
    using assms(1,2) unfolding vals
    by (intro riscv_attributes_complete) (auto simp: btree_contains_def list_all_iff)
  ultimately have "riscv_subsection False ?body = Inr \<lparr>rv_architecture = architecture, rv_values = vals\<rparr>"
    using assms(3,4,7) by (auto simp: riscv_subsection_eq_Inr btree_get_def)
  moreover have "attr_block 0 (block_bytes 0 ?body) = Inr (block_bytes 0 ?body, [])"
    using len by (auto simp: attr_block_iff)
  ultimately have "riscv_decode_loop None (block_bytes 0 ?body) = Inr \<lparr>rv_architecture = architecture, rv_values = vals\<rparr>"
    by (simp add: riscv_decode_loop.simps)
  then show ?thesis using assms(5) by (simp add: riscv_decode_def riscv_section_bytes_def)
qed

section \<open>Properties\<close>

text \<open>
  C9. Every attribute set the RISC-V decoder returns is well formed: tags are unique and
  either known or optional, odd tags carry NUL-free UTF-8 strings and even tags integers,
  and the architecture is the value of tag 5, non-empty, at most 4096 bytes and made of
  lowercase letters, digits and underscores only.
\<close>

theorem riscv_decode_wellformed:
  assumes "riscv_decode bs = Inr a"
  shows "btree_wf (rv_values a) \<and> list_all riscv_entry_ok (rv_values a) \<and>
    map_of (rv_values a) 5 = Some (RvString (rv_architecture a)) \<and> plain_selector (rv_architecture a)"
proof -
  obtain seen body where "riscv_subsection seen body = Inr a"
    using assms riscv_decode_loop_sound [of None] by (auto simp: riscv_decode_def split: if_splits)
  then show ?thesis
    using riscv_attributes_sound [of "[]"]
    by (auto simp: riscv_subsection_eq_Inr list_all_iff btree_get_def)
qed

text \<open>
  C10. Encoding then decoding is the identity: whatever order the entries are written in,
  the decoder returns the map that holds them and the architecture among them.
\<close>

theorem riscv_section_roundtrip:
  assumes "distinct (map fst kvs)" and "list_all riscv_entry_ok kvs"
    and "map_of kvs 5 = Some (RvString architecture)" and "plain_selector architecture"
    and "length (riscv_section_bytes kvs) \<le> 65536"
    and "btree_wf vals" and "map_of vals = map_of kvs"
  shows "riscv_decode (riscv_section_bytes kvs) = Inr \<lparr>rv_architecture = architecture, rv_values = vals\<rparr>"
  using assms by (rule riscv_section_decodes)

theorem riscv_section_roundtrip_witness:
  "riscv_decode (riscv_section_bytes [(5, RvString (ascii ''rv32i2p1'')), (4, RvInteger 16)]) =
     Inr \<lparr>rv_architecture = ascii ''rv32i2p1'', rv_values = [(4, RvInteger 16), (5, RvString (ascii ''rv32i2p1''))]\<rparr>"
proof (rule riscv_section_roundtrip)
  show "list_all riscv_entry_ok [(5, RvString (ascii ''rv32i2p1'')), (4, RvInteger 16)]" by code_simp
  show "plain_selector (ascii ''rv32i2p1'')" by code_simp
  show "length (riscv_section_bytes [(5, RvString (ascii ''rv32i2p1'')), (4, RvInteger 16)]) \<le> 65536" by code_simp
qed (auto simp: btree_wf_def fun_eq_iff)

theorem riscv_decode_wellformed_witness:
  "map_of [(4, RvInteger 16), (5 :: u64, RvString (ascii ''rv32i2p1''))] 5 = Some (RvString (ascii ''rv32i2p1'')) \<and>
   plain_selector (ascii ''rv32i2p1'')"
proof -
  have "riscv_decode (riscv_section_bytes [(5, RvString (ascii ''rv32i2p1'')), (4, RvInteger 16)]) =
     Inr \<lparr>rv_architecture = ascii ''rv32i2p1'', rv_values = [(4, RvInteger 16), (5, RvString (ascii ''rv32i2p1''))]\<rparr>"
    by code_simp
  from riscv_decode_wellformed [OF this] show ?thesis by simp
qed

end
