(* ===== verification/Riscv_Contract.thy ===== *)
theory Riscv_Contract
  imports Elf_Riscv
begin

unbundle bit_operations_syntax

text \<open>
  Target contracts for RISC-V output, \<open>crates/aros-common/src/elf/riscv/contract.rs\<close>: what a
  declared contract must satisfy by itself (\<open>validate\<close>), how a document becomes one
  (\<open>parse\<close>, over the JSON reader of \<open>serde_json\<close>, a parameter), and when the bytes of an
  artifact satisfy it (\<open>verify\<close>).
\<close>

section \<open>Data\<close>

record TargetContract =
  tc_schema :: rstring
  tc_isa :: rstring
  tc_abi :: rstring
  tc_code_model :: rstring
  tc_architecture :: rstring
  tc_unaligned_access :: bool
  tc_atomic_abi :: u64
  tc_x3_reg_usage :: u64

datatype ArtifactRole = CompilationUnit | ArosRelocatable | NativeCore

datatype contract_error =
    ContractTooLarge
  | ContractNotJson
  | UnsupportedSchema
  | UnsupportedConvention
  | UnsafeSelector
  | UnsupportedCodeModel
  | UnsupportedAtomicOrX3
  | WidthDiffersFromAbi
  | UnversionedBase
  | IsaWidthDiffers
  | MissingF
  | MissingFD
  | ContractElf elf_error
  | MachineMismatch
  | ElfWidthMismatch
  | NotExecutable
  | NotRelocatable
  | FloatAbiMismatch
  | UnsupportedAbiFlags
  | ContractAttr attr_error
  | ArchitectureMismatch
  | StackAlignment
  | AbiAttributeType
  | AbiAttributeMismatch u64
  | RvcNotCovered
  | TsoNotCovered
  | MissingArosMarking
  | UnsupportedMarking

section \<open>Validation\<close>

definition tc_semantics :: "TargetContract \<Rightarrow> (contract_error, Class \<times> u32) result" where
  "tc_semantics c =
     (if tc_abi c = ascii ''ilp32'' then Inr (Elf32, 0)
      else if tc_abi c = ascii ''ilp32f'' then Inr (Elf32, 2)
      else if tc_abi c = ascii ''ilp32d'' then Inr (Elf32, 4)
      else if tc_abi c = ascii ''lp64'' then Inr (Elf64, 0)
      else if tc_abi c = ascii ''lp64f'' then Inr (Elf64, 2)
      else if tc_abi c = ascii ''lp64d'' then Inr (Elf64, 4)
      else Inl UnsupportedConvention)"

definition numeric_part :: "rstring \<Rightarrow> bool" where
  "numeric_part part = (part \<noteq> [] \<and> list_all is_ascii_digit part)"

text \<open>Exactly two decimal numbers around one \<open>p\<close>.\<close>

definition versioned :: "rstring \<Rightarrow> bool" where
  "versioned version =
     (case split_on (\<lambda>b. b = 0x70) version of
        [major, minor] \<Rightarrow> numeric_part major \<and> numeric_part minor
      | _ \<Rightarrow> False)"

definition has_extension :: "rstring \<Rightarrow> rstring \<Rightarrow> bool" where
  "has_extension architecture extension =
     list_ex (\<lambda>token. case strip_prefix token extension of
         Some (b # _) \<Rightarrow> is_ascii_digit b | _ \<Rightarrow> False)
       (split_on (\<lambda>b. b = 0x5f) architecture)"

definition width_prefix :: "Class \<Rightarrow> rstring" where
  "width_prefix class = (if class = Elf32 then ascii ''rv32'' else ascii ''rv64'')"

definition base_versioned :: "rstring \<Rightarrow> rstring \<Rightarrow> bool" where
  "base_versioned architecture base =
     (case strip_prefix (hd (split_on (\<lambda>b. b = 0x5f) architecture)) base of
        Some version \<Rightarrow> versioned version | None \<Rightarrow> False)"

definition tc_validate :: "TargetContract \<Rightarrow> (contract_error, unit) result" where
  "tc_validate c =
     ensure (tc_schema c = ascii ''aros-riscv-target-v1'') UnsupportedSchema
      (rbind (tc_semantics c) (\<lambda>(class, float_flags).
       ensure (plain_selector (tc_isa c)) UnsafeSelector
       (ensure (plain_selector (tc_architecture c)) UnsafeSelector
       (ensure (tc_code_model c = ascii ''medlow'' \<or> tc_code_model c = ascii ''medany'') UnsupportedCodeModel
       (ensure (tc_atomic_abi c \<le> 3 \<and> tc_x3_reg_usage c \<le> 3) UnsupportedAtomicOrX3
       (let width = width_prefix class; base = width @ ascii ''i''
        in ensure (starts_with (tc_architecture c) width) WidthDiffersFromAbi
          (ensure (base_versioned (tc_architecture c) base) UnversionedBase
          (ensure (starts_with (tc_isa c) base \<or>
                   class = Elf64 \<and> starts_with (tc_isa c) (ascii ''rva'') \<and> ends_with (tc_isa c) (ascii ''u64''))
             IsaWidthDiffers
          (ensure (float_flags \<noteq> 2 \<or> has_extension (tc_architecture c) (ascii ''f'')) MissingF
          (ensure (float_flags \<noteq> 4 \<or> has_extension (tc_architecture c) (ascii ''f'') \<and>
                   has_extension (tc_architecture c) (ascii ''d'')) MissingFD
            (Inr ())))))))))))"

text \<open>
  \<open>Deserialize for TargetContract\<close> and \<open>parse\<close>. \<open>from_slice\<close> stands for the closed record
  that \<open>serde_json\<close> reads from the document, if it is one.
\<close>

definition tc_deserialize :: "TargetContract option \<Rightarrow> (contract_error, TargetContract) result" where
  "tc_deserialize record' =
     rbind (ok_or record' ContractNotJson) (\<lambda>contract.
     rbind (tc_validate contract) (\<lambda>_. Inr contract))"

definition tc_parse :: "(bytes \<Rightarrow> TargetContract option) \<Rightarrow> bytes \<Rightarrow> (contract_error, TargetContract) result" where
  "tc_parse from_slice bs =
     ensure (length bs \<le> 16 * 1024) ContractTooLarge
       (rbind (map_err (\<lambda>_. ContractNotJson) (tc_deserialize (from_slice bs))) (\<lambda>contract.
        rbind (tc_validate contract) (\<lambda>_. Inr contract)))"

section \<open>Verification of an artifact\<close>

text \<open>One iteration of the loop over the three ABI attributes.\<close>

definition abi_attribute :: "(u64, RiscvValue) btreemap \<Rightarrow> u64 \<Rightarrow> u64 \<Rightarrow> (contract_error, unit) result" where
  "abi_attribute vals tag expected =
     rbind (case btree_get vals tag of
              None \<Rightarrow> Inr 0
            | Some (RvInteger value) \<Rightarrow> Inr value
            | Some (RvString _) \<Rightarrow> Inl AbiAttributeType) (\<lambda>actual.
       ensure (actual = expected) (AbiAttributeMismatch tag) (Inr ()))"

fun abi_attributes :: "(u64, RiscvValue) btreemap \<Rightarrow> (u64 \<times> u64) list \<Rightarrow> (contract_error, unit) result" where
  "abi_attributes vals [] = Inr ()"
| "abi_attributes vals ((tag, expected) # rest) =
     rbind (abi_attribute vals tag expected) (\<lambda>_. abi_attributes vals rest)"

text \<open>
  The checks of \<open>verify\<close> in three stretches: the header fields before the attributes are
  read, the attributes and what they must cover, and the ABI marking.
\<close>

definition verify_header ::
  "Class \<Rightarrow> u32 \<Rightarrow> ArtifactRole \<Rightarrow> Object \<Rightarrow> (contract_error, unit) result" where
  "verify_header class float_flags role object' =
     ensure (obj_machine object' = RISCV_MACHINE) MachineMismatch
     (ensure (obj_class object' = class) ElfWidthMismatch
     (rbind (if role = NativeCore
             then ensure (obj_kind object' = 2) NotExecutable (Inr ())
             else ensure (obj_kind object' = 1) NotRelocatable (Inr ())) (\<lambda>_.
     ensure (obj_flags object' AND FLOAT_ABI_MASK = float_flags) FloatAbiMismatch
     (ensure (obj_flags object' AND NOT 0x17 = 0) UnsupportedAbiFlags (Inr ())))))"

definition verify_attributes ::
  "TargetContract \<Rightarrow> Object \<Rightarrow> RiscvAttributes \<Rightarrow> (contract_error, unit) result" where
  "verify_attributes c object' attributes =
     ensure (rv_architecture attributes = tc_architecture c) ArchitectureMismatch
     (ensure (case btree_get (rv_values attributes) 4 of None \<Rightarrow> True | Some value \<Rightarrow> value = RvInteger 16) StackAlignment
     (rbind (abi_attributes (rv_values attributes)
               [(6, if tc_unaligned_access c then 1 else 0), (14, tc_atomic_abi c), (16, tc_x3_reg_usage c)]) (\<lambda>_.
     ensure (obj_flags object' AND 1 = 0 \<or> has_extension (tc_architecture c) (ascii ''c'') \<or>
             has_extension (tc_architecture c) (ascii ''zca'')) RvcNotCovered
     (ensure (obj_flags object' AND 0x10 = 0 \<or> has_extension (tc_architecture c) (ascii ''ztso'')) TsoNotCovered
       (Inr ())))))"

definition verify_marking :: "ArtifactRole \<Rightarrow> Object \<Rightarrow> (contract_error, unit) result" where
  "verify_marking role object' =
     (if role = ArosRelocatable
      then ensure (obj_os_abi object' = OS_ABI_AROS \<and> obj_abi_version object' = AROS_ABI_VERSION)
             MissingArosMarking (Inr ())
      else ensure (obj_os_abi object' = 0 \<and> obj_abi_version object' = 0 \<or>
                   obj_os_abi object' = OS_ABI_AROS \<and> obj_abi_version object' = AROS_ABI_VERSION)
             UnsupportedMarking (Inr ()))"

definition tc_verify :: "TargetContract \<Rightarrow> bytes \<Rightarrow> ArtifactRole \<Rightarrow> (contract_error, unit) result" where
  "tc_verify c bs role =
     rbind (tc_validate c) (\<lambda>_.
     rbind (map_err ContractElf (elf_read bs)) (\<lambda>object'.
     rbind (tc_semantics c) (\<lambda>(class, float_flags).
     rbind (verify_header class float_flags role object') (\<lambda>_.
     rbind (map_err ContractAttr (riscv_read bs)) (\<lambda>attributes.
     rbind (verify_attributes c object' attributes) (\<lambda>_.
       verify_marking role object'))))))"

section \<open>What the checks amount to\<close>

lemma abi_attribute_ok:
  "abi_attribute vals tag expected = Inr u \<longleftrightarrow>
     (case btree_get vals tag of None \<Rightarrow> expected = 0 | Some value \<Rightarrow> value = RvInteger expected)"
  by (auto simp: abi_attribute_def split: option.splits RiscvValue.splits if_splits)

definition abi_value :: "(u64, RiscvValue) btreemap \<Rightarrow> u64 \<Rightarrow> u64" where
  "abi_value vals tag = (case btree_get vals tag of Some (RvInteger n) \<Rightarrow> n | _ \<Rightarrow> 0)"

lemma abi_attribute_value: "abi_attribute vals tag expected = Inr u \<Longrightarrow> expected = abi_value vals tag"
  by (auto simp: abi_attribute_ok abi_value_def split: option.splits)

text \<open>The marking a role asks for.\<close>

definition role_marking :: "ArtifactRole \<Rightarrow> Object \<Rightarrow> bool" where
  "role_marking role ob =
     ((role \<noteq> ArosRelocatable \<and> obj_os_abi ob = 0 \<and> obj_abi_version ob = 0) \<or>
      (obj_os_abi ob = OS_ABI_AROS \<and> obj_abi_version ob = AROS_ABI_VERSION))"

text \<open>The part of the verdict that does not depend on the role.\<close>

definition measured_conforms :: "TargetContract \<Rightarrow> Object \<Rightarrow> RiscvAttributes \<Rightarrow> bool" where
  "measured_conforms c ob a =
     (obj_machine ob = RISCV_MACHINE \<and>
      tc_semantics c = Inr (obj_class ob, obj_flags ob AND FLOAT_ABI_MASK) \<and>
      obj_flags ob AND NOT 0x17 = 0 \<and> rv_architecture a = tc_architecture c \<and>
      btree_get (rv_values a) 4 \<in> {None, Some (RvInteger 16)} \<and>
      abi_attributes (rv_values a)
        [(6, if tc_unaligned_access c then 1 else 0), (14, tc_atomic_abi c), (16, tc_x3_reg_usage c)] = Inr () \<and>
      (obj_flags ob AND 1 = 0 \<or> has_extension (tc_architecture c) (ascii ''c'') \<or>
        has_extension (tc_architecture c) (ascii ''zca'')) \<and>
      (obj_flags ob AND 0x10 = 0 \<or> has_extension (tc_architecture c) (ascii ''ztso'')))"

lemma verify_header_iff:
  "verify_header class float_flags role ob = Inr () \<longleftrightarrow>
     obj_machine ob = RISCV_MACHINE \<and> (class, float_flags) = (obj_class ob, obj_flags ob AND FLOAT_ABI_MASK) \<and>
     obj_flags ob AND NOT 0x17 = 0 \<and> obj_kind ob = (if role = NativeCore then 2 else 1)"
  by (auto simp: verify_header_def split: if_splits)

lemma verify_marking_iff: "verify_marking role ob = Inr () \<longleftrightarrow> role_marking role ob"
  by (auto simp: verify_marking_def role_marking_def)

lemma verify_attributes_iff:
  "verify_attributes c ob a = Inr () \<longleftrightarrow>
     rv_architecture a = tc_architecture c \<and> btree_get (rv_values a) 4 \<in> {None, Some (RvInteger 16)} \<and>
     abi_attributes (rv_values a)
        [(6, if tc_unaligned_access c then 1 else 0), (14, tc_atomic_abi c), (16, tc_x3_reg_usage c)] = Inr () \<and>
     (obj_flags ob AND 1 = 0 \<or> has_extension (tc_architecture c) (ascii ''c'') \<or>
        has_extension (tc_architecture c) (ascii ''zca'')) \<and>
     (obj_flags ob AND 0x10 = 0 \<or> has_extension (tc_architecture c) (ascii ''ztso''))"
proof -
  have align: "(case m of None \<Rightarrow> True | Some value \<Rightarrow> value = RvInteger 16) \<longleftrightarrow> m \<in> {None, Some (RvInteger 16)}" for m
    by (cases m) auto
  show ?thesis
    by (simp only: verify_attributes_def align ensure_eq_Inr rbind_eq_Inr) (simp del: abi_attributes.simps)
qed

lemma tc_verify_iff:
  "tc_verify c bs role = Inr () \<longleftrightarrow>
     tc_validate c = Inr () \<and>
     (\<exists>ob a. elf_read bs = Inr ob \<and> riscv_read bs = Inr a \<and> measured_conforms c ob a \<and>
        obj_kind ob = (if role = NativeCore then 2 else 1) \<and> role_marking role ob)"
proof -
  have "tc_verify c bs role = Inr () \<longleftrightarrow> tc_validate c = Inr () \<and>
     (\<exists>ob class ff a. elf_read bs = Inr ob \<and> tc_semantics c = Inr (class, ff) \<and>
        verify_header class ff role ob = Inr () \<and> riscv_read bs = Inr a \<and>
        verify_attributes c ob a = Inr () \<and> verify_marking role ob = Inr ())"
    by (auto simp: tc_verify_def rbind_eq_Inr)
  then show ?thesis
    unfolding verify_header_iff verify_attributes_iff verify_marking_iff measured_conforms_def by blast
qed

lemma tc_validate_facts:
  assumes "tc_validate c = Inr ()" "tc_semantics c = Inr (class, ff)"
  shows "plain_selector (tc_isa c)" "base_versioned (tc_architecture c) (width_prefix class @ ascii ''i'')"
    "ff = 2 \<Longrightarrow> has_extension (tc_architecture c) (ascii ''f'')"
    "ff = 4 \<Longrightarrow> has_extension (tc_architecture c) (ascii ''f'') \<and> has_extension (tc_architecture c) (ascii ''d'')"
  using assms by (auto simp: tc_validate_def Let_def split: if_splits)

text \<open>The calling convention is determined by the width and the float bits.\<close>

lemma tc_semantics_inject:
  assumes "tc_semantics c = Inr r" "tc_semantics c' = Inr r"
  shows "tc_abi c = tc_abi c'"
  using assms by (auto simp: tc_semantics_def split: if_splits)

lemma abi_attributes_determine:
  assumes "abi_attributes vals [(6, u), (14, a), (16, x)] = Inr ()"
  shows "u = abi_value vals 6 \<and> a = abi_value vals 14 \<and> x = abi_value vals 16"
  using assms by (auto simp: rbind_eq_Inr intro!: abi_attribute_value)

section \<open>Properties\<close>

text \<open>
  C11. An accepted artifact is what its own bytes measure it to be: an ELF object of the width
  and float convention the contract names, whose architecture attribute is the contract's
  and starts with a versioned I base of that width, whose float convention is backed by the
  F and D extensions that attribute lists, whose flags hold no bit outside the float, RVC
  and TSO bits, and whose RVC and TSO bits are covered by the attribute. A link marked as an
  AROS relocatable is a relocatable file that carries the AROS ABI marking.
\<close>

theorem tc_verify_sound:
  assumes "tc_verify c bs role = Inr ()"
  shows "\<exists>ob a. elf_read bs = Inr ob \<and> riscv_read bs = Inr a \<and>
    tc_semantics c = Inr (obj_class ob, obj_flags ob AND 6) \<and> rv_architecture a = tc_architecture c \<and>
    base_versioned (rv_architecture a) (width_prefix (obj_class ob) @ ascii ''i'') \<and>
    (obj_flags ob AND 6 = 2 \<longrightarrow> has_extension (rv_architecture a) (ascii ''f'')) \<and>
    (obj_flags ob AND 6 = 4 \<longrightarrow>
      has_extension (rv_architecture a) (ascii ''f'') \<and> has_extension (rv_architecture a) (ascii ''d'')) \<and>
    obj_flags ob AND NOT 0x17 = 0 \<and>
    (obj_flags ob AND 1 \<noteq> 0 \<longrightarrow>
      has_extension (rv_architecture a) (ascii ''c'') \<or> has_extension (rv_architecture a) (ascii ''zca'')) \<and>
    (obj_flags ob AND 0x10 \<noteq> 0 \<longrightarrow> has_extension (rv_architecture a) (ascii ''ztso'')) \<and>
    (role = ArosRelocatable \<longrightarrow> obj_kind ob = 1 \<and> obj_os_abi ob = 15 \<and> obj_abi_version ob = 1)"
proof -
  from assms obtain ob a where v: "tc_validate c = Inr ()" "elf_read bs = Inr ob" "riscv_read bs = Inr a"
    "measured_conforms c ob a" "obj_kind ob = (if role = NativeCore then 2 else 1)" "role_marking role ob"
    by (auto simp: tc_verify_iff)
  then have sem: "tc_semantics c = Inr (obj_class ob, obj_flags ob AND 6)" and arch: "rv_architecture a = tc_architecture c"
    by (simp_all add: measured_conforms_def FLOAT_ABI_MASK_def)
  have flags: "obj_flags ob AND NOT 0x17 = 0"
    "obj_flags ob AND 1 \<noteq> 0 \<Longrightarrow> has_extension (rv_architecture a) (ascii ''c'') \<or> has_extension (rv_architecture a) (ascii ''zca'')"
    "obj_flags ob AND 0x10 \<noteq> 0 \<Longrightarrow> has_extension (rv_architecture a) (ascii ''ztso'')"
    using v(4) arch unfolding measured_conforms_def by auto
  have mark: "role = ArosRelocatable \<Longrightarrow> obj_kind ob = 1 \<and> obj_os_abi ob = 15 \<and> obj_abi_version ob = 1"
    using v(5,6) by (simp add: role_marking_def OS_ABI_AROS_def AROS_ABI_VERSION_def)
  show ?thesis
    using v(2,3) sem arch flags mark tc_validate_facts(2,3,4) [OF v(1) sem]
    by (intro exI [of _ ob] exI [of _ a]) simp
qed

text \<open>
  An artifact determines the contract that accepts it, up to the two compiler selectors
  that leave no trace in it: two contracts that accept the same bytes, in whatever roles,
  have the same calling convention, architecture, unaligned-access flag, atomic ABI and x3
  usage.
\<close>

lemma tc_verify_determines:
  assumes "tc_verify c bs role = Inr ()" and "tc_verify c' bs role' = Inr ()"
  shows "tc_abi c = tc_abi c' \<and> tc_architecture c = tc_architecture c' \<and>
    tc_unaligned_access c = tc_unaligned_access c' \<and> tc_atomic_abi c = tc_atomic_abi c' \<and>
    tc_x3_reg_usage c = tc_x3_reg_usage c'"
proof -
  from assms obtain ob a where m: "measured_conforms c ob a" "measured_conforms c' ob a"
    by (auto simp: tc_verify_iff)
  have sem: "tc_semantics x = Inr (obj_class ob, obj_flags ob AND FLOAT_ABI_MASK)"
    and arch: "tc_architecture x = rv_architecture a"
    if "measured_conforms x ob a" for x
    using that by (simp_all add: measured_conforms_def)
  have abi: "(if tc_unaligned_access x then 1 else 0) = abi_value (rv_values a) 6 \<and>
      tc_atomic_abi x = abi_value (rv_values a) 14 \<and> tc_x3_reg_usage x = abi_value (rv_values a) 16"
    if "measured_conforms x ob a" for x
    using that unfolding measured_conforms_def by (intro abi_attributes_determine) blast
  have "tc_abi c = tc_abi c'" using sem m by (intro tc_semantics_inject) auto
  moreover have "tc_unaligned_access c = tc_unaligned_access c'"
    using abi [OF m(1)] abi [OF m(2)] by (simp split: if_splits)
  ultimately show ?thesis using arch m abi [OF m(1)] abi [OF m(2)] by simp
qed

text \<open>
  Roles are ordered: what is accepted as an AROS relocatable is accepted as a compilation
  unit, and nothing accepted in a relocatable role is accepted as a native core.
\<close>

lemma tc_verify_roles:
  assumes "tc_verify c bs ArosRelocatable = Inr ()"
  shows "tc_verify c bs CompilationUnit = Inr () \<and> tc_verify c bs NativeCore \<noteq> Inr ()"
  using assms by (auto simp: tc_verify_iff role_marking_def)

text \<open>
  Parsing returns exactly the documents that are at most 16 KiB, that the JSON reader
  reads as a closed record, and whose record is valid.
\<close>

lemma tc_parse_exact:
  "tc_parse from_slice bs = Inr c \<longleftrightarrow>
     length bs \<le> 16384 \<and> from_slice bs = Some c \<and> tc_validate c = Inr ()"
  by (auto simp: tc_parse_def tc_deserialize_def rbind_eq_Inr)

text \<open>The contract of the fixture object, and the fixture with the AROS marking.\<close>

definition sample_contract :: TargetContract where
  "sample_contract =
     \<lparr>tc_schema = ascii ''aros-riscv-target-v1'', tc_isa = ascii ''rv32i'', tc_abi = ascii ''ilp32'',
      tc_code_model = ascii ''medany'', tc_architecture = ascii ''rv32i2p1'', tc_unaligned_access = False,
      tc_atomic_abi = 0, tc_x3_reg_usage = 0\<rparr>"

definition sample_attributes :: RiscvAttributes where
  "sample_attributes =
     \<lparr>rv_architecture = ascii ''rv32i2p1'', rv_values = [(4, RvInteger 16), (5, RvString (ascii ''rv32i2p1''))]\<rparr>"

lemma sample_section: "take 28 (drop 201 sample_object) = riscv_section_bytes (rv_values sample_attributes)"
  by code_simp

lemma sample_section_decodes: "riscv_decode (riscv_section_bytes (rv_values sample_attributes)) = Inr sample_attributes"
  unfolding sample_attributes_def RiscvAttributes.select_convs
proof (rule riscv_section_decodes)
  show "list_all riscv_entry_ok [(4, RvInteger 16), (5, RvString (ascii ''rv32i2p1''))]" by code_simp
  show "plain_selector (ascii ''rv32i2p1'')" by code_simp
  show "length (riscv_section_bytes [(4, RvInteger 16), (5, RvString (ascii ''rv32i2p1''))]) \<le> 65536" by code_simp
qed (auto simp: btree_wf_def)

lemma sample_measured:
  "\<exists>ob. elf_read sample_object = Inr ob \<and> riscv_read sample_object = Inr sample_attributes \<and>
     obj_class ob = Elf32 \<and> obj_machine ob = 243 \<and> obj_kind ob = 1 \<and> obj_flags ob = 0 \<and> obj_os_abi ob = 15 \<and>
     obj_abi_version ob = 1"
proof -
  obtain ob where ob: "elf_read sample_object = Inr ob" "obj_class ob = Elf32" "obj_machine ob = 243" "obj_kind ob = 1"
    "obj_flags ob = 0" "obj_os_abi ob = 15" "obj_abi_version ob = 1"
    "map (\<lambda>s. (sec_name s, sec_kind s, sec_offset s, sec_size s)) (obj_sections ob) = sample_sections"
    using sample_object_reads by blast
  from ob(8) obtain s0 s1 s2 where secs: "obj_sections ob = [s0, s1, s2]" and
    names: "sec_name s0 = []" "sec_name s1 = ascii ''.shstrtab''" "sec_name s2 = ascii ''.riscv.attributes''" and
    s2: "sec_kind s2 = 0x70000003" "sec_offset s2 = 201" "sec_size s2 = 28"
    by (auto simp: sample_sections_def)
  have distinct: "ascii ''.riscv.attributes'' \<noteq> []" "ascii ''.riscv.attributes'' \<noteq> ascii ''.shstrtab''"
    by code_simp+
  have "filter (\<lambda>s. sec_name s = ascii ''.riscv.attributes'') (obj_sections ob) = [s2]"
    using secs names distinct by auto
  moreover have "get_range sample_object 201 229 = Some (take 28 (drop 201 sample_object))"
    by (simp add: get_range_def sample_object_def)
  ultimately have "riscv_read sample_object = Inr sample_attributes"
    using ob(1,3) s2 sample_section sample_section_decodes
    by (simp add: riscv_read_def RISCV_MACHINE_def RISCV_SHT_ATTRIBUTES_def checked_add_def usize_limit_def)
  with ob show ?thesis by blast
qed

lemma sample_contract_valid: "tc_validate (sample_contract\<lparr>tc_code_model := m\<rparr>) = Inr ()"
  if "m = ascii ''medany'' \<or> m = ascii ''medlow''"
proof -
  have "tc_validate sample_contract = Inr ()" by code_simp
  then show ?thesis using that
    by (auto simp: tc_validate_def tc_semantics_def Let_def sample_contract_def split: if_splits)
qed

lemma sample_conforms:
  assumes "obj_class ob = Elf32" "obj_machine ob = 243" "obj_flags ob = 0"
  shows "measured_conforms (sample_contract\<lparr>tc_code_model := m\<rparr>) ob sample_attributes"
  using assms
  by (simp add: measured_conforms_def tc_semantics_def RISCV_MACHINE_def sample_contract_def sample_attributes_def
      abi_attribute_def btree_get_def)

lemma sample_verifies:
  assumes "role \<noteq> NativeCore" "m = ascii ''medany'' \<or> m = ascii ''medlow''"
  shows "tc_verify (sample_contract\<lparr>tc_code_model := m\<rparr>) sample_object role = Inr ()"
  using sample_measured sample_contract_valid [OF assms(2)] sample_conforms assms(1)
  by (auto simp: tc_verify_iff role_marking_def OS_ABI_AROS_def AROS_ABI_VERSION_def)

lemma sample_contract_update: "sample_contract\<lparr>tc_code_model := ascii ''medany''\<rparr> = sample_contract"
  by (simp add: sample_contract_def)

lemmas sample_relocatable = sample_verifies [of ArosRelocatable "ascii ''medany''", simplified sample_contract_update, simplified]

lemmas sample_unit = sample_verifies [of CompilationUnit "ascii ''medlow''", simplified]

theorem tc_verify_sound_witness:
  "\<exists>ob a. elf_read sample_object = Inr ob \<and> riscv_read sample_object = Inr a \<and>
     rv_architecture a = ascii ''rv32i2p1'' \<and> obj_os_abi ob = 15 \<and> obj_kind ob = 1"
proof -
  from tc_verify_sound [OF sample_relocatable] obtain ob a where
    "elf_read sample_object = Inr ob" "riscv_read sample_object = Inr a" "rv_architecture a = tc_architecture sample_contract"
    "obj_os_abi ob = 15" "obj_kind ob = 1"
    by auto
  then show ?thesis by (auto simp: sample_contract_def)
qed

lemma tc_verify_determines_witness:
  "tc_verify sample_contract sample_object ArosRelocatable = Inr () \<and>
   tc_verify (sample_contract\<lparr>tc_code_model := ascii ''medlow''\<rparr>) sample_object CompilationUnit = Inr () \<and>
   tc_abi sample_contract = tc_abi (sample_contract\<lparr>tc_code_model := ascii ''medlow''\<rparr>)"
  using tc_verify_determines [OF sample_relocatable sample_unit] sample_relocatable sample_unit by blast

lemma tc_verify_roles_witness:
  "tc_verify sample_contract sample_object CompilationUnit = Inr () \<and>
   tc_verify sample_contract sample_object NativeCore \<noteq> Inr ()"
  using tc_verify_roles [OF sample_relocatable] by blast

end
