(* ===== verification/Toolchain_Manifest.thy ===== *)
theory Toolchain_Manifest
  imports Riscv_Contract Rust_Path Rust_Url
begin

text \<open>
  Release locks and installed manifests of cross toolchains,
  \<open>crates/aros-common/src/toolchain_manifest.rs\<close>. The TOML, JSON and URL parsers are parameters;
  \<open>build_environment\<close> is not looked at and stays the raw text of its members.
\<close>

section \<open>Data\<close>

definition AROS_TOOLCHAIN_LOCK_SCHEMA :: u32 where "AROS_TOOLCHAIN_LOCK_SCHEMA = 1"
definition AROS_TOOLCHAIN_LOCK_SCHEMA_V2 :: u32 where "AROS_TOOLCHAIN_LOCK_SCHEMA_V2 = 2"
definition AROS_TOOLCHAIN_MANIFEST_SCHEMA :: u32 where "AROS_TOOLCHAIN_MANIFEST_SCHEMA = 1"
definition AROS_TOOLCHAIN_MANIFEST_SCHEMA_V2 :: u32 where "AROS_TOOLCHAIN_MANIFEST_SCHEMA_V2 = 2"
definition AROS_TOOLCHAIN_MANIFEST_FILE :: rstring where "AROS_TOOLCHAIN_MANIFEST_FILE = ascii ''toolchain-manifest.json''"
definition MAX_MANIFEST_BYTES :: usize where "MAX_MANIFEST_BYTES = 4 * 1024 * 1024"
definition MAX_VERSION_COMPONENT :: nat where "MAX_VERSION_COMPONENT = 2147483647"

datatype ArosCompilerIdentity =
    Llvm rstring
  | Gnu (gcc_version: rstring) (binutils_version: rstring) (gnu_target: TargetContract)

record ArosToolchainArtifact =
  ta_host :: rstring
  ta_target_profile :: rstring
  ta_target_triple :: rstring
  ta_asset :: rstring
  ta_sha256 :: rstring
  ta_tree_sha256 :: rstring
  ta_llvm_version :: "rstring option"
  ta_compiler :: "ArosCompilerIdentity option"
  ta_size :: "u64 option"
  ta_enabled :: bool
  ta_disabled_reason :: "rstring option"
  ta_strip_components :: usize
  ta_required_paths :: "rstring list"

record ArosToolchainLock =
  tl_schema :: u32
  tl_release_id :: rstring
  tl_base_url :: "rstring option"
  tl_artifacts :: "ArosToolchainArtifact list"

record ArosToolchainManifestEntry =
  te_path :: rstring
  te_mode :: rstring
  te_kind :: rstring
  te_sha256 :: "rstring option"
  te_size :: "u64 option"
  te_target :: "rstring option"

record ArosToolchainManifest =
  tm_schema :: u32
  tm_release_id :: rstring
  tm_host :: rstring
  tm_target_profile :: rstring
  tm_target_triple :: rstring
  tm_tree_sha256 :: rstring
  tm_llvm_version :: "rstring option"
  tm_compiler :: "ArosCompilerIdentity option"
  tm_recipe_sha256 :: rstring
  tm_source_lock_sha256 :: rstring
  tm_profiles_sha256 :: rstring
  tm_source_commit :: rstring
  tm_producer_commit :: rstring
  tm_tools_commit :: rstring
  tm_source_date_epoch :: u64
  tm_capabilities :: "rstring list"
  tm_build_environment :: "(rstring \<times> rstring) list"
  tm_files :: "ArosToolchainManifestEntry list"

datatype manifest_error =
    SchemaUnsupported u32
  | BadSegment string
  | EmptyTriple
  | CompilerNotAllowed
  | LlvmVersionMissing
  | LlvmVersionInvalid
  | LlvmVersionNotAllowed
  | CompilerMissing
  | CompilerMixed
  | CompilerUndeclared
  | VersionInvalid string
  | TripleSuffix
  | TripleComponents
  | AbiWidth
  | CpuDiffers
  | BadSha256 string
  | BadLowerSha256 string
  | BadCommit string
  | NoCapabilities
  | CapabilityInvalid
  | NoInventory
  | InventoryPath rstring
  | InventoriesItself
  | InventoryNotSorted
  | FileWithoutSha256
  | SymlinkWithoutTarget
  | SymlinkUnsafe rstring rstring
  | SymlinkEscapes rstring
  | EntryInvalid rstring
  | StripComponents
  | RequiredPath rstring
  | AssetMissing
  | NullDigest
  | NoDisabledReason rstring rstring
  | UrlSyntax
  | UrlNotHttps
  | UrlSecrets
  | AssetUnsafe rstring
  | NoBaseUrl
  | DuplicateSelector rstring rstring
  | ManifestNotOpened
  | ManifestTooLarge
  | ManifestNotUtf8
  | ManifestSyntax

section \<open>Names, digests and paths\<close>

definition lower_hex :: "u8 \<Rightarrow> bool" where
  "lower_hex b = (is_ascii_digit b \<or> 97 \<le> b \<and> b \<le> 102)"

definition validate_lower_sha256 :: "string \<Rightarrow> rstring \<Rightarrow> (manifest_error, unit) result" where
  "validate_lower_sha256 field value =
     ensure (\<not> (length value \<noteq> 64 \<or> \<not> list_all lower_hex value)) (BadLowerSha256 field) (Inr ())"

definition validate_git_commit :: "string \<Rightarrow> rstring \<Rightarrow> (manifest_error, unit) result" where
  "validate_git_commit field value =
     ensure (\<not> (length value \<noteq> 40 \<or> \<not> list_all lower_hex value)) (BadCommit field) (Inr ())"

definition validate_sha256 :: "string \<Rightarrow> rstring \<Rightarrow> (manifest_error, unit) result" where
  "validate_sha256 field value =
     ensure (\<not> (length value \<noteq> 64 \<or> \<not> list_all is_ascii_hexdigit value)) (BadSha256 field) (Inr ())"

definition validate_segment :: "string \<Rightarrow> rstring \<Rightarrow> (manifest_error, unit) result" where
  "validate_segment field value =
     ensure (\<not> (value = [] \<or> value = [46] \<or> value = [46, 46] \<or> SLASH \<in> set value \<or> 92 \<in> set value)) (BadSegment field) (Inr ())"

definition is_normal :: "component \<Rightarrow> bool" where
  "is_normal c = (case c of Normal _ \<Rightarrow> True | _ \<Rightarrow> False)"

definition validate_manifest_path :: "rstring \<Rightarrow> (manifest_error, unit) result" where
  "validate_manifest_path value =
     ensure (\<not> (value = [] \<or> 92 \<in> set value \<or> is_absolute value \<or>
                list_ex (\<lambda>c. c \<in> {CurDir, ParentDir, RootDir}) (path_components value))) (InventoryPath value) (Inr ())"

definition validate_relative_path :: "rstring \<Rightarrow> (manifest_error, unit) result" where
  "validate_relative_path value =
     ensure (\<not> (value = [] \<or> is_absolute value \<or> list_ex (\<lambda>c. c \<in> {ParentDir, RootDir}) (path_components value)))
       (RequiredPath value) (Inr ())"

definition validate_relative_asset :: "rstring \<Rightarrow> (manifest_error, unit) result" where
  "validate_relative_asset value =
     ensure (\<not> (value = [] \<or> list_ex (\<lambda>b. b \<in> {92, 63, 35, 58}) value \<or> is_absolute value \<or>
                list_ex (\<lambda>c. c \<in> {CurDir, ParentDir, RootDir}) (path_components value))) (AssetUnsafe value) (Inr ())"

definition is_null_sha256 :: "rstring \<Rightarrow> bool" where
  "is_null_sha256 value = list_all (\<lambda>b. b = 48) value"

text \<open>The components of \<open>Path::parent\<close> are all but the last.\<close>

fun symlink_depth :: "rstring \<Rightarrow> nat \<Rightarrow> component list \<Rightarrow> (manifest_error, unit) result" where
  "symlink_depth path depth [] = Inr ()"
| "symlink_depth path depth (c # cs) =
     (case c of
        Normal _ \<Rightarrow> symlink_depth path (depth + 1) cs
      | CurDir \<Rightarrow> symlink_depth path depth cs
      | ParentDir \<Rightarrow> ensure (depth > 0) (SymlinkEscapes path) (symlink_depth path (depth - 1) cs)
      | RootDir \<Rightarrow> Inl (SymlinkEscapes path))"

definition validate_symlink_target :: "rstring \<Rightarrow> rstring \<Rightarrow> (manifest_error, unit) result" where
  "validate_symlink_target path target =
     ensure (\<not> (92 \<in> set target \<or> is_absolute target)) (SymlinkUnsafe path target)
       (symlink_depth path (length (filter is_normal (butlast (path_components path)))) (path_components target))"

section \<open>Compilers\<close>

definition validate_legacy_llvm_version :: "rstring \<Rightarrow> (manifest_error, unit) result" where
  "validate_legacy_llvm_version version =
     ensure (\<not> (length (split_on (\<lambda>b. b = 46) version) \<noteq> 3 \<or>
                list_ex (\<lambda>part. part = [] \<or> \<not> list_all is_ascii_digit part) (split_on (\<lambda>b. b = 46) version)))
       LlvmVersionInvalid (Inr ())"

fun version_components :: "string \<Rightarrow> usize \<Rightarrow> usize \<Rightarrow> rstring list \<Rightarrow> (manifest_error, usize) result" where
  "version_components field max_components n [] = Inr n"
| "version_components field max_components n (part # parts) =
     ensure (\<not> (part = [] \<or> length part > 10 \<or> \<not> list_all is_ascii_digit part)) (VersionInvalid field)
     (rbind (ok_or (unsigned_from_str_radix (2 ^ 32) 10 part) (VersionInvalid field)) (\<lambda>value.
      ensure (\<not> value > MAX_VERSION_COMPONENT) (VersionInvalid field)
      (ensure (\<not> n + 1 > max_components) (VersionInvalid field)
        (version_components field max_components (n + 1) parts))))"

definition validate_numeric_version :: "string \<Rightarrow> rstring \<Rightarrow> usize \<Rightarrow> usize \<Rightarrow> (manifest_error, unit) result" where
  "validate_numeric_version field version min_components max_components =
     ensure (\<not> length version > max_components * 11) (VersionInvalid field)
     (rbind (version_components field max_components 0 (split_on (\<lambda>b. b = 46) version)) (\<lambda>n.
      ensure (min_components \<le> n \<and> n \<le> max_components) (VersionInvalid field) (Inr ())))"

definition validate_gnu_compiler_versions :: "rstring \<Rightarrow> rstring \<Rightarrow> (manifest_error, unit) result" where
  "validate_gnu_compiler_versions gcc binutils =
     rbind (validate_numeric_version ''GCC version'' gcc 3 3) (\<lambda>_.
     validate_numeric_version ''binutils version'' binutils 2 4)"

definition validate_versions :: "ArosCompilerIdentity \<Rightarrow> (manifest_error, unit) result" where
  "validate_versions identity =
     (case identity of
        Llvm version \<Rightarrow> validate_numeric_version ''LLVM version'' version 3 3
      | Gnu gcc binutils _ \<Rightarrow> validate_gnu_compiler_versions gcc binutils)"

definition triple_part_ok :: "rstring \<Rightarrow> bool" where
  "triple_part_ok part =
     (\<not> (part = [] \<or> part = [46] \<or> part = [46, 46] \<or> \<not> list_all (\<lambda>b. is_ascii_alphanumeric b \<or> b = 95 \<or> b = 46) part))"

definition expected_cpu :: "rstring \<Rightarrow> (manifest_error, rstring) result" where
  "expected_cpu abi =
     (if starts_with abi (ascii ''ilp32'') then Inr (ascii ''riscv'')
      else if starts_with abi (ascii ''lp64'') then Inr (ascii ''riscv64'')
      else Inl AbiWidth)"

definition validate_gnu_target_triple :: "rstring \<Rightarrow> rstring \<Rightarrow> (manifest_error, unit) result" where
  "validate_gnu_target_triple target_triple abi =
     rbind (ok_or (strip_suffix target_triple (ascii ''-aros'')) TripleSuffix) (\<lambda>prefix'.
     ensure (\<not> (prefix' = [] \<or> length prefix' > 128 \<or> list_ex (\<lambda>part. \<not> triple_part_ok part) (split_on (\<lambda>b. b = 45) prefix')))
       TripleComponents
     (let cpu = hd (split_on (\<lambda>b. b = 45) prefix')
      in rbind (expected_cpu abi) (\<lambda>expected. ensure (cpu = expected) CpuDiffers (Inr ()))))"

definition validate_for_target :: "ArosCompilerIdentity \<Rightarrow> rstring \<Rightarrow> (manifest_error, unit) result" where
  "validate_for_target identity target_triple =
     rbind (validate_versions identity) (\<lambda>_.
     case identity of
       Gnu _ _ target \<Rightarrow> validate_gnu_target_triple target_triple (tc_abi target)
     | Llvm _ \<Rightarrow> Inr ())"

definition normalized_compiler_identity ::
  "rstring option \<Rightarrow> ArosCompilerIdentity option \<Rightarrow> (manifest_error, ArosCompilerIdentity) result" where
  "normalized_compiler_identity llvm_version compiler =
     (case (llvm_version, compiler) of
        (Some version, None) \<Rightarrow> Inr (Llvm version)
      | (None, Some identity) \<Rightarrow> Inr identity
      | (Some _, Some _) \<Rightarrow> Inl CompilerMixed
      | (None, None) \<Rightarrow> Inl CompilerUndeclared)"

definition validate_compiler_contract ::
  "u32 \<Rightarrow> rstring option \<Rightarrow> ArosCompilerIdentity option \<Rightarrow> rstring \<Rightarrow> bool \<Rightarrow> (manifest_error, unit) result" where
  "validate_compiler_contract schema llvm_version compiler target_triple require_legacy_llvm =
     (if schema = AROS_TOOLCHAIN_LOCK_SCHEMA \<or> schema = AROS_TOOLCHAIN_MANIFEST_SCHEMA
      then ensure (compiler = None) CompilerNotAllowed
        (if require_legacy_llvm
         then rbind (ok_or llvm_version LlvmVersionMissing) validate_legacy_llvm_version
         else Inr ())
      else if schema = AROS_TOOLCHAIN_LOCK_SCHEMA_V2 \<or> schema = AROS_TOOLCHAIN_MANIFEST_SCHEMA_V2
      then ensure (llvm_version = None) LlvmVersionNotAllowed
        (rbind (ok_or compiler CompilerMissing) (\<lambda>identity. validate_for_target identity target_triple))
      else Inl (SchemaUnsupported schema))"

text \<open>Which of the two compiler fields a decoded document may have.\<close>

datatype 'a PresentField = Absent | Null | Value 'a

fun into_value :: "'a PresentField \<Rightarrow> 'a option" where
  "into_value (Value v) = Some v"
| "into_value Absent = None"
| "into_value Null = None"

definition compiler_fields_from_record ::
  "u32 \<Rightarrow> rstring PresentField \<Rightarrow> ArosCompilerIdentity option \<Rightarrow> bool \<Rightarrow>
     (manifest_error, rstring option \<times> ArosCompilerIdentity option) result" where
  "compiler_fields_from_record schema llvm_version compiler require_legacy_llvm =
     (if schema = AROS_TOOLCHAIN_LOCK_SCHEMA \<or> schema = AROS_TOOLCHAIN_MANIFEST_SCHEMA
      then ensure (compiler = None) CompilerNotAllowed
        (ensure (\<not> (require_legacy_llvm \<and> into_value llvm_version = None)) LlvmVersionMissing
          (Inr (into_value llvm_version, None)))
      else if schema = AROS_TOOLCHAIN_LOCK_SCHEMA_V2 \<or> schema = AROS_TOOLCHAIN_MANIFEST_SCHEMA_V2
      then ensure (llvm_version = Absent) LlvmVersionNotAllowed
        (rbind (ok_or compiler CompilerMissing) (\<lambda>identity. Inr (None, Some identity)))
      else Inr (into_value llvm_version, compiler))"

section \<open>Locks\<close>

text \<open>\<open>str::contains\<close>, \<open>trim_end_matches\<close> and \<open>trim_start_matches\<close>.\<close>

fun str_contains :: "'a list \<Rightarrow> 'a list \<Rightarrow> bool" where
  "str_contains [] ps = (ps = [])"
| "str_contains (x # xs) ps = (starts_with (x # xs) ps \<or> str_contains xs ps)"

definition trim_start_matches :: "'a \<Rightarrow> 'a list \<Rightarrow> 'a list" where
  "trim_start_matches c s = dropWhile (\<lambda>b. b = c) s"

definition trim_end_matches :: "'a \<Rightarrow> 'a list \<Rightarrow> 'a list" where
  "trim_end_matches c s = rev (dropWhile (\<lambda>b. b = c) (rev s))"

definition parse_credential_free_https_url :: "(rstring \<Rightarrow> Url option) \<Rightarrow> rstring \<Rightarrow> (manifest_error, Url) result" where
  "parse_credential_free_https_url url_parse value =
     rbind (ok_or (url_parse value) UrlSyntax) (\<lambda>parsed.
     ensure (\<not> (url_scheme parsed \<noteq> ascii ''https'' \<or> url_host parsed = None)) UrlNotHttps
     (ensure (\<not> (url_username parsed \<noteq> [] \<or> url_password parsed \<noteq> None \<or> url_query parsed \<noteq> None \<or> url_fragment parsed \<noteq> None))
       UrlSecrets (Inr parsed)))"

definition is_url :: "(rstring \<Rightarrow> Url option) \<Rightarrow> rstring \<Rightarrow> bool" where
  "is_url url_parse value = (url_parse value \<noteq> None \<or> str_contains value (ascii ''://''))"

definition asset_url :: "(rstring \<Rightarrow> Url option) \<Rightarrow> ArosToolchainLock \<Rightarrow> ArosToolchainArtifact \<Rightarrow> (manifest_error, rstring) result" where
  "asset_url url_parse lock artifact =
     (if is_url url_parse (ta_asset artifact)
      then rbind (parse_credential_free_https_url url_parse (ta_asset artifact)) (\<lambda>_. Inr (ta_asset artifact))
      else rbind (validate_relative_asset (ta_asset artifact)) (\<lambda>_.
        rbind (ok_or (tl_base_url lock) NoBaseUrl) (\<lambda>base_url.
        let resolved = trim_end_matches SLASH base_url @ [SLASH] @ trim_start_matches SLASH (ta_asset artifact)
        in rbind (parse_credential_free_https_url url_parse resolved) (\<lambda>_. Inr resolved))))"

fun validate_required_paths :: "rstring list \<Rightarrow> (manifest_error, unit) result" where
  "validate_required_paths [] = Inr ()"
| "validate_required_paths (path # paths) = rbind (validate_relative_path path) (\<lambda>_. validate_required_paths paths)"

definition artifact_enablement :: "ArosToolchainArtifact \<Rightarrow> (manifest_error, unit) result" where
  "artifact_enablement a =
     (if ta_enabled a
      then ensure (trim (ta_asset a) \<noteq> []) AssetMissing
        (ensure (\<not> (is_null_sha256 (ta_sha256 a) \<or> is_null_sha256 (ta_tree_sha256 a))) NullDigest (Inr ()))
      else ensure (\<not> (case ta_disabled_reason a of None \<Rightarrow> True | Some reason \<Rightarrow> reason = []))
        (NoDisabledReason (ta_host a) (ta_target_profile a)) (Inr ()))"

definition artifact_asset :: "(rstring \<Rightarrow> Url option) \<Rightarrow> rstring \<Rightarrow> (manifest_error, unit) result" where
  "artifact_asset url_parse asset =
     (if asset \<noteq> []
      then if is_url url_parse asset
           then rbind (parse_credential_free_https_url url_parse asset) (\<lambda>_. Inr ())
           else validate_relative_asset asset
      else Inr ())"

definition artifact_validate :: "(rstring \<Rightarrow> Url option) \<Rightarrow> u32 \<Rightarrow> ArosToolchainArtifact \<Rightarrow> (manifest_error, unit) result" where
  "artifact_validate url_parse schema a =
     rbind (validate_segment ''host'' (ta_host a)) (\<lambda>_.
     rbind (validate_segment ''target_profile'' (ta_target_profile a)) (\<lambda>_.
     ensure (trim (ta_target_triple a) \<noteq> []) EmptyTriple
     (rbind (validate_compiler_contract schema (ta_llvm_version a) (ta_compiler a) (ta_target_triple a) False) (\<lambda>_.
      rbind (validate_sha256 ''sha256'' (ta_sha256 a)) (\<lambda>_.
      rbind (validate_sha256 ''tree_sha256'' (ta_tree_sha256 a)) (\<lambda>_.
      ensure (\<not> ta_strip_components a > 8) StripComponents
      (rbind (validate_required_paths (ta_required_paths a)) (\<lambda>_.
       rbind (artifact_enablement a) (\<lambda>_. artifact_asset url_parse (ta_asset a))))))))))"

fun validate_artifacts ::
  "(rstring \<Rightarrow> Url option) \<Rightarrow> ArosToolchainLock \<Rightarrow> (rstring \<times> rstring) set \<Rightarrow> ArosToolchainArtifact list \<Rightarrow> (manifest_error, unit) result" where
  "validate_artifacts url_parse lock selectors [] = Inr ()"
| "validate_artifacts url_parse lock selectors (a # as) =
     rbind (artifact_validate url_parse (tl_schema lock) a) (\<lambda>_.
     rbind (if ta_enabled a then rbind (asset_url url_parse lock a) (\<lambda>_. Inr ()) else Inr ()) (\<lambda>_.
     ensure ((ta_host a, ta_target_profile a) \<notin> selectors) (DuplicateSelector (ta_host a) (ta_target_profile a))
       (validate_artifacts url_parse lock (insert (ta_host a, ta_target_profile a) selectors) as)))"

definition lock_validate :: "(rstring \<Rightarrow> Url option) \<Rightarrow> ArosToolchainLock \<Rightarrow> (manifest_error, unit) result" where
  "lock_validate url_parse lock =
     ensure (tl_schema lock = AROS_TOOLCHAIN_LOCK_SCHEMA \<or> tl_schema lock = AROS_TOOLCHAIN_LOCK_SCHEMA_V2) (SchemaUnsupported (tl_schema lock))
     (rbind (validate_segment ''release_id'' (tl_release_id lock)) (\<lambda>_.
      rbind (case tl_base_url lock of
               Some base_url \<Rightarrow> rbind (parse_credential_free_https_url url_parse base_url) (\<lambda>_. Inr ())
             | None \<Rightarrow> Inr ()) (\<lambda>_.
      validate_artifacts url_parse lock {} (tl_artifacts lock))))"

definition lock_resolve :: "ArosToolchainLock \<Rightarrow> rstring \<Rightarrow> rstring \<Rightarrow> ArosToolchainArtifact option" where
  "lock_resolve lock host target_profile =
     find (\<lambda>a. ta_host a = host \<and> ta_target_profile a = target_profile) (tl_artifacts lock)"

section \<open>Manifests\<close>

definition validate_entry :: "ArosToolchainManifestEntry \<Rightarrow> (manifest_error, unit) result" where
  "validate_entry e =
     (if te_kind e = ascii ''directory'' \<and> te_mode e = ascii ''0755'' \<and> te_sha256 e = None \<and> te_size e = None \<and> te_target e = None
      then Inr ()
      else if te_kind e = ascii ''file'' \<and> te_mode e \<in> {ascii ''0644'', ascii ''0755''} \<and> te_size e \<noteq> None \<and> te_target e = None
      then rbind (ok_or (te_sha256 e) FileWithoutSha256) (validate_lower_sha256 ''file inventory sha256'')
      else if te_kind e = ascii ''symlink'' \<and> te_mode e = ascii ''0777'' \<and> te_sha256 e = None \<and> te_size e = None
      then (case te_target e of
              None \<Rightarrow> Inl SymlinkWithoutTarget
            | Some target \<Rightarrow> ensure (target \<noteq> []) SymlinkWithoutTarget (validate_symlink_target (te_path e) target))
      else Inl (EntryInvalid (te_path e)))"

fun validate_entries :: "rstring option \<Rightarrow> ArosToolchainManifestEntry list \<Rightarrow> (manifest_error, unit) result" where
  "validate_entries previous [] = Inr ()"
| "validate_entries previous (e # es) =
     rbind (validate_manifest_path (te_path e)) (\<lambda>_.
     ensure (te_path e \<noteq> AROS_TOOLCHAIN_MANIFEST_FILE) InventoriesItself
     (ensure (\<not> (case previous of None \<Rightarrow> False | Some prior \<Rightarrow> prior \<ge> te_path e)) InventoryNotSorted
     (rbind (validate_entry e) (\<lambda>_. validate_entries (Some (te_path e)) es))))"

fun validate_capabilities :: "rstring set \<Rightarrow> rstring list \<Rightarrow> (manifest_error, unit) result" where
  "validate_capabilities seen [] = Inr ()"
| "validate_capabilities seen (c # cs) =
     ensure (\<not> (trim c = [] \<or> c \<in> seen)) CapabilityInvalid (validate_capabilities (insert c seen) cs)"

fun check_fields :: "(string \<Rightarrow> rstring \<Rightarrow> (manifest_error, unit) result) \<Rightarrow> (string \<times> rstring) list \<Rightarrow> (manifest_error, unit) result" where
  "check_fields check [] = Inr ()"
| "check_fields check ((field, value) # rest) = rbind (check field value) (\<lambda>_. check_fields check rest)"

definition manifest_validate :: "ArosToolchainManifest \<Rightarrow> (manifest_error, unit) result" where
  "manifest_validate m =
     ensure (tm_schema m = AROS_TOOLCHAIN_MANIFEST_SCHEMA \<or> tm_schema m = AROS_TOOLCHAIN_MANIFEST_SCHEMA_V2) (SchemaUnsupported (tm_schema m))
     (rbind (validate_segment ''release_id'' (tm_release_id m)) (\<lambda>_.
      rbind (validate_segment ''host'' (tm_host m)) (\<lambda>_.
      rbind (validate_segment ''target_profile'' (tm_target_profile m)) (\<lambda>_.
      ensure (trim (tm_target_triple m) \<noteq> []) EmptyTriple
      (rbind (validate_compiler_contract (tm_schema m) (tm_llvm_version m) (tm_compiler m) (tm_target_triple m) True) (\<lambda>_.
       rbind (check_fields validate_lower_sha256
                [(''tree_sha256'', tm_tree_sha256 m), (''recipe_sha256'', tm_recipe_sha256 m),
                 (''source_lock_sha256'', tm_source_lock_sha256 m), (''profiles_sha256'', tm_profiles_sha256 m)]) (\<lambda>_.
       rbind (check_fields validate_git_commit
                [(''source_commit'', tm_source_commit m), (''producer_commit'', tm_producer_commit m),
                 (''tools_commit'', tm_tools_commit m)]) (\<lambda>_.
       ensure (tm_capabilities m \<noteq> []) NoCapabilities
       (rbind (validate_capabilities {} (tm_capabilities m)) (\<lambda>_.
        ensure (tm_files m \<noteq> []) NoInventory (validate_entries None (tm_files m))))))))))))"

definition manifest_compiler_identity :: "ArosToolchainManifest \<Rightarrow> (manifest_error, ArosCompilerIdentity) result" where
  "manifest_compiler_identity m = normalized_compiler_identity (tm_llvm_version m) (tm_compiler m)"

text \<open>
  A decoded document before its compiler fields are checked: \<open>llvm_version\<close> with its presence,
  and the other members, among them a compiler whose versions are still to be validated.
\<close>

record ArosToolchainManifestRecord =
  mr_llvm_version :: "rstring PresentField"
  mr_members :: ArosToolchainManifest

definition manifest_from_record :: "ArosToolchainManifestRecord \<Rightarrow> (manifest_error, ArosToolchainManifest) result" where
  "manifest_from_record r =
     rbind (case tm_compiler (mr_members r) of None \<Rightarrow> Inr () | Some identity \<Rightarrow> validate_versions identity) (\<lambda>_.
     rbind (compiler_fields_from_record (tm_schema (mr_members r)) (mr_llvm_version r) (tm_compiler (mr_members r)) True)
       (\<lambda>(llvm_version, compiler). Inr ((mr_members r)\<lparr>tm_llvm_version := llvm_version, tm_compiler := compiler\<rparr>)))"

text \<open>\<open>ArosToolchainManifest::load\<close> from what the opened manifest file holds.\<close>

definition manifest_load ::
  "(bytes \<Rightarrow> ArosToolchainManifestRecord option) \<Rightarrow> (rstring \<Rightarrow> bytes option) \<Rightarrow> rstring \<Rightarrow> (manifest_error, ArosToolchainManifest) result" where
  "manifest_load json open_file root =
     rbind (ok_or (open_file (path_join root AROS_TOOLCHAIN_MANIFEST_FILE)) ManifestNotOpened) (\<lambda>file'.
     let content = take (MAX_MANIFEST_BYTES + 1) file'
     in ensure (utf8_valid content) ManifestNotUtf8
       (ensure (\<not> length content > MAX_MANIFEST_BYTES) ManifestTooLarge
       (rbind (ok_or (json content) ManifestSyntax) (\<lambda>decoded.
        rbind (manifest_from_record decoded) (\<lambda>manifest.
        rbind (manifest_validate manifest) (\<lambda>_. Inr manifest))))))"

section \<open>The declarative form of valid metadata\<close>

text \<open>A path below the root: only names, no backslash.\<close>

definition inventory_path :: "rstring \<Rightarrow> bool" where
  "inventory_path value = (value \<noteq> [] \<and> 92 \<notin> set value \<and> path_components value = map Normal (path_names value))"

text \<open>
  Following a relative target from a directory, by names alone: the directory reached, given by
  its names from the innermost out, or nothing when the walk leaves the root.
\<close>

fun lexical_resolve :: "rstring list \<Rightarrow> component list \<Rightarrow> rstring list option" where
  "lexical_resolve dir [] = Some dir"
| "lexical_resolve dir (Normal name # cs) = lexical_resolve (name # dir) cs"
| "lexical_resolve dir (CurDir # cs) = lexical_resolve dir cs"
| "lexical_resolve dir (ParentDir # cs) = (case dir of [] \<Rightarrow> None | _ # up \<Rightarrow> lexical_resolve up cs)"
| "lexical_resolve dir (RootDir # cs) = None"

definition link_stays_inside :: "rstring \<Rightarrow> rstring \<Rightarrow> bool" where
  "link_stays_inside path target =
     (92 \<notin> set target \<and> \<not> is_absolute target \<and> lexical_resolve (rev (butlast (path_names path))) (path_components target) \<noteq> None)"

definition entry_ok :: "ArosToolchainManifestEntry \<Rightarrow> bool" where
  "entry_ok e =
     (inventory_path (te_path e) \<and> te_path e \<noteq> AROS_TOOLCHAIN_MANIFEST_FILE \<and>
      (te_kind e = ascii ''directory'' \<and> te_mode e = ascii ''0755'' \<and> te_sha256 e = None \<and> te_size e = None \<and> te_target e = None \<or>
       te_kind e = ascii ''file'' \<and> te_mode e \<in> {ascii ''0644'', ascii ''0755''} \<and> te_size e \<noteq> None \<and> te_target e = None \<and>
         (\<exists>d. te_sha256 e = Some d \<and> length d = 64 \<and> list_all lower_hex d) \<or>
       te_kind e = ascii ''symlink'' \<and> te_mode e = ascii ''0777'' \<and> te_sha256 e = None \<and> te_size e = None \<and>
         (\<exists>t. te_target e = Some t \<and> t \<noteq> [] \<and> link_stays_inside (te_path e) t)))"

definition segment_ok :: "rstring \<Rightarrow> bool" where
  "segment_ok value = (value \<noteq> [] \<and> value \<noteq> [46] \<and> value \<noteq> [46, 46] \<and> SLASH \<notin> set value \<and> 92 \<notin> set value)"

definition hex_text :: "nat \<Rightarrow> rstring \<Rightarrow> bool" where
  "hex_text n value = (length value = n \<and> list_all lower_hex value)"

text \<open>One number of a version: at most ten digits, at most \<open>MAX_VERSION_COMPONENT\<close>.\<close>

definition version_part :: "rstring \<Rightarrow> bool" where
  "version_part part =
     (part \<noteq> [] \<and> length part \<le> 10 \<and> list_all is_ascii_digit part \<and>
      (\<exists>v. digits_value 10 0 part = Some v \<and> v \<le> MAX_VERSION_COMPONENT))"

definition version_ok :: "nat \<Rightarrow> nat \<Rightarrow> rstring \<Rightarrow> bool" where
  "version_ok min_components max_components version =
     (let parts = split_on (\<lambda>b. b = 46) version
      in min_components \<le> length parts \<and> length parts \<le> max_components \<and> list_all version_part parts)"

lemma normal_components: "list_all is_normal (path_components value) \<longleftrightarrow> path_components value = map Normal (path_names value)"
proof -
  have "list_all is_normal cs \<longleftrightarrow> cs = map Normal (List.map_filter (\<lambda>c. case c of Normal v \<Rightarrow> Some v | _ \<Rightarrow> None) cs)" for cs
  proof (induction cs)
    case (Cons c cs)
    have len: "length (List.map_filter f xs) \<le> length xs" for f and xs :: "component list"
      by (induction xs) (auto simp: map_filter_simps split: option.splits)
    show ?case
    proof (cases c)
      case (Normal v)
      then show ?thesis using Cons by (simp add: map_filter_simps is_normal_def)
    qed (use len [of "\<lambda>c. case c of Normal v \<Rightarrow> Some v | _ \<Rightarrow> None" cs] in
      \<open>auto simp: map_filter_simps is_normal_def dest!: arg_cong [of _ _ length]\<close>)
  qed (simp add: map_filter_simps)
  then show ?thesis by (simp add: path_names_def)
qed

lemma validate_manifest_path_iff: "validate_manifest_path value = Inr u \<longleftrightarrow> inventory_path value"
proof -
  have "is_normal c \<longleftrightarrow> c \<notin> {CurDir, ParentDir, RootDir}" for c by (cases c) (auto simp: is_normal_def)
  moreover have "RootDir \<in> set (path_components value)" if "is_absolute value" using that by (simp add: path_components_def Let_def)
  ultimately have "\<not> is_absolute value \<and> \<not> list_ex (\<lambda>c. c \<in> {CurDir, ParentDir, RootDir}) (path_components value) \<longleftrightarrow>
      list_all is_normal (path_components value)"
    by (auto simp: list_ex_iff list_all_iff)
  then show ?thesis by (auto simp: validate_manifest_path_def inventory_path_def normal_components)
qed

lemma symlink_depth_iff: "symlink_depth path (length dir) cs = Inr () \<longleftrightarrow> lexical_resolve dir cs \<noteq> None"
proof (induction dir cs rule: lexical_resolve.induct)
  case (4 dir cs)
  then show ?case by (cases dir) auto
qed auto

lemma validate_symlink_target_iff:
  assumes "inventory_path path"
  shows "validate_symlink_target path target = Inr () \<longleftrightarrow> link_stays_inside path target"
proof -
  have c: "path_components path = map Normal (path_names path)" using assms by (simp add: inventory_path_def)
  have "filter is_normal (butlast (path_components path)) = butlast (path_components path)"
    unfolding c by (auto simp: is_normal_def dest!: in_set_butlastD intro!: filter_True)
  then have "length (filter is_normal (butlast (path_components path))) = length (rev (butlast (path_names path)))"
    by (simp add: c)
  then show ?thesis
    unfolding validate_symlink_target_def link_stays_inside_def ensure_eq_Inr by (simp only: symlink_depth_iff) blast
qed

lemma validate_entry_iff:
  assumes "inventory_path (te_path e)" "te_path e \<noteq> AROS_TOOLCHAIN_MANIFEST_FILE"
  shows "validate_entry e = Inr () \<longleftrightarrow> entry_ok e"
proof -
  have kinds: "ascii ''directory'' \<noteq> ascii ''file''" "ascii ''directory'' \<noteq> ascii ''symlink''" "ascii ''file'' \<noteq> ascii ''symlink''"
    by code_simp+
  show ?thesis
    using assms kinds
    by (auto simp: validate_entry_def entry_ok_def validate_symlink_target_iff validate_lower_sha256_def rbind_eq_Inr
        split: option.splits if_splits)
qed

definition entries_ok :: "rstring option \<Rightarrow> ArosToolchainManifestEntry list \<Rightarrow> bool" where
  "entries_ok previous es =
     (list_all entry_ok es \<and> sorted_wrt (<) (map te_path es) \<and>
      (case previous of None \<Rightarrow> True | Some prior \<Rightarrow> \<forall>e\<in>set es. prior < te_path e))"

lemma validate_entries_iff: "validate_entries previous es = Inr () \<longleftrightarrow> entries_ok previous es"
proof (induction es arbitrary: previous)
  case Nil
  then show ?case by (simp add: entries_ok_def split: option.split)
next
  case (Cons e es)
  have "validate_entries previous (e # es) = Inr () \<longleftrightarrow>
      inventory_path (te_path e) \<and> te_path e \<noteq> AROS_TOOLCHAIN_MANIFEST_FILE \<and>
      (case previous of None \<Rightarrow> True | Some prior \<Rightarrow> prior < te_path e) \<and> validate_entry e = Inr () \<and> entries_ok (Some (te_path e)) es"
    unfolding validate_entries.simps rbind_eq_Inr ensure_eq_Inr Cons.IH validate_manifest_path_iff
    by (auto simp: not_le split: option.splits)
  also have "\<dots> \<longleftrightarrow> entry_ok e \<and> (case previous of None \<Rightarrow> True | Some prior \<Rightarrow> prior < te_path e) \<and> entries_ok (Some (te_path e)) es"
    using validate_entry_iff [of e] by (auto simp: entry_ok_def)
  also have "\<dots> \<longleftrightarrow> entries_ok previous (e # es)"
    by (auto simp: entries_ok_def dest: less_trans split: option.split)
  finally show ?case .
qed

lemma validate_capabilities_iff:
  "validate_capabilities seen cs = Inr () \<longleftrightarrow> list_all (\<lambda>c. trim c \<noteq> []) cs \<and> distinct cs \<and> set cs \<inter> seen = {}"
  by (induction seen cs rule: validate_capabilities.induct) auto

lemma check_fields_iff: "check_fields check fs = Inr () \<longleftrightarrow> list_all (\<lambda>(field, value). check field value = Inr ()) fs"
  by (induction check fs rule: check_fields.induct) (auto simp: rbind_eq_Inr)

lemma validate_segment_iff: "validate_segment field value = Inr u \<longleftrightarrow> segment_ok value"
  by (auto simp: validate_segment_def segment_ok_def)

lemma validate_lower_sha256_iff: "validate_lower_sha256 field value = Inr u \<longleftrightarrow> hex_text 64 value"
  by (auto simp: validate_lower_sha256_def hex_text_def)

lemma validate_git_commit_iff: "validate_git_commit field value = Inr u \<longleftrightarrow> hex_text 40 value"
  by (auto simp: validate_git_commit_def hex_text_def)

subsection \<open>Versions and compilers\<close>

lemma digits_no_plus: "list_all is_ascii_digit part \<Longrightarrow> part \<noteq> [] \<Longrightarrow> hd part \<noteq> 43"
  by (cases part) (auto simp: is_ascii_digit_def)

lemma version_components_iff:
  "version_components field m n parts = Inr out \<longleftrightarrow>
     list_all version_part parts \<and> (parts = [] \<or> n + length parts \<le> m) \<and> out = n + length parts"
proof (induction parts arbitrary: n)
  case (Cons part parts)
  have val: "(\<exists>v. unsigned_from_str_radix (2 ^ 32) 10 part = Some v \<and> \<not> v > MAX_VERSION_COMPONENT) \<longleftrightarrow>
      (\<exists>v. digits_value 10 0 part = Some v \<and> v \<le> MAX_VERSION_COMPONENT)" if "part \<noteq> []" "list_all is_ascii_digit part"
  proof -
    have "unsigned_from_str_radix (2 ^ 32) 10 part = Option.bind (digits_value 10 0 part) (\<lambda>n. if n < 2 ^ 32 then Some n else None)"
      using that digits_no_plus [OF that(2,1)] by (simp add: unsigned_from_str_radix_def Let_def)
    then show ?thesis by (cases "digits_value 10 0 part") (simp_all add: MAX_VERSION_COMPONENT_def not_less)
  qed
  have "version_components field m n (part # parts) = Inr out \<longleftrightarrow>
      part \<noteq> [] \<and> length part \<le> 10 \<and> list_all is_ascii_digit part \<and>
      (\<exists>v. unsigned_from_str_radix (2 ^ 32) 10 part = Some v \<and> \<not> v > MAX_VERSION_COMPONENT) \<and> n + 1 \<le> m \<and>
      list_all version_part parts \<and> (parts = [] \<or> n + 1 + length parts \<le> m) \<and> out = n + 1 + length parts"
    unfolding version_components.simps rbind_eq_Inr ensure_eq_Inr Cons.IH by (auto simp: not_less)
  also have "\<dots> \<longleftrightarrow> list_all version_part (part # parts) \<and> n + length (part # parts) \<le> m \<and> out = n + length (part # parts)"
    using val by (auto simp: version_part_def)
  finally show ?case by simp
qed auto

lemma length_split_on_parts: "length s + 1 = sum_list (map length (split_on P s)) + length (split_on P s)"
proof (induction s)
  case (Cons x s)
  then show ?case by (cases "split_on P s") auto
qed simp

text \<open>The length limit in front of the loop never rejects what the loop accepts.\<close>

lemma version_length:
  assumes "list_all version_part (split_on (\<lambda>b. b = 46) version)" "length (split_on (\<lambda>b. b = 46) version) \<le> m"
  shows "length version \<le> m * 11"
proof -
  let ?parts = "split_on (\<lambda>b. b = 46) version"
  have "sum_list (map length ?parts) \<le> sum_list (map (\<lambda>_. 10) ?parts)"
    using assms(1) by (intro sum_list_mono) (auto simp: list_all_iff version_part_def)
  then have "sum_list (map length ?parts) \<le> 10 * length ?parts" by (simp add: sum_list_triv)
  then show ?thesis using length_split_on_parts [of version "\<lambda>b. b = 46"] assms(2) by simp
qed

lemma validate_numeric_version_iff: "validate_numeric_version field version lo hi = Inr u \<longleftrightarrow> version_ok lo hi version"
  unfolding validate_numeric_version_def rbind_eq_Inr ensure_eq_Inr version_components_iff
  using version_length [of version hi] by (auto simp: version_ok_def Let_def not_less)

text \<open>A GNU triple: safe parts, and a CPU of the width that the target ABI has.\<close>

definition gnu_triple_ok :: "rstring \<Rightarrow> rstring \<Rightarrow> bool" where
  "gnu_triple_ok triple abi =
     (\<exists>parts. triple = join_with [45] parts @ ascii ''-aros'' \<and> parts \<noteq> [] \<and> list_all triple_part_ok parts \<and>
       length (join_with [45] parts) \<le> 128 \<and>
       (hd parts = ascii ''riscv'' \<and> starts_with abi (ascii ''ilp32'') \<or> hd parts = ascii ''riscv64'' \<and> starts_with abi (ascii ''lp64'')))"

definition identity_valid :: "ArosCompilerIdentity \<Rightarrow> rstring \<Rightarrow> bool" where
  "identity_valid identity triple =
     (case identity of
        Llvm version \<Rightarrow> version_ok 3 3 version
      | Gnu gcc binutils target \<Rightarrow> version_ok 3 3 gcc \<and> version_ok 2 4 binutils \<and> gnu_triple_ok triple (tc_abi target))"

lemma triple_part_no_dash: "triple_part_ok part \<Longrightarrow> 45 \<notin> set part"
  by (auto simp: triple_part_ok_def list_all_iff ascii_class_defs dest!: bspec [of _ _ 45])

lemma expected_cpu_iff:
  "expected_cpu abi = Inr cpu \<longleftrightarrow>
     cpu = ascii ''riscv'' \<and> starts_with abi (ascii ''ilp32'') \<or> cpu = ascii ''riscv64'' \<and> starts_with abi (ascii ''lp64'')"
proof -
  have "\<not> (starts_with abi (ascii ''ilp32'') \<and> starts_with abi (ascii ''lp64''))"
    by (cases abi) (auto simp: ascii_def)
  then show ?thesis by (auto simp: expected_cpu_def)
qed

lemma strip_suffix_eq_Some: "strip_suffix s t = Some r \<longleftrightarrow> s = r @ t"
  by (auto simp: strip_suffix_def ends_with_iff)

lemma validate_gnu_target_triple_iff: "validate_gnu_target_triple triple abi = Inr u \<longleftrightarrow> gnu_triple_ok triple abi"
proof -
  have "validate_gnu_target_triple triple abi = Inr u \<longleftrightarrow>
      (\<exists>pre. triple = pre @ ascii ''-aros'' \<and> pre \<noteq> [] \<and> length pre \<le> 128 \<and> list_all triple_part_ok (split_on (\<lambda>b. b = 45) pre) \<and>
        expected_cpu abi = Inr (hd (split_on (\<lambda>b. b = 45) pre)))"
    unfolding validate_gnu_target_triple_def Let_def rbind_eq_Inr ensure_eq_Inr
    by (auto simp: strip_suffix_eq_Some list_ex_iff list_all_iff not_less)
  also have "\<dots> \<longleftrightarrow> gnu_triple_ok triple abi"
  proof
    assume "\<exists>pre. triple = pre @ ascii ''-aros'' \<and> pre \<noteq> [] \<and> length pre \<le> 128 \<and> list_all triple_part_ok (split_on (\<lambda>b. b = 45) pre) \<and>
        expected_cpu abi = Inr (hd (split_on (\<lambda>b. b = 45) pre))"
    then obtain pre where "triple = pre @ ascii ''-aros''" "length pre \<le> 128" "list_all triple_part_ok (split_on (\<lambda>b. b = 45) pre)"
      "expected_cpu abi = Inr (hd (split_on (\<lambda>b. b = 45) pre))" by blast
    then show "gnu_triple_ok triple abi"
      unfolding gnu_triple_ok_def by (intro exI [of _ "split_on (\<lambda>b. b = 45) pre"]) (simp add: join_split_on expected_cpu_iff)
  next
    assume "gnu_triple_ok triple abi"
    then obtain parts where p: "triple = join_with [45] parts @ ascii ''-aros''" "parts \<noteq> []" "list_all triple_part_ok parts"
      "length (join_with [45] parts) \<le> 128" "expected_cpu abi = Inr (hd parts)"
      unfolding gnu_triple_ok_def expected_cpu_iff by blast
    have s: "split_on (\<lambda>b. b = 45) (join_with [45] parts) = parts"
      using p(2,3) triple_part_no_dash by (intro split_on_join) (auto simp: list_all_iff)
    have "join_with [45] parts \<noteq> []"
    proof
      assume "join_with [45] parts = []"
      with s have "parts = [[]]" by simp
      then show False using p(3) by (simp add: triple_part_ok_def)
    qed
    with p s show "\<exists>pre. triple = pre @ ascii ''-aros'' \<and> pre \<noteq> [] \<and> length pre \<le> 128 \<and> list_all triple_part_ok (split_on (\<lambda>b. b = 45) pre) \<and>
        expected_cpu abi = Inr (hd (split_on (\<lambda>b. b = 45) pre))"
      by (intro exI [of _ "join_with [45] parts"]) simp
  qed
  finally show ?thesis .
qed

lemma validate_for_target_iff: "validate_for_target identity triple = Inr u \<longleftrightarrow> identity_valid identity triple"
  by (cases identity)
    (auto simp: validate_for_target_def validate_versions_def validate_gnu_compiler_versions_def identity_valid_def rbind_eq_Inr
      validate_numeric_version_iff validate_gnu_target_triple_iff)

definition legacy_version_ok :: "rstring \<Rightarrow> bool" where
  "legacy_version_ok version =
     (let parts = split_on (\<lambda>b. b = 46) version in length parts = 3 \<and> list_all (\<lambda>part. part \<noteq> [] \<and> list_all is_ascii_digit part) parts)"

text \<open>Which compiler declaration a schema allows.\<close>

definition compiler_ok :: "u32 \<Rightarrow> rstring option \<Rightarrow> ArosCompilerIdentity option \<Rightarrow> rstring \<Rightarrow> bool \<Rightarrow> bool" where
  "compiler_ok schema llvm_version compiler triple require_legacy =
     (schema = 1 \<and> compiler = None \<and> (require_legacy \<longrightarrow> (\<exists>v. llvm_version = Some v \<and> legacy_version_ok v)) \<or>
      schema = 2 \<and> llvm_version = None \<and> (\<exists>i. compiler = Some i \<and> identity_valid i triple))"

lemma validate_compiler_contract_iff:
  "validate_compiler_contract schema llvm_version compiler triple require_legacy = Inr u \<longleftrightarrow>
     compiler_ok schema llvm_version compiler triple require_legacy"
proof -
  have legacy: "validate_legacy_llvm_version v = Inr () \<longleftrightarrow> legacy_version_ok v" for v
    by (auto simp: validate_legacy_llvm_version_def legacy_version_ok_def Let_def list_ex_iff list_all_iff)
  show ?thesis
    by (auto simp: validate_compiler_contract_def compiler_ok_def AROS_TOOLCHAIN_LOCK_SCHEMA_def AROS_TOOLCHAIN_MANIFEST_SCHEMA_def
        AROS_TOOLCHAIN_LOCK_SCHEMA_V2_def AROS_TOOLCHAIN_MANIFEST_SCHEMA_V2_def rbind_eq_Inr legacy validate_for_target_iff)
qed

definition manifest_ok :: "ArosToolchainManifest \<Rightarrow> bool" where
  "manifest_ok m =
     (segment_ok (tm_release_id m) \<and> segment_ok (tm_host m) \<and> segment_ok (tm_target_profile m) \<and> trim (tm_target_triple m) \<noteq> [] \<and>
      compiler_ok (tm_schema m) (tm_llvm_version m) (tm_compiler m) (tm_target_triple m) True \<and>
      list_all (hex_text 64) [tm_tree_sha256 m, tm_recipe_sha256 m, tm_source_lock_sha256 m, tm_profiles_sha256 m] \<and>
      list_all (hex_text 40) [tm_source_commit m, tm_producer_commit m, tm_tools_commit m] \<and>
      tm_capabilities m \<noteq> [] \<and> list_all (\<lambda>c. trim c \<noteq> []) (tm_capabilities m) \<and> distinct (tm_capabilities m) \<and>
      tm_files m \<noteq> [] \<and> list_all entry_ok (tm_files m) \<and> sorted_wrt (<) (map te_path (tm_files m)))"

lemma manifest_validate_iff: "manifest_validate m = Inr () \<longleftrightarrow> manifest_ok m"
proof -
  have schema: "tm_schema m = AROS_TOOLCHAIN_MANIFEST_SCHEMA \<or> tm_schema m = AROS_TOOLCHAIN_MANIFEST_SCHEMA_V2"
    if "compiler_ok (tm_schema m) l c t True" for l c t
    using that by (auto simp: compiler_ok_def AROS_TOOLCHAIN_MANIFEST_SCHEMA_def AROS_TOOLCHAIN_MANIFEST_SCHEMA_V2_def)
  show ?thesis
    unfolding manifest_validate_def rbind_eq_Inr ensure_eq_Inr validate_segment_iff validate_compiler_contract_iff
    using schema
    by (auto simp: manifest_ok_def check_fields_iff validate_lower_sha256_iff validate_git_commit_iff validate_capabilities_iff
        validate_entries_iff entries_ok_def rbind_eq_Inr)
qed

section \<open>Following links\<close>

text \<open>
  What the operating system does with a path below the root: a name that is a link is replaced by
  its target. Directories are their names from the innermost out; the number bounds the steps.
\<close>

datatype walk = Inside "rstring list" | Outside | TooManySteps

fun follow :: "nat \<Rightarrow> (rstring list \<Rightarrow> rstring option) \<Rightarrow> rstring list \<Rightarrow> component list \<Rightarrow> walk" where
  "follow 0 links dir cs = TooManySteps"
| "follow (Suc n) links dir [] = Inside dir"
| "follow (Suc n) links dir (c # cs) =
     (case c of
        Normal name \<Rightarrow>
          (case links (name # dir) of
             None \<Rightarrow> follow n links (name # dir) cs
           | Some target \<Rightarrow> follow n links dir (path_components target @ cs))
      | CurDir \<Rightarrow> follow n links dir cs
      | ParentDir \<Rightarrow> (case dir of [] \<Rightarrow> Outside | _ # up \<Rightarrow> follow n links up cs)
      | RootDir \<Rightarrow> Outside)"

definition links_of :: "ArosToolchainManifestEntry list \<Rightarrow> rstring list \<Rightarrow> rstring option" where
  "links_of es names =
     Option.bind (find (\<lambda>e. rev (path_names (te_path e)) = names \<and> te_kind e = ascii ''symlink'') es) te_target"

text \<open>Without links on the way, following a path is walking its names.\<close>

lemma follow_lexical:
  assumes "\<And>names. links names = None" "length cs < n"
  shows "follow n links dir cs = (case lexical_resolve dir cs of None \<Rightarrow> Outside | Some d \<Rightarrow> Inside d)"
  using assms(2)
proof (induction dir cs arbitrary: n rule: lexical_resolve.induct)
  case (4 dir cs)
  then show ?case by (cases n; cases dir) auto
qed (use assms(1) in \<open>auto simp: gr0_conv_Suc Suc_less_eq2\<close>)

section \<open>What a lock guarantees\<close>

lemma parse_credential_free_https_url_eq_Inr:
  "parse_credential_free_https_url url_parse value = Inr u \<longleftrightarrow>
     url_parse value = Some u \<and> url_scheme u = ascii ''https'' \<and> url_host u \<noteq> None \<and> url_username u = [] \<and> url_password u = None \<and>
     url_query u = None \<and> url_fragment u = None"
  by (auto simp: parse_credential_free_https_url_def rbind_eq_Inr)

lemma asset_url_eq_Inr:
  "asset_url url_parse lock a = Inr url \<Longrightarrow> \<exists>u. parse_credential_free_https_url url_parse url = Inr u"
  by (auto simp: asset_url_def rbind_eq_Inr Let_def split: if_splits)

lemma validate_artifacts_iff:
  "validate_artifacts url_parse lock selectors as = Inr () \<longleftrightarrow>
     list_all (\<lambda>a. artifact_validate url_parse (tl_schema lock) a = Inr ()) as \<and>
     list_all (\<lambda>a. ta_enabled a \<longrightarrow> is_ok (asset_url url_parse lock a)) as \<and>
     distinct (map (\<lambda>a. (ta_host a, ta_target_profile a)) as) \<and>
     set (map (\<lambda>a. (ta_host a, ta_target_profile a)) as) \<inter> selectors = {}"
proof (induction as arbitrary: selectors)
  case (Cons a as)
  have "(if ta_enabled a then rbind (asset_url url_parse lock a) (\<lambda>_. Inr ()) else Inr ()) = Inr u \<longleftrightarrow>
      (ta_enabled a \<longrightarrow> is_ok (asset_url url_parse lock a))" for u
    by (auto simp: rbind_eq_Inr is_ok_iff)
  then show ?case unfolding validate_artifacts.simps rbind_eq_Inr ensure_eq_Inr Cons.IH by auto
qed simp

lemma lock_resolve_unique:
  assumes "distinct (map (\<lambda>a. (ta_host a, ta_target_profile a)) (tl_artifacts lock))"
  shows "lock_resolve lock host profile = Some a \<longleftrightarrow> a \<in> set (tl_artifacts lock) \<and> ta_host a = host \<and> ta_target_profile a = profile"
proof
  assume "lock_resolve lock host profile = Some a"
  then show "a \<in> set (tl_artifacts lock) \<and> ta_host a = host \<and> ta_target_profile a = profile"
    unfolding lock_resolve_def by (rule find_SomeD)
next
  assume "a \<in> set (tl_artifacts lock) \<and> ta_host a = host \<and> ta_target_profile a = profile"
  then show "lock_resolve lock host profile = Some a"
    using find_unique [OF assms, of a "(host, profile)"] by (simp add: lock_resolve_def)
qed

section \<open>Samples\<close>

definition sample_hex :: "nat \<Rightarrow> rstring" where "sample_hex n = replicate n 97"

definition link_entry :: "string \<Rightarrow> string \<Rightarrow> ArosToolchainManifestEntry" where
  "link_entry path target =
     \<lparr>te_path = ascii path, te_mode = ascii ''0777'', te_kind = ascii ''symlink'', te_sha256 = None, te_size = None,
      te_target = Some (ascii target)\<rparr>"

definition gnu_manifest :: "ArosToolchainManifestEntry list \<Rightarrow> ArosToolchainManifest" where
  "gnu_manifest files =
     \<lparr>tm_schema = 2, tm_release_id = ascii ''r1'', tm_host = ascii ''linux'', tm_target_profile = ascii ''riscv'',
      tm_target_triple = ascii ''riscv-aros'', tm_tree_sha256 = sample_hex 64, tm_llvm_version = None,
      tm_compiler = Some (Gnu (ascii ''15.2.0'') (ascii ''2.45'') sample_contract), tm_recipe_sha256 = sample_hex 64,
      tm_source_lock_sha256 = sample_hex 64, tm_profiles_sha256 = sample_hex 64, tm_source_commit = sample_hex 40,
      tm_producer_commit = sample_hex 40, tm_tools_commit = sample_hex 40, tm_source_date_epoch = 1,
      tm_capabilities = [ascii ''compiler''], tm_build_environment = [], tm_files = files\<rparr>"

definition chained_links :: "ArosToolchainManifestEntry list" where
  "chained_links =
     [\<lparr>te_path = ascii ''d'', te_mode = ascii ''0755'', te_kind = ascii ''directory'', te_sha256 = None, te_size = None, te_target = None\<rparr>,
      link_entry ''d/a'' ''..'', link_entry ''d/l'' ''a/../x'']"

lemma gnu_manifest_valid:
  assumes "validate_entries None files = Inr ()" "files \<noteq> []"
  shows "manifest_validate (gnu_manifest files) = Inr ()"
proof -
  have "lower_hex 97" by code_simp
  then have hex: "hex_text n (sample_hex n)" for n by (simp add: hex_text_def sample_hex_def list_all_iff)
  have "segment_ok (ascii ''r1'')" "segment_ok (ascii ''linux'')" "segment_ok (ascii ''riscv'')"
    "trim (ascii ''riscv-aros'') \<noteq> []" "trim (ascii ''compiler'') \<noteq> []"
    by code_simp+
  moreover have "validate_compiler_contract 2 None (Some (Gnu (ascii ''15.2.0'') (ascii ''2.45'') sample_contract)) (ascii ''riscv-aros'') True = Inr ()"
    by code_simp
  moreover have "list_all entry_ok files \<and> sorted_wrt (<) (map te_path files)"
    using assms(1) by (simp add: validate_entries_iff entries_ok_def)
  ultimately show ?thesis
    using assms(2) hex by (simp add: manifest_validate_iff manifest_ok_def gnu_manifest_def validate_compiler_contract_iff)
qed

lemma chained_links_valid: "validate_entries None chained_links = Inr ()"
  by code_simp

lemma gnu_cpu:
  assumes "gnu_triple_ok triple (tc_abi c)" "tc_semantics c = Inr (cls, flags)"
  shows "starts_with triple (ascii ''riscv64-'') \<longleftrightarrow> cls = Elf64"
proof -
  obtain parts where parts: "triple = join_with [45] parts @ ascii ''-aros''" "parts \<noteq> []" and
    cpu: "hd parts = ascii ''riscv'' \<and> starts_with (tc_abi c) (ascii ''ilp32'') \<or> hd parts = ascii ''riscv64'' \<and> starts_with (tc_abi c) (ascii ''lp64'')"
    using assms(1) unfolding gnu_triple_ok_def by blast
  obtain rest where rest: "triple = hd parts @ 45 # rest"
    using parts by (cases parts; cases "tl parts") (auto simp: ascii_def)
  have "\<not> starts_with (ascii ''riscv'' @ 45 # rest) (ascii ''riscv64-'')" "starts_with (ascii ''riscv64'' @ 45 # rest) (ascii ''riscv64-'')"
    by (simp_all add: ascii_def)
  moreover have "\<not> starts_with abi (ascii ''lp64'')" if "starts_with abi (ascii ''ilp32'')" for abi
    using that by (cases abi) (auto simp: ascii_def)
  moreover have "cls = Elf64 \<longleftrightarrow> starts_with (tc_abi c) (ascii ''lp64'')"
    using assms(2) by (auto simp: tc_semantics_def ascii_def split: if_splits)
  ultimately show ?thesis using cpu rest by auto
qed

section \<open>Properties\<close>

text \<open>
  C36. The manifest check accepts exactly the consistent manifests: a compiler declaration of
  the schema's family, canonical digests and commits, distinct capabilities, and a nonempty
  inventory in strictly ascending path order whose paths are plain, whose entries have the fields
  of their kind, and whose links do not lead out of the root by their names.
\<close>

theorem manifest_validate_exact: "manifest_validate m = Inr () \<longleftrightarrow> manifest_ok m"
  by (rule manifest_validate_iff)

text \<open>
  A valid manifest names one compiler; for a GNU compiler the CPU of the target triple has
  the width that the embedded RISC-V contract derives from its ABI.
\<close>

lemma manifest_compiler_agrees:
  assumes "manifest_validate m = Inr ()"
  shows "\<exists>i. manifest_compiler_identity m = Inr i \<and>
    (\<forall>gcc binutils c cls flags. i = Gnu gcc binutils c \<and> tc_semantics c = Inr (cls, flags) \<longrightarrow>
      (starts_with (tm_target_triple m) (ascii ''riscv64-'') \<longleftrightarrow> cls = Elf64))"
proof -
  have "compiler_ok (tm_schema m) (tm_llvm_version m) (tm_compiler m) (tm_target_triple m) True"
    using assms by (simp add: manifest_validate_iff manifest_ok_def)
  then show ?thesis
    unfolding compiler_ok_def
  proof (elim disjE conjE exE)
    fix i assume "tm_llvm_version m = None" "tm_compiler m = Some i" "identity_valid i (tm_target_triple m)"
    then show ?thesis
      by (auto simp: manifest_compiler_identity_def normalized_compiler_identity_def identity_valid_def gnu_cpu)
  qed (auto simp: manifest_compiler_identity_def normalized_compiler_identity_def)
qed

lemma manifest_compiler_agrees_witness:
  "manifest_validate (gnu_manifest chained_links) = Inr () \<and> \<not> starts_with (ascii ''riscv-aros'') (ascii ''riscv64-'') \<and>
   tc_semantics sample_contract = Inr (Elf32, 0)"
proof -
  have v: "manifest_validate (gnu_manifest chained_links) = Inr ()"
    by (rule gnu_manifest_valid [OF chained_links_valid]) (simp add: chained_links_def)
  moreover have "tc_semantics sample_contract = Inr (Elf32, 0)" by code_simp
  ultimately show ?thesis
    using manifest_compiler_agrees [OF v]
    by (simp add: manifest_compiler_identity_def normalized_compiler_identity_def gnu_manifest_def)
qed

text \<open>
  C38. In a valid lock a host and target profile select at most one artifact, which resolution
  finds, and every enabled artifact has a download URL that is HTTPS, names a host and carries no
  credentials, query or fragment.
\<close>

theorem toolchain_lock_sound:
  assumes "lock_validate url_parse lock = Inr ()"
  shows "(lock_resolve lock host profile = Some a \<longleftrightarrow>
      a \<in> set (tl_artifacts lock) \<and> ta_host a = host \<and> ta_target_profile a = profile) \<and>
    (\<forall>b\<in>set (tl_artifacts lock). ta_enabled b \<longrightarrow>
      (\<exists>url u. asset_url url_parse lock b = Inr url \<and> url_parse url = Some u \<and> url_scheme u = ascii ''https'' \<and> url_host u \<noteq> None \<and>
        url_username u = [] \<and> url_password u = None \<and> url_query u = None \<and> url_fragment u = None))"
proof -
  have v: "validate_artifacts url_parse lock {} (tl_artifacts lock) = Inr ()"
    using assms unfolding lock_validate_def rbind_eq_Inr ensure_eq_Inr by blast
  then have "distinct (map (\<lambda>a. (ta_host a, ta_target_profile a)) (tl_artifacts lock))" by (simp add: validate_artifacts_iff)
  moreover have "\<exists>url u. asset_url url_parse lock b = Inr url \<and> parse_credential_free_https_url url_parse url = Inr u"
    if "b \<in> set (tl_artifacts lock)" "ta_enabled b" for b
    using v that asset_url_eq_Inr by (fastforce simp: validate_artifacts_iff list_all_iff is_ok_iff)
  ultimately show ?thesis by (simp add: lock_resolve_unique parse_credential_free_https_url_eq_Inr)
qed

definition sample_artifact :: ArosToolchainArtifact where
  "sample_artifact =
     \<lparr>ta_host = ascii ''linux'', ta_target_profile = ascii ''pc'', ta_target_triple = ascii ''x86_64-aros'', ta_asset = ascii ''t.tar.xz'',
      ta_sha256 = sample_hex 64, ta_tree_sha256 = sample_hex 64, ta_llvm_version = None, ta_compiler = None, ta_size = None,
      ta_enabled = True, ta_disabled_reason = None, ta_strip_components = 1, ta_required_paths = [ascii ''bin/clang'']\<rparr>"

definition sample_toolchain_lock :: ArosToolchainLock where
  "sample_toolchain_lock =
     \<lparr>tl_schema = 1, tl_release_id = ascii ''r1'', tl_base_url = Some (ascii ''https://e.org/''), tl_artifacts = [sample_artifact]\<rparr>"

definition sample_url_parse :: "rstring \<Rightarrow> Url option" where
  "sample_url_parse s =
     (if starts_with s (ascii ''https://'')
      then Some \<lparr>url_host = Some (UrlDomain (ascii ''e.org'')), url_scheme = ascii ''https'', url_username = [], url_password = None,
        url_query = None, url_fragment = None, url_port = None, url_path = ascii ''/''\<rparr>
      else None)"

theorem toolchain_lock_sound_witness:
  "lock_validate sample_url_parse sample_toolchain_lock = Inr () \<and>
   lock_resolve sample_toolchain_lock (ascii ''linux'') (ascii ''pc'') = Some sample_artifact"
proof -
  have v: "lock_validate sample_url_parse sample_toolchain_lock = Inr ()" by code_simp
  then show ?thesis
    using toolchain_lock_sound [OF v, of "ascii ''linux''" "ascii ''pc''" sample_artifact]
    by (simp add: sample_toolchain_lock_def) (simp add: sample_artifact_def)
qed

text \<open>
  The link check looks at names only: this manifest is accepted, yet the operating system,
  which follows \<open>d/a\<close> to the root before it takes the next step up, leaves the root when it
  resolves \<open>d/l\<close>.
\<close>

lemma link_chain_escapes:
  "manifest_validate (gnu_manifest chained_links) = Inr () \<and>
   follow 9 (links_of chained_links) [] (path_components (ascii ''d/l'')) = Outside"
proof
  show "manifest_validate (gnu_manifest chained_links) = Inr ()"
    by (rule gnu_manifest_valid [OF chained_links_valid]) (simp add: chained_links_def)
  have "path_components (ascii ''d/l'') = [Normal (ascii ''d''), Normal (ascii ''l'')]"
    "path_components (ascii ''a/../x'') = [Normal (ascii ''a''), ParentDir, Normal (ascii ''x'')]" "path_components (ascii ''..'') = [ParentDir]"
    "links_of chained_links [ascii ''d''] = None" "links_of chained_links [ascii ''l'', ascii ''d''] = Some (ascii ''a/../x'')"
    "links_of chained_links [ascii ''a'', ascii ''d''] = Some (ascii ''..'')"
    by code_simp+
  then show "follow 9 (links_of chained_links) [] (path_components (ascii ''d/l'')) = Outside" by (simp add: numeral_eq_Suc)
qed

end
