(* ===== verification/Toolchain_Inventory.thy ===== *)
theory Toolchain_Inventory
  imports Toolchain_Manifest Sha_Digest "HOL-Library.Multiset"
begin

text \<open>
  The canonical inventory of a toolchain payload, \<open>crates/aros-common/src/toolchain_inventory.rs\<close>.
  The file system is the tree of what each call on it returns; the JSON writer and SHA-256 are
  parameters.
\<close>

section \<open>What the file system shows\<close>

record file_metadata =
  md_is_file :: bool
  md_is_symlink :: bool
  md_len :: u64
  md_mode :: u32

text \<open>
  A regular file: the result of \<open>measure_regular_file\<close> (an error, a changed file or the
  contents), then the metadata read again.
\<close>

record file_view =
  fv_measured :: "bytes option option"
  fv_after :: "file_metadata option"

datatype node =
    Unreadable
  | LinkNode "rstring option"
  | DirNode "(rstring \<times> node) list option"
  | FileNode file_view
  | SpecialNode

datatype inventory_error =
    InventoryRead rstring
  | InventoryPathUtf8 rstring
  | InventoryPathRelative rstring
  | InventoryLinkUtf8 rstring
  | InventoryChanged rstring
  | InventoryUnsupported rstring
  | InventorySerialize

section \<open>Entries\<close>

fun portable_components :: "rstring \<Rightarrow> component list \<Rightarrow> (inventory_error, rstring list) result" where
  "portable_components path [] = Inr []"
| "portable_components path (Normal value # cs) =
     ensure (utf8_valid value) (InventoryPathUtf8 path)
       (rbind (portable_components path cs) (\<lambda>rest. Inr (value # rest)))"
| "portable_components path (c # cs) = Inl (InventoryPathRelative path)"

definition portable_relative_path :: "rstring \<Rightarrow> (inventory_error, rstring) result" where
  "portable_relative_path path =
     rbind (portable_components path (path_components path)) (\<lambda>components. Inr (join_with [SLASH] components))"

text \<open>The octal modes \<open>0o111\<close>, \<open>0o644\<close> and \<open>0o755\<close>, in hexadecimal.\<close>

definition normalized_toolchain_file_mode :: "u32 \<Rightarrow> u32" where
  "normalized_toolchain_file_mode mode = (if and mode 0x49 = 0 then 0x1a4 else 0x1ed)"

text \<open>\<open>{:04o}\<close> of a number below 4096.\<close>

definition octal4 :: "u32 \<Rightarrow> rstring" where
  "octal4 m = map (\<lambda>k. of_nat (48 + unat m div k mod 8)) [512, 64, 8, 1]"

definition link_inventory_entry :: "rstring \<Rightarrow> rstring \<Rightarrow> ArosToolchainManifestEntry" where
  "link_inventory_entry path target =
     \<lparr>te_path = path, te_mode = ascii ''0777'', te_kind = ascii ''symlink'', te_sha256 = None, te_size = None, te_target = Some target\<rparr>"

definition directory_inventory_entry :: "rstring \<Rightarrow> ArosToolchainManifestEntry" where
  "directory_inventory_entry path =
     \<lparr>te_path = path, te_mode = ascii ''0755'', te_kind = ascii ''directory'', te_sha256 = None, te_size = None, te_target = None\<rparr>"

definition measured_entry :: "(bytes \<Rightarrow> bytes) \<Rightarrow> rstring \<Rightarrow> file_metadata \<Rightarrow> bytes \<Rightarrow> ArosToolchainManifestEntry" where
  "measured_entry sha256 path after contents =
     \<lparr>te_path = path, te_mode = octal4 (normalized_toolchain_file_mode (md_mode after)), te_kind = ascii ''file'',
      te_sha256 = Some (as_str (sha256_bytes sha256 contents)), te_size = Some (md_len after), te_target = None\<rparr>"

definition file_inventory_entry ::
  "(bytes \<Rightarrow> bytes) \<Rightarrow> rstring \<Rightarrow> rstring \<Rightarrow> file_view \<Rightarrow> (inventory_error, ArosToolchainManifestEntry) result" where
  "file_inventory_entry sha256 child path v =
     rbind (ok_or (fv_measured v) (InventoryRead child)) (\<lambda>measured.
     rbind (ok_or measured (InventoryChanged child)) (\<lambda>contents.
     rbind (ok_or (fv_after v) (InventoryRead child)) (\<lambda>after.
     ensure (\<not> (\<not> md_is_file after \<or> md_is_symlink after)) (InventoryChanged child)
     (ensure (length contents < 2 ^ 64) (InventoryRead child)
     (ensure (unat (md_len after) = length contents) (InventoryChanged child)
       (Inr (measured_entry sha256 path after contents)))))))"

section \<open>The walk\<close>

definition excluded :: "rstring list \<Rightarrow> rstring \<Rightarrow> bool" where
  "excluded exclusions child = list_ex (\<lambda>e. starts_with (path_components child) (path_components e)) exclusions"

lemma size_sort_key: "size_list f (sort_key k xs) = size_list f xs"
proof -
  have "size_list f ys = sum_list (map f ys) + length ys" for ys by (induction ys) auto
  moreover have "mset (map f (sort_key k xs)) = mset (map f xs)" by simp
  then have "sum_list (map f (sort_key k xs)) = sum_list (map f xs)" by (metis sum_mset_sum_list)
  ultimately show ?thesis by simp
qed

function (sequential)
  collect_tree_entries ::
    "(bytes \<Rightarrow> bytes) \<Rightarrow> rstring list \<Rightarrow> rstring \<Rightarrow> (rstring \<times> node) list option \<Rightarrow> (inventory_error, ArosToolchainManifestEntry list) result"
  and collect_children ::
    "(bytes \<Rightarrow> bytes) \<Rightarrow> rstring list \<Rightarrow> rstring \<Rightarrow> (rstring \<times> node) list \<Rightarrow> (inventory_error, ArosToolchainManifestEntry list) result"
where
  "collect_tree_entries sha256 exclusions relative None = Inl (InventoryRead relative)"
| "collect_tree_entries sha256 exclusions relative (Some entries) = collect_children sha256 exclusions relative (sort_key fst entries)"
| "collect_children sha256 exclusions relative [] = Inr []"
| "collect_children sha256 exclusions relative ((name, n) # rest) =
     (let child = path_join relative name
      in if excluded exclusions child then collect_children sha256 exclusions relative rest
         else rbind
           (case n of
              Unreadable \<Rightarrow> Inl (InventoryRead child)
            | LinkNode target \<Rightarrow>
                rbind (portable_relative_path child) (\<lambda>path.
                rbind (ok_or target (InventoryRead child)) (\<lambda>target.
                ensure (utf8_valid target) (InventoryLinkUtf8 target) (Inr [link_inventory_entry path target])))
            | DirNode entries \<Rightarrow>
                rbind (portable_relative_path child) (\<lambda>path.
                rbind (collect_tree_entries sha256 exclusions child entries) (\<lambda>below. Inr (directory_inventory_entry path # below)))
            | FileNode v \<Rightarrow>
                rbind (portable_relative_path child) (\<lambda>path.
                rbind (file_inventory_entry sha256 child path v) (\<lambda>entry. Inr [entry]))
            | SpecialNode \<Rightarrow> rbind (portable_relative_path child) (\<lambda>_. Inl (InventoryUnsupported child)))
           (\<lambda>collected. rbind (collect_children sha256 exclusions relative rest) (\<lambda>others. Inr (collected @ others))))"
  by pat_completeness auto
termination
  by (relation "measure (\<lambda>x. case x of
       Inl (_, _, _, entries) \<Rightarrow> 2 * size_option (size_list (size_prod (\<lambda>_. 0) size)) entries + 1
     | Inr (_, _, _, entries) \<Rightarrow> 2 * size_list (size_prod (\<lambda>_. 0) size) entries)")
    (auto simp: size_sort_key)

section \<open>The digest\<close>

datatype json_value = JString rstring | JNumber u64

definition canonical_entry :: "ArosToolchainManifestEntry \<Rightarrow> (rstring, json_value) btreemap" where
  "canonical_entry entry =
     (let object = btree_insert (ascii ''path'') (JString (te_path entry)) (btree_insert (ascii ''mode'') (JString (te_mode entry)) []);
          object = (case te_sha256 entry of Some d \<Rightarrow> btree_insert (ascii ''sha256'') (JString d) object | None \<Rightarrow> object);
          object = (case te_size entry of Some n \<Rightarrow> btree_insert (ascii ''size'') (JNumber n) object | None \<Rightarrow> object);
          object = (case te_target entry of Some t \<Rightarrow> btree_insert (ascii ''target'') (JString t) object | None \<Rightarrow> object)
      in btree_insert (ascii ''type'') (JString (te_kind entry)) object)"

fun inventory_lines :: "((rstring, json_value) btreemap \<Rightarrow> bytes option) \<Rightarrow> ArosToolchainManifestEntry list \<Rightarrow> (inventory_error, bytes) result" where
  "inventory_lines to_json [] = Inr []"
| "inventory_lines to_json (e # es) =
     rbind (ok_or (to_json (canonical_entry e)) InventorySerialize) (\<lambda>line.
     rbind (inventory_lines to_json es) (\<lambda>rest. Inr (line @ [10] @ rest)))"

record inventory_host =
  ih_sha256 :: "bytes \<Rightarrow> bytes"
  ih_to_json :: "(rstring, json_value) btreemap \<Rightarrow> bytes option"

definition toolchain_inventory_sha256 :: "inventory_host \<Rightarrow> ArosToolchainManifestEntry list \<Rightarrow> (inventory_error, rstring) result" where
  "toolchain_inventory_sha256 h entries =
     rbind (inventory_lines (ih_to_json h) entries) (\<lambda>text'. Inr (as_str (sha256_bytes (ih_sha256 h) text')))"

fun check_exclusions :: "rstring list \<Rightarrow> (inventory_error, unit) result" where
  "check_exclusions [] = Inr ()"
| "check_exclusions (e # es) = rbind (portable_relative_path e) (\<lambda>_. check_exclusions es)"

definition toolchain_tree_inventory_excluding ::
  "inventory_host \<Rightarrow> (rstring \<times> node) list option \<Rightarrow> rstring list \<Rightarrow> (inventory_error, rstring \<times> ArosToolchainManifestEntry list) result" where
  "toolchain_tree_inventory_excluding h root exclusions =
     rbind (check_exclusions exclusions) (\<lambda>_.
     rbind (collect_tree_entries (ih_sha256 h) exclusions [] root) (\<lambda>collected.
     let entries = sort_key te_path collected
     in rbind (toolchain_inventory_sha256 h entries) (\<lambda>digest. Inr (digest, entries))))"

definition toolchain_tree_inventory ::
  "inventory_host \<Rightarrow> (rstring \<times> node) list option \<Rightarrow> (inventory_error, rstring \<times> ArosToolchainManifestEntry list) result" where
  "toolchain_tree_inventory h root = toolchain_tree_inventory_excluding h root [AROS_TOOLCHAIN_MANIFEST_FILE]"

section \<open>Names of a file system\<close>

text \<open>What holds of the names in a directory: no separators, no special names, no duplicates.\<close>

definition good_name :: "rstring \<Rightarrow> bool" where
  "good_name name = (name \<noteq> [] \<and> SLASH \<notin> set name \<and> name \<noteq> [46] \<and> name \<noteq> [46, 46])"

fun node_ok :: "node \<Rightarrow> bool" and children_ok :: "(rstring \<times> node) list \<Rightarrow> bool" where
  "node_ok (DirNode (Some cs)) = (distinct (map fst cs) \<and> children_ok cs)"
| "node_ok _ = True"
| "children_ok [] = True"
| "children_ok ((name, n) # rest) = (good_name name \<and> node_ok n \<and> children_ok rest)"

definition root_ok :: "(rstring \<times> node) list option \<Rightarrow> bool" where
  "root_ok root = (case root of None \<Rightarrow> True | Some cs \<Rightarrow> distinct (map fst cs) \<and> children_ok cs)"

lemma children_ok_iff: "children_ok cs \<longleftrightarrow> (\<forall>c\<in>set cs. good_name (fst c) \<and> node_ok (snd c))"
  by (induction cs) auto

lemma children_ok_sort: "children_ok (sort_key f cs) \<longleftrightarrow> children_ok cs"
  by (simp add: children_ok_iff)

lemma distinct_sort_key: "distinct (map f (sort_key g xs)) \<longleftrightarrow> distinct (map f xs)"
  by (metis mset_eq_imp_distinct_iff mset_map mset_sort)

abbreviation path_of :: "rstring list \<Rightarrow> rstring" where
  "path_of names \<equiv> join_with [SLASH] names"

lemma join_with_append:
  "xs \<noteq> [] \<Longrightarrow> ys \<noteq> [] \<Longrightarrow> join_with sep (xs @ ys) = join_with sep xs @ sep @ join_with sep ys"
proof (induction sep xs rule: join_with.induct)
  case (2 sep p)
  then show ?case by (cases ys) auto
qed auto

lemma path_of_not_Nil: "names \<noteq> [] \<Longrightarrow> list_all good_name names \<Longrightarrow> path_of names \<noteq> [] \<and> hd (path_of names) \<noteq> SLASH \<and> last (path_of names) \<noteq> SLASH"
proof (induction "[SLASH]" names rule: join_with.induct)
  case (2 p)
  then show ?case by (simp add: good_name_def) (metis hd_in_set last_in_set)
next
  case (3 p q ps)
  then have "hd p \<noteq> SLASH" by (simp add: good_name_def) (metis hd_in_set)
  with 3 show ?case by (auto simp: good_name_def)
qed simp

lemma path_components_path_of:
  assumes "list_all good_name names"
  shows "path_components (path_of names) = map Normal names"
proof (cases "names = []")
  case True
  then show ?thesis by (simp add: path_components_def is_absolute_def piece_component_def map_filter_simps)
next
  case False
  have s: "split_on (\<lambda>b. b = SLASH) (path_of names) = names"
    using assms False by (intro split_on_join) (auto simp: list_all_iff good_name_def)
  have "\<not> is_absolute (path_of names)" using path_of_not_Nil [OF False assms] by (simp add: is_absolute_def)
  moreover have "List.map_filter piece_component ns = map Normal ns" if "list_all good_name ns" for ns
    using that by (induction ns) (auto simp: map_filter_simps piece_component_def good_name_def)
  moreover have "hd names \<noteq> [46]" using assms False by (cases names) (auto simp: good_name_def)
  ultimately show ?thesis using assms by (simp add: path_components_def s)
qed

lemma path_names_path_of: "list_all good_name names \<Longrightarrow> path_names (path_of names) = names"
  by (simp add: path_names_def path_components_path_of map_filter_Normal)

lemma path_of_inject: "list_all good_name xs \<Longrightarrow> list_all good_name ys \<Longrightarrow> path_of xs = path_of ys \<longleftrightarrow> xs = ys"
  by (metis path_names_path_of)

lemma path_join_path_of:
  assumes "list_all good_name names" "good_name name"
  shows "path_join (path_of names) name = path_of (names @ [name])"
proof (cases "names = []")
  case True
  then show ?thesis using assms(2) by (cases name) (auto simp: path_join_def is_absolute_def good_name_def)
next
  case False
  have "\<not> is_absolute name" using assms(2) by (cases name) (auto simp: is_absolute_def good_name_def)
  then show ?thesis
    using path_of_not_Nil [OF False assms(1)] False by (simp add: path_join_def join_with_append)
qed

lemma portable_relative_path_of:
  assumes "list_all good_name names" "portable_relative_path (path_of names) = Inr path"
  shows "path = path_of names"
proof -
  have "portable_components p (map Normal ns) = Inr out \<Longrightarrow> out = ns" for p ns out
    by (induction ns arbitrary: out) (auto simp: rbind_eq_Inr split: if_splits)
  then show ?thesis
    using assms by (auto simp: portable_relative_path_def rbind_eq_Inr path_components_path_of)
qed

section \<open>What the walk collects\<close>

definition entry_shape :: "ArosToolchainManifestEntry \<Rightarrow> bool" where
  "entry_shape e =
     (te_kind e = ascii ''directory'' \<and> te_mode e = ascii ''0755'' \<and> te_sha256 e = None \<and> te_size e = None \<and> te_target e = None \<or>
      te_kind e = ascii ''file'' \<and> te_mode e \<in> {ascii ''0644'', ascii ''0755''} \<and> te_size e \<noteq> None \<and> te_target e = None \<and>
        (\<exists>d. te_sha256 e = Some d \<and> hex_text 64 d) \<or>
      te_kind e = ascii ''symlink'' \<and> te_mode e = ascii ''0777'' \<and> te_sha256 e = None \<and> te_size e = None \<and> te_target e \<noteq> None)"

text \<open>An entry below the directory \<open>names\<close>, through one of the names in \<open>S\<close>.\<close>

definition below :: "rstring list \<Rightarrow> rstring set \<Rightarrow> ArosToolchainManifestEntry \<Rightarrow> bool" where
  "below names S e = (\<exists>ns. ns \<noteq> [] \<and> hd ns \<in> S \<and> list_all good_name ns \<and> te_path e = path_of (names @ ns))"

definition collected_ok :: "rstring list \<Rightarrow> rstring list \<Rightarrow> rstring set \<Rightarrow> ArosToolchainManifestEntry list \<Rightarrow> bool" where
  "collected_ok exclusions names S es =
     (list_all (\<lambda>e. below names S e \<and> entry_shape e \<and> \<not> excluded exclusions (te_path e)) es \<and> distinct (map te_path es))"

lemma file_modes: "octal4 (normalized_toolchain_file_mode m) \<in> {ascii ''0644'', ascii ''0755''}"
proof -
  have "octal4 0x1a4 = ascii ''0644''" "octal4 0x1ed = ascii ''0755''" by code_simp+
  then show ?thesis by (simp add: normalized_toolchain_file_mode_def)
qed

lemma digest_hex_text:
  assumes "length bs = 32"
  shows "hex_text 64 (as_str (digest_from_bytes bs))"
proof -
  have "lower_hex c" if "c \<in> set (as_str (digest_from_bytes bs))" for c
  proof -
    have c: "is_ascii_hexdigit c" "ascii_lower c = c" using digest_text [OF that] by auto
    have "\<not> (65 \<le> c \<and> c \<le> 70)"
    proof
      assume "65 \<le> c \<and> c \<le> 70"
      then have u: "65 \<le> unat c" "unat c \<le> 70" by (auto simp: word_le_nat_alt)
      then have "ascii_lower c = c + 32" by (simp add: ascii_lower_def is_ascii_uppercase_def word_le_nat_alt)
      then show False using c(2) by simp
    qed
    then show ?thesis using c(1) by (auto simp: is_ascii_hexdigit_def lower_hex_def)
  qed
  then show ?thesis using assms by (simp add: hex_text_def list_all_iff length_digest_from_bytes)
qed

lemma file_inventory_entry_eq_Inr:
  assumes "file_inventory_entry sha256 child path v = Inr e" "\<And>bs. length (sha256 bs) = 32"
  shows "te_path e = path \<and> entry_shape e"
proof -
  from assms(1) obtain contents after where e: "e = measured_entry sha256 path after contents"
    unfolding file_inventory_entry_def rbind_eq_Inr ensure_eq_Inr by blast
  have "hex_text 64 (as_str (sha256_bytes sha256 contents))" using digest_hex_text [OF assms(2)] by (simp add: sha256_bytes_def)
  then show ?thesis using file_modes [of "md_mode after"] unfolding e measured_entry_def entry_shape_def by simp
qed

lemma below_disjoint:
  assumes "list_all good_name names" "below names S e" "below names T f" "S \<inter> T = {}"
  shows "te_path e \<noteq> te_path f"
  using assms by (auto simp: below_def path_of_inject)

lemma collected_append:
  assumes "list_all good_name names" "collected_ok exc names S xs" "collected_ok exc names T ys" "S \<inter> T = {}"
  shows "collected_ok exc names (S \<union> T) (xs @ ys)"
proof -
  have "below names (S \<union> T) e" if "below names S e \<or> below names T e" for e using that by (auto simp: below_def)
  moreover have "set (map te_path xs) \<inter> set (map te_path ys) = {}"
    using below_disjoint [OF assms(1) _ _ assms(4)] assms(2,3) by (fastforce simp: collected_ok_def list_all_iff)
  ultimately show ?thesis using assms(2,3) by (auto simp: collected_ok_def list_all_iff)
qed

lemma collected_single:
  assumes "good_name name" "te_path e = path_of (names @ [name])" "entry_shape e" "\<not> excluded exc (te_path e)"
  shows "collected_ok exc names {name} [e]"
proof -
  have "below names {name} e" unfolding below_def using assms(1,2) by (intro exI [of _ "[name]"]) simp
  then show ?thesis using assms(3,4) by (simp add: collected_ok_def)
qed

text \<open>A directory with everything below it.\<close>

lemma collected_directory:
  assumes "list_all good_name names" "good_name name" "te_path e = path_of (names @ [name])" "entry_shape e" "\<not> excluded exc (te_path e)"
    "collected_ok exc (names @ [name]) S es"
  shows "collected_ok exc names {name} (e # es)"
proof -
  have one: "below names {name} f" if f: "below (names @ [name]) S f" for f
  proof -
    obtain ns where "list_all good_name ns" "te_path f = path_of ((names @ [name]) @ ns)" using f by (auto simp: below_def)
    then show ?thesis unfolding below_def using assms(2) by (intro exI [of _ "name # ns"]) simp
  qed
  have "te_path f \<noteq> te_path e" if f: "below (names @ [name]) S f" for f
  proof -
    obtain ns where ns: "ns \<noteq> []" "list_all good_name ns" "te_path f = path_of ((names @ [name]) @ ns)" using f by (auto simp: below_def)
    then show ?thesis
      using assms(1-3) path_of_inject [of "(names @ [name]) @ ns" "names @ [name]"] by simp
  qed
  then show ?thesis
    using one assms(6) collected_single [OF assms(2-5)] by (fastforce simp: collected_ok_def list_all_iff)
qed

lemma collected_mono: "collected_ok exc names S es \<Longrightarrow> S \<subseteq> T \<Longrightarrow> collected_ok exc names T es"
  by (fastforce simp: collected_ok_def list_all_iff below_def)

lemma collect_ok:
  "(\<And>bs. length (sha256 bs) = 32) \<Longrightarrow> relative = path_of names \<Longrightarrow> list_all good_name names \<Longrightarrow> root_ok entries \<Longrightarrow>
     collect_tree_entries sha256 exc relative entries = Inr es \<Longrightarrow> collected_ok exc names UNIV es"
  "(\<And>bs. length (sha256 bs) = 32) \<Longrightarrow> relative = path_of names \<Longrightarrow> list_all good_name names \<Longrightarrow> distinct (map fst cs) \<and> children_ok cs \<Longrightarrow>
     collect_children sha256 exc relative cs = Inr es \<Longrightarrow> collected_ok exc names (fst ` set cs) es"
proof (induction sha256 exc relative entries and sha256 exc relative cs arbitrary: names es and names es
    rule: collect_tree_entries_collect_children.induct)
  case (2 sha256 exc relative cs)
  have "distinct (map fst (sort_key fst cs)) \<and> children_ok (sort_key fst cs)"
    using 2(5) by (simp add: root_ok_def distinct_sort_key children_ok_sort)
  from 2(1) [OF 2(2-4) this] 2(6) show ?case by (auto intro: collected_mono)
next
  case (4 sha256 exc relative name n rest)
  let ?child = "path_join relative name"
  have good: "good_name name" and node: "node_ok n" and rest: "distinct (map fst rest) \<and> children_ok rest" and new: "name \<notin> fst ` set rest"
    using 4(7) by auto
  have child: "?child = path_of (names @ [name])" using path_join_path_of [OF 4(6) good] 4(5) by simp
  have names: "list_all good_name (names @ [name])" using 4(6) good by simp
  show ?case
  proof (cases "excluded exc ?child")
    case True
    then have "collect_children sha256 exc relative rest = Inr es" using 4(8) by simp
    from 4(1) [OF refl True 4(4-6) rest this] show ?thesis by (rule collected_mono) auto
  next
    case False
    from 4(8) False obtain collected others where es: "es = collected @ others" and
      others: "collect_children sha256 exc relative rest = Inr others" and
      c: "(case n of
              Unreadable \<Rightarrow> Inl (InventoryRead ?child)
            | LinkNode target \<Rightarrow>
                rbind (portable_relative_path ?child) (\<lambda>path.
                rbind (ok_or target (InventoryRead ?child)) (\<lambda>target.
                ensure (utf8_valid target) (InventoryLinkUtf8 target) (Inr [link_inventory_entry path target])))
            | DirNode entries \<Rightarrow>
                rbind (portable_relative_path ?child) (\<lambda>path.
                rbind (collect_tree_entries sha256 exc ?child entries) (\<lambda>below. Inr (directory_inventory_entry path # below)))
            | FileNode v \<Rightarrow>
                rbind (portable_relative_path ?child) (\<lambda>path.
                rbind (file_inventory_entry sha256 ?child path v) (\<lambda>entry. Inr [entry]))
            | SpecialNode \<Rightarrow> rbind (portable_relative_path ?child) (\<lambda>_. Inl (InventoryUnsupported ?child))) = Inr collected"
      by (auto simp: rbind_eq_Inr Let_def)
    have "collected_ok exc names (fst ` set rest) others"
      using 4(3) [OF refl False c 4(4-6) rest others] .
    moreover have "collected_ok exc names {name} collected"
    proof (cases n)
      case (LinkNode target)
      with c obtain path t where "portable_relative_path ?child = Inr path" "collected = [link_inventory_entry path t]"
        by (auto simp: rbind_eq_Inr split: if_splits)
      then show ?thesis
        using portable_relative_path_of [OF names] child False good
        by (auto intro!: collected_single simp: link_inventory_entry_def entry_shape_def)
    next
      case (FileNode v)
      with c obtain path e where "portable_relative_path ?child = Inr path" "file_inventory_entry sha256 ?child path v = Inr e" "collected = [e]"
        by (auto simp: rbind_eq_Inr)
      then show ?thesis
        using portable_relative_path_of [OF names] child False good file_inventory_entry_eq_Inr [OF _ 4(4)]
        by (auto intro!: collected_single)
    next
      case (DirNode entries)
      with c obtain path below' where p: "portable_relative_path ?child = Inr path" and
        b: "collect_tree_entries sha256 exc ?child entries = Inr below'" and col: "collected = directory_inventory_entry path # below'"
        by (auto simp: rbind_eq_Inr)
      have path: "path = path_of (names @ [name])" using portable_relative_path_of [OF names] p child by simp
      have "root_ok entries" using node DirNode by (cases entries) (auto simp: root_ok_def)
      from 4(2) [OF refl False DirNode p 4(4) child names this b] have "collected_ok exc (names @ [name]) UNIV below'" .
      moreover have "te_path (directory_inventory_entry path) = path_of (names @ [name])" "entry_shape (directory_inventory_entry path)"
        by (simp_all add: directory_inventory_entry_def path entry_shape_def)
      ultimately show ?thesis
        unfolding col using 4(6) good False child by (intro collected_directory) auto
    qed (use c in \<open>auto simp: rbind_eq_Inr\<close>)
    ultimately have "collected_ok exc names ({name} \<union> fst ` set rest) es"
      unfolding es using new 4(6) by (intro collected_append) auto
    then show ?thesis by simp
  qed
qed (auto simp: collected_ok_def)

text \<open>What is left for the manifest check to refuse in an inventory.\<close>

definition portable_entry :: "ArosToolchainManifestEntry \<Rightarrow> bool" where
  "portable_entry e =
     (92 \<notin> set (te_path e) \<and> (\<forall>t. te_target e = Some t \<longrightarrow> t \<noteq> [] \<and> link_stays_inside (te_path e) t))"

lemma collected_entry_ok:
  assumes "below [] S e" "entry_shape e" "\<not> excluded [AROS_TOOLCHAIN_MANIFEST_FILE] (te_path e)"
  shows "entry_ok e \<longleftrightarrow> portable_entry e"
proof -
  obtain ns where ns: "ns \<noteq> []" "list_all good_name ns" "te_path e = path_of ns" using assms(1) by (auto simp: below_def)
  have path: "inventory_path (te_path e) \<longleftrightarrow> 92 \<notin> set (te_path e)"
    using path_of_not_Nil [OF ns(1,2)] ns by (simp add: inventory_path_def path_components_path_of path_names_path_of)
  have "te_path e \<noteq> AROS_TOOLCHAIN_MANIFEST_FILE"
    using assms(3) starts_with_append [of "path_components AROS_TOOLCHAIN_MANIFEST_FILE" "[]"] by (auto simp: excluded_def)
  then show ?thesis
    using assms(2) path unfolding entry_ok_def portable_entry_def entry_shape_def hex_text_def by auto
qed

text \<open>The inventory of a whole tree.\<close>

lemma tree_inventory_accepted:
  assumes "\<forall>bs. length (ih_sha256 h bs) = 32" and "root_ok root" and "toolchain_tree_inventory h root = Inr (digest, entries)"
  shows "sorted_wrt (<) (map te_path entries) \<and> toolchain_inventory_sha256 h entries = Inr digest \<and> hex_text 64 digest \<and>
    (validate_entries None entries = Inr () \<longleftrightarrow> list_all portable_entry entries)"
proof -
  from assms(3) obtain collected where
    c: "collect_tree_entries (ih_sha256 h) [AROS_TOOLCHAIN_MANIFEST_FILE] [] root = Inr collected" and
    entries: "entries = sort_key te_path collected" and digest: "toolchain_inventory_sha256 h entries = Inr digest"
    unfolding toolchain_tree_inventory_def toolchain_tree_inventory_excluding_def Let_def rbind_eq_Inr by auto
  have ok: "collected_ok [AROS_TOOLCHAIN_MANIFEST_FILE] [] UNIV collected"
    using collect_ok(1) [of "ih_sha256 h" "[]" "[]" root, OF _ _ _ assms(2) c] assms(1) by simp
  have "sorted (map te_path entries)" "distinct (map te_path entries)"
    using ok by (simp_all add: entries collected_ok_def distinct_sort_key)
  then have sorted: "sorted_wrt (<) (map te_path entries)" by (simp add: strict_sorted_iff)
  have "list_all entry_ok entries \<longleftrightarrow> list_all portable_entry entries"
    using ok collected_entry_ok by (auto simp: entries collected_ok_def list_all_iff)
  moreover have "hex_text 64 digest"
    using digest assms(1) by (auto simp: toolchain_inventory_sha256_def rbind_eq_Inr sha256_bytes_def intro: digest_hex_text)
  ultimately show ?thesis using sorted digest by (simp add: validate_entries_iff entries_ok_def)
qed

section \<open>A sample tree\<close>

definition sample_file :: file_view where
  "sample_file = \<lparr>fv_measured = Some (Some [1, 2]), fv_after = Some \<lparr>md_is_file = True, md_is_symlink = False, md_len = 2, md_mode = 0x1ed\<rparr>\<rparr>"

definition sample_root :: "(rstring \<times> node) list option" where
  "sample_root =
     Some [(ascii ''toolchain-manifest.json'', FileNode sample_file),
           (ascii ''bin'', DirNode (Some [(ascii ''cc'', FileNode sample_file), (ascii ''c99'', LinkNode (Some (ascii ''cc'')))]))]"

definition sample_inventory_host :: inventory_host where
  "sample_inventory_host = \<lparr>ih_sha256 = \<lambda>_. replicate 32 0xaa, ih_to_json = \<lambda>_. Some []\<rparr>"

definition sample_cc :: "(bytes \<Rightarrow> bytes) \<Rightarrow> ArosToolchainManifestEntry" where
  "sample_cc sha256 = measured_entry sha256 (ascii ''bin/cc'') (the (fv_after sample_file)) [1, 2]"

lemma sample_collected:
  "collect_tree_entries sha256 [AROS_TOOLCHAIN_MANIFEST_FILE] [] sample_root =
     Inr [directory_inventory_entry (ascii ''bin''), link_inventory_entry (ascii ''bin/c99'') (ascii ''cc''), sample_cc sha256]"
proof -
  have paths: "path_join [] (ascii ''bin'') = ascii ''bin''" "path_join (ascii ''bin'') (ascii ''cc'') = ascii ''bin/cc''"
    "path_join (ascii ''bin'') (ascii ''c99'') = ascii ''bin/c99''"
    "path_join [] (ascii ''toolchain-manifest.json'') = ascii ''toolchain-manifest.json''"
    "portable_relative_path (ascii ''bin'') = Inr (ascii ''bin'')" "portable_relative_path (ascii ''bin/cc'') = Inr (ascii ''bin/cc'')"
    "portable_relative_path (ascii ''bin/c99'') = Inr (ascii ''bin/c99'')" "utf8_valid (ascii ''cc'')"
    by code_simp+
  have out: "excluded [AROS_TOOLCHAIN_MANIFEST_FILE] (ascii ''toolchain-manifest.json'')" "\<not> excluded [AROS_TOOLCHAIN_MANIFEST_FILE] (ascii ''bin'')"
    "\<not> excluded [AROS_TOOLCHAIN_MANIFEST_FILE] (ascii ''bin/cc'')" "\<not> excluded [AROS_TOOLCHAIN_MANIFEST_FILE] (ascii ''bin/c99'')"
    by code_simp+
  have order: "ascii ''bin'' < ascii ''toolchain-manifest.json''" "ascii ''c99'' < ascii ''cc''" by code_simp+
  have cc: "file_inventory_entry sha256 child path sample_file = Inr (measured_entry sha256 path (the (fv_after sample_file)) [1, 2])" for child path
    by (simp add: file_inventory_entry_def sample_file_def)
  show ?thesis
    unfolding sample_root_def
    using order by (simp add: paths out cc insort_key.simps not_le less_imp_le sample_cc_def)
qed

lemma sample_inventory:
  "toolchain_tree_inventory sample_inventory_host sample_root =
     Inr (sample_hex 64, [directory_inventory_entry (ascii ''bin''), link_inventory_entry (ascii ''bin/c99'') (ascii ''cc''),
                          sample_cc (\<lambda>_. replicate 32 0xaa)])"
proof -
  let ?es = "[directory_inventory_entry (ascii ''bin''), link_inventory_entry (ascii ''bin/c99'') (ascii ''cc''), sample_cc (\<lambda>_. replicate 32 0xaa)]"
  have order: "ascii ''bin'' < ascii ''bin/c99''" "ascii ''bin/c99'' < ascii ''bin/cc''" by code_simp+
  have sorted: "sort_key te_path ?es = ?es"
    by (intro sort_key_id_if_sorted)
      (use order in \<open>auto simp: directory_inventory_entry_def link_inventory_entry_def sample_cc_def measured_entry_def\<close>)
  have exclusions: "check_exclusions [AROS_TOOLCHAIN_MANIFEST_FILE] = Inr ()" by code_simp
  have "hex_byte 0xaa = [97, 97]" by code_simp
  moreover have "concat (replicate n [c, c]) = replicate (2 * n) c" for n and c :: u8 by (induction n) auto
  ultimately have "concat (map hex_byte (replicate 32 0xaa)) = sample_hex 64" by (simp add: sample_hex_def map_replicate)
  then have d: "toolchain_inventory_sha256 sample_inventory_host ?es = Inr (sample_hex 64)"
    by (simp add: toolchain_inventory_sha256_def sample_inventory_host_def sha256_bytes_def digest_from_bytes_def)
  have "ih_sha256 sample_inventory_host = (\<lambda>_. replicate 32 0xaa)" by (simp add: sample_inventory_host_def)
  then show ?thesis
    by (simp only: toolchain_tree_inventory_def toolchain_tree_inventory_excluding_def exclusions sample_collected sum.case Let_def sorted d)
qed

section \<open>Properties\<close>

text \<open>
  C40. The inventory a producer measures is one a consumer accepts: it is in strictly ascending
  path order without duplicates, its digest is the digest of its canonical lines, and the
  manifest check accepts it exactly when no path has a backslash and no link target is empty or
  leads out of the root by its names.
\<close>

theorem inventory_accepted:
  assumes "\<forall>bs. length (ih_sha256 h bs) = 32" and "root_ok root" and "toolchain_tree_inventory h root = Inr (digest, entries)"
  shows "sorted_wrt (<) (map te_path entries) \<and> toolchain_inventory_sha256 h entries = Inr digest \<and> hex_text 64 digest \<and>
    (validate_entries None entries = Inr () \<longleftrightarrow> list_all portable_entry entries)"
  by (rule tree_inventory_accepted [OF assms])

theorem inventory_accepted_witness:
  "\<exists>digest entries. toolchain_tree_inventory sample_inventory_host sample_root = Inr (digest, entries) \<and>
     map te_path entries = [ascii ''bin'', ascii ''bin/c99'', ascii ''bin/cc''] \<and> hex_text 64 digest"
proof -
  have "\<forall>bs. length (ih_sha256 sample_inventory_host bs) = 32" by (simp add: sample_inventory_host_def)
  moreover have "root_ok sample_root" by code_simp
  ultimately have "hex_text 64 (sample_hex 64)" using inventory_accepted [OF _ _ sample_inventory] by simp
  then show ?thesis
    using sample_inventory
    by (simp add: directory_inventory_entry_def link_inventory_entry_def sample_cc_def measured_entry_def)
qed

end
