(* ===== verification/Media_Identity.thy ===== *)
theory Media_Identity
  imports Media_Plan Toolchain_Inventory
begin

text \<open>
  The source and toolchain identity of a media build, the second half of
  \<open>crates/aros-common/src/media_receipt.rs\<close>: a clean Git checkout and a remeasured toolchain.
  Git, \<open>canonicalize\<close>, the metadata of the generated directory and the opened manifest are
  parameters; the toolchain tree is the one that the inventory walks.
\<close>

section \<open>Measuring\<close>

record git_output =
  go_success :: bool
  go_stdout :: bytes

text \<open>What \<open>symlink_metadata\<close> says of a path.\<close>

datatype link_metadata = PathMissing | PathError | PathDirectory | PathOther

datatype identity_error =
    SourceRootMissing
  | GitNotStarted
  | GitFailed
  | GitNotUtf8
  | NotCheckoutRoot
  | BuildTracked
  | BuildNotDirectory
  | BuildUnreadable
  | CheckoutDirty
  | InstalledManifestMissing
  | InstalledManifestUnreadable
  | InstalledManifestTooLarge
  | InstalledManifestSyntax
  | InstalledManifestInvalid manifest_error
  | ToolchainUnmeasured inventory_error
  | ToolchainDiffers
  | ToolchainDigest
  | IdentityReceipt receipt_error

text \<open>\<open>vh_open\<close> gives nothing when the file cannot be opened, and no bytes when reading it fails.\<close>

record identity_host =
  vh_canonicalize :: "rstring \<Rightarrow> rstring option"
  vh_git :: "rstring \<Rightarrow> string list \<Rightarrow> git_output option"
  vh_symlink_metadata :: "rstring \<Rightarrow> link_metadata"
  vh_open :: "rstring \<Rightarrow> bytes option option"
  vh_manifest :: "bytes \<Rightarrow> ArosToolchainManifestRecord option"
  vh_tree :: "rstring \<Rightarrow> (rstring \<times> node) list option"
  vh_inventory :: inventory_host

definition git_value :: "identity_host \<Rightarrow> rstring \<Rightarrow> string list \<Rightarrow> (identity_error, rstring) result" where
  "git_value h root args =
     rbind (ok_or (vh_git h root args) GitNotStarted) (\<lambda>output.
     ensure (go_success output) GitFailed
     (ensure (utf8_valid (go_stdout output)) GitNotUtf8 (Inr (trim (go_stdout output)))))"

definition STATUS_ARGS :: "string list" where
  "STATUS_ARGS = [''status'', ''--porcelain=v1'', ''--untracked-files=normal'', ''--'', ''.'', '':(exclude)build'']"

definition check_build_directory :: "link_metadata \<Rightarrow> (identity_error, unit) result" where
  "check_build_directory metadata =
     (case metadata of
        PathOther \<Rightarrow> Inl BuildNotDirectory
      | PathError \<Rightarrow> Inl BuildUnreadable
      | _ \<Rightarrow> Inr ())"

text \<open>The part that looks at the checkout: the commit and the tree of a clean source.\<close>

definition measure_source :: "identity_host \<Rightarrow> rstring \<Rightarrow> (identity_error, rstring \<times> rstring) result" where
  "measure_source h source_root =
     rbind (ok_or (vh_canonicalize h source_root) SourceRootMissing) (\<lambda>selected_root.
     rbind (git_value h source_root [''rev-parse'', ''--show-toplevel'']) (\<lambda>git_root.
     rbind (ok_or (vh_canonicalize h git_root) SourceRootMissing) (\<lambda>canonical.
     ensure (canonical = selected_root) NotCheckoutRoot
     (rbind (git_value h source_root [''rev-parse'', ''--verify'', ''HEAD'']) (\<lambda>commit.
      rbind (git_value h source_root [''rev-parse'', ''--verify'', ''HEAD^{tree}'']) (\<lambda>tree.
      rbind (git_value h source_root [''ls-files'', ''--'', ''build'']) (\<lambda>tracked.
      ensure (tracked = []) BuildTracked
      (rbind (check_build_directory (vh_symlink_metadata h (path_join source_root (ascii ''build'')))) (\<lambda>_.
       rbind (git_value h source_root STATUS_ARGS) (\<lambda>changes.
       ensure (changes = []) CheckoutDirty (Inr (commit, tree))))))))))))"

text \<open>The part that looks at the installed toolchain: its manifest, the digest of that file and its payload.\<close>

definition INSTALLED_MANIFEST_BYTES :: usize where "INSTALLED_MANIFEST_BYTES = 4 * 1024 * 1024"

definition measure_toolchain :: "identity_host \<Rightarrow> rstring \<Rightarrow> (identity_error, ArosToolchainManifest \<times> Sha256Digest) result" where
  "measure_toolchain h toolchain_root =
     rbind (ok_or (vh_open h (path_join toolchain_root AROS_TOOLCHAIN_MANIFEST_FILE)) InstalledManifestMissing) (\<lambda>opened.
     rbind (ok_or opened InstalledManifestUnreadable) (\<lambda>content.
     let manifest_bytes = take (INSTALLED_MANIFEST_BYTES + 1) content
     in ensure (\<not> length manifest_bytes > INSTALLED_MANIFEST_BYTES) InstalledManifestTooLarge
       (rbind (ok_or (vh_manifest h manifest_bytes) InstalledManifestSyntax) (\<lambda>decoded.
        rbind (map_err InstalledManifestInvalid (manifest_from_record decoded)) (\<lambda>manifest.
        rbind (map_err InstalledManifestInvalid (manifest_validate manifest)) (\<lambda>_.
        rbind (map_err ToolchainUnmeasured (toolchain_tree_inventory (vh_inventory h) (vh_tree h toolchain_root))) (\<lambda>(tree_sha256, inventory).
        ensure (\<not> (tree_sha256 \<noteq> tm_tree_sha256 manifest \<or> inventory \<noteq> tm_files manifest)) ToolchainDiffers
          (Inr (manifest, sha256_bytes (ih_sha256 (vh_inventory h)) manifest_bytes)))))))))"

definition measure_media_build_identity ::
  "identity_host \<Rightarrow> rstring \<Rightarrow> rstring \<Rightarrow> (identity_error, MediaBuildIdentity) result" where
  "measure_media_build_identity h source_root toolchain_root =
     rbind (measure_source h source_root) (\<lambda>(commit, tree).
     rbind (measure_toolchain h toolchain_root) (\<lambda>(manifest, manifest_sha256).
     rbind (map_err (\<lambda>_. ToolchainDigest) (digest_parse (tm_tree_sha256 manifest))) (\<lambda>tree_sha256.
     let identity = \<lparr>source_commit = commit, source_tree = tree, toolchain_release_id = tm_release_id manifest,
           toolchain_tree_sha256 = tree_sha256, toolchain_manifest_sha256 = manifest_sha256\<rparr>
     in rbind (map_err IdentityReceipt (validate_media_build_identity identity)) (\<lambda>_. Inr identity))))"

definition verify_media_build_identity ::
  "receipt_host \<Rightarrow> identity_host \<Rightarrow> MediaBuildReceipt \<Rightarrow> rstring \<Rightarrow> rstring \<Rightarrow> (identity_error, unit) result" where
  "verify_media_build_identity rh h receipt source_root toolchain_root =
     rbind (map_err IdentityReceipt (validate_receipt rh receipt)) (\<lambda>_.
     rbind (ok_or (br_build_identity receipt) (IdentityReceipt NoIdentity)) (\<lambda>expected.
     rbind (measure_media_build_identity h source_root toolchain_root) (\<lambda>measured.
     ensure (measured = expected) (IdentityReceipt IdentityDiffers) (Inr ()))))"

section \<open>What is measured\<close>

text \<open>A clean checkout at a commit, with nothing tracked in the generated directory.\<close>

definition clean_checkout :: "identity_host \<Rightarrow> rstring \<Rightarrow> rstring \<Rightarrow> rstring \<Rightarrow> bool" where
  "clean_checkout h root commit tree =
     ((\<exists>top real. git_value h root [''rev-parse'', ''--show-toplevel''] = Inr top \<and>
        vh_canonicalize h root = Some real \<and> vh_canonicalize h top = Some real) \<and>
      git_value h root [''rev-parse'', ''--verify'', ''HEAD''] = Inr commit \<and>
      git_value h root [''rev-parse'', ''--verify'', ''HEAD^{tree}''] = Inr tree \<and>
      git_value h root [''ls-files'', ''--'', ''build''] = Inr [] \<and>
      vh_symlink_metadata h (path_join root (ascii ''build'')) \<in> {PathMissing, PathDirectory} \<and>
      git_value h root STATUS_ARGS = Inr [])"

text \<open>An installed toolchain: the manifest file holds \<open>content\<close>, which describes the payload exactly.\<close>

definition installed_toolchain :: "identity_host \<Rightarrow> rstring \<Rightarrow> bytes \<Rightarrow> ArosToolchainManifest \<Rightarrow> bool" where
  "installed_toolchain h root content m =
     (vh_open h (path_join root AROS_TOOLCHAIN_MANIFEST_FILE) = Some (Some content) \<and> length content \<le> INSTALLED_MANIFEST_BYTES \<and>
      (\<exists>decoded. vh_manifest h content = Some decoded \<and> manifest_from_record decoded = Inr m) \<and> manifest_ok m \<and>
      toolchain_tree_inventory (vh_inventory h) (vh_tree h root) = Inr (tm_tree_sha256 m, tm_files m))"

definition identity_of :: "identity_host \<Rightarrow> rstring \<Rightarrow> rstring \<Rightarrow> MediaBuildIdentity \<Rightarrow> bool" where
  "identity_of h source_root toolchain_root i =
     (clean_checkout h source_root (source_commit i) (source_tree i) \<and> identity_ok i \<and>
      (\<exists>content m. installed_toolchain h toolchain_root content m \<and> toolchain_release_id i = tm_release_id m \<and>
        digest_parse (tm_tree_sha256 m) = Inr (toolchain_tree_sha256 i) \<and>
        toolchain_manifest_sha256 i = sha256_bytes (ih_sha256 (vh_inventory h)) content))"

lemma check_build_directory_eq_Inr: "check_build_directory k = Inr u \<longleftrightarrow> k \<in> {PathMissing, PathDirectory}"
  by (cases k) (auto simp: check_build_directory_def)

lemma measure_source_eq_Inr: "measure_source h root = Inr (commit, tree) \<longleftrightarrow> clean_checkout h root commit tree"
  unfolding measure_source_def rbind_eq_Inr ensure_eq_Inr ok_or_eq_Inr check_build_directory_eq_Inr clean_checkout_def by auto

lemma measure_toolchain_eq_Inr:
  "measure_toolchain h root = Inr (m, d) \<longleftrightarrow>
     (\<exists>content. installed_toolchain h root content m \<and> d = sha256_bytes (ih_sha256 (vh_inventory h)) content)"
proof -
  have cut: "\<not> length (take (INSTALLED_MANIFEST_BYTES + 1) content) > INSTALLED_MANIFEST_BYTES \<longleftrightarrow>
      length content \<le> INSTALLED_MANIFEST_BYTES" for content :: bytes by auto
  have whole: "take (INSTALLED_MANIFEST_BYTES + 1) content = content" if "length content \<le> INSTALLED_MANIFEST_BYTES" for content :: bytes
    using that by simp
  show ?thesis
    unfolding measure_toolchain_def Let_def rbind_eq_Inr ensure_eq_Inr ok_or_eq_Inr cut map_err_eq_Inr manifest_validate_iff
      installed_toolchain_def
    by (auto simp: whole manifest_validate_iff)
qed

lemma measure_media_build_identity_eq_Inr:
  "measure_media_build_identity h source_root toolchain_root = Inr i \<longleftrightarrow> identity_of h source_root toolchain_root i"
proof
  assume "measure_media_build_identity h source_root toolchain_root = Inr i"
  then show "identity_of h source_root toolchain_root i"
    unfolding measure_media_build_identity_def
    by (auto simp: Let_def rbind_eq_Inr measure_source_eq_Inr measure_toolchain_eq_Inr identity_of_def identity_ok_def
        validate_media_build_identity_def split: if_splits) (blast)
next
  assume "identity_of h source_root toolchain_root i"
  then obtain content m where "measure_source h source_root = Inr (source_commit i, source_tree i)"
    "measure_toolchain h toolchain_root = Inr (m, toolchain_manifest_sha256 i)" "identity_ok i"
    "toolchain_release_id i = tm_release_id m" "digest_parse (tm_tree_sha256 m) = Inr (toolchain_tree_sha256 i)"
    unfolding identity_of_def measure_source_eq_Inr measure_toolchain_eq_Inr by blast
  then show "measure_media_build_identity h source_root toolchain_root = Inr i"
    by (simp add: measure_media_build_identity_def validate_media_build_identity_def identity_ok_def)
qed

lemma verify_media_build_identity_iff:
  "verify_media_build_identity rh h r source_root toolchain_root = Inr () \<longleftrightarrow>
     receipt_ok rh r \<and> (\<exists>i. br_build_identity r = Some i \<and> identity_of h source_root toolchain_root i)"
  unfolding verify_media_build_identity_def rbind_eq_Inr ensure_eq_Inr map_err_eq_Inr ok_or_eq_Inr
  by (auto simp: validate_receipt_iff measure_media_build_identity_eq_Inr)

text \<open>A historical version 1 receipt is never verified, whatever is measured.\<close>

lemma unbound_receipt_refused:
  assumes "br_format_version r = 1"
  shows "verify_media_build_identity rh h r source_root toolchain_root \<noteq> Inr ()"
  using assms by (auto simp: verify_media_build_identity_iff receipt_ok_def binding_ok_def)

text \<open>
  Installed toolchains with the same manifest digest hold the same payload, if the digest tells
  the two manifest files apart.
\<close>

lemma installed_toolchain_unique:
  assumes "installed_toolchain h root content m" "installed_toolchain h' root' content' m'" "vh_manifest h' = vh_manifest h"
    and "sha256_bytes sha content = sha256_bytes sha content'" "sha content = sha content' \<Longrightarrow> content = content'"
  shows "m' = m"
proof -
  have "content = content'" using assms(4,5) by (simp add: sha256_bytes_def digest_from_bytes_inject)
  then show ?thesis using assms(1-3) by (auto simp: installed_toolchain_def)
qed

section \<open>A sample build\<close>

definition sample_files :: "ArosToolchainManifestEntry list" where
  "sample_files =
     [directory_inventory_entry (ascii ''bin''), link_inventory_entry (ascii ''bin/c99'') (ascii ''cc''),
      sample_cc (\<lambda>_. replicate 32 0xaa)]"

definition sample_git :: "string list \<Rightarrow> bytes" where
  "sample_git args =
     (if args = [''rev-parse'', ''--show-toplevel''] then ascii ''/src''
      else if hd args = ''rev-parse'' then sample_hex 40 else [])"

definition sample_identity_host :: identity_host where
  "sample_identity_host =
     \<lparr>vh_canonicalize = Some, vh_git = \<lambda>_ args. Some \<lparr>go_success = True, go_stdout = sample_git args\<rparr>,
      vh_symlink_metadata = \<lambda>_. PathDirectory, vh_open = \<lambda>_. Some (Some []),
      vh_manifest = \<lambda>_. Some \<lparr>mr_llvm_version = Absent, mr_members = gnu_manifest sample_files\<rparr>,
      vh_tree = \<lambda>_. sample_root, vh_inventory = sample_inventory_host\<rparr>"

definition sample_identity :: MediaBuildIdentity where
  "sample_identity =
     \<lparr>source_commit = sample_hex 40, source_tree = sample_hex 40, toolchain_release_id = ascii ''r1'',
      toolchain_tree_sha256 = Sha256Digest (sample_hex 64), toolchain_manifest_sha256 = digest_from_bytes (replicate 32 0xaa)\<rparr>"

definition bound_receipt :: MediaBuildReceipt where
  "bound_receipt = sample_receipt\<lparr>br_format_version := 2, br_build_identity := Some sample_identity\<rparr>"

lemma sample_hex_facts: "hex_text n (sample_hex n)" "trim (sample_hex n) = sample_hex n" "utf8_valid (sample_hex n)"
proof -
  have "lower_hex 97" by code_simp
  then show "hex_text n (sample_hex n)" by (simp add: hex_text_def sample_hex_def list_all_iff)
  show "trim (sample_hex n) = sample_hex n" by (rule trim_plain) (simp add: sample_hex_def)
  show "utf8_valid (sample_hex n)"
    using utf8_chars_ascii [of "sample_hex n"] by (simp add: utf8_valid_def sample_hex_def)
qed

lemma sample_checkout: "clean_checkout sample_identity_host (ascii ''/src'') (sample_hex 40) (sample_hex 40)"
proof -
  have "trim (ascii ''/src'') = ascii ''/src''" "utf8_valid (ascii ''/src'')" "trim [] = []" "utf8_valid []" by code_simp+
  then show ?thesis
    by (simp add: clean_checkout_def git_value_def sample_identity_host_def sample_git_def STATUS_ARGS_def sample_hex_facts)
qed

lemma sample_toolchain: "installed_toolchain sample_identity_host root [] (gnu_manifest sample_files)"
proof -
  have "validate_entries None sample_files = Inr ()"
  proof -
    have "list_all portable_entry sample_files"
    proof -
      have "link_stays_inside (ascii ''bin/c99'') (ascii ''cc'')" "(92 :: u8) \<notin> set (ascii ''bin'')" "(92 :: u8) \<notin> set (ascii ''bin/cc'')"
        "(92 :: u8) \<notin> set (ascii ''bin/c99'')" "ascii ''cc'' \<noteq> []"
        by code_simp+
      then show ?thesis
        by (simp add: sample_files_def portable_entry_def directory_inventory_entry_def link_inventory_entry_def sample_cc_def measured_entry_def)
    qed
    moreover have "root_ok sample_root" by code_simp
    ultimately show ?thesis
      using tree_inventory_accepted [OF _ _ sample_inventory] by (simp add: sample_files_def sample_inventory_host_def)
  qed
  then have "manifest_ok (gnu_manifest sample_files)"
    using gnu_manifest_valid by (simp add: manifest_validate_iff sample_files_def)
  moreover have "manifest_from_record \<lparr>mr_llvm_version = Absent, mr_members = gnu_manifest sample_files\<rparr> = Inr (gnu_manifest sample_files)"
  proof -
    have "validate_versions (Gnu (ascii ''15.2.0'') (ascii ''2.45'') sample_contract) = Inr ()" by code_simp
    then show ?thesis 
      by (simp add: manifest_from_record_def compiler_fields_from_record_def gnu_manifest_def AROS_TOOLCHAIN_LOCK_SCHEMA_def
          AROS_TOOLCHAIN_MANIFEST_SCHEMA_def AROS_TOOLCHAIN_MANIFEST_SCHEMA_V2_def)
  qed
  ultimately show ?thesis
    using sample_inventory by (simp add: installed_toolchain_def sample_identity_host_def gnu_manifest_def sample_files_def)
qed

lemma sample_verified: "verify_media_build_identity (ph_receipt sample_plan_host) sample_identity_host bound_receipt (ascii ''/src'') root = Inr ()"
proof -
  have "release_id_ok (ascii ''r1'')" by code_simp
  moreover have "git_object_id (sample_hex 40)"
    using sample_hex_facts(1) [of 40] by (auto simp: git_object_id_def hex_text_def list_all_iff lower_hex_def is_ascii_digit_def)
  ultimately have id: "identity_ok sample_identity" by (simp add: identity_ok_def sample_identity_def)
  have "digest_parse (sample_hex 64) = Inr (Sha256Digest (sample_hex 64))"
  proof -
    have "is_ascii_hexdigit 97" "ascii_lower 97 = 97" by code_simp+
    then show ?thesis
      by (simp add: digest_parse_def sample_hex_def SHA256_HEX_LENGTH_def SHA256_BYTES_def to_ascii_lowercase_def list_all_iff)
  qed
  then have "identity_of sample_identity_host (ascii ''/src'') root sample_identity"
    unfolding identity_of_def using id sample_checkout sample_toolchain
    by (auto simp: sample_identity_def gnu_manifest_def sample_identity_host_def sample_inventory_host_def sha256_bytes_def
        intro!: exI [of _ "[]"] exI [of _ "gnu_manifest sample_files"])
  moreover have "receipt_ok (ph_receipt sample_plan_host) bound_receipt"
    using sample_receipt_ok id
    by (auto simp: validate_receipt_iff receipt_ok_def binding_ok_def bound_receipt_def sample_receipt_def sample_plan_host_def)
  ultimately show ?thesis by (simp add: verify_media_build_identity_iff bound_receipt_def)
qed

section \<open>Properties\<close>


text \<open>
  A receipt fixes its toolchain. When the same receipt verifies on two hosts that read
  manifests alike, then every payload entry has the same path, kind, mode, size, digest and link
  target on both, unless the two manifest files are different and SHA-256 does not tell them
  apart.
\<close>

lemma media_identity_fixes_toolchain:
  assumes "verify_media_build_identity rh h r source_root toolchain_root = Inr ()"
    and "verify_media_build_identity rh' h' r source_root' toolchain_root' = Inr ()"
    and "vh_manifest h' = vh_manifest h" and "ih_sha256 (vh_inventory h') = ih_sha256 (vh_inventory h)"
    and "vh_open h (path_join toolchain_root AROS_TOOLCHAIN_MANIFEST_FILE) = Some (Some content)"
    and "vh_open h' (path_join toolchain_root' AROS_TOOLCHAIN_MANIFEST_FILE) = Some (Some content')"
    and "ih_sha256 (vh_inventory h) content = ih_sha256 (vh_inventory h) content' \<Longrightarrow> content = content'"
  shows "\<exists>m. manifest_validate m = Inr () \<and>
    toolchain_tree_inventory (vh_inventory h) (vh_tree h toolchain_root) = Inr (tm_tree_sha256 m, tm_files m) \<and>
    toolchain_tree_inventory (vh_inventory h') (vh_tree h' toolchain_root') = Inr (tm_tree_sha256 m, tm_files m)"
proof -
  obtain i where i: "identity_of h source_root toolchain_root i" "identity_of h' source_root' toolchain_root' i"
    using assms(1,2) by (auto simp: verify_media_build_identity_iff)
  obtain m m' where m: "installed_toolchain h toolchain_root content m" "installed_toolchain h' toolchain_root' content' m'"
    and d: "sha256_bytes (ih_sha256 (vh_inventory h)) content = sha256_bytes (ih_sha256 (vh_inventory h)) content'"
    using i assms(4-6) by (auto simp: identity_of_def installed_toolchain_def)
  from installed_toolchain_unique [OF m assms(3) d assms(7)] m show ?thesis
    by (auto simp: installed_toolchain_def manifest_validate_iff)
qed

lemma media_identity_fixes_toolchain_witness:
  "\<exists>m. manifest_validate m = Inr () \<and>
     toolchain_tree_inventory sample_inventory_host sample_root = Inr (tm_tree_sha256 m, tm_files m)"
  using media_identity_fixes_toolchain [OF sample_verified sample_verified, of "[]" "[]"]
  by (auto simp: sample_identity_host_def)

end
