(* ===== verification/Pub_World.thy ===== *)
theory Pub_World
  imports Rust_Path Sha_Digest
begin

text \<open>
  The file system under the publication primitives of \<open>crates/aros-common/src/publication/unix\<close>:
  names, identities and contents, system calls that may fail or be the last one the process
  makes, and the helpers of \<open>filesystem.rs\<close> and \<open>regular.rs\<close> over them. A \<open>PathBuf\<close> is its list
  of components, which is what Rust compares.
\<close>

section \<open>Paths\<close>

type_synonym path = "component list"

text \<open>\<open>Path::parent\<close> and \<open>Path::file_name\<close>.\<close>

definition path_parent :: "path \<Rightarrow> path option" where
  "path_parent p = (if p = [] \<or> last p = RootDir then None else Some (butlast p))"

definition file_name :: "path \<Rightarrow> rstring option" where
  "file_name p = (if p = [] then None else case last p of Normal name \<Rightarrow> Some name | _ \<Rightarrow> None)"

definition is_absolute_path :: "path \<Rightarrow> bool" where
  "is_absolute_path p = (p \<noteq> [] \<and> hd p = RootDir)"

section \<open>Errors\<close>

datatype error_kind = NotFound | AlreadyExists | InvalidInput | InvalidData | PermissionDenied | OtherKind

datatype PublicationFailureClass = Conflict | UnsafeTarget | Unsupported | RecoveryIncomplete | CommitStateUncertain | Io

text \<open>An \<open>io::Error\<close>: a kind, or a \<open>PublicationError\<close> with its rollback flag and class.\<close>

datatype pub_error = IoError error_kind | PublicationError bool PublicationFailureClass

definition rollback_error :: pub_error where
  "rollback_error = PublicationError True RecoveryIncomplete"

definition uncertain_error :: pub_error where
  "uncertain_error = PublicationError False CommitStateUncertain"

definition conflict_error :: pub_error where
  "conflict_error = PublicationError False Conflict"

fun is_rollback_incomplete :: "pub_error \<Rightarrow> bool" where
  "is_rollback_incomplete (PublicationError incomplete _) = incomplete"
| "is_rollback_incomplete (IoError _) = False"

fun publication_failure_class :: "pub_error \<Rightarrow> PublicationFailureClass" where
  "publication_failure_class (PublicationError _ c) = c"
| "publication_failure_class (IoError AlreadyExists) = Conflict"
| "publication_failure_class (IoError InvalidInput) = UnsafeTarget"
| "publication_failure_class (IoError PermissionDenied) = UnsafeTarget"
| "publication_failure_class (IoError _) = Io"

section \<open>The world\<close>

record FileIdentity =
  fid_device :: u64
  fid_inode :: u64

text \<open>What a name that is not a directory stands for.\<close>

datatype fs_node = Regular FileIdentity bytes u16 | Symlink | SpecialFile

text \<open>\<open>w_sequence\<close> is \<open>TRANSACTION_SEQUENCE\<close>; \<open>w_tick\<close> counts the system calls made.\<close>

record world =
  w_files :: "(path \<times> fs_node) list"
  w_dirs :: "(path \<times> FileIdentity) list"
  w_sequence :: u64
  w_tick :: nat

definition file_at :: "world \<Rightarrow> path \<Rightarrow> fs_node option" where
  "file_at w p = map_of (w_files w) p"

definition dir_at :: "world \<Rightarrow> path \<Rightarrow> FileIdentity option" where
  "dir_at w p = map_of (w_dirs w) p"

definition exists_at :: "world \<Rightarrow> path \<Rightarrow> bool" where
  "exists_at w p = (file_at w p \<noteq> None \<or> dir_at w p \<noteq> None)"

definition del_file :: "path \<Rightarrow> world \<Rightarrow> world" where
  "del_file p w = w\<lparr>w_files := filter (\<lambda>x. fst x \<noteq> p) (w_files w)\<rparr>"

definition put_file :: "path \<Rightarrow> fs_node \<Rightarrow> world \<Rightarrow> world" where
  "put_file p n w = w\<lparr>w_files := (p, n) # filter (\<lambda>x. fst x \<noteq> p) (w_files w)\<rparr>"

definition put_dir :: "path \<Rightarrow> FileIdentity \<Rightarrow> world \<Rightarrow> world" where
  "put_dir p i w = w\<lparr>w_dirs := (p, i) # w_dirs w\<rparr>"

text \<open>
  What becomes of a system call: it is carried out, it fails without effect, or the process
  ends before it. A write that fails or is cut off leaves the first bytes it has written.
\<close>

datatype fate = Succeeds | Fails nat | Crashes nat

datatype sys_kind = Reading | Changing

record 'j host =
  ho_fate :: "sys_kind \<Rightarrow> nat \<Rightarrow> fate"
  ho_identity :: "world \<Rightarrow> FileIdentity option"
  ho_sha256 :: "bytes \<Rightarrow> bytes"
  ho_encode :: "'j \<Rightarrow> bytes option"
  ho_decode :: "bytes \<Rightarrow> 'j option"
  ho_pid :: u32
  ho_umask :: u16
  ho_cwd :: "path option"

section \<open>Programs\<close>

datatype 'a outcome = Done 'a | Failed pub_error | Crashed

type_synonym ('j, 'a) prog = "'j host \<Rightarrow> world \<Rightarrow> 'a outcome \<times> world"

definition pure :: "'a \<Rightarrow> ('j, 'a) prog" where
  "pure a = (\<lambda>h w. (Done a, w))"

definition pfail :: "pub_error \<Rightarrow> ('j, 'a) prog" where
  "pfail e = (\<lambda>h w. (Failed e, w))"

definition pbind :: "('j, 'a) prog \<Rightarrow> ('a \<Rightarrow> ('j, 'b) prog) \<Rightarrow> ('j, 'b) prog" where
  "pbind m f =
     (\<lambda>h w. case m h w of
        (Done a, w') \<Rightarrow> f a h w'
      | (Failed e, w') \<Rightarrow> (Failed e, w')
      | (Crashed, w') \<Rightarrow> (Crashed, w'))"

text \<open>The result of a call as a value, where the code matches on it.\<close>

definition attempt :: "('j, 'a) prog \<Rightarrow> ('j, (pub_error, 'a) result) prog" where
  "attempt m =
     (\<lambda>h w. case m h w of
        (Done a, w') \<Rightarrow> (Done (Inr a), w')
      | (Failed e, w') \<Rightarrow> (Done (Inl e), w')
      | (Crashed, w') \<Rightarrow> (Crashed, w'))"

definition ask :: "('j host \<Rightarrow> 'a) \<Rightarrow> ('j, 'a) prog" where
  "ask f = (\<lambda>h w. (Done (f h), w))"

definition pensure :: "bool \<Rightarrow> pub_error \<Rightarrow> ('j, 'a) prog \<Rightarrow> ('j, 'a) prog" where
  "pensure c e k = (if c then k else pfail e)"

definition tick :: "world \<Rightarrow> world" where
  "tick w = w\<lparr>w_tick := Suc (w_tick w)\<rparr>"

definition sys :: "sys_kind \<Rightarrow> ('j host \<Rightarrow> world \<Rightarrow> (pub_error, 'a \<times> world) result) \<Rightarrow> ('j, 'a) prog" where
  "sys kind act =
     (\<lambda>h w. case ho_fate h kind (w_tick w) of
        Succeeds \<Rightarrow> (case act h w of Inl e \<Rightarrow> (Failed e, tick w) | Inr (a, w') \<Rightarrow> (Done a, tick w'))
      | Fails _ \<Rightarrow> (Failed (IoError OtherKind), tick w)
      | Crashes _ \<Rightarrow> (Crashed, tick w))"

section \<open>System calls\<close>

text \<open>\<open>openat\<close> with \<open>DIRECTORY | NOFOLLOW\<close>, and \<open>fstat\<close> on the directory opened.\<close>

definition sys_open_dir :: "path \<Rightarrow> ('j, unit) prog" where
  "sys_open_dir p =
     sys Reading (\<lambda>h w.
       if dir_at w p \<noteq> None then Inr ((), w)
       else if file_at w p \<noteq> None then Inl (IoError OtherKind)
       else Inl (IoError NotFound))"

definition sys_fstat_dir :: "path \<Rightarrow> ('j, FileIdentity) prog" where
  "sys_fstat_dir p = sys Reading (\<lambda>h w. case dir_at w p of Some i \<Rightarrow> Inr (i, w) | None \<Rightarrow> Inl (IoError OtherKind))"

definition sys_mkdir :: "path \<Rightarrow> ('j, unit) prog" where
  "sys_mkdir p =
     sys Changing (\<lambda>h w.
       if exists_at w p then Inl (IoError AlreadyExists)
       else case ho_identity h w of None \<Rightarrow> Inl (IoError OtherKind) | Some i \<Rightarrow> Inr ((), put_dir p i w))"

definition sys_fsync :: "('j, unit) prog" where
  "sys_fsync = sys Changing (\<lambda>h w. Inr ((), w))"

text \<open>\<open>openat\<close> with \<open>CREATE | EXCL\<close>, and \<open>fstat\<close> on the file opened.\<close>

definition sys_create :: "path \<Rightarrow> u16 \<Rightarrow> ('j, unit) prog" where
  "sys_create p mode =
     sys Changing (\<lambda>h w.
       if exists_at w p then Inl (IoError AlreadyExists)
       else case ho_identity h w of
              None \<Rightarrow> Inl (IoError OtherKind)
            | Some i \<Rightarrow> Inr ((), put_file p (Regular i [] (and mode (not (ho_umask h)))) w))"

definition sys_fstat :: "path \<Rightarrow> ('j, FileIdentity) prog" where
  "sys_fstat p =
     sys Reading (\<lambda>h w. case file_at w p of Some (Regular i _ _) \<Rightarrow> Inr (i, w) | _ \<Rightarrow> Inl (IoError OtherKind))"

definition sys_chmod :: "path \<Rightarrow> u16 \<Rightarrow> ('j, unit) prog" where
  "sys_chmod p mode =
     sys Changing (\<lambda>h w. case file_at w p of
       Some (Regular i bs _) \<Rightarrow> Inr ((), put_file p (Regular i bs mode) w)
     | _ \<Rightarrow> Inl (IoError OtherKind))"

text \<open>\<open>write_all\<close> to the file created at a path.\<close>

definition set_contents :: "path \<Rightarrow> bytes \<Rightarrow> world \<Rightarrow> world" where
  "set_contents p bs w = (case file_at w p of Some (Regular i _ m) \<Rightarrow> put_file p (Regular i bs m) w | _ \<Rightarrow> w)"

definition sys_write :: "path \<Rightarrow> bytes \<Rightarrow> ('j, unit) prog" where
  "sys_write p bs =
     (\<lambda>h w. case ho_fate h Changing (w_tick w) of
        Succeeds \<Rightarrow> (Done (), tick (set_contents p bs w))
      | Fails n \<Rightarrow> (Failed (IoError OtherKind), tick (set_contents p (take n bs) w))
      | Crashes n \<Rightarrow> (Crashed, tick (set_contents p (take n bs) w)))"

definition sys_stat :: "path \<Rightarrow> ('j, FileIdentity option) prog" where
  "sys_stat p =
     sys Reading (\<lambda>h w. case file_at w p of
       Some (Regular i _ _) \<Rightarrow> Inr (Some i, w)
     | Some _ \<Rightarrow> Inl (IoError InvalidInput)
     | None \<Rightarrow> if dir_at w p \<noteq> None then Inl (IoError InvalidInput) else Inr (None, w))"

text \<open>Opening a file without following links, its metadata, all of its bytes and the metadata again.\<close>

definition sys_read :: "path \<Rightarrow> ('j, (FileIdentity \<times> bytes \<times> u16) option) prog" where
  "sys_read p =
     sys Reading (\<lambda>h w. case file_at w p of
       Some (Regular i bs m) \<Rightarrow> Inr (Some (i, bs, m), w)
     | Some Symlink \<Rightarrow> Inl (IoError OtherKind)
     | Some SpecialFile \<Rightarrow> Inl (IoError InvalidInput)
     | None \<Rightarrow> if dir_at w p \<noteq> None then Inl (IoError InvalidInput) else Inr (None, w))"

definition move_file :: "path \<Rightarrow> path \<Rightarrow> fs_node \<Rightarrow> world \<Rightarrow> world" where
  "move_file a b n w = put_file b n (del_file a w)"

definition sys_rename_noreplace :: "path \<Rightarrow> path \<Rightarrow> ('j, unit) prog" where
  "sys_rename_noreplace a b =
     sys Changing (\<lambda>h w. case file_at w a of
       None \<Rightarrow> Inl (IoError NotFound)
     | Some n \<Rightarrow> if exists_at w b then Inl (IoError AlreadyExists) else Inr ((), move_file a b n w))"

definition sys_rename :: "path \<Rightarrow> path \<Rightarrow> ('j, unit) prog" where
  "sys_rename a b =
     sys Changing (\<lambda>h w. case file_at w a of
       None \<Rightarrow> Inl (IoError NotFound)
     | Some n \<Rightarrow> if dir_at w b \<noteq> None then Inl (IoError OtherKind) else Inr ((), move_file a b n w))"

definition sys_unlink :: "path \<Rightarrow> ('j, unit) prog" where
  "sys_unlink p =
     sys Changing (\<lambda>h w. case file_at w p of None \<Rightarrow> Inl (IoError NotFound) | Some _ \<Rightarrow> Inr ((), del_file p w))"

section \<open>Directory handles\<close>

definition absolute_path :: "path \<Rightarrow> ('j, path) prog" where
  "absolute_path p =
     (if is_absolute_path p then pure p
      else pbind (ask ho_cwd) (\<lambda>cwd. case cwd of None \<Rightarrow> pfail (IoError OtherKind) | Some d \<Rightarrow> pure (d @ filter (\<lambda>c. c \<noteq> CurDir) p)))"

record ParentHandle =
  ph_path :: path
  ph_leaf :: rstring

abbreviation handle_target :: "ParentHandle \<Rightarrow> path" where
  "handle_target parent \<equiv> ph_path parent @ [Normal (ph_leaf parent)]"

text \<open>One component of the walk, created when it is missing and may be.\<close>

definition open_next :: "bool \<Rightarrow> path \<Rightarrow> ('j, unit) prog" where
  "open_next create p =
     pbind (attempt (sys_open_dir p)) (\<lambda>r. case r of
       Inr _ \<Rightarrow> pure ()
     | Inl e \<Rightarrow>
         if e = IoError NotFound \<and> create
         then pbind (attempt (sys_mkdir p)) (\<lambda>made.
              pbind (case made of
                       Inr _ \<Rightarrow> sys_fsync
                     | Inl e' \<Rightarrow> if e' = IoError AlreadyExists then pure () else pfail e') (\<lambda>_.
              sys_open_dir p))
         else pfail e)"

fun open_components :: "bool \<Rightarrow> path \<Rightarrow> component list \<Rightarrow> ('j, path) prog" where
  "open_components create at [] = pure at"
| "open_components create at (RootDir # cs) = open_components create at cs"
| "open_components create at (Normal name # cs) =
     pbind (open_next create (at @ [Normal name])) (\<lambda>_. open_components create (at @ [Normal name]) cs)"
| "open_components create at (c # cs) = pfail (IoError InvalidInput)"

definition open_parent :: "path \<Rightarrow> bool \<Rightarrow> ('j, ParentHandle) prog" where
  "open_parent path create =
     pbind (absolute_path path) (\<lambda>absolute.
     case file_name absolute of
       None \<Rightarrow> pfail (IoError InvalidInput)
     | Some leaf \<Rightarrow>
         (case path_parent absolute of
            None \<Rightarrow> pfail (IoError InvalidInput)
          | Some parent_path \<Rightarrow>
              pbind (sys_open_dir [RootDir]) (\<lambda>_.
              pbind (open_components create [RootDir] parent_path) (\<lambda>traversed.
              pbind (sys_fstat_dir traversed) (\<lambda>path_stat.
              pbind (sys_open_dir traversed) (\<lambda>_.
              pbind (sys_fstat_dir traversed) (\<lambda>reopened_stat.
              pensure (path_stat = reopened_stat) (IoError OtherKind)
                (pure \<lparr>ph_path = parent_path, ph_leaf = leaf\<rparr>))))))))"

definition sync_parent :: "path \<Rightarrow> ('j, unit) prog" where
  "sync_parent path = pbind (open_parent path False) (\<lambda>_. sys_fsync)"

section \<open>Reading and removing\<close>

definition read_regular_with_mode :: "path \<Rightarrow> ('j, (FileIdentity \<times> bytes \<times> u16) option) prog" where
  "read_regular_with_mode path =
     pbind (attempt (open_parent path False)) (\<lambda>r. case r of
       Inl e \<Rightarrow> if e = IoError NotFound then pure None else pfail e
     | Inr parent \<Rightarrow> sys_read (handle_target parent))"

definition read_regular :: "path \<Rightarrow> ('j, (FileIdentity \<times> bytes) option) prog" where
  "read_regular path =
     pbind (read_regular_with_mode path) (\<lambda>snapshot. pure (map_option (\<lambda>(identity, bytes, _). (identity, bytes)) snapshot))"

definition identity_at :: "ParentHandle \<Rightarrow> ('j, FileIdentity option) prog" where
  "identity_at parent = sys_stat (handle_target parent)"

definition rename_noclobber :: "ParentHandle \<Rightarrow> ParentHandle \<Rightarrow> ('j, unit) prog" where
  "rename_noclobber source target = sys_rename_noreplace (handle_target source) (handle_target target)"

definition digest_of :: "'j host \<Rightarrow> bytes \<Rightarrow> Sha256Digest" where
  "digest_of h bs = sha256_bytes (ho_sha256 h) bs"

definition remove_at :: "ParentHandle \<Rightarrow> FileIdentity option \<Rightarrow> ('j, unit) prog" where
  "remove_at parent expected =
     pbind (identity_at parent) (\<lambda>current.
     if current = None then pure ()
     else pensure (\<not> (expected \<noteq> None \<and> current \<noteq> expected)) (IoError OtherKind)
       (pbind (sys_unlink (handle_target parent)) (\<lambda>_. sys_fsync)))"

definition remove_at_exact_mode :: "ParentHandle \<Rightarrow> FileIdentity \<Rightarrow> Sha256Digest \<Rightarrow> u16 option \<Rightarrow> ('j, unit) prog" where
  "remove_at_exact_mode parent expected expected_digest expected_mode =
     pbind (ask digest_of) (\<lambda>digest.
     pbind (read_regular_with_mode (handle_target parent)) (\<lambda>current. case current of
       None \<Rightarrow> pure ()
     | Some (identity, bytes, mode) \<Rightarrow>
         pensure (\<not> (identity \<noteq> expected \<or> digest bytes \<noteq> expected_digest \<or>
                     (case expected_mode of None \<Rightarrow> False | Some m \<Rightarrow> m \<noteq> mode))) (IoError OtherKind)
           (pbind (sys_unlink (handle_target parent)) (\<lambda>_. sys_fsync))))"

definition remove_at_exact :: "ParentHandle \<Rightarrow> FileIdentity \<Rightarrow> Sha256Digest \<Rightarrow> ('j, unit) prog" where
  "remove_at_exact parent expected expected_digest = remove_at_exact_mode parent expected expected_digest None"

definition remove_regular_exact :: "path \<Rightarrow> FileIdentity \<Rightarrow> Sha256Digest \<Rightarrow> ('j, unit) prog" where
  "remove_regular_exact path expected expected_digest =
     pbind (open_parent path False) (\<lambda>parent. remove_at_exact parent expected expected_digest)"

section \<open>Writing\<close>

text \<open>\<open>combine_primary_and_cleanup\<close> with its \<open>rollback\<close> flag set: a failed cleanup hides the primary error.\<close>

definition combine_primary_and_cleanup :: "pub_error \<Rightarrow> bool \<Rightarrow> pub_error" where
  "combine_primary_and_cleanup primary cleaned = (if cleaned then primary else rollback_error)"

definition write_contents :: "path \<Rightarrow> path \<Rightarrow> FileIdentity \<Rightarrow> bytes \<Rightarrow> u16 \<Rightarrow> ('j, unit) prog" where
  "write_contents path target identity contents mode =
     pbind (ask digest_of) (\<lambda>digest.
     pbind (sys_chmod target mode) (\<lambda>_.
     pbind (sys_write target contents) (\<lambda>_.
     pbind sys_fsync (\<lambda>_.
     pbind (sys_fstat target) (\<lambda>stat.
     pensure (stat = identity) (IoError OtherKind)
     (pbind sys_fsync (\<lambda>_.
      pbind (read_regular_with_mode path) (\<lambda>measured.
      pensure (case measured of
                 None \<Rightarrow> False
               | Some (current, bytes, current_mode) \<Rightarrow>
                   current = identity \<and> digest bytes = digest contents \<and> current_mode = mode) (IoError OtherKind)
        (pure ())))))))))"

definition write_new_file_mode :: "path \<Rightarrow> bytes \<Rightarrow> u16 \<Rightarrow> ('j, FileIdentity) prog" where
  "write_new_file_mode path contents mode =
     pbind (open_parent path True) (\<lambda>parent.
     pbind (sys_create (handle_target parent) mode) (\<lambda>_.
     pbind (sys_fstat (handle_target parent)) (\<lambda>identity.
     pbind (attempt (write_contents path (handle_target parent) identity contents mode)) (\<lambda>r. case r of
       Inr _ \<Rightarrow> pure identity
     | Inl error \<Rightarrow>
         pbind (attempt (remove_at parent (Some identity))) (\<lambda>cleanup.
         pfail (combine_primary_and_cleanup error (is_ok cleanup)))))))"

text \<open>The name of an auxiliary file beside \<open>leaf\<close>.\<close>

definition sibling_name :: "('j host) \<Rightarrow> rstring \<Rightarrow> string \<Rightarrow> u64 \<Rightarrow> rstring" where
  "sibling_name h leaf purpose nonce =
     ascii ''.aros-'' @ ascii purpose @ ascii ''-'' @ take 16 (as_str (digest_of h leaf)) @ ascii ''-'' @
     concat (map hex_byte (be_bytes 8 (unat nonce)))"

end
