(* ===== verification/Pub_Journal.thy ===== *)
theory Pub_Journal
  imports Pub_World Rust_Collections
begin

text \<open>
  The journalled multi-file transaction of \<open>crates/aros-common/src/publication\<close>: the journal and
  its validation (\<open>unix/journal.rs\<close>), and commit, rollback and recovery (\<open>unix/mod.rs\<close>). The JSON
  form of a journal is a parameter of the host. The lock that keeps other writers away is not
  modelled: nobody else changes the files of a transaction.
\<close>

section \<open>Journals\<close>

datatype JournalState = Prepared | Committed

record JournalOperation =
  jo_target :: path
  jo_stage :: "path option"
  jo_backup :: "path option"
  jo_parent_identity :: FileIdentity
  jo_original :: "FileIdentity option"
  jo_original_digest :: "Sha256Digest option"
  jo_original_mode :: "u16 option"
  jo_desired_digest :: "Sha256Digest option"
  jo_desired_mode :: "u16 option"
  jo_installed :: "FileIdentity option"

record Journal =
  jn_schema :: rstring
  jn_nonce :: u64
  jn_state :: JournalState
  jn_operations :: "JournalOperation list"

type_synonym 'a publication = "(Journal, 'a) prog"

definition JOURNAL_STAGE_MAGIC :: bytes where
  "JOURNAL_STAGE_MAGIC = ascii ''AROS-PUBLICATION-JOURNAL-v2'' @ [10]"

text \<open>\<open>casefold_path_key\<close> of a path given by its components.\<close>

definition casefold_key :: "path \<Rightarrow> (path_error, rstring) result" where
  "casefold_key cs = rbind (casefold_components cs) (\<lambda>folded. ensure (folded \<noteq> []) EmptyPath (Inr (join_with [SLASH] folded)))"

text \<open>The modes \<open>0o644\<close>, \<open>0o755\<close> and the permission mask \<open>0o7777\<close>, in hexadecimal.\<close>

definition portable_mode :: "u16 \<Rightarrow> bool" where
  "portable_mode mode = (mode \<in> {0x1a4, 0x1ed})"

definition is_some :: "'a option \<Rightarrow> bool" where
  "is_some x = (x \<noteq> None)"

definition original_proof_incomplete :: "bool \<Rightarrow> JournalOperation \<Rightarrow> bool" where
  "original_proof_incomplete mode_aware o' =
     (is_some (jo_original o') \<noteq> is_some (jo_original_digest o') \<or>
      mode_aware \<and> is_some (jo_original o') \<noteq> is_some (jo_original_mode o') \<or>
      \<not> mode_aware \<and> is_some (jo_original_mode o'))"

definition auxiliary_inconsistent :: "bool \<Rightarrow> path \<Rightarrow> path \<Rightarrow> JournalOperation \<Rightarrow> bool" where
  "auxiliary_inconsistent mode_aware expected_stage expected_backup o' =
     ((case jo_stage o' of None \<Rightarrow> False | Some p \<Rightarrow> p \<noteq> expected_stage) \<or>
      (case jo_backup o' of None \<Rightarrow> False | Some p \<Rightarrow> p \<noteq> expected_backup) \<or>
      is_some (jo_stage o') \<noteq> is_some (jo_desired_digest o') \<or>
      mode_aware \<and> is_some (jo_stage o') \<noteq> is_some (jo_desired_mode o') \<or>
      \<not> mode_aware \<and> is_some (jo_desired_mode o') \<or>
      (case jo_desired_mode o' of None \<Rightarrow> False | Some m \<Rightarrow> \<not> portable_mode m) \<or>
      is_some (jo_installed o') \<and> \<not> is_some (jo_stage o') \<or>
      is_some (jo_backup o') \<noteq> is_some (jo_original o'))"

text \<open>Every failure of the validation is the same rollback error.\<close>

definition reject :: "(pub_error, 'a) result" where
  "reject = Inl rollback_error"

fun validate_operations ::
  "Journal host \<Rightarrow> bool \<Rightarrow> path \<Rightarrow> path set \<Rightarrow> rstring set \<Rightarrow> u64 \<Rightarrow> JournalOperation list \<Rightarrow> (pub_error, unit) result" where
  "validate_operations h mode_aware scope targets keys nonce [] = Inr ()"
| "validate_operations h mode_aware scope targets keys nonce (o' # rest) =
     (if \<not> is_absolute_path (jo_target o') \<or> \<not> starts_with (jo_target o') scope \<or> jo_target o' \<in> targets then reject
      else case casefold_key (drop (length scope) (jo_target o')) of
        Inl _ \<Rightarrow> reject
      | Inr key \<Rightarrow>
          if key \<in> keys \<or> original_proof_incomplete mode_aware o' \<or>
             (case jo_original_mode o' of None \<Rightarrow> False | Some m \<Rightarrow> m > 0xfff) then reject
          else case (path_parent (jo_target o'), file_name (jo_target o')) of
            (Some parent, Some leaf) \<Rightarrow>
              if auxiliary_inconsistent mode_aware (parent @ [Normal (sibling_name h leaf ''stage'' nonce)])
                   (parent @ [Normal (sibling_name h leaf ''backup'' nonce)]) o' then reject
              else validate_operations h mode_aware scope (insert (jo_target o') targets) (insert key keys) (nonce + 1) rest
          | _ \<Rightarrow> reject)"

definition validate_journal :: "Journal host \<Rightarrow> Journal \<Rightarrow> path \<Rightarrow> (pub_error, unit) result" where
  "validate_journal h journal journal_path =
     rbind (if jn_schema journal = ascii ''aros-publication-journal-v2'' then Inr False
            else if jn_schema journal = ascii ''aros-publication-journal-v3'' then Inr True
            else reject) (\<lambda>mode_aware.
     case path_parent journal_path of
       None \<Rightarrow> reject
     | Some scope \<Rightarrow> validate_operations h mode_aware scope {} {} (jn_nonce journal) (jn_operations journal))"

definition encode_journal :: "Journal \<Rightarrow> bytes publication" where
  "encode_journal journal =
     pbind (ask (\<lambda>h. ho_encode h journal)) (\<lambda>json. case json of
       None \<Rightarrow> pfail (IoError OtherKind)
     | Some bs \<Rightarrow> pure (JOURNAL_STAGE_MAGIC @ bs))"

definition parse_journal :: "Journal host \<Rightarrow> bytes \<Rightarrow> (pub_error, Journal) result" where
  "parse_journal h bs =
     rbind (ok_or (strip_prefix bs JOURNAL_STAGE_MAGIC) (IoError InvalidData)) (\<lambda>json.
     ok_or (ho_decode h json) (IoError OtherKind))"

definition journal_stage_path :: "path \<Rightarrow> path publication" where
  "journal_stage_path path =
     pbind (ask sibling_name) (\<lambda>name.
     pbind (open_parent path True) (\<lambda>parent.
     pure (ph_path parent @ [Normal (name (ph_leaf parent) ''journal-stage'' 0)])))"

definition owned_stage :: "bytes \<Rightarrow> bool" where
  "owned_stage bs = (bs = [] \<or> starts_with JOURNAL_STAGE_MAGIC bs \<or> starts_with bs JOURNAL_STAGE_MAGIC)"

definition cleanup_journal_stage :: "path \<Rightarrow> unit publication" where
  "cleanup_journal_stage journal_path =
     pbind (ask digest_of) (\<lambda>digest.
     pbind (journal_stage_path journal_path) (\<lambda>staged_path.
     pbind (read_regular staged_path) (\<lambda>staged. case staged of
       None \<Rightarrow> pure ()
     | Some (identity, bytes) \<Rightarrow>
         pensure (owned_stage bytes) rollback_error (remove_regular_exact staged_path identity (digest bytes)))))"

text \<open>The part of \<open>write_journal\<close> that puts the staged journal in place.\<close>

definition install_journal :: "path \<Rightarrow> ParentHandle \<Rightarrow> unit publication" where
  "install_journal staged_path parent =
     pbind (open_parent staged_path False) (\<lambda>staged.
     pbind (identity_at parent) (\<lambda>existing.
     pbind (if existing \<noteq> None then sys_rename (handle_target staged) (handle_target parent)
            else rename_noclobber staged parent) (\<lambda>_.
     sys_fsync)))"

definition write_journal :: "path \<Rightarrow> Journal \<Rightarrow> unit publication" where
  "write_journal path journal =
     pbind (ask digest_of) (\<lambda>digest.
     pbind (encode_journal journal) (\<lambda>bytes.
     pbind (open_parent path True) (\<lambda>parent.
     pbind (journal_stage_path path) (\<lambda>staged_path.
     pbind (cleanup_journal_stage path) (\<lambda>_.
     pbind (write_new_file_mode staged_path bytes 0x180) (\<lambda>staged_identity.
     pbind (attempt (install_journal staged_path parent)) (\<lambda>update. case update of
       Inr _ \<Rightarrow> pure ()
     | Inl error \<Rightarrow>
         pbind (attempt (remove_regular_exact staged_path staged_identity (digest bytes))) (\<lambda>cleanup.
         pfail (combine_primary_and_cleanup error (is_ok cleanup))))))))))"

definition remove_journal :: "path \<Rightarrow> FileIdentity \<Rightarrow> unit publication" where
  "remove_journal path expected =
     pbind (ask digest_of) (\<lambda>digest.
     pbind (read_regular path) (\<lambda>current. case current of
       None \<Rightarrow> pfail (IoError NotFound)
     | Some (_, bytes) \<Rightarrow> remove_regular_exact path expected (digest bytes)))"

section \<open>One operation\<close>

definition snapshot_matches ::
  "Journal host \<Rightarrow> (FileIdentity \<times> bytes \<times> u16) option \<Rightarrow> FileIdentity option \<Rightarrow> Sha256Digest option \<Rightarrow> u16 option \<Rightarrow> bool" where
  "snapshot_matches h snapshot identity digest mode =
     (case snapshot of
        Some (i, contents, m) \<Rightarrow>
          Some i = identity \<and> Some (digest_of h contents) = digest \<and> (case mode of None \<Rightarrow> True | Some expected \<Rightarrow> expected = m)
      | None \<Rightarrow> identity = None \<and> digest = None \<and> mode = None)"

abbreviation matches_original :: "Journal host \<Rightarrow> JournalOperation \<Rightarrow> (FileIdentity \<times> bytes \<times> u16) option \<Rightarrow> bool" where
  "matches_original h o' s \<equiv> snapshot_matches h s (jo_original o') (jo_original_digest o') (jo_original_mode o')"

abbreviation matches_desired :: "Journal host \<Rightarrow> JournalOperation \<Rightarrow> (FileIdentity \<times> bytes \<times> u16) option \<Rightarrow> bool" where
  "matches_desired h o' s \<equiv> snapshot_matches h s (jo_installed o') (jo_desired_digest o') (jo_desired_mode o')"

definition apply_backup :: "JournalOperation \<Rightarrow> ParentHandle \<Rightarrow> unit publication" where
  "apply_backup o' parent =
     (case jo_backup o' of
        None \<Rightarrow> pure ()
      | Some backup_path \<Rightarrow>
          pbind (ask matches_original) (\<lambda>matches.
          pbind (open_parent backup_path False) (\<lambda>backup.
          pbind (rename_noclobber parent backup) (\<lambda>_.
          pbind (read_regular_with_mode backup_path) (\<lambda>moved.
          if \<not> matches o' moved
          then pbind (attempt (rename_noclobber backup parent)) (\<lambda>_. pfail (IoError OtherKind))
          else sync_parent (jo_target o'))))))"

definition apply_stage :: "JournalOperation \<Rightarrow> ParentHandle \<Rightarrow> unit publication" where
  "apply_stage o' parent =
     (case jo_stage o' of
        None \<Rightarrow> pure ()
      | Some stage_path \<Rightarrow>
          pbind (ask matches_desired) (\<lambda>matches.
          pbind (read_regular_with_mode stage_path) (\<lambda>staged.
          pensure (matches o' staged) (IoError OtherKind)
          (pbind (open_parent stage_path False) (\<lambda>stage.
           pbind (rename_noclobber stage parent) (\<lambda>_.
           pbind (read_regular_with_mode (jo_target o')) (\<lambda>installed.
           pensure (matches o' installed) (IoError OtherKind)
             (sync_parent (jo_target o')))))))))"

definition apply_operation :: "JournalOperation \<Rightarrow> unit publication" where
  "apply_operation o' =
     pbind (ask matches_original) (\<lambda>matches.
     pbind (open_parent (jo_target o') False) (\<lambda>parent.
     pbind (sys_fstat_dir (ph_path parent)) (\<lambda>identity.
     pensure (identity = jo_parent_identity o') (IoError OtherKind)
     (pbind (read_regular_with_mode (jo_target o')) (\<lambda>current.
      pensure (matches o' current) (IoError OtherKind)
      (pbind (apply_backup o' parent) (\<lambda>_. apply_stage o' parent)))))))"

section \<open>Rollback of one operation\<close>

definition check_aux_parent :: "JournalOperation \<Rightarrow> path \<Rightarrow> ParentHandle publication" where
  "check_aux_parent o' path =
     pbind (open_parent path False) (\<lambda>parent.
     pbind (sys_fstat_dir (ph_path parent)) (\<lambda>identity.
     pensure (identity = jo_parent_identity o') (IoError OtherKind) (pure parent)))"

definition remove_operation_aux_exact ::
  "JournalOperation \<Rightarrow> path \<Rightarrow> FileIdentity \<Rightarrow> Sha256Digest \<Rightarrow> u16 option \<Rightarrow> unit publication" where
  "remove_operation_aux_exact o' path expected expected_digest expected_mode =
     pbind (check_aux_parent o' path) (\<lambda>parent. remove_at_exact_mode parent expected expected_digest expected_mode)"

definition remove_operation_aux_unidentified :: "JournalOperation \<Rightarrow> path \<Rightarrow> unit publication" where
  "remove_operation_aux_unidentified o' path =
     pbind (ask digest_of) (\<lambda>digest.
     pbind (check_aux_parent o' path) (\<lambda>parent.
     pbind (read_regular path) (\<lambda>current. case current of
       None \<Rightarrow> pure ()
     | Some (identity, bytes) \<Rightarrow> remove_at_exact parent identity (digest bytes))))"

definition remove_owned_stage :: "JournalOperation \<Rightarrow> path \<Rightarrow> unit publication" where
  "remove_owned_stage o' stage =
     (case (jo_installed o', jo_desired_digest o') of
        (Some identity, Some digest) \<Rightarrow> remove_operation_aux_exact o' stage identity digest (jo_desired_mode o')
      | _ \<Rightarrow> remove_operation_aux_unidentified o' stage)"

text \<open>The errors collected are the texts that name the failed step.\<close>

definition noted :: "string \<Rightarrow> 'a publication \<Rightarrow> string list publication" where
  "noted note m = pbind (attempt m) (\<lambda>r. pure (if is_ok r then [] else [note]))"

definition rollback_target :: "JournalOperation \<Rightarrow> ParentHandle \<Rightarrow> string list publication" where
  "rollback_target o' parent =
     pbind (ask matches_original) (\<lambda>original.
     pbind (ask matches_desired) (\<lambda>desired.
     pbind (attempt (read_regular_with_mode (jo_target o'))) (\<lambda>r. case r of
       Inl _ \<Rightarrow> pure [''measure target'']
     | Inr current \<Rightarrow>
         if desired o' current
         then (case (jo_installed o', jo_desired_digest o') of
                 (Some identity, Some digest) \<Rightarrow>
                   noted ''remove installed target'' (remove_at_exact_mode parent identity digest (jo_desired_mode o'))
               | _ \<Rightarrow> pure [''installed target lacks journal proof''])
         else if current \<noteq> None \<and> \<not> original o' current then pure [''target contains unexpected identity or bytes'']
         else pure [])))"

definition verify_original_restored :: "JournalOperation \<Rightarrow> unit publication" where
  "verify_original_restored o' =
     pbind (ask matches_original) (\<lambda>original.
     pbind (read_regular_with_mode (jo_target o')) (\<lambda>restored.
     pensure (original o' restored) (IoError OtherKind) (pure ())))"

definition restore_backup :: "JournalOperation \<Rightarrow> ParentHandle \<Rightarrow> ParentHandle \<Rightarrow> string list publication" where
  "restore_backup o' backup_parent target_parent =
     pbind (ask matches_original) (\<lambda>original.
     pbind (attempt (read_regular_with_mode (jo_target o'))) (\<lambda>r. case r of
       Inl _ \<Rightarrow> pure [''measure restore target'']
     | Inr None \<Rightarrow>
         noted ''restore backup''
           (pbind (rename_noclobber backup_parent target_parent) (\<lambda>_.
            pbind (sync_parent (jo_target o')) (\<lambda>_. verify_original_restored o')))
     | Inr current \<Rightarrow> pure (if original o' current then [] else [''cannot restore backup over unexpected target''])))"

definition rollback_without_backup :: "JournalOperation \<Rightarrow> string list publication" where
  "rollback_without_backup o' =
     pbind (ask matches_original) (\<lambda>original.
     pbind (attempt (read_regular_with_mode (jo_target o'))) (\<lambda>r. case r of
       Inl _ \<Rightarrow> pure [''measure target without backup'']
     | Inr current \<Rightarrow>
         pure (if original o' current then [] else if jo_original o' \<noteq> None then [''required rollback backup is missing''] else [])))"

definition rollback_backup :: "JournalOperation \<Rightarrow> (pub_error, ParentHandle) result \<Rightarrow> string list publication" where
  "rollback_backup o' target_parent =
     (case jo_backup o' of
        None \<Rightarrow> pure []
      | Some backup_path \<Rightarrow>
          pbind (ask matches_original) (\<lambda>original.
          pbind (attempt (open_parent backup_path False)) (\<lambda>opened. case (opened, target_parent) of
            (Inl _, _) \<Rightarrow> pure [''open backup parent'']
          | (Inr _, Inl _) \<Rightarrow> pure []
          | (Inr backup_parent, Inr parent) \<Rightarrow>
              pbind (attempt (read_regular_with_mode backup_path)) (\<lambda>r. case r of
                Inl _ \<Rightarrow> pure [''measure backup'']
              | Inr backup \<Rightarrow>
                  if original o' backup then restore_backup o' backup_parent parent
                  else if backup \<noteq> None then pure [''backup identity, digest, or mode mismatch'']
                  else rollback_without_backup o'))))"

definition rollback_operation :: "JournalOperation \<Rightarrow> unit publication" where
  "rollback_operation o' =
     pbind (attempt (open_parent (jo_target o') False)) (\<lambda>target_parent.
     pbind (case target_parent of
              Inl _ \<Rightarrow> pure [''open target parent'']
            | Inr parent \<Rightarrow>
                pbind (sys_fstat_dir (ph_path parent)) (\<lambda>identity.
                pensure (identity = jo_parent_identity o') (IoError OtherKind) (rollback_target o' parent))) (\<lambda>first.
     pbind (rollback_backup o' target_parent) (\<lambda>second.
     pbind (case jo_stage o' of None \<Rightarrow> pure [] | Some stage \<Rightarrow> noted ''remove stage'' (remove_owned_stage o' stage)) (\<lambda>third.
     pensure (first @ second @ third = []) (IoError OtherKind) (pure ())))))"

section \<open>Lists of operations\<close>

text \<open>Each element gets its turn; the notes of those that failed are collected.\<close>

fun for_each :: "('b \<Rightarrow> string list publication) \<Rightarrow> 'b list \<Rightarrow> string list publication" where
  "for_each f [] = pure []"
| "for_each f (x # xs) = pbind (f x) (\<lambda>first. pbind (for_each f xs) (\<lambda>rest. pure (first @ rest)))"

definition rollback_operations :: "JournalOperation list \<Rightarrow> string list publication" where
  "rollback_operations ops = for_each (\<lambda>o'. noted ''rollback'' (rollback_operation o')) (rev ops)"

definition cleanup_stages :: "JournalOperation list \<Rightarrow> string list publication" where
  "cleanup_stages ops =
     for_each (\<lambda>o'. case jo_stage o' of None \<Rightarrow> pure [] | Some stage \<Rightarrow> noted ''stage'' (remove_owned_stage o' stage)) ops"

definition cleanup_backup :: "JournalOperation \<Rightarrow> string list publication" where
  "cleanup_backup o' =
     (case jo_backup o' of
        None \<Rightarrow> pure []
      | Some backup \<Rightarrow>
          (case (jo_original o', jo_original_digest o') of
             (Some identity, Some digest) \<Rightarrow>
               noted ''backup'' (remove_operation_aux_exact o' backup identity digest (jo_original_mode o'))
           | _ \<Rightarrow> pure [''committed backup lacks journal identity or digest'']))"

definition cleanup_committed :: "JournalOperation list \<Rightarrow> string list publication" where
  "cleanup_committed ops =
     pbind (cleanup_stages ops) (\<lambda>first. pbind (for_each cleanup_backup ops) (\<lambda>rest. pure (first @ rest)))"

fun apply_operations :: "JournalOperation list \<Rightarrow> unit publication" where
  "apply_operations [] = pure ()"
| "apply_operations (o' # rest) = pbind (apply_operation o') (\<lambda>_. apply_operations rest)"

section \<open>Recovery\<close>

datatype RecoveryOutcome = NoRecovery | RolledBack | CompletedCleanup | RemovedTreeStage

definition recover_if_needed :: "path \<Rightarrow> RecoveryOutcome publication" where
  "recover_if_needed journal_path =
     pbind (ask id) (\<lambda>h.
     pbind (cleanup_journal_stage journal_path) (\<lambda>_.
     pbind (read_regular journal_path) (\<lambda>found. case found of
       None \<Rightarrow> pure NoRecovery
     | Some (journal_identity, bytes) \<Rightarrow>
         (case parse_journal h bytes of
            Inl _ \<Rightarrow> pfail rollback_error
          | Inr journal \<Rightarrow>
              (case validate_journal h journal journal_path of
                 Inl e \<Rightarrow> pfail e
               | Inr _ \<Rightarrow>
                   pbind (if jn_state journal = Committed then cleanup_committed (jn_operations journal)
                          else rollback_operations (jn_operations journal)) (\<lambda>errors.
                   pensure (errors = []) rollback_error
                   (pbind (attempt (remove_journal journal_path journal_identity)) (\<lambda>removed.
                    pensure (is_ok removed) rollback_error
                      (pure (if jn_state journal = Committed then CompletedCleanup else RolledBack))))))))))"

definition finish_failed_transaction :: "path \<Rightarrow> pub_error \<Rightarrow> string list \<Rightarrow> 'a publication" where
  "finish_failed_transaction journal_path primary rollback =
     pensure (rollback = []) rollback_error
     (pbind (attempt (cleanup_journal_stage journal_path)) (\<lambda>cleaned.
      pensure (is_ok cleaned) rollback_error
      (pbind (attempt (read_regular journal_path)) (\<lambda>r. case r of
         Inr (Some (identity, _)) \<Rightarrow>
           pbind (attempt (remove_journal journal_path identity)) (\<lambda>removed.
           pensure (is_ok removed) rollback_error (pfail primary))
       | _ \<Rightarrow> pfail rollback_error))))"

section \<open>Commit\<close>

datatype DesiredState = Write bytes u16 | Remove

record PlannedChange =
  pc_path :: path
  pc_original :: "FileIdentity option"
  pc_original_digest :: "Sha256Digest option"
  pc_original_mode :: "u16 option"
  pc_desired :: DesiredState

definition take_nonce :: "u64 publication" where
  "take_nonce =
     (\<lambda>h w. (Done (xor (push_bit 32 (ucast (ho_pid h))) (w_sequence w)), w\<lparr>w_sequence := w_sequence w + 1\<rparr>))"

definition plan_operation :: "u64 \<Rightarrow> PlannedChange \<Rightarrow> (JournalOperation \<times> bytes option) publication" where
  "plan_operation nonce change =
     pbind (ask id) (\<lambda>h.
     pbind (open_parent (pc_path change) True) (\<lambda>parent.
     let aux = (\<lambda>purpose. ph_path parent @ [Normal (sibling_name h (ph_leaf parent) purpose nonce)]);
         backup = map_option (\<lambda>_. aux ''backup'') (pc_original change);
         (stage, desired_digest, desired_mode, contents) =
           (case pc_desired change of
              Write bs mode \<Rightarrow> (Some (aux ''stage''), Some (digest_of h bs), Some mode, Some bs)
            | Remove \<Rightarrow> (None, None, None, None))
     in pbind (sys_fstat_dir (ph_path parent)) (\<lambda>identity.
        pure (\<lparr>jo_target = pc_path change, jo_stage = stage, jo_backup = backup, jo_parent_identity = identity,
               jo_original = pc_original change, jo_original_digest = pc_original_digest change,
               jo_original_mode = pc_original_mode change, jo_desired_digest = desired_digest,
               jo_desired_mode = desired_mode, jo_installed = None\<rparr>, contents))))"

fun plan_operations :: "u64 \<Rightarrow> PlannedChange list \<Rightarrow> (JournalOperation \<times> bytes option) list publication" where
  "plan_operations nonce [] = pure []"
| "plan_operations nonce (change # rest) =
     pbind (plan_operation nonce change) (\<lambda>first. pbind (plan_operations (nonce + 1) rest) (\<lambda>others. pure (first # others)))"

definition roll_back_and_finish :: "path \<Rightarrow> JournalOperation list \<Rightarrow> pub_error \<Rightarrow> 'a publication" where
  "roll_back_and_finish journal_path ops error =
     pbind (rollback_operations ops) (\<lambda>rollback. finish_failed_transaction journal_path error rollback)"

text \<open>The loop that writes the staged files; \<open>earlier\<close> are the operations done with.\<close>

fun stage_operations ::
  "path \<Rightarrow> JournalOperation list \<Rightarrow> (JournalOperation \<times> bytes option) list \<Rightarrow> JournalOperation list publication" where
  "stage_operations journal_path earlier [] = pure earlier"
| "stage_operations journal_path earlier ((o', None) # rest) = stage_operations journal_path (earlier @ [o']) rest"
| "stage_operations journal_path earlier ((o', Some contents) # rest) =
     (case (jo_stage o', jo_desired_mode o') of
        (Some stage, Some mode) \<Rightarrow>
          pbind (attempt (write_new_file_mode stage contents mode)) (\<lambda>r. case r of
            Inr identity \<Rightarrow> stage_operations journal_path (earlier @ [o'\<lparr>jo_installed := Some identity\<rparr>]) rest
          | Inl error \<Rightarrow> roll_back_and_finish journal_path (earlier @ o' # map fst rest) error)
      | _ \<Rightarrow> (\<lambda>h w. (Crashed, w)))"

definition finish_committed :: "path \<Rightarrow> JournalOperation list \<Rightarrow> unit publication" where
  "finish_committed journal_path ops =
     pbind (cleanup_committed ops) (\<lambda>cleanup.
     pensure (cleanup = []) rollback_error
     (pbind (read_regular journal_path) (\<lambda>found. case found of
        None \<Rightarrow> pfail rollback_error
      | Some (identity, _) \<Rightarrow>
          pbind (attempt (remove_journal journal_path identity)) (\<lambda>removed.
          pensure (is_ok removed) rollback_error (pure ())))))"

text \<open>After a committed journal could not be written: is it in place all the same?\<close>

definition committed_visible :: "path \<Rightarrow> Journal \<Rightarrow> bool publication" where
  "committed_visible journal_path journal =
     pbind (ask parse_journal) (\<lambda>parse.
     pbind (attempt (read_regular journal_path)) (\<lambda>r.
     pure (case r of Inr (Some (_, bytes)) \<Rightarrow> parse bytes = Inr journal | _ \<Rightarrow> False)))"

text \<open>The transaction once its operations have been applied, once they are staged, and once they are planned.\<close>

definition commit_applied :: "path \<Rightarrow> Journal \<Rightarrow> unit publication" where
  "commit_applied journal_path journal =
     (let committed = journal\<lparr>jn_state := Committed\<rparr>
      in pbind (attempt (write_journal journal_path committed)) (\<lambda>written. case written of
           Inr _ \<Rightarrow> finish_committed journal_path (jn_operations journal)
         | Inl error \<Rightarrow>
             pbind (committed_visible journal_path committed) (\<lambda>visible.
             if \<not> visible then roll_back_and_finish journal_path (jn_operations journal) error
             else pfail uncertain_error)))"

definition commit_staged :: "path \<Rightarrow> Journal \<Rightarrow> unit publication" where
  "commit_staged journal_path journal =
     pbind (attempt (write_journal journal_path journal)) (\<lambda>written. case written of
       Inl error \<Rightarrow> roll_back_and_finish journal_path (jn_operations journal) error
     | Inr _ \<Rightarrow>
         pbind (attempt (apply_operations (jn_operations journal))) (\<lambda>applied. case applied of
           Inl error \<Rightarrow> roll_back_and_finish journal_path (jn_operations journal) error
         | Inr _ \<Rightarrow> commit_applied journal_path journal))"

definition commit_planned :: "path \<Rightarrow> u64 \<Rightarrow> (JournalOperation \<times> bytes option) list \<Rightarrow> unit publication" where
  "commit_planned journal_path nonce planned =
     (let journal = \<lparr>jn_schema = ascii ''aros-publication-journal-v3'', jn_nonce = nonce, jn_state = Prepared, jn_operations = map fst planned\<rparr>
      in pbind (write_journal journal_path journal) (\<lambda>_.
         pbind (stage_operations journal_path [] planned) (\<lambda>ops.
         commit_staged journal_path (journal\<lparr>jn_operations := ops\<rparr>))))"

definition unix_commit :: "path \<Rightarrow> PlannedChange list \<Rightarrow> unit publication" where
  "unix_commit journal_path changes =
     pbind take_nonce (\<lambda>nonce. pbind (plan_operations nonce changes) (commit_planned journal_path nonce))"

end
