(* ===== verification/Pub_Logic.thy ===== *)
theory Pub_Logic
  imports Pub_Journal
begin

text \<open>
  A program logic for the publication primitives: triples with a postcondition for success, one
  for errors and one for the process ending at any system call, over what the file system shows.
\<close>

section \<open>Triples\<close>

type_synonym view = "(path \<Rightarrow> fs_node option) \<times> (path \<Rightarrow> FileIdentity option)"

definition view :: "world \<Rightarrow> view" where
  "view w = (file_at w, dir_at w)"

definition triple ::
  "'j host \<Rightarrow> (view \<Rightarrow> bool) \<Rightarrow> ('j, 'a) prog \<Rightarrow> ('a \<Rightarrow> view \<Rightarrow> bool) \<Rightarrow> (pub_error \<Rightarrow> view \<Rightarrow> bool) \<Rightarrow> (view \<Rightarrow> bool) \<Rightarrow> bool" where
  "triple h P m Q E C \<longleftrightarrow>
     (\<forall>w. P (view w) \<longrightarrow> (case m h w of
        (Done a, w') \<Rightarrow> Q a (view w') | (Failed e, w') \<Rightarrow> E e (view w') | (Crashed, w') \<Rightarrow> C (view w')))"

lemma map_of_filter_neq: "map_of (filter (\<lambda>x. fst x \<noteq> p) xs) q = (if q = p then None else map_of xs q)"
  by (induction xs) auto

lemma file_at_simps [simp]:
  "file_at (tick w) = file_at w"
  "file_at (put_file p n w) = (file_at w)(p := Some n)"
  "file_at (del_file p w) = (file_at w)(p := None)"
  "file_at (put_dir p i w) = file_at w"
  by (auto simp: file_at_def tick_def put_file_def del_file_def put_dir_def map_of_filter_neq fun_eq_iff)

lemma file_at_move [simp]: "file_at (move_file a b n w) = (file_at w)(a := None, b := Some n)"
  by (simp add: move_file_def)

lemma dir_at_simps [simp]:
  "dir_at (tick w) = dir_at w"
  "dir_at (put_file p n w) = dir_at w"
  "dir_at (del_file p w) = dir_at w"
  "dir_at (move_file a b n w) = dir_at w"
  "dir_at (put_dir p i w) = (dir_at w)(p := Some i)"
  by (auto simp: dir_at_def tick_def put_file_def del_file_def move_file_def put_dir_def fun_eq_iff)

lemma view_simps [simp]:
  "view (tick w) = view w"
  "view (w\<lparr>w_sequence := s\<rparr>) = view w"
  by (auto simp: view_def) (auto simp: file_at_def dir_at_def)

lemma triple_pure: "(\<And>v. P v \<Longrightarrow> Q a v) \<Longrightarrow> triple h P (pure a) Q E C"
  by (simp add: triple_def pure_def)

lemma triple_pfail: "(\<And>v. P v \<Longrightarrow> E e v) \<Longrightarrow> triple h P (pfail e) Q E C"
  by (simp add: triple_def pfail_def)

lemma triple_bind: "triple h P m R E C \<Longrightarrow> (\<And>a. triple h (R a) (f a) Q E C) \<Longrightarrow> triple h P (pbind m f) Q E C"
  by (fastforce simp: triple_def pbind_def split: prod.splits outcome.splits)

lemma triple_attempt:
  "triple h P m (\<lambda>a. Q (Inr a)) (\<lambda>e. Q (Inl e)) C \<Longrightarrow> triple h P (attempt m) Q E C"
  by (fastforce simp: triple_def attempt_def split: prod.splits outcome.splits)

lemma triple_ask: "triple h P (f (g h)) Q E C \<Longrightarrow> triple h P (pbind (ask g) f) Q E C"
  by (simp add: triple_def pbind_def ask_def)

lemma triple_ensure:
  "(c \<Longrightarrow> triple h P m Q E C) \<Longrightarrow> (\<And>v. \<not> c \<Longrightarrow> P v \<Longrightarrow> E e v) \<Longrightarrow> triple h P (pensure c e m) Q E C"
  by (auto simp: pensure_def intro: triple_pfail)

lemma triple_conseq:
  assumes "triple h P' m Q' E' C'" "\<And>v. P v \<Longrightarrow> P' v" "\<And>a v. Q' a v \<Longrightarrow> Q a v" "\<And>e v. E' e v \<Longrightarrow> E e v" "\<And>v. C' v \<Longrightarrow> C v"
  shows "triple h P m Q E C"
  unfolding triple_def
proof (intro allI impI)
  fix w assume "P (view w)"
  with assms(1,2) have "case m h w of (Done a, w') \<Rightarrow> Q' a (view w') | (Failed e, w') \<Rightarrow> E' e (view w') | (Crashed, w') \<Rightarrow> C' (view w')"
    by (auto simp: triple_def)
  with assms(3-5) show "case m h w of (Done a, w') \<Rightarrow> Q a (view w') | (Failed e, w') \<Rightarrow> E e (view w') | (Crashed, w') \<Rightarrow> C (view w')"
    by (auto split: prod.splits outcome.splits)
qed

lemma triple_pre: "triple h P' m Q E C \<Longrightarrow> (\<And>v. P v \<Longrightarrow> P' v) \<Longrightarrow> triple h P m Q E C"
  by (rule triple_conseq)

text \<open>A fact about the state before a program may be assumed for it.\<close>

lemma triple_case: "(\<And>v. P v \<Longrightarrow> triple h (\<lambda>u. u = v) m Q E C) \<Longrightarrow> triple h P m Q E C"
  by (auto simp: triple_def)

lemma triple_assume: "(c \<Longrightarrow> triple h P m Q E C) \<Longrightarrow> triple h (\<lambda>v. c \<and> P v) m Q E C"
  by (auto simp: triple_def)

lemma triple_result: "triple h P m Q E C \<Longrightarrow> P (view w) \<Longrightarrow> m h w = (r, w') \<Longrightarrow>
    (case r of Done a \<Rightarrow> Q a (view w') | Failed e \<Rightarrow> E e (view w') | Crashed \<Rightarrow> C (view w'))"
  by (auto simp: triple_def split: outcome.splits prod.splits)

section \<open>Assumptions on the host\<close>

text \<open>Calls that only read do not fail; a calm host lets every call succeed.\<close>

definition reads_ok :: "'j host \<Rightarrow> bool" where
  "reads_ok h = (\<forall>n k. ho_fate h Reading n \<noteq> Fails k)"

definition calm :: "'j host \<Rightarrow> bool" where
  "calm h = (\<forall>k n. ho_fate h k n = Succeeds)"

text \<open>A new file has an identity that no existing file has.\<close>

definition fresh_identities :: "'j host \<Rightarrow> bool" where
  "fresh_identities h = (\<forall>w i p bs m. ho_identity h w = Some i \<longrightarrow> file_at w p \<noteq> Some (Regular i bs m))"

lemma calm_reads_ok: "calm h \<Longrightarrow> reads_ok h"
  by (simp add: calm_def reads_ok_def)

text \<open>The rule of a system call; a calm host neither fails nor crashes by itself.\<close>

lemma triple_sys_changing:
  assumes "\<And>w. P (view w) \<Longrightarrow> case act h w of Inl e \<Rightarrow> E e (view w) | Inr (a, w') \<Rightarrow> Q a (view w')"
    and "\<And>v. \<not> calm h \<Longrightarrow> P v \<Longrightarrow> E (IoError OtherKind) v" "\<And>v. \<not> calm h \<Longrightarrow> P v \<Longrightarrow> C v"
  shows "triple h P (sys Changing act) Q E C"
  unfolding triple_def
proof (intro allI impI)
  fix w assume P: "P (view w)"
  have "\<not> calm h" if "ho_fate h Changing (w_tick w) \<noteq> Succeeds" using that by (auto simp: calm_def)
  then show "case sys Changing act h w of (Done a, w') \<Rightarrow> Q a (view w') | (Failed e, w') \<Rightarrow> E e (view w') | (Crashed, w') \<Rightarrow> C (view w')"
    using assms(1) [OF P] assms(2,3) P by (auto simp: sys_def split: fate.splits sum.splits prod.splits)
qed

lemma triple_sys_reading:
  assumes "reads_ok h" "\<And>w. P (view w) \<Longrightarrow> case act h w of Inl e \<Rightarrow> E e (view w) | Inr (a, w') \<Rightarrow> Q a (view w')"
    and "\<And>v. \<not> calm h \<Longrightarrow> P v \<Longrightarrow> C v"
  shows "triple h P (sys Reading act) Q E C"
  unfolding triple_def
proof (intro allI impI)
  fix w assume P: "P (view w)"
  have "\<not> calm h" if "ho_fate h Reading (w_tick w) \<noteq> Succeeds" using that by (auto simp: calm_def)
  then show "case sys Reading act h w of (Done a, w') \<Rightarrow> Q a (view w') | (Failed e, w') \<Rightarrow> E e (view w') | (Crashed, w') \<Rightarrow> C (view w')"
    using assms(1) assms(2) [OF P] assms(3) P
    by (auto simp: sys_def reads_ok_def split: fate.splits sum.splits prod.splits)
qed

section \<open>Directories\<close>

text \<open>An absolute path of names, and the directories above it.\<close>

definition normal_path :: "path \<Rightarrow> bool" where
  "normal_path p = (\<exists>names. names \<noteq> [] \<and> p = RootDir # map Normal names)"

definition dirs_ok :: "(path \<Rightarrow> FileIdentity option) \<Rightarrow> path \<Rightarrow> bool" where
  "dirs_ok d p = (\<forall>k. 0 < k \<and> k < length p \<longrightarrow> d (take k p) \<noteq> None)"

abbreviation parent_of :: "path \<Rightarrow> path" where "parent_of p \<equiv> butlast p"

definition handle_of :: "path \<Rightarrow> ParentHandle" where
  "handle_of p = \<lparr>ph_path = butlast p, ph_leaf = (case last p of Normal n \<Rightarrow> n | _ \<Rightarrow> [])\<rparr>"

lemma handle_of_target: "normal_path p \<Longrightarrow> handle_target (handle_of p) = p"
proof -
  assume "normal_path p"
  then obtain names where n: "names \<noteq> []" "p = RootDir # map Normal names" by (auto simp: normal_path_def)
  then have "last p = Normal (last names)" by (simp add: last_map)
  moreover have "p = butlast p @ [last p]" using n by simp
  ultimately show ?thesis by (simp add: handle_of_def)
qed

lemma triple_open_dir:
  assumes "reads_ok h" "\<And>v. P v \<Longrightarrow> snd v p \<noteq> None" "\<And>v. P v \<Longrightarrow> \<not> calm h \<Longrightarrow> C v"
  shows "triple h P (sys_open_dir p) (\<lambda>_. P) (\<lambda>_ _. False) C"
  unfolding sys_open_dir_def by (rule triple_sys_reading) (use assms in \<open>auto simp: view_def\<close>)

lemma triple_fstat_dir:
  assumes "reads_ok h" "\<And>v. P v \<Longrightarrow> snd v p \<noteq> None" "\<And>v. P v \<Longrightarrow> \<not> calm h \<Longrightarrow> C v"
  shows "triple h P (sys_fstat_dir p) (\<lambda>i v. P v \<and> snd v p = Some i) (\<lambda>_ _. False) C"
  unfolding sys_fstat_dir_def by (rule triple_sys_reading) (use assms in \<open>force simp: view_def split: option.splits\<close>)+

lemma triple_open_next:
  assumes "reads_ok h" "\<And>v. P v \<Longrightarrow> snd v p \<noteq> None" "\<And>v. P v \<Longrightarrow> \<not> calm h \<Longrightarrow> C v"
  shows "triple h P (open_next create p) (\<lambda>_. P) (\<lambda>_ _. False) C"
  unfolding open_next_def
proof (rule triple_bind [where R = "\<lambda>r v. is_ok r \<and> P v"])
  show "triple h P (attempt (sys_open_dir p)) (\<lambda>r v. is_ok r \<and> P v) (\<lambda>_ _. False) C"
    by (rule triple_attempt, rule triple_conseq [OF triple_open_dir]) (use assms in auto)
qed (rule triple_assume, auto simp: is_ok_iff intro: triple_pure)

lemma triple_open_components:
  assumes "reads_ok h" "\<And>v. P v \<Longrightarrow> \<not> calm h \<Longrightarrow> C v"
  shows "(\<And>v k. P v \<Longrightarrow> 0 < k \<Longrightarrow> k \<le> length names \<Longrightarrow> snd v (at @ map Normal (take k names)) \<noteq> None) \<Longrightarrow>
    triple h P (open_components create at (map Normal names)) (\<lambda>t v. P v \<and> t = at @ map Normal names) (\<lambda>_ _. False) C"
proof (induction names arbitrary: at)
  case Nil
  show ?case by (auto intro: triple_pure)
next
  case (Cons n ns)
  have "snd v (at @ [Normal n]) \<noteq> None" if "P v" for v using Cons.prems [OF that, of 1] by simp
  then have first: "triple h P (open_next create (at @ [Normal n])) (\<lambda>_. P) (\<lambda>_ _. False) C"
    using assms by (intro triple_open_next)
  have "triple h P (open_components create (at @ [Normal n]) (map Normal ns)) (\<lambda>t v. P v \<and> t = (at @ [Normal n]) @ map Normal ns) (\<lambda>_ _. False) C"
  proof (rule Cons.IH)
    fix v k assume "P v" "0 < k" "k \<le> length ns"
    then show "snd v ((at @ [Normal n]) @ map Normal (take k ns)) \<noteq> None" using Cons.prems [of v "Suc k"] by simp
  qed
  then show ?case by (auto intro!: triple_bind [OF first])
qed

lemma normal_path_parts:
  assumes "normal_path p"
  obtains names leaf where "p = RootDir # map Normal names @ [Normal leaf]" "butlast p = RootDir # map Normal names"
proof -
  obtain ns where "ns \<noteq> []" "p = RootDir # map Normal ns" using assms by (auto simp: normal_path_def)
  then have "p = RootDir # map Normal (butlast ns) @ [Normal (last ns)]" by (metis append_butlast_last_id list.simps(8,9) map_append)
  then show thesis using that by (simp add: butlast_append)
qed

lemma triple_open_parent:
  assumes "reads_ok h" "normal_path p" "\<And>v. P v \<Longrightarrow> dirs_ok (snd v) p" "\<And>v. P v \<Longrightarrow> \<not> calm h \<Longrightarrow> C v"
  shows "triple h P (open_parent p create) (\<lambda>parent v. P v \<and> parent = handle_of p) (\<lambda>_ _. False) C"
proof -
  obtain names leaf where p: "p = RootDir # map Normal names @ [Normal leaf]" and b: "butlast p = RootDir # map Normal names"
    using normal_path_parts [OF assms(2)] .
  have dir: "snd v (RootDir # map Normal (take k names)) \<noteq> None" if "P v" "k \<le> length names" for v k
    using assms(3) [OF that(1)] that(2) unfolding dirs_ok_def p by (auto dest!: spec [of _ "Suc k"] simp: take_map)
  have all: "snd v (RootDir # map Normal names) \<noteq> None" if "P v" for v using dir [OF that, of "length names"] by simp
  have walk: "triple h P (open_components create [RootDir] (RootDir # map Normal names))
      (\<lambda>t v. P v \<and> t = [RootDir] @ map Normal names) (\<lambda>_ _. False) C"
    unfolding open_components.simps using assms(1,4) dir by (intro triple_open_components) auto
  have last: "triple h (\<lambda>v. P v \<and> t = [RootDir] @ map Normal names)
      (pbind (sys_fstat_dir t) (\<lambda>before. pbind (sys_open_dir t) (\<lambda>_. pbind (sys_fstat_dir t) (\<lambda>after.
        pensure (before = after) (IoError OtherKind) (pure \<lparr>ph_path = RootDir # map Normal names, ph_leaf = leaf\<rparr>)))))
      (\<lambda>parent v. P v \<and> parent = handle_of p) (\<lambda>_ _. False) C" for t
    apply (rule triple_bind, rule triple_fstat_dir)
       apply (use assms(1,4) all in auto)[3]
    apply (rule triple_bind, rule triple_open_dir)
       apply (use assms(1,4) all in auto)[3]
    apply (rule triple_bind, rule triple_fstat_dir)
       apply (use assms(1,4) all in auto)[3]
    apply (rule triple_ensure)
     apply (rule triple_pure)
     apply (auto simp: handle_of_def p b)
    done
  show ?thesis
    unfolding open_parent_def absolute_path_def
    apply (rule triple_bind [where R = "\<lambda>a v. P v \<and> a = p"])
     apply (simp add: p is_absolute_path_def)
     apply (rule triple_pure, simp add: p)
    subgoal for a
      apply (rule triple_pre [where P' = "\<lambda>v. a = p \<and> P v"])
       apply (rule triple_assume)
       apply (simp add: p file_name_def path_parent_def butlast_append)
       apply (rule triple_bind, rule triple_open_dir)
          apply (use assms(1,4) dir [of _ 0] in auto)[3]
       apply (rule triple_bind)
        apply (rule walk [unfolded open_components.simps])
       apply (rule last [unfolded p])
      apply auto
      done
    done
qed

section \<open>Files\<close>

text \<open>After trouble the state is still one of \<open>P\<close>, and the host was not calm.\<close>

abbreviation trouble :: "'j host \<Rightarrow> (view \<Rightarrow> bool) \<Rightarrow> view \<Rightarrow> bool" where
  "trouble h P v \<equiv> P v \<and> \<not> calm h"

text \<open>A name that can be read: a regular file or nothing.\<close>

definition plain :: "view \<Rightarrow> path \<Rightarrow> bool" where
  "plain v p = (case fst v p of Some (Regular _ _ _) \<Rightarrow> True | Some _ \<Rightarrow> False | None \<Rightarrow> snd v p = None)"

fun snap :: "fs_node option \<Rightarrow> (FileIdentity \<times> bytes \<times> u16) option" where
  "snap (Some (Regular i bs m)) = Some (i, bs, m)"
| "snap _ = None"

text \<open>What an exact removal may remove.\<close>

definition exact_node :: "'j host \<Rightarrow> FileIdentity \<Rightarrow> Sha256Digest \<Rightarrow> u16 option \<Rightarrow> fs_node option \<Rightarrow> bool" where
  "exact_node h i d mode n =
     (case snap n of None \<Rightarrow> True | Some (j, bs, m) \<Rightarrow> j = i \<and> digest_of h bs = d \<and> (mode = None \<or> mode = Some m))"

lemma snap_eq_Some: "snap n = Some (i, bs, m) \<longleftrightarrow> n = Some (Regular i bs m)"
  by (cases n rule: snap.cases) auto

lemma plain_snap_None: "plain v p \<Longrightarrow> snap (fst v p) = None \<longleftrightarrow> fst v p = None"
  by (auto simp: plain_def split: option.splits fs_node.splits)

lemma plain_NoneD:
  "plain v p \<Longrightarrow> None = snap (fst v p) \<Longrightarrow> fst v p = None"
  "plain (f, d) p \<Longrightarrow> None = snap (f p) \<Longrightarrow> f p = None"
  using plain_snap_None [of v p] plain_snap_None [of "(f, d)" p] by auto

lemma triple_fsync: "triple h P sys_fsync (\<lambda>_. P) (\<lambda>_. trouble h P) (trouble h P)"
  unfolding sys_fsync_def by (rule triple_sys_changing) auto

lemma triple_sys_read:
  assumes "reads_ok h"
  shows "triple h P (sys_read p) (\<lambda>s v. P v \<and> plain v p \<and> s = snap (fst v p)) (\<lambda>_ v. P v \<and> \<not> plain v p) (trouble h P)"
  unfolding sys_read_def
  by (rule triple_sys_reading) (use assms in \<open>auto simp: view_def plain_def split: option.splits fs_node.splits\<close>)

lemma triple_read:
  assumes "reads_ok h" "normal_path p" "\<And>v. P v \<Longrightarrow> dirs_ok (snd v) p"
  shows "triple h P (read_regular_with_mode p) (\<lambda>s v. P v \<and> plain v p \<and> s = snap (fst v p)) (\<lambda>_ v. P v \<and> \<not> plain v p) (trouble h P)"
  unfolding read_regular_with_mode_def
proof (rule triple_bind [where R = "\<lambda>r v. r = Inr (handle_of p) \<and> P v"])
  show "triple h P (attempt (open_parent p False)) (\<lambda>r v. r = Inr (handle_of p) \<and> P v) (\<lambda>_ v. P v \<and> \<not> plain v p) (trouble h P)"
    by (rule triple_attempt, rule triple_conseq [OF triple_open_parent]) (use assms in auto)
qed (rule triple_assume, use triple_sys_read [OF assms(1)] handle_of_target [OF assms(2)] in auto)

lemma triple_read_regular:
  assumes "reads_ok h" "normal_path p" "\<And>v. P v \<Longrightarrow> dirs_ok (snd v) p"
  shows "triple h P (read_regular p) (\<lambda>s v. P v \<and> plain v p \<and> s = map_option (\<lambda>(i, bs, _). (i, bs)) (snap (fst v p)))
    (\<lambda>_ v. P v \<and> \<not> plain v p) (trouble h P)"
  unfolding read_regular_def by (rule triple_bind [OF triple_read [OF assms]]) (auto intro!: triple_pure)

lemma triple_unlink:
  assumes "\<And>f d. P (f, d) \<Longrightarrow> f p \<noteq> None" "\<And>f d. P (f, d) \<Longrightarrow> P' (f(p := None), d)"
  shows "triple h P (sys_unlink p) (\<lambda>_ v. P' v \<and> fst v p = None) (\<lambda>_. trouble h P) (trouble h P)"
  unfolding sys_unlink_def by (rule triple_sys_changing) (use assms in \<open>fastforce simp: view_def split: option.splits\<close>)+

lemma triple_remove_exact:
  assumes "reads_ok h" "normal_path p" "\<And>v. P v \<Longrightarrow> dirs_ok (snd v) p"
    and closed: "\<And>f d bs m. P (f, d) \<Longrightarrow> f p = Some (Regular i bs m) \<Longrightarrow> digest_of h bs = dg \<Longrightarrow>
      mode = None \<or> mode = Some m \<Longrightarrow> P (f(p := None), d)"
  shows "triple h P (remove_at_exact_mode (handle_of p) i dg mode) (\<lambda>_ v. P v \<and> fst v p = None)
    (\<lambda>_ v. P v \<and> (calm h \<longrightarrow> \<not> (plain v p \<and> exact_node h i dg mode (fst v p)))) (trouble h P)"
  unfolding remove_at_exact_mode_def handle_of_target [OF assms(2)]
proof (rule triple_ask, rule triple_bind)
  show "triple h P (read_regular_with_mode p) (\<lambda>s v. P v \<and> plain v p \<and> s = snap (fst v p))
      (\<lambda>_ v. P v \<and> (calm h \<longrightarrow> \<not> (plain v p \<and> exact_node h i dg mode (fst v p)))) (trouble h P)"
    by (rule triple_conseq [OF triple_read [OF assms(1-3)]]) auto
next
  fix s
  show "triple h (\<lambda>v. P v \<and> plain v p \<and> s = snap (fst v p))
      (case s of None \<Rightarrow> pure ()
       | Some (identity, bytes, m) \<Rightarrow>
           pensure (\<not> (identity \<noteq> i \<or> digest_of h bytes \<noteq> dg \<or> (case mode of None \<Rightarrow> False | Some x \<Rightarrow> x \<noteq> m))) (IoError OtherKind)
             (pbind (sys_unlink p) (\<lambda>_. sys_fsync)))
      (\<lambda>_ v. P v \<and> fst v p = None)
      (\<lambda>_ v. P v \<and> (calm h \<longrightarrow> \<not> (plain v p \<and> exact_node h i dg mode (fst v p)))) (trouble h P)"
  proof (cases s)
    case None
    then show ?thesis by (auto intro!: triple_pure dest: plain_snap_None [THEN iffD1])
  next
    case (Some x)
    obtain j bs m where x: "x = (j, bs, m)" by (cases x)
    show ?thesis
      unfolding Some x option.case prod.case
    proof (rule triple_ensure)
      assume ok: "\<not> (j \<noteq> i \<or> digest_of h bs \<noteq> dg \<or> (case mode of None \<Rightarrow> False | Some x \<Rightarrow> x \<noteq> m))"
      have "triple h (\<lambda>v. P v \<and> plain v p \<and> Some (j, bs, m) = snap (fst v p)) (pbind (sys_unlink p) (\<lambda>_. sys_fsync))
          (\<lambda>_ v. P v \<and> fst v p = None) (\<lambda>_. trouble h P) (trouble h P)"
      proof (rule triple_bind [where R = "\<lambda>_ v. P v \<and> fst v p = None"])
        show "triple h (\<lambda>v. P v \<and> plain v p \<and> Some (j, bs, m) = snap (fst v p)) (sys_unlink p) (\<lambda>_ v. P v \<and> fst v p = None) (\<lambda>_. trouble h P) (trouble h P)"
        proof (rule triple_conseq [OF triple_unlink [where P' = P]])
          fix f d assume "P (f, d) \<and> plain (f, d) p \<and> Some (j, bs, m) = snap (fst (f, d) p)"
          moreover from this have "f p = Some (Regular j bs m)" by (metis fst_conv snap_eq_Some)
          ultimately show "P (f(p := None), d)"
            using closed [of f d bs m] ok by (cases mode) auto
        qed (auto dest: sym [THEN snap_eq_Some [THEN iffD1]])
      qed (rule triple_conseq [OF triple_fsync [where P = "\<lambda>v. P v \<and> fst v p = None"]], auto)
      then show "triple h (\<lambda>v. P v \<and> plain v p \<and> Some (j, bs, m) = snap (fst v p)) (pbind (sys_unlink p) (\<lambda>_. sys_fsync))
          (\<lambda>_ v. P v \<and> fst v p = None) (\<lambda>_ v. P v \<and> (calm h \<longrightarrow> \<not> (plain v p \<and> exact_node h i dg mode (fst v p)))) (trouble h P)"
        by (rule triple_conseq) auto
    next
      fix v assume "\<not> \<not> (j \<noteq> i \<or> digest_of h bs \<noteq> dg \<or> (case mode of None \<Rightarrow> False | Some x \<Rightarrow> x \<noteq> m))"
        "P v \<and> plain v p \<and> Some (j, bs, m) = snap (fst v p)"
      then show "P v \<and> (calm h \<longrightarrow> \<not> (plain v p \<and> exact_node h i dg mode (fst v p)))"
        by (auto simp: exact_node_def snap_eq_Some split: option.splits)
    qed
  qed
qed

lemma triple_remove_regular:
  assumes "reads_ok h" "normal_path p" "\<And>v. P v \<Longrightarrow> dirs_ok (snd v) p"
    and closed: "\<And>f d bs m. P (f, d) \<Longrightarrow> f p = Some (Regular i bs m) \<Longrightarrow> digest_of h bs = dg \<Longrightarrow> P (f(p := None), d)"
  shows "triple h P (remove_regular_exact p i dg) (\<lambda>_ v. P v \<and> fst v p = None)
    (\<lambda>_ v. P v \<and> (calm h \<longrightarrow> \<not> (plain v p \<and> exact_node h i dg None (fst v p)))) (trouble h P)"
  unfolding remove_regular_exact_def remove_at_exact_def
  apply (rule triple_bind [where R = "\<lambda>a v. a = handle_of p \<and> P v"])
   apply (rule triple_conseq [OF triple_open_parent [where P = P and C = "trouble h P"]])
  using assms apply auto[8]
  apply (rule triple_assume)
  using triple_remove_exact [where P = P, OF assms(1-3), of i dg None] closed apply simp
  done

lemma triple_rename_noclobber:
  assumes "normal_path a" "normal_path b" "\<And>f d n. P (f, d) \<Longrightarrow> f a = Some n \<Longrightarrow> f b = None \<Longrightarrow> Q (f(a := None, b := Some n), d)"
  shows "triple h P (rename_noclobber (handle_of a) (handle_of b)) (\<lambda>_. Q)
    (\<lambda>_ v. P v \<and> (calm h \<longrightarrow> fst v a = None \<or> fst v b \<noteq> None \<or> snd v b \<noteq> None)) (trouble h P)"
  unfolding rename_noclobber_def handle_of_target [OF assms(1)] handle_of_target [OF assms(2)] sys_rename_noreplace_def
  by (rule triple_sys_changing) (use assms(3) in \<open>auto simp: view_def exists_at_def split: option.splits\<close>)

text \<open>The identity of a new file is not that of any other file.\<close>

definition only_at :: "path \<Rightarrow> FileIdentity \<Rightarrow> view \<Rightarrow> bool" where
  "only_at p i v = (\<forall>q bs m. q \<noteq> p \<longrightarrow> fst v q \<noteq> Some (Regular i bs m))"

lemma only_at_simps [simp]: "only_at p i (f(p := n), d) \<longleftrightarrow> only_at p i (f, d)"
  by (auto simp: only_at_def)

lemma triple_create:
  assumes "fresh_identities h" "\<And>f d i m. P (f, d) \<Longrightarrow> P (f(p := Some (Regular i [] m)), d)"
  shows "triple h P (sys_create p mode) (\<lambda>_ v. P v \<and> (\<exists>i m. fst v p = Some (Regular i [] m) \<and> only_at p i v)) (\<lambda>_. P) P"
  unfolding sys_create_def
proof (rule triple_sys_changing)
  fix w assume P: "P (view w)"
  have "only_at p i (view w)" if "ho_identity h w = Some i" for i
    using assms(1) that by (auto simp: fresh_identities_def only_at_def view_def)
  then show "case if exists_at w p then Inl (IoError AlreadyExists)
        else case ho_identity h w of None \<Rightarrow> Inl (IoError OtherKind)
          | Some i \<Rightarrow> Inr ((), put_file p (Regular i [] (and mode (not (ho_umask h)))) w) of
      Inl e \<Rightarrow> P (view w) | Inr (a, w') \<Rightarrow> P (view w') \<and> (\<exists>i m. fst (view w') p = Some (Regular i [] m) \<and> only_at p i (view w'))"
    using P assms(2) by (auto simp: view_def only_at_def split: option.splits)
qed auto

lemma triple_fstat:
  assumes "reads_ok h" "\<And>v. P v \<Longrightarrow> \<exists>bs m. fst v p = Some (Regular i bs m)"
  shows "triple h P (sys_fstat p) (\<lambda>j v. j = i \<and> P v) (\<lambda>_ _. False) (trouble h P)"
  unfolding sys_fstat_def
  by (rule triple_sys_reading) (use assms in \<open>fastforce simp: view_def\<close>)+

lemma triple_write:
  assumes "\<And>f d n. P (f, d) \<Longrightarrow> P' (f(p := Some (Regular i (take n bs) m)), d)" "\<And>v. P v \<Longrightarrow> \<exists>c. fst v p = Some (Regular i c m)"
  shows "triple h P (sys_write p bs) (\<lambda>_ v. P' v \<and> fst v p = Some (Regular i bs m)) (\<lambda>_. P') P'"
  unfolding triple_def
proof (intro allI impI)
  fix w assume P: "P (view w)"
  obtain c where c: "file_at w p = Some (Regular i c m)" using assms(2) [OF P] by (auto simp: view_def)
  have view: "view (set_contents p x w) = ((file_at w)(p := Some (Regular i x m)), dir_at w)" for x
    using c by (simp add: set_contents_def view_def)
  have "P' (view (set_contents p (take n bs) w))" for n using assms(1) P by (simp add: view) (simp add: view_def)
  from this [of "length bs"] this show "case sys_write p bs h w of (Done a, w') \<Rightarrow> P' (view w') \<and> fst (view w') p = Some (Regular i bs m)
      | (Failed e, w') \<Rightarrow> P' (view w') | (Crashed, w') \<Rightarrow> P' (view w')"
    by (auto simp: sys_write_def view split: fate.splits)
qed

lemma triple_chmod:
  assumes "\<And>f d m. P (f, d) \<Longrightarrow> P (f(p := Some (Regular i c m)), d)" "\<And>v. P v \<Longrightarrow> \<exists>m. fst v p = Some (Regular i c m)"
  shows "triple h P (sys_chmod p mode) (\<lambda>_ v. P v \<and> fst v p = Some (Regular i c mode)) (\<lambda>_. P) P"
  unfolding sys_chmod_def
  by (rule triple_sys_changing) (use assms in \<open>fastforce simp: view_def split: option.splits fs_node.splits\<close>)+

text \<open>What is written is there, byte for byte, when the write returns.\<close>

lemma triple_write_contents:
  assumes "reads_ok h" "normal_path p" "\<And>v. P v \<Longrightarrow> dirs_ok (snd v) p"
    and closed: "\<And>f d n m. P (f, d) \<Longrightarrow> P (f(p := Some (Regular i (take n bs) m)), d)"
  shows "triple h (\<lambda>v. P v \<and> only_at p i v \<and> (\<exists>m. fst v p = Some (Regular i [] m))) (write_contents p p i bs mode)
    (\<lambda>_ v. P v \<and> only_at p i v \<and> fst v p = Some (Regular i bs mode)) (\<lambda>_ v. P v) P"
proof -
  let ?S = "\<lambda>v. P v \<and> only_at p i v"
  let ?F = "\<lambda>v. ?S v \<and> fst v p = Some (Regular i bs mode)"
  have zero: "P (f(p := Some (Regular i [] m)), d)" if "P (f, d)" for f d m using closed [OF that, of 0] by simp
  show ?thesis
    unfolding write_contents_def
    apply (rule triple_ask)
    apply (rule triple_bind [where R = "\<lambda>_ v. ?S v \<and> fst v p = Some (Regular i [] mode)"])
     apply (rule triple_conseq [OF triple_chmod [where P = "\<lambda>v. ?S v \<and> (\<exists>m. fst v p = Some (Regular i [] m))" and i = i and c = "[]"]])
          apply (use zero in auto)[6]
    apply (rule triple_bind [where R = "\<lambda>_. ?F"])
     apply (rule triple_conseq [OF triple_write [where P = "\<lambda>v. ?S v \<and> fst v p = Some (Regular i [] mode)" and P' = ?S]])
          apply (use closed in auto)[6]
    apply (rule triple_bind [where R = "\<lambda>_. ?F"])
     apply (rule triple_conseq [OF triple_fsync [where P = ?F]], auto)[1]
    apply (rule triple_bind [where R = "\<lambda>j v. j = i \<and> ?F v"])
     apply (rule triple_conseq [OF triple_fstat [where P = ?F and i = i]], use assms(1) in auto)[1]
    apply (rule triple_assume, simp add: pensure_def)
    apply (rule triple_bind [where R = "\<lambda>_. ?F"])
     apply (rule triple_conseq [OF triple_fsync [where P = ?F]], auto)[1]
    apply (rule triple_bind [where R = "\<lambda>s v. s = Some (i, bs, mode) \<and> ?F v"])
     apply (rule triple_conseq [OF triple_read [where P = ?F]], use assms(1-3) in \<open>auto simp: plain_def\<close>)[1]
    apply (rule triple_assume, auto intro!: triple_pure)
    done
qed

lemma triple_write_new_file:
  assumes "reads_ok h" "fresh_identities h" "normal_path p" "\<And>v. P v \<Longrightarrow> dirs_ok (snd v) p"
    and closed: "\<And>f d i n m. P (f, d) \<Longrightarrow> P (f(p := Some (Regular i (take n bs) m)), d)" "\<And>f d. P (f, d) \<Longrightarrow> P (f(p := None), d)"
  shows "triple h P (write_new_file_mode p bs mode)
    (\<lambda>i v. P v \<and> only_at p i v \<and> fst v p = Some (Regular i bs mode)) (\<lambda>_. P) P"
proof -
  have zero: "P (f(p := Some (Regular i [] m)), d)" if "P (f, d)" for f d i m using closed(1) [OF that, of i 0] by simp
  have remove: "triple h P (remove_at (handle_of p) (Some i)) (\<lambda>_. P) (\<lambda>_. P) P" for i
    unfolding remove_at_def identity_at_def handle_of_target [OF assms(3)]
    apply (rule triple_bind [where R = "\<lambda>j v. P v \<and> (j \<noteq> None \<longrightarrow> fst v p \<noteq> None)"])
    subgoal unfolding sys_stat_def
      by (rule triple_sys_reading) (use assms(1) in \<open>auto simp: view_def split: option.splits fs_node.splits\<close>)
    subgoal for j
      apply (cases "j = None")
       apply (auto intro!: triple_pure)[1]
      apply (simp only: if_False, rule triple_ensure, rule triple_bind [where R = "\<lambda>_. P"])
        apply (rule triple_conseq [OF triple_unlink [where P' = P and P = "\<lambda>v. P v \<and> fst v p \<noteq> None"]], use closed(2) in auto)[1]
       apply (rule triple_conseq [OF triple_fsync [where P = P]], auto)
      done
    done
  show ?thesis
    unfolding write_new_file_mode_def
    apply (rule triple_bind [where R = "\<lambda>a v. a = handle_of p \<and> P v"])
     apply (rule triple_conseq [OF triple_open_parent [where P = P and C = P]], use assms in auto)[1]
    apply (rule triple_assume, simp only: handle_of_target [OF assms(3)])
    apply (rule triple_bind [where R = "\<lambda>_ v. P v \<and> (\<exists>i m. fst v p = Some (Regular i [] m) \<and> only_at p i v)"])
     apply (rule triple_create, use assms(2) zero in auto)[1]
    apply (rule triple_case)
    subgoal for a u v
      apply (clarsimp simp del: split_paired_All)
      subgoal for i m
        apply (rule triple_bind [where R = "\<lambda>j w. j = i \<and> w = v"])
         apply (rule triple_conseq [OF triple_fstat [where P = "\<lambda>w. w = v" and i = i]], use assms(1) in auto)[1]
        apply (rule triple_assume, hypsubst)
        apply (rule triple_bind [where R = "\<lambda>r w. P w \<and> (is_ok r \<longrightarrow> only_at p i w \<and> fst w p = Some (Regular i bs mode))"])
         apply (rule triple_attempt)
         apply (rule triple_conseq [OF triple_write_contents [where P = P and p = p and i = i]], use assms closed in auto)[1]
        subgoal for j r
          apply (cases r)
           apply simp
           apply (rule triple_bind [where R = "\<lambda>_. P"])
            apply (rule triple_attempt, rule triple_conseq [OF remove], auto)[1]
           apply (auto intro!: triple_pfail triple_pure)
          done
        done
      done
    done
qed

end
