(* ===== verification/Pub_Rollback.thy ===== *)
theory Pub_Rollback
  imports Pub_Logic
begin

text \<open>
  One operation of a transaction: the states it goes through, and that rolling it back from any
  of them, however often that is interrupted, leads back to the original file.
\<close>

section \<open>States of an operation\<close>

definition value_at :: "(path \<Rightarrow> fs_node option) \<Rightarrow> path option \<Rightarrow> fs_node option" where
  "value_at f p = (case p of None \<Rightarrow> None | Some q \<Rightarrow> f q)"

definition footprint :: "JournalOperation \<Rightarrow> path set" where
  "footprint o' = {jo_target o'} \<union> set_option (jo_stage o') \<union> set_option (jo_backup o')"

text \<open>An operation that writes the contents given, or removes its target.\<close>

definition op_wf :: "Journal host \<Rightarrow> JournalOperation \<Rightarrow> bytes option \<Rightarrow> bool" where
  "op_wf h o' c =
     ((\<forall>p\<in>footprint o'. normal_path p) \<and> distinct (jo_target o' # List.map_filter id [jo_stage o', jo_backup o']) \<and>
      (jo_stage o' = None \<longleftrightarrow> c = None) \<and> jo_desired_digest o' = map_option (digest_of h) c \<and>
      (jo_desired_mode o' = None \<longleftrightarrow> c = None) \<and> (jo_backup o' = None \<longleftrightarrow> jo_original o' = None) \<and>
      (jo_installed o' \<noteq> None \<longrightarrow> c \<noteq> None))"

text \<open>What the target becomes.\<close>

definition new_node :: "JournalOperation \<Rightarrow> bytes option \<Rightarrow> fs_node option" where
  "new_node o' c =
     (case (jo_installed o', c, jo_desired_mode o') of (Some i, Some bs, Some m) \<Rightarrow> Some (Regular i bs m) | _ \<Rightarrow> None)"

definition regular_or_none :: "fs_node option \<Rightarrow> bool" where
  "regular_or_none n = (n = None \<or> snap n \<noteq> None)"

text \<open>A staged file: anything while its identity is not recorded, the new file afterwards.\<close>

definition stage_owned :: "JournalOperation \<Rightarrow> bytes option \<Rightarrow> fs_node option \<Rightarrow> bool" where
  "stage_owned o' c s = (s = None \<or> snap s \<noteq> None \<and> (jo_installed o' \<noteq> None \<longrightarrow> s = new_node o' c))"

definition pending :: "JournalOperation \<Rightarrow> fs_node option \<Rightarrow> (path \<Rightarrow> fs_node option) \<Rightarrow> bool" where
  "pending o' t0 f = (f (jo_target o') = t0 \<and> value_at f (jo_backup o') = None)"

definition displaced :: "Journal host \<Rightarrow> JournalOperation \<Rightarrow> fs_node option \<Rightarrow> (path \<Rightarrow> fs_node option) \<Rightarrow> bool" where
  "displaced h o' t0 f =
     (f (jo_target o') = None \<and> value_at f (jo_backup o') = t0 \<and> snap t0 \<noteq> None \<and> matches_original h o' (snap t0))"

definition replaced :: "Journal host \<Rightarrow> JournalOperation \<Rightarrow> bytes option \<Rightarrow> fs_node option \<Rightarrow> (path \<Rightarrow> fs_node option) \<Rightarrow> bool" where
  "replaced h o' c t0 f =
     (jo_installed o' \<noteq> None \<and> f (jo_target o') = new_node o' c \<and> value_at f (jo_stage o') = None \<and>
      value_at f (jo_backup o') = t0 \<and> regular_or_none t0 \<and> matches_original h o' (snap t0))"

text \<open>
  A state that rollback can undo. With \<open>early\<close>, no target has been touched yet.
\<close>

definition undoable ::
  "Journal host \<Rightarrow> bool \<Rightarrow> JournalOperation \<Rightarrow> bytes option \<Rightarrow> fs_node option \<Rightarrow> (path \<Rightarrow> fs_node option) \<Rightarrow> bool" where
  "undoable h early o' c t0 f =
     ((\<forall>i bs m. jo_installed o' = Some i \<longrightarrow> t0 \<noteq> Some (Regular i bs m)) \<and> stage_owned o' c (value_at f (jo_stage o')) \<and>
      (pending o' t0 f \<or> \<not> early \<and> (displaced h o' t0 f \<or> replaced h o' c t0 f)))"

text \<open>When rollback cannot be refused: a write whose recorded original is the original.\<close>

definition revertible :: "Journal host \<Rightarrow> JournalOperation \<Rightarrow> bytes option \<Rightarrow> fs_node option \<Rightarrow> (path \<Rightarrow> FileIdentity option) \<Rightarrow> bool" where
  "revertible h o' c t0 d =
     (c \<noteq> None \<and> regular_or_none t0 \<and> matches_original h o' (snap t0) \<and> (\<forall>p\<in>footprint o'. d p = None) \<and>
      d (butlast (jo_target o')) = Some (jo_parent_identity o'))"

text \<open>The invariant of a rollback: only the footprint changes.\<close>

definition undoing ::
  "Journal host \<Rightarrow> bool \<Rightarrow> JournalOperation \<Rightarrow> bytes option \<Rightarrow> fs_node option \<Rightarrow> view \<Rightarrow> view \<Rightarrow> bool" where
  "undoing h early o' c t0 start v =
     (undoable h early o' c t0 (fst v) \<and> (\<forall>p. p \<notin> footprint o' \<longrightarrow> fst v p = fst start p) \<and> snd v = snd start)"

lemmas op_state_defs = undoable_def pending_def displaced_def replaced_def stage_owned_def regular_or_none_def value_at_def

lemma new_node_Some: "op_wf h o' c \<Longrightarrow> jo_installed o' = Some i \<Longrightarrow> \<exists>bs m. c = Some bs \<and> jo_desired_mode o' = Some m \<and>
    jo_desired_digest o' = Some (digest_of h bs) \<and> new_node o' c = Some (Regular i bs m)"
  by (cases c; cases "jo_desired_mode o'") (auto simp: op_wf_def new_node_def)

lemma snapshot_matches_None: "snapshot_matches h None i d m \<longleftrightarrow> i = None \<and> d = None \<and> m = None"
  by (simp add: snapshot_matches_def)

lemma snapshot_matches_Some:
  "snapshot_matches h (Some (i, bs, m)) i' d m' \<longleftrightarrow> i' = Some i \<and> d = Some (digest_of h bs) \<and> (m' = None \<or> m' = Some m)"
  by (auto simp: snapshot_matches_def split: option.splits)

lemmas snapshot_matches_simps = snapshot_matches_None snapshot_matches_Some

lemma matches_desired_new: "op_wf h o' c \<Longrightarrow> jo_installed o' = Some i \<Longrightarrow> matches_desired h o' (snap (new_node o' c))"
  using new_node_Some [of h o' c i] by (auto simp: snapshot_matches_simps)

lemma footprint_paths:
  "op_wf h o' c \<Longrightarrow> normal_path (jo_target o')"
  "op_wf h o' c \<Longrightarrow> jo_stage o' = Some p \<Longrightarrow> normal_path p \<and> p \<noteq> jo_target o' \<and> jo_backup o' \<noteq> Some p"
  "op_wf h o' c \<Longrightarrow> jo_backup o' = Some p \<Longrightarrow> normal_path p \<and> p \<noteq> jo_target o' \<and> jo_stage o' \<noteq> Some p"
  by (auto simp: op_wf_def footprint_def map_filter_simps split: option.splits)

section \<open>The steps of a rollback\<close>

lemma triple_noted:
  assumes "triple h P m (\<lambda>_. Q []) (\<lambda>_. Q [note]) C"
  shows "triple h P (noted note m) Q E C"
  unfolding noted_def
proof (rule triple_bind [where R = "\<lambda>r. Q (if is_ok r then [] else [note])"])
  show "triple h P (attempt m) (\<lambda>r. Q (if is_ok r then [] else [note])) E C"
    by (rule triple_attempt) (simp add: assms)
qed (rule triple_pure)

text \<open>The setting of the lemmas: reads do not fail and the directories of the operation are there.\<close>

definition setting :: "Journal host \<Rightarrow> JournalOperation \<Rightarrow> bytes option \<Rightarrow> (path \<Rightarrow> FileIdentity option) \<Rightarrow> bool" where
  "setting h o' c d = (reads_ok h \<and> op_wf h o' c \<and> (\<forall>p\<in>footprint o'. dirs_ok d p))"

lemma setting_facts:
  "setting h o' c d \<Longrightarrow> reads_ok h" "setting h o' c d \<Longrightarrow> op_wf h o' c" "setting h o' c d \<Longrightarrow> dirs_ok d (jo_target o')"
  "setting h o' c d \<Longrightarrow> jo_stage o' = Some p \<Longrightarrow> dirs_ok d p" "setting h o' c d \<Longrightarrow> jo_backup o' = Some p \<Longrightarrow> dirs_ok d p"
  by (auto simp: setting_def footprint_def)

lemma undoing_dirs: "undoing h early o' c t0 start v \<Longrightarrow> snd v = snd start"
  by (simp add: undoing_def)

lemma undoing_pair: "undoing h early o' c t0 start (f, d) \<Longrightarrow> d = snd start"
  by (simp add: undoing_def)

text \<open>Removing the new file from the target, and the staged file, keep an operation undoable.\<close>

lemma undoing_remove_target:
  assumes "op_wf h o' c" "undoing h early o' c t0 start (f, d)" "f (jo_target o') = Some (Regular i bs m)" "jo_installed o' = Some i"
  shows "undoing h early o' c t0 start (f(jo_target o' := None), d)"
proof -
  have "replaced h o' c t0 f \<and> \<not> early" using assms(2-4) by (auto simp: undoing_def op_state_defs)
  then show ?thesis
    using assms footprint_paths [OF assms(1)]
    by (auto simp: undoing_def op_state_defs footprint_def split: option.splits)
qed

lemma undoing_remove_stage:
  assumes "op_wf h o' c" "undoing h early o' c t0 start (f, d)" "jo_stage o' = Some p"
  shows "undoing h early o' c t0 start (f(p := None), d)"
  using assms footprint_paths [OF assms(1)]
  by (auto simp: undoing_def op_state_defs footprint_def split: option.splits)

text \<open>Moving the backup back makes the operation pending again.\<close>

lemma undoing_restore:
  assumes "op_wf h o' c" "undoing h early o' c t0 start (f, d)" "jo_backup o' = Some p" "f p = Some n" "f (jo_target o') = None"
  shows "undoing h early o' c t0 start (f(p := None, jo_target o' := Some n), d) \<and> pending o' t0 (f(p := None, jo_target o' := Some n))"
proof -
  have "new_node o' c \<noteq> None" if "jo_installed o' \<noteq> None" using that new_node_Some [OF assms(1)] by auto
  then have "displaced h o' t0 f \<and> \<not> early" using assms by (auto simp: undoing_def op_state_defs)
  then show ?thesis
    using assms footprint_paths [OF assms(1)]
    by (auto simp: undoing_def op_state_defs footprint_def split: option.splits)
qed

definition before_install :: "Journal host \<Rightarrow> JournalOperation \<Rightarrow> fs_node option \<Rightarrow> view \<Rightarrow> bool" where
  "before_install h o' t0 v = (pending o' t0 (fst v) \<or> displaced h o' t0 (fst v))"

lemma triple_rollback_target:
  assumes "setting h o' c (snd start)"
  shows "triple h (undoing h early o' c t0 start) (rollback_target o' (handle_of (jo_target o')))
    (\<lambda>errors v. undoing h early o' c t0 start v \<and> (errors = [] \<longrightarrow> before_install h o' t0 v) \<and>
       (errors \<noteq> [] \<longrightarrow> \<not> (calm h \<and> revertible h o' c t0 (snd start)))) E (trouble h (undoing h early o' c t0 start))"
proof -
  let ?U = "undoing h early o' c t0 start" and ?t = "jo_target o'"
  let ?Q = "\<lambda>errors v. ?U v \<and> (errors = [] \<longrightarrow> before_install h o' t0 v) \<and> (errors \<noteq> [] \<longrightarrow> \<not> (calm h \<and> revertible h o' c t0 (snd start)))"
  note wf = setting_facts(2) [OF assms]
  have plain: "plain v ?t" if "?U v" "revertible h o' c t0 (snd start)" for v
    using that new_node_Some [OF wf]
    by (auto simp: undoing_def revertible_def op_state_defs plain_def snap_eq_Some footprint_def split: option.splits fs_node.splits)
  show ?thesis
    unfolding rollback_target_def
  proof (intro triple_ask, rule triple_bind [where R = "\<lambda>r v. ?U v \<and> (case r of Inl _ \<Rightarrow> \<not> plain v ?t | Inr s \<Rightarrow> plain v ?t \<and> s = snap (fst v ?t))"])
    show "triple h ?U (attempt (read_regular_with_mode ?t))
        (\<lambda>r v. ?U v \<and> (case r of Inl _ \<Rightarrow> \<not> plain v ?t | Inr s \<Rightarrow> plain v ?t \<and> s = snap (fst v ?t))) E (trouble h ?U)"
      by (rule triple_attempt, rule triple_conseq [OF triple_read [where P = ?U]])
        (use setting_facts [OF assms] footprint_paths(1) [OF wf] in \<open>auto simp: undoing_dirs\<close>)
  next
    fix r
    show "triple h (\<lambda>v. ?U v \<and> (case r of Inl _ \<Rightarrow> \<not> plain v ?t | Inr s \<Rightarrow> plain v ?t \<and> s = snap (fst v ?t)))
      (case r of Inl _ \<Rightarrow> pure [''measure target'']
       | Inr current \<Rightarrow>
         if matches_desired h o' current
         then (case (jo_installed o', jo_desired_digest o') of
                 (Some identity, Some digest) \<Rightarrow>
                   noted ''remove installed target'' (remove_at_exact_mode (handle_of ?t) identity digest (jo_desired_mode o'))
               | _ \<Rightarrow> pure [''installed target lacks journal proof''])
         else if current \<noteq> None \<and> \<not> matches_original h o' current then pure [''target contains unexpected identity or bytes'']
         else pure []) ?Q E (trouble h ?U)"
    proof (cases r)
      case (Inl e)
      then show ?thesis using plain by (auto intro!: triple_pure)
    next
      case (Inr s)
      show ?thesis
      proof (cases "matches_desired h o' s")
        case True
        show ?thesis
        proof (cases "jo_installed o'")
          case None
          then show ?thesis
            using Inr True wf by (auto intro!: triple_pure simp: op_wf_def revertible_def snapshot_matches_def split: option.splits)
        next
          case (Some i)
          from new_node_Some [OF wf Some] obtain bs m where new: "c = Some bs" "jo_desired_mode o' = Some m"
            "jo_desired_digest o' = Some (digest_of h bs)" "new_node o' c = Some (Regular i bs m)" by blast
          let ?P = "\<lambda>v. ?U v \<and> fst v ?t \<in> {new_node o' c, None}"
          have here: "?P v" if u: "?U v" and sn: "s = snap (fst v ?t)" for v
          proof -
            obtain bs' where "fst v ?t = Some (Regular i bs' m)"
              using True sn Some new by (cases s) (auto simp: snapshot_matches_simps snap_eq_Some dest: sym [THEN snap_eq_Some [THEN iffD1]])
            then show ?thesis using u Some by (auto simp: undoing_def op_state_defs)
          qed
          have "triple h ?P (remove_at_exact_mode (handle_of ?t) i (digest_of h bs) (Some m)) (\<lambda>_ v. ?P v \<and> fst v ?t = None)
              (\<lambda>_ v. ?P v \<and> (calm h \<longrightarrow> \<not> (plain v ?t \<and> exact_node h i (digest_of h bs) (Some m) (fst v ?t)))) (trouble h ?P)"
          proof (rule triple_remove_exact)
            fix f d bs' m' assume "?P (f, d)" "f ?t = Some (Regular i bs' m')"
            then have "?U (f(?t := None), d)" using undoing_remove_target [OF wf _ _ Some, of early t0 start f d bs' m'] by blast
            then show "?P (f(?t := None), d)" by simp
          qed (use setting_facts [OF assms] footprint_paths(1) [OF wf] in \<open>auto simp only: undoing_dirs\<close>)
          then have "triple h ?P (noted ''remove installed target'' (remove_at_exact_mode (handle_of ?t) i (digest_of h bs) (Some m))) ?Q E (trouble h ?U)"
          proof (intro triple_noted, elim triple_conseq)
            fix v assume "?P v \<and> fst v ?t = None"
            then show "?Q [] v" using new Some by (auto simp: undoing_def op_state_defs before_install_def)
          next
            fix v assume v: "?P v \<and> (calm h \<longrightarrow> \<not> (plain v ?t \<and> exact_node h i (digest_of h bs) (Some m) (fst v ?t)))"
            then have "exact_node h i (digest_of h bs) (Some m) (fst v ?t)" using new by (auto simp: exact_node_def)
            then show "?Q [''remove installed target''] v" using v plain by blast
          qed auto
          then show ?thesis
            unfolding Inr sum.case if_P [OF True] unfolding Some new(2,3) option.case prod.case
            by (elim triple_pre, use here in blast)
        qed
      next
        case False
        have orig: "s = None \<or> matches_original h o' s" if "?U v" "s = snap (fst v ?t)" "revertible h o' c t0 (snd start)" for v
          using that matches_desired_new [OF wf] False by (auto simp: undoing_def op_state_defs revertible_def)
        have "before_install h o' t0 v" if "?U v" "s = snap (fst v ?t)" for v
          using that matches_desired_new [OF wf] False by (auto simp: undoing_def op_state_defs before_install_def)
        then show ?thesis using Inr False orig by (cases s) (force intro!: triple_pure)+
      qed
    qed
  qed
qed

text \<open>The backup; \<open>q\<close> says whether the target has been cleared.\<close>

lemma triple_read_in:
  assumes "setting h o' c (snd start)" "p \<in> footprint o'" "\<And>v. P v \<Longrightarrow> undoing h early o' c t0 start v"
  shows "triple h P (attempt (read_regular_with_mode p))
    (\<lambda>r v. P v \<and> (case r of Inl _ \<Rightarrow> \<not> plain v p | Inr s \<Rightarrow> plain v p \<and> s = snap (fst v p))) E (trouble h P)"
proof (rule triple_attempt, rule triple_conseq [OF triple_read [where P = P]])
  fix v assume "P v"
  then show "dirs_ok (snd v) p" using assms by (auto simp: setting_def dest!: assms(3) undoing_dirs)
qed (use assms(1,2) setting_facts(1) [OF assms(1)] in \<open>auto simp: setting_def op_wf_def\<close>)

lemma triple_restore_backup:
  assumes "setting h o' c (snd start)" "jo_backup o' = Some p"
  shows "triple h (\<lambda>v. undoing h early o' c t0 start v \<and> (q \<longrightarrow> before_install h o' t0 v) \<and> matches_original h o' (snap (fst v p)))
    (restore_backup o' (handle_of p) (handle_of (jo_target o')))
    (\<lambda>errors v. undoing h early o' c t0 start v \<and> (q \<and> errors = [] \<longrightarrow> pending o' t0 (fst v)) \<and>
       (errors \<noteq> [] \<longrightarrow> \<not> (q \<and> calm h \<and> revertible h o' c t0 (snd start)))) E (trouble h (undoing h early o' c t0 start))"
proof -
  let ?U = "undoing h early o' c t0 start" and ?t = "jo_target o'"
  let ?P = "\<lambda>v. ?U v \<and> (q \<longrightarrow> before_install h o' t0 v) \<and> matches_original h o' (snap (fst v p))"
  let ?Q = "\<lambda>errors v. ?U v \<and> (q \<and> errors = [] \<longrightarrow> pending o' t0 (fst v)) \<and> (errors \<noteq> [] \<longrightarrow> \<not> (q \<and> calm h \<and> revertible h o' c t0 (snd start)))"
  let ?D = "\<lambda>v. ?U v \<and> pending o' t0 (fst v)"
  note wf = setting_facts(2) [OF assms(1)] and facts = setting_facts [OF assms(1)]
  have some: "jo_original o' \<noteq> None" using wf assms(2) by (auto simp: op_wf_def)
  have disp: "displaced h o' t0 (fst v)" if "?P v" "q" for v
    using that some assms(2) by (auto simp: before_install_def op_state_defs snapshot_matches_simps)
  have dirs: "dirs_ok (snd v) ?t" if "?U v" for v using that facts(3) by (simp add: undoing_dirs)
  have move: "triple h (\<lambda>v. ?P v \<and> fst v ?t = None) (rename_noclobber (handle_of p) (handle_of ?t)) (\<lambda>_. ?D)
      (\<lambda>_ v. (?P v \<and> fst v ?t = None) \<and> (calm h \<longrightarrow> fst v p = None \<or> fst v ?t \<noteq> None \<or> snd v ?t \<noteq> None))
      (trouble h (\<lambda>v. ?P v \<and> fst v ?t = None))"
  proof (rule triple_rename_noclobber)
    fix f d n assume "?P (f, d) \<and> fst (f, d) ?t = None" "f p = Some n" "f ?t = None"
    then show "?D (f(p := None, ?t := Some n), d)" using undoing_restore [OF wf _ assms(2), of early t0 start f d n] by simp
  qed (use footprint_paths [OF wf] assms(2) in auto)
  have sync: "triple h ?D (sync_parent ?t) (\<lambda>_. ?D) (\<lambda>_. trouble h ?D) (trouble h ?D)"
    unfolding sync_parent_def
    by (rule triple_bind [where R = "\<lambda>_. ?D"], rule triple_conseq [OF triple_open_parent [where P = ?D and C = "trouble h ?D"]])
      (use facts(1) footprint_paths(1) [OF wf] dirs triple_fsync [of h ?D] in auto)
  have verify: "triple h ?D (verify_original_restored o') (\<lambda>_. ?D) (\<lambda>_ v. ?D v \<and> \<not> (calm h \<and> revertible h o' c t0 (snd start))) (trouble h ?D)"
    unfolding verify_original_restored_def
  proof (rule triple_ask, rule triple_bind [where R = "\<lambda>s v. ?D v \<and> s = snap t0"])
    show "triple h ?D (read_regular_with_mode ?t) (\<lambda>s v. ?D v \<and> s = snap t0) (\<lambda>_ v. ?D v \<and> \<not> (calm h \<and> revertible h o' c t0 (snd start))) (trouble h ?D)"
    proof (rule triple_conseq [OF triple_read [where P = ?D]])
      fix v assume v: "?D v \<and> \<not> plain v ?t"
      then have "\<not> revertible h o' c t0 (snd start)"
        by (auto simp: pending_def revertible_def plain_def regular_or_none_def footprint_def split: option.splits fs_node.splits dest: undoing_dirs)
      then show "?D v \<and> \<not> (calm h \<and> revertible h o' c t0 (snd start))" using v by blast
    qed (use facts(1) footprint_paths(1) [OF wf] in \<open>simp_all add: dirs pending_def\<close>)
  qed (rule triple_ensure, auto intro!: triple_pure simp: revertible_def)
  show ?thesis
    unfolding restore_backup_def
  proof (rule triple_ask, rule triple_bind)
    show "triple h ?P (attempt (read_regular_with_mode ?t))
        (\<lambda>r v. ?P v \<and> (case r of Inl _ \<Rightarrow> \<not> plain v ?t | Inr s \<Rightarrow> plain v ?t \<and> s = snap (fst v ?t))) E (trouble h ?U)"
      by (rule triple_conseq [OF triple_read_in [OF assms(1), of ?t ?P early t0]])
        (auto simp: footprint_def)
  next
    fix r
    show "triple h (\<lambda>v. ?P v \<and> (case r of Inl _ \<Rightarrow> \<not> plain v ?t | Inr s \<Rightarrow> plain v ?t \<and> s = snap (fst v ?t)))
      (case r of Inl _ \<Rightarrow> pure [''measure restore target'']
       | Inr None \<Rightarrow> noted ''restore backup''
           (pbind (rename_noclobber (handle_of p) (handle_of ?t)) (\<lambda>_. pbind (sync_parent ?t) (\<lambda>_. verify_original_restored o')))
       | Inr (Some a) \<Rightarrow> pure (if matches_original h o' (Some a) then [] else [''cannot restore backup over unexpected target'']))
      ?Q E (trouble h ?U)"
    proof (cases r)
      case (Inl e)
      have "\<not> revertible h o' c t0 (snd start)" if "?P v" "\<not> plain v ?t" "q" for v
        using disp [OF that(1,3)] that by (auto simp: displaced_def plain_def revertible_def footprint_def undoing_dirs split: option.splits)
      then show ?thesis using Inl by (auto intro!: triple_pure)
    next
      case (Inr s)
      show ?thesis
      proof (cases s)
        case None
        have body: "triple h (\<lambda>v. ?P v \<and> fst v ?t = None)
            (pbind (rename_noclobber (handle_of p) (handle_of ?t)) (\<lambda>_. pbind (sync_parent ?t) (\<lambda>_. verify_original_restored o')))
            (\<lambda>_. ?Q []) (\<lambda>_. ?Q [''restore backup'']) (trouble h ?U)"
        proof (rule triple_bind [where R = "\<lambda>_. ?D", OF triple_conseq [OF move]])
          fix v assume v: "(?P v \<and> fst v ?t = None) \<and> (calm h \<longrightarrow> fst v p = None \<or> fst v ?t \<noteq> None \<or> snd v ?t \<noteq> None)"
          have "fst v p \<noteq> None" if "q" using disp [of v] v that assms(2) by (auto simp: displaced_def value_at_def snap_eq_Some)
          then show "?Q [''restore backup''] v" using v by (auto simp: revertible_def footprint_def undoing_dirs)
        next
          show "triple h ?D (pbind (sync_parent ?t) (\<lambda>_. verify_original_restored o')) (\<lambda>_. ?Q []) (\<lambda>_. ?Q [''restore backup'']) (trouble h ?U)"
            by (rule triple_bind [OF triple_conseq [OF sync] triple_conseq [OF verify]]) auto
        qed auto
        show ?thesis
          unfolding Inr None sum.case option.case
          by (rule triple_noted, rule triple_pre [OF body]) (auto dest: plain_NoneD)
      next
        case (Some a)
        have "\<not> q" if "?P v" "Some a = snap (fst v ?t)" for v
          using disp [OF that(1)] that(2) by (auto simp: displaced_def)
        then show ?thesis unfolding Inr Some sum.case option.case by (intro triple_pure) auto
      qed
    qed
  qed
qed

lemma triple_rollback_backup:
  assumes "setting h o' c (snd start)"
  shows "triple h (\<lambda>v. undoing h early o' c t0 start v \<and> (q \<longrightarrow> before_install h o' t0 v))
    (rollback_backup o' (Inr (handle_of (jo_target o'))))
    (\<lambda>errors v. undoing h early o' c t0 start v \<and> (q \<and> errors = [] \<longrightarrow> pending o' t0 (fst v)) \<and>
       (errors \<noteq> [] \<longrightarrow> \<not> (q \<and> calm h \<and> revertible h o' c t0 (snd start)))) E (trouble h (undoing h early o' c t0 start))"
proof (cases "jo_backup o'")
  case None
  then show ?thesis
    unfolding rollback_backup_def by (auto intro!: triple_pure simp: before_install_def displaced_def value_at_def)
next
  case (Some p)
  let ?U = "undoing h early o' c t0 start" and ?t = "jo_target o'"
  let ?P = "\<lambda>v. ?U v \<and> (q \<longrightarrow> before_install h o' t0 v)"
  let ?Q = "\<lambda>errors v. ?U v \<and> (q \<and> errors = [] \<longrightarrow> pending o' t0 (fst v)) \<and> (errors \<noteq> [] \<longrightarrow> \<not> (q \<and> calm h \<and> revertible h o' c t0 (snd start)))"
  note wf = setting_facts(2) [OF assms] and facts = setting_facts [OF assms]
  have dirs: "dirs_ok (snd v) p" if "?U v" for v using that facts(5) [OF Some] by (simp add: undoing_dirs)
  have original: "jo_original o' \<noteq> None" using wf Some by (auto simp: op_wf_def)
  have missing: "triple h (\<lambda>v. ?P v \<and> fst v p = None) (rollback_without_backup o') ?Q E (trouble h ?U)"
    unfolding rollback_without_backup_def
  proof (rule triple_ask, rule triple_bind)
    show "triple h (\<lambda>v. ?P v \<and> fst v p = None) (attempt (read_regular_with_mode ?t))
        (\<lambda>r v. (?P v \<and> fst v p = None) \<and> (case r of Inl _ \<Rightarrow> \<not> plain v ?t | Inr s \<Rightarrow> plain v ?t \<and> s = snap (fst v ?t))) E (trouble h ?U)"
      by (rule triple_conseq [OF triple_read_in [OF assms, of ?t "\<lambda>v. ?P v \<and> fst v p = None" early t0]])
        (auto simp: footprint_def)
  next
    fix r
    have pend: "pending o' t0 (fst v)" if "?P v" "fst v p = None" "q" for v
      using that Some by (auto simp: before_install_def displaced_def value_at_def)
    have "r = Inr (snap t0)" if v: "?P v" "fst v p = None" "q" "revertible h o' c t0 (snd start)"
      "case r of Inl _ \<Rightarrow> \<not> plain v ?t | Inr s \<Rightarrow> plain v ?t \<and> s = snap (fst v ?t)" for v
    proof -
      have "plain v ?t" using pend [OF v(1-3)] v(1,4)
        by (auto simp: plain_def pending_def revertible_def regular_or_none_def footprint_def split: option.splits fs_node.splits dest: undoing_dirs)
      then show ?thesis using v(5) pend [OF v(1-3)] by (auto simp: pending_def split: sum.splits)
    qed
    then show "triple h (\<lambda>v. (?P v \<and> fst v p = None) \<and> (case r of Inl _ \<Rightarrow> \<not> plain v ?t | Inr s \<Rightarrow> plain v ?t \<and> s = snap (fst v ?t)))
        (case r of Inl _ \<Rightarrow> pure [''measure target without backup'']
         | Inr current \<Rightarrow> pure (if matches_original h o' current then [] else if jo_original o' \<noteq> None then [''required rollback backup is missing''] else []))
        ?Q E (trouble h ?U)"
      using pend by (cases r) (force intro!: triple_pure simp: revertible_def)+
  qed
  show ?thesis
    unfolding rollback_backup_def Some option.case
  proof (rule triple_ask, rule triple_bind [where R = "\<lambda>r v. r = Inr (handle_of p) \<and> ?P v"])
    show "triple h ?P (attempt (open_parent p False)) (\<lambda>r v. r = Inr (handle_of p) \<and> ?P v) E (trouble h ?U)"
      by (rule triple_attempt, rule triple_conseq [OF triple_open_parent [where P = ?P and C = "trouble h ?U"]])
        (use facts(1) footprint_paths(3) [OF wf Some] dirs in auto)
  next
    fix opened
    have step: "triple h ?P (pbind (attempt (read_regular_with_mode p)) (\<lambda>r. case r of
              Inl _ \<Rightarrow> pure [''measure backup'']
            | Inr backup \<Rightarrow>
                if matches_original h o' backup then restore_backup o' (handle_of p) (handle_of ?t)
                else if backup \<noteq> None then pure [''backup identity, digest, or mode mismatch'']
                else rollback_without_backup o')) ?Q E (trouble h ?U)"
    proof (rule triple_bind)
      show "triple h ?P (attempt (read_regular_with_mode p))
          (\<lambda>r v. ?P v \<and> (case r of Inl _ \<Rightarrow> \<not> plain v p | Inr s \<Rightarrow> plain v p \<and> s = snap (fst v p))) E (trouble h ?U)"
        by (rule triple_conseq [OF triple_read_in [OF assms, of p ?P early t0]])
          (auto simp: footprint_def Some)
    next
      fix r
      let ?R = "\<lambda>v. ?P v \<and> (case r of Inl _ \<Rightarrow> \<not> plain v p | Inr s \<Rightarrow> plain v p \<and> s = snap (fst v p))"
      have known: "plain v p \<and> (fst v p = None \<or> matches_original h o' (snap (fst v p)))"
        if v: "?P v" "q" "revertible h o' c t0 (snd start)" for v
        using v Some original
        by (auto simp: before_install_def op_state_defs plain_def revertible_def footprint_def snap_eq_Some
            split: option.splits fs_node.splits dest: undoing_dirs)
      show "triple h ?R (case r of
              Inl _ \<Rightarrow> pure [''measure backup'']
            | Inr backup \<Rightarrow>
                if matches_original h o' backup then restore_backup o' (handle_of p) (handle_of ?t)
                else if backup \<noteq> None then pure [''backup identity, digest, or mode mismatch'']
                else rollback_without_backup o') ?Q E (trouble h ?U)"
      proof (cases r)
        case (Inl e)
        then show ?thesis using known by (auto intro!: triple_pure)
      next
        case (Inr s)
        consider "matches_original h o' s" | "\<not> matches_original h o' s" "s \<noteq> None" | "\<not> matches_original h o' s" "s = None" by blast
        then show ?thesis
        proof cases
          case 1
          then show ?thesis
            unfolding Inr sum.case using triple_restore_backup [OF assms Some, of early t0 q E]
            by simp (elim triple_pre, auto)
        next
          case 2
          have "\<not> (q \<and> revertible h o' c t0 (snd start))" if "?P v" "plain v p" "s = snap (fst v p)" for v
            using known [OF that(1)] that(2,3) 2 by auto
          then show ?thesis unfolding Inr sum.case using 2 by (auto intro!: triple_pure)
        next
          case 3
          then show ?thesis
            unfolding Inr sum.case using missing by simp (elim triple_pre, auto dest: plain_NoneD)
        qed
      qed
    qed
    show "triple h (\<lambda>v. opened = Inr (handle_of p) \<and> ?P v)
        (case (opened, Inr (handle_of ?t)) of
            (Inl _, _) \<Rightarrow> pure [''open backup parent'']
          | (Inr _, Inl _) \<Rightarrow> pure []
          | (Inr backup_parent, Inr parent) \<Rightarrow>
              pbind (attempt (read_regular_with_mode p)) (\<lambda>r. case r of
                Inl _ \<Rightarrow> pure [''measure backup'']
              | Inr backup \<Rightarrow>
                  if matches_original h o' backup then restore_backup o' backup_parent parent
                  else if backup \<noteq> None then pure [''backup identity, digest, or mode mismatch'']
                  else rollback_without_backup o')) ?Q E (trouble h ?U)"
      by (rule triple_assume) (use step in simp)
  qed
qed

text \<open>The staged file goes, whatever else is the case.\<close>

lemma handle_path: "ph_path (handle_of p) = butlast p"
  by (simp add: handle_of_def)

lemma triple_check_aux_parent:
  assumes "setting h o' c (snd start)" "p \<in> footprint o'" "\<And>v. P v \<Longrightarrow> snd v = snd start"
  shows "triple h P (check_aux_parent o' p) (\<lambda>a v. a = handle_of p \<and> P v)
    (\<lambda>_ v. P v \<and> snd start (butlast p) \<noteq> Some (jo_parent_identity o')) (trouble h P)"
proof -
  have p: "normal_path p" "dirs_ok (snd start) p" using assms(1,2) by (auto simp: setting_def op_wf_def)
  obtain names leaf where "p = RootDir # map Normal names @ [Normal leaf]" using normal_path_parts [OF p(1)] .
  then have parent: "snd start (butlast p) \<noteq> None"
    using p(2) by (auto simp: dirs_ok_def butlast_append dest!: spec [of _ "length p - 1"])
  show ?thesis
    unfolding check_aux_parent_def
    apply (rule triple_bind [where R = "\<lambda>a v. a = handle_of p \<and> P v"])
     apply (rule triple_conseq [OF triple_open_parent [where P = P and C = "trouble h P"]])
            apply (use setting_facts(1) [OF assms(1)] p assms(3) in auto)[8]
    apply (rule triple_assume, hypsubst, unfold handle_path)
    apply (rule triple_bind [where R = "\<lambda>i v. P v \<and> snd v (butlast p) = Some i"])
     apply (rule triple_conseq [OF triple_fstat_dir [where P = P and C = "trouble h P" and p = "butlast p"]])
           apply (use setting_facts(1) [OF assms(1)] parent assms(3) in auto)[7]
    apply (rule triple_ensure, rule triple_pure, simp)
    using assms(3) apply auto
    done
qed

lemma triple_remove_owned_stage:
  assumes "setting h o' c (snd start)" "jo_stage o' = Some p" "\<And>v. P v \<Longrightarrow> snd v = snd start"
    and owned: "\<And>v. P v \<Longrightarrow> stage_owned o' c (fst v p)"
    and closed: "\<And>f d. P (f, d) \<Longrightarrow> P (f(p := None), d)"
  shows "triple h P (remove_owned_stage o' p) (\<lambda>_ v. P v \<and> fst v p = None)
    (\<lambda>_ v. P v \<and> (calm h \<longrightarrow> snd start (butlast p) \<noteq> Some (jo_parent_identity o') \<or> snd start p \<noteq> None)) (trouble h P)"
proof -
  note wf = setting_facts(2) [OF assms(1)] and facts = setting_facts [OF assms(1)]
  have path: "normal_path p" using footprint_paths(2) [OF wf assms(2)] by simp
  have dirs: "dirs_ok (snd v) p" if "P v" for v using facts(4) [OF assms(2)] assms(3) [OF that] by simp
  have plain: "plain v p" if "P v" "snd start p = None" for v
    using owned [OF that(1)] assms(3) [OF that(1)] that(2)
    by (auto simp: stage_owned_def plain_def snap_eq_Some split: option.splits fs_node.splits)
  let ?E = "\<lambda>v. P v \<and> (calm h \<longrightarrow> snd start (butlast p) \<noteq> Some (jo_parent_identity o') \<or> snd start p \<noteq> None)"
  have check: "triple h P (check_aux_parent o' p) (\<lambda>a v. a = handle_of p \<and> P v) (\<lambda>_. ?E) (trouble h P)"
    by (rule triple_conseq [OF triple_check_aux_parent [OF assms(1), where P = P]])
      (use assms(2,3) in \<open>auto simp: footprint_def\<close>)
  show ?thesis
  proof (cases "jo_installed o'")
    case None
    show ?thesis
      unfolding remove_owned_stage_def None option.case prod.case remove_operation_aux_unidentified_def
    proof (rule triple_ask, rule triple_bind [OF check], rule triple_assume, rule triple_bind)
      show "triple h P (read_regular p) (\<lambda>s v. P v \<and> plain v p \<and> s = map_option (\<lambda>(i, bs, _). (i, bs)) (snap (fst v p))) (\<lambda>_. ?E) (trouble h P)"
      proof (rule triple_conseq [OF triple_read_regular [where P = P]])
        fix v assume "P v \<and> \<not> plain v p"
        then show "?E v" using plain [of v] by blast
      qed (use facts(1) path dirs in auto)
    next
      fix a s assume a: "a = handle_of p"
      show "triple h (\<lambda>v. P v \<and> plain v p \<and> s = map_option (\<lambda>(i, bs, _). (i, bs)) (snap (fst v p)))
          (case s of None \<Rightarrow> pure () | Some (identity, bytes) \<Rightarrow> remove_at_exact a identity (digest_of h bytes))
          (\<lambda>_ v. P v \<and> fst v p = None) (\<lambda>_. ?E) (trouble h P)"
      proof (cases s)
        case None
        then show ?thesis by (auto intro!: triple_pure dest: plain_snap_None [THEN iffD1])
      next
        case (Some x)
        obtain i bs where x: "x = (i, bs)" by (cases x)
        let ?P = "\<lambda>v. P v \<and> (fst v p = None \<or> (\<exists>m. fst v p = Some (Regular i bs m)))"
        have "triple h ?P (remove_at_exact_mode (handle_of p) i (digest_of h bs) None) (\<lambda>_ v. ?P v \<and> fst v p = None)
            (\<lambda>_ v. ?P v \<and> (calm h \<longrightarrow> \<not> (plain v p \<and> exact_node h i (digest_of h bs) None (fst v p)))) (trouble h ?P)"
          by (rule triple_remove_exact) (use facts(1) path dirs closed in auto)
        then show ?thesis
          unfolding Some x option.case prod.case a remove_at_exact_def
        proof (rule triple_conseq)
          fix v assume "P v \<and> plain v p \<and> Some (i, bs) = map_option (\<lambda>(i, bs, _). (i, bs)) (snap (fst v p))"
          moreover from this obtain m where "snap (fst v p) = Some (i, bs, m)" by (cases "snap (fst v p)") auto
          ultimately show "?P v" by (auto simp: snap_eq_Some)
        next
          fix v assume v: "?P v \<and> (calm h \<longrightarrow> \<not> (plain v p \<and> exact_node h i (digest_of h bs) None (fst v p)))"
          then have "exact_node h i (digest_of h bs) None (fst v p)" by (auto simp: exact_node_def)
          then show "?E v" using v plain by blast
        qed auto
      qed
    qed
  next
    case (Some i)
    from new_node_Some [OF wf Some] obtain bs m where new: "c = Some bs" "jo_desired_mode o' = Some m"
      "jo_desired_digest o' = Some (digest_of h bs)" "new_node o' c = Some (Regular i bs m)" by blast
    have exact: "exact_node h i (digest_of h bs) (Some m) (fst v p)" if "P v" for v
      using owned [OF that] Some new(4) by (auto simp: stage_owned_def exact_node_def)
    show ?thesis
      unfolding remove_owned_stage_def Some new(2,3) option.case prod.case remove_operation_aux_exact_def
    proof (rule triple_bind [OF check], rule triple_assume)
      fix a assume a: "a = handle_of p"
      show "triple h P (remove_at_exact_mode a i (digest_of h bs) (Some m)) (\<lambda>_ v. P v \<and> fst v p = None) (\<lambda>_. ?E) (trouble h P)"
        unfolding a
      proof (rule triple_conseq [OF triple_remove_exact [where P = P]])
        fix v assume "P v \<and> (calm h \<longrightarrow> \<not> (plain v p \<and> exact_node h i (digest_of h bs) (Some m) (fst v p)))"
        then show "?E v" using exact [of v] plain [of v] by blast
      qed (use facts(1) path dirs closed in auto)
    qed
  qed
qed

text \<open>
  Rolling back one operation: it never leaves the undoable states, and when it reports success
  the target is the original and nothing of the operation is left.
\<close>

definition untouched :: "JournalOperation \<Rightarrow> fs_node option \<Rightarrow> (path \<Rightarrow> fs_node option) \<Rightarrow> bool" where
  "untouched o' t0 f = (f (jo_target o') = t0 \<and> value_at f (jo_backup o') = None \<and> value_at f (jo_stage o') = None)"

lemma triple_rollback_operation:
  assumes "setting h o' c (snd start)" "\<And>p. jo_stage o' = Some p \<Longrightarrow> butlast p = butlast (jo_target o')"
  shows "triple h (undoing h early o' c t0 start) (rollback_operation o')
    (\<lambda>_ v. undoing h early o' c t0 start v \<and> untouched o' t0 (fst v))
    (\<lambda>_ v. undoing h early o' c t0 start v \<and> \<not> (calm h \<and> revertible h o' c t0 (snd start)))
    (trouble h (undoing h early o' c t0 start))"
proof -
  let ?U = "undoing h early o' c t0 start" and ?t = "jo_target o'"
  let ?bad = "\<not> (calm h \<and> revertible h o' c t0 (snd start))"
  let ?E = "\<lambda>v. ?U v \<and> ?bad"
  note wf = setting_facts(2) [OF assms(1)] and facts = setting_facts [OF assms(1)]
  have target: "?t \<in> footprint o'" by (simp add: footprint_def)
  have parent: "snd start (butlast ?t) \<noteq> None"
  proof -
    obtain names leaf where "?t = RootDir # map Normal names @ [Normal leaf]" using normal_path_parts [OF footprint_paths(1) [OF wf]] .
    then show ?thesis using facts(3) by (auto simp: dirs_ok_def butlast_append dest!: spec [of _ "length ?t - 1"])
  qed
  have stage: "triple h (\<lambda>v. ?U v \<and> (q \<longrightarrow> pending o' t0 (fst v)))
      (case jo_stage o' of None \<Rightarrow> pure [] | Some stage \<Rightarrow> noted ''remove stage'' (remove_owned_stage o' stage))
      (\<lambda>errors v. ?U v \<and> (q \<longrightarrow> pending o' t0 (fst v)) \<and> (errors = [] \<longrightarrow> value_at (fst v) (jo_stage o') = None) \<and> (errors \<noteq> [] \<longrightarrow> ?bad))
      (\<lambda>_. ?E) (trouble h ?U)" for q
  proof (cases "jo_stage o'")
    case None
    then show ?thesis by (auto intro!: triple_pure simp: value_at_def)
  next
    case (Some p)
    let ?P = "\<lambda>v. ?U v \<and> (q \<longrightarrow> pending o' t0 (fst v))"
    have closed: "?P (f(p := None), d)" if "?P (f, d)" for f d
      using that undoing_remove_stage [OF wf _ Some, of early t0 start f d] footprint_paths(2) [OF wf Some]
      by (auto simp: pending_def value_at_def split: option.splits)
    have "triple h ?P (remove_owned_stage o' p) (\<lambda>_ v. ?P v \<and> fst v p = None)
        (\<lambda>_ v. ?P v \<and> (calm h \<longrightarrow> snd start (butlast p) \<noteq> Some (jo_parent_identity o') \<or> snd start p \<noteq> None)) (trouble h ?P)"
    proof (rule triple_remove_owned_stage [OF assms(1) Some])
      fix v assume "?P v"
      then show "stage_owned o' c (fst v p)" using Some by (simp add: undoing_def undoable_def value_at_def)
    qed (use closed undoing_dirs in blast)+
    then show ?thesis
      unfolding Some option.case
      by (intro triple_noted) (elim triple_conseq, use assms(2) [OF Some] Some in \<open>auto simp: value_at_def revertible_def footprint_def\<close>)
  qed
  have rest: "triple h (\<lambda>v. ?U v \<and> (first = [] \<longrightarrow> before_install h o' t0 v))
      (pbind (rollback_backup o' (Inr (handle_of ?t))) (\<lambda>second.
       pbind (case jo_stage o' of None \<Rightarrow> pure [] | Some stage \<Rightarrow> noted ''remove stage'' (remove_owned_stage o' stage)) (\<lambda>third.
       pensure (first @ second @ third = []) (IoError OtherKind) (pure ()))))
      (\<lambda>_ v. ?U v \<and> untouched o' t0 (fst v)) (\<lambda>_. ?E) (trouble h ?U)" if bad: "first \<noteq> [] \<longrightarrow> ?bad" for first
  proof (rule triple_bind [OF triple_rollback_backup [OF assms(1)]])
    fix second :: "string list"
    let ?q = "first = [] \<and> second = []"
    have "triple h (\<lambda>v. (second \<noteq> [] \<longrightarrow> first \<noteq> [] \<or> ?bad) \<and> ?U v \<and> (?q \<longrightarrow> pending o' t0 (fst v)))
        (pbind (case jo_stage o' of None \<Rightarrow> pure [] | Some stage \<Rightarrow> noted ''remove stage'' (remove_owned_stage o' stage)) (\<lambda>third.
         pensure (first @ second @ third = []) (IoError OtherKind) (pure ())))
        (\<lambda>_ v. ?U v \<and> untouched o' t0 (fst v)) (\<lambda>_. ?E) (trouble h ?U)"
    proof (rule triple_assume, rule triple_bind [OF stage])
      fix third :: "string list" assume "second \<noteq> [] \<longrightarrow> first \<noteq> [] \<or> ?bad"
      then show "triple h (\<lambda>v. ?U v \<and> (?q \<longrightarrow> pending o' t0 (fst v)) \<and> (third = [] \<longrightarrow> value_at (fst v) (jo_stage o') = None) \<and> (third \<noteq> [] \<longrightarrow> ?bad))
          (pensure (first @ second @ third = []) (IoError OtherKind) (pure ())) (\<lambda>_ v. ?U v \<and> untouched o' t0 (fst v)) (\<lambda>_. ?E) (trouble h ?U)"
        by (intro triple_ensure triple_pure) (use bad in \<open>auto simp: untouched_def pending_def\<close>)
    qed
    then show "triple h (\<lambda>v. ?U v \<and> (first = [] \<and> second = [] \<longrightarrow> pending o' t0 (fst v)) \<and>
          (second \<noteq> [] \<longrightarrow> \<not> (first = [] \<and> calm h \<and> revertible h o' c t0 (snd start))))
        (pbind (case jo_stage o' of None \<Rightarrow> pure [] | Some stage \<Rightarrow> noted ''remove stage'' (remove_owned_stage o' stage)) (\<lambda>third.
         pensure (first @ second @ third = []) (IoError OtherKind) (pure ())))
        (\<lambda>_ v. ?U v \<and> untouched o' t0 (fst v)) (\<lambda>_. ?E) (trouble h ?U)"
      by (rule triple_pre) blast
  qed
  show ?thesis
    unfolding rollback_operation_def
    apply (rule triple_bind [where R = "\<lambda>r v. r = Inr (handle_of ?t) \<and> ?U v"])
     apply (rule triple_attempt, rule triple_conseq [OF triple_open_parent [where P = ?U and C = "trouble h ?U"]])
            apply (use facts(1,3) footprint_paths(1) [OF wf] in \<open>auto dest: undoing_pair\<close>)[8]
    apply (rule triple_assume, simp only: sum.case handle_path)
    apply (rule triple_bind [where R = "\<lambda>first v. (first \<noteq> [] \<longrightarrow> ?bad) \<and> ?U v \<and> (first = [] \<longrightarrow> before_install h o' t0 v)"])
     apply (rule triple_bind [where R = "\<lambda>i v. ?U v \<and> snd v (butlast ?t) = Some i"])
      apply (rule triple_conseq [OF triple_fstat_dir [where P = ?U and C = "trouble h ?U" and p = "butlast ?t"]])
            apply (use facts(1) parent in \<open>auto dest: undoing_pair\<close>)[7]
     apply (rule triple_ensure)
      apply (rule triple_conseq [OF triple_rollback_target [OF assms(1), of early t0]], blast, blast, blast, blast)
    subgoal by (auto simp: revertible_def dest: undoing_dirs)
    apply (rule triple_assume, rule rest, blast)
    done
qed

end
