(* ===== verification/Pub_Apply.thy ===== *)
theory Pub_Apply
  imports Pub_Rollback
begin

text \<open>
  Applying one operation, and the loops over all operations of a transaction: applying, rolling
  back and cleaning up.
\<close>

section \<open>Locality\<close>

lemma undoable_local:
  assumes "\<forall>p\<in>footprint o'. f p = g p"
  shows "undoable h early o' c t0 f \<longleftrightarrow> undoable h early o' c t0 g"
proof -
  have "f (jo_target o') = g (jo_target o')" "value_at f (jo_stage o') = value_at g (jo_stage o')" "value_at f (jo_backup o') = value_at g (jo_backup o')"
    using assms by (auto simp: footprint_def value_at_def split: option.splits)
  then show ?thesis by (simp add: undoable_def pending_def displaced_def replaced_def)
qed

lemma untouched_local:
  assumes "\<forall>p\<in>footprint o'. f p = g p"
  shows "untouched o' t0 f \<longleftrightarrow> untouched o' t0 g"
  using assms by (auto simp: untouched_def footprint_def value_at_def split: option.splits)

text \<open>A property of the files outside a set of paths, and of the directories.\<close>

definition local_outside :: "path set \<Rightarrow> (view \<Rightarrow> bool) \<Rightarrow> bool" where
  "local_outside S G = (\<forall>v v'. G v \<longrightarrow> (\<forall>p. p \<notin> S \<longrightarrow> fst v' p = fst v p) \<longrightarrow> snd v' = snd v \<longrightarrow> G v')"

lemma local_outsideD:
  "local_outside S G \<Longrightarrow> G v \<Longrightarrow> \<forall>p. p \<notin> S \<longrightarrow> fst v' p = fst v p \<Longrightarrow> snd v' = snd v \<Longrightarrow> G v'"
  unfolding local_outside_def by blast

section \<open>Loops\<close>

lemma triple_for_each:
  assumes "\<And>x S. x \<in> set xs \<Longrightarrow> x \<notin> S \<Longrightarrow> S \<subseteq> set xs \<Longrightarrow>
      triple h (\<lambda>v. I v \<and> (\<forall>y\<in>S. D y v)) (f x) (\<lambda>errors v. I v \<and> (\<forall>y\<in>S. D y v) \<and> (errors = [] \<longrightarrow> D x v) \<and> (errors \<noteq> [] \<longrightarrow> B)) E C"
    and "distinct xs"
  shows "triple h I (for_each f xs) (\<lambda>errors v. I v \<and> (errors = [] \<longrightarrow> (\<forall>y\<in>set xs. D y v)) \<and> (errors \<noteq> [] \<longrightarrow> B)) E C"
proof -
  have "set ys \<union> S \<subseteq> set xs \<Longrightarrow> set ys \<inter> S = {} \<Longrightarrow> distinct ys \<Longrightarrow>
      triple h (\<lambda>v. I v \<and> (q \<longrightarrow> (\<forall>y\<in>S. D y v))) (for_each f ys)
        (\<lambda>errors v. I v \<and> (q \<and> errors = [] \<longrightarrow> (\<forall>y\<in>S \<union> set ys. D y v)) \<and> (errors \<noteq> [] \<longrightarrow> B)) E C" for ys S q
  proof (induction ys arbitrary: S q)
    case Nil
    show ?case by (auto intro: triple_pure)
  next
    case (Cons x ys)
    have first: "triple h (\<lambda>v. I v \<and> (\<forall>y\<in>(if q then S else {}). D y v)) (f x)
        (\<lambda>errors v. I v \<and> (\<forall>y\<in>(if q then S else {}). D y v) \<and> (errors = [] \<longrightarrow> D x v) \<and> (errors \<noteq> [] \<longrightarrow> B)) E C"
      by (rule assms(1)) (use Cons.prems in auto)
    show ?case
      unfolding for_each.simps
    proof (rule triple_bind [OF triple_pre [OF first]])
      fix errors :: "string list"
      have ih: "triple h (\<lambda>v. I v \<and> (q \<and> errors = [] \<longrightarrow> (\<forall>y\<in>insert x S. D y v))) (for_each f ys)
          (\<lambda>rest v. I v \<and> ((q \<and> errors = []) \<and> rest = [] \<longrightarrow> (\<forall>y\<in>insert x S \<union> set ys. D y v)) \<and> (rest \<noteq> [] \<longrightarrow> B)) E C"
        by (rule Cons.IH) (use Cons.prems in auto)
      have "triple h (\<lambda>v. (errors \<noteq> [] \<longrightarrow> B) \<and> I v \<and> (q \<and> errors = [] \<longrightarrow> (\<forall>y\<in>insert x S. D y v)))
          (pbind (for_each f ys) (\<lambda>rest. pure (errors @ rest)))
          (\<lambda>all v. I v \<and> (q \<and> all = [] \<longrightarrow> (\<forall>y\<in>S \<union> set (x # ys). D y v)) \<and> (all \<noteq> [] \<longrightarrow> B)) E C"
        by (rule triple_assume, rule triple_bind [OF ih]) (auto intro!: triple_pure)
      then show "triple h (\<lambda>v. I v \<and> (\<forall>y\<in>(if q then S else {}). D y v) \<and> (errors = [] \<longrightarrow> D x v) \<and> (errors \<noteq> [] \<longrightarrow> B))
          (pbind (for_each f ys) (\<lambda>rest. pure (errors @ rest)))
          (\<lambda>all v. I v \<and> (q \<and> all = [] \<longrightarrow> (\<forall>y\<in>S \<union> set (x # ys). D y v)) \<and> (all \<noteq> [] \<longrightarrow> B)) E C"
        by (rule triple_pre) auto
    qed auto
  qed
  from this [of xs "{}" True] assms(2) show ?thesis by simp
qed

text \<open>The operations of a transaction, with the contents and the original of each target.\<close>

definition apart :: "JournalOperation list \<Rightarrow> bool" where
  "apart ops = (distinct ops \<and> (\<forall>a\<in>set ops. \<forall>b\<in>set ops. a \<noteq> b \<longrightarrow> footprint a \<inter> footprint b = {}))"

definition footprints :: "JournalOperation list \<Rightarrow> path set" where
  "footprints ops = (\<Union>o'\<in>set ops. footprint o')"

record targets =
  ts_contents :: "path \<Rightarrow> bytes option"
  ts_original :: "path \<Rightarrow> fs_node option"

abbreviation contents_of :: "targets \<Rightarrow> JournalOperation \<Rightarrow> bytes option" where
  "contents_of ts o' \<equiv> ts_contents ts (jo_target o')"

abbreviation original_of :: "targets \<Rightarrow> JournalOperation \<Rightarrow> fs_node option" where
  "original_of ts o' \<equiv> ts_original ts (jo_target o')"

definition sound_ops :: "Journal host \<Rightarrow> targets \<Rightarrow> JournalOperation list \<Rightarrow> (path \<Rightarrow> FileIdentity option) \<Rightarrow> bool" where
  "sound_ops h ts ops d =
     (apart ops \<and> (\<forall>o'\<in>set ops. setting h o' (contents_of ts o') d \<and> (\<forall>p\<in>footprint o'. butlast p = butlast (jo_target o'))))"

text \<open>Steps of one operation change its footprint only, and leave the others as they are.\<close>

definition within :: "JournalOperation \<Rightarrow> ((path \<Rightarrow> fs_node option) \<Rightarrow> bool) \<Rightarrow> view \<Rightarrow> view \<Rightarrow> bool" where
  "within o' A start v = (A (fst v) \<and> (\<forall>p. p \<notin> footprint o' \<longrightarrow> fst v p = fst start p) \<and> snd v = snd start)"

definition among ::
  "(view \<Rightarrow> bool) \<Rightarrow> (path \<Rightarrow> FileIdentity option) \<Rightarrow> (JournalOperation \<Rightarrow> (path \<Rightarrow> fs_node option) \<Rightarrow> bool) \<Rightarrow>
   JournalOperation list \<Rightarrow> view \<Rightarrow> bool" where
  "among G d A ops v = (G v \<and> snd v = d \<and> (\<forall>y\<in>set ops. A y (fst v)))"

definition footprint_local :: "(JournalOperation \<Rightarrow> (path \<Rightarrow> fs_node option) \<Rightarrow> bool) \<Rightarrow> bool" where
  "footprint_local A = (\<forall>y f g. (\<forall>p\<in>footprint y. f p = g p) \<longrightarrow> A y f \<longrightarrow> A y g)"

lemma footprint_localD: "footprint_local A \<Longrightarrow> \<forall>p\<in>footprint y. f p = g p \<Longrightarrow> A y f \<Longrightarrow> A y g"
  unfolding footprint_local_def by blast

lemma triple_among:
  assumes "apart ops" "x \<in> set ops" "local_outside (footprints ops) G" "footprint_local A" "footprint_local D"
    and "\<And>start. snd start = d \<Longrightarrow> triple h (\<lambda>v. within x (A x) start v \<and> X (fst v)) m
      (\<lambda>a v. within x (A x) start v \<and> Y a (fst v)) (\<lambda>e v. within x (A x) start v \<and> Z e) (\<lambda>v. within x (A x) start v \<and> W)"
  shows "triple h (\<lambda>v. among G d A ops v \<and> (\<forall>y\<in>set ops - {x}. D y (fst v)) \<and> X (fst v)) m
      (\<lambda>a v. among G d A ops v \<and> (\<forall>y\<in>set ops - {x}. D y (fst v)) \<and> Y a (fst v))
      (\<lambda>e v. among G d A ops v \<and> (\<forall>y\<in>set ops - {x}. D y (fst v)) \<and> Z e) (\<lambda>v. among G d A ops v \<and> W)"
proof (rule triple_case)
  fix start assume start: "among G d A ops start \<and> (\<forall>y\<in>set ops - {x}. D y (fst start)) \<and> X (fst start)"
  then have d: "snd start = d" by (simp add: among_def)
  have keep: "among G d A ops v \<and> (\<forall>y\<in>set ops - {x}. D y (fst v))" if v: "within x (A x) start v" for v
  proof -
    have same: "\<forall>p. p \<notin> footprint x \<longrightarrow> fst v p = fst start p" "snd v = snd start" using v by (auto simp: within_def)
    have other: "\<forall>p\<in>footprint y. fst start p = fst v p" if "y \<in> set ops" "y \<noteq> x" for y
      using that same(1) assms(1,2) by (fastforce simp: apart_def)
    have "A y (fst v)" if "y \<in> set ops" for y
    proof (cases "y = x")
      case True
      then show ?thesis using v by (simp add: within_def)
    next
      case False
      then show ?thesis using footprint_localD [OF assms(4) other [OF that]] start that by (auto simp: among_def)
    qed
    moreover have "D y (fst v)" if "y \<in> set ops - {x}" for y
      using footprint_localD [OF assms(5) other [of y]] start that by auto
    moreover have "G v"
      using local_outsideD [OF assms(3), of start v] start same assms(2) by (auto simp: footprints_def among_def)
    ultimately show ?thesis using same(2) d by (auto simp: among_def)
  qed
  show "triple h (\<lambda>v. v = start) m (\<lambda>a v. among G d A ops v \<and> (\<forall>y\<in>set ops - {x}. D y (fst v)) \<and> Y a (fst v))
      (\<lambda>e v. among G d A ops v \<and> (\<forall>y\<in>set ops - {x}. D y (fst v)) \<and> Z e) (\<lambda>v. among G d A ops v \<and> W)"
  proof (rule triple_conseq [OF assms(6) [OF d]])
    fix v assume "v = start"
    then show "within x (A x) start v \<and> X (fst v)" using start assms(2) by (simp add: within_def among_def)
  qed (use keep in blast)+
qed

definition undoable_in :: "Journal host \<Rightarrow> bool \<Rightarrow> targets \<Rightarrow> JournalOperation \<Rightarrow> (path \<Rightarrow> fs_node option) \<Rightarrow> bool" where
  "undoable_in h early ts y = undoable h early y (contents_of ts y) (original_of ts y)"

lemma undoing_within: "undoing h early y (contents_of ts y) (original_of ts y) start = within y (undoable_in h early ts y) start"
  by (simp add: fun_eq_iff undoing_def within_def undoable_in_def)

lemma footprint_local_undoable: "footprint_local (undoable_in h early ts)"
  unfolding footprint_local_def undoable_in_def using undoable_local by blast

lemma footprint_local_untouched: "footprint_local (\<lambda>y. untouched y (original_of ts y))"
  unfolding footprint_local_def using untouched_local by blast

lemma footprint_local_imp: "footprint_local D \<Longrightarrow> footprint_local (\<lambda>y f. y \<in> S \<longrightarrow> D y f)"
  unfolding footprint_local_def by blast

text \<open>A loop over operations, each of which changes its own footprint and ends in \<open>D\<close> unless it reports an error.\<close>

lemma triple_each:
  assumes "apart ops" "set xs = set ops" "distinct xs" "local_outside (footprints ops) G" "footprint_local A" "footprint_local D"
    and op: "\<And>x start. x \<in> set ops \<Longrightarrow> snd start = d \<Longrightarrow> triple h (within x (A x) start) (f x)
      (\<lambda>errors v. within x (A x) start v \<and> (errors = [] \<longrightarrow> D x (fst v)) \<and> (errors \<noteq> [] \<longrightarrow> B)) (\<lambda>_ _. False) (trouble h (within x (A x) start))"
  shows "triple h (among G d A ops) (for_each f xs)
    (\<lambda>errors v. among G d A ops v \<and> (errors = [] \<longrightarrow> (\<forall>y\<in>set ops. D y (fst v))) \<and> (errors \<noteq> [] \<longrightarrow> B)) E (trouble h (among G d A ops))"
proof -
  let ?I = "among G d A ops"
  have one: "triple h (\<lambda>v. ?I v \<and> (\<forall>y\<in>S. D y (fst v))) (f x)
      (\<lambda>errors v. ?I v \<and> (\<forall>y\<in>S. D y (fst v)) \<and> (errors = [] \<longrightarrow> D x (fst v)) \<and> (errors \<noteq> [] \<longrightarrow> B)) E (trouble h ?I)"
    if x: "x \<in> set ops" "x \<notin> S" "S \<subseteq> set ops" for x S
  proof -
    have "triple h (\<lambda>v. ?I v \<and> (\<forall>y\<in>set ops - {x}. y \<in> S \<longrightarrow> D y (fst v)) \<and> True) (f x)
        (\<lambda>errors v. ?I v \<and> (\<forall>y\<in>set ops - {x}. y \<in> S \<longrightarrow> D y (fst v)) \<and> (errors = [] \<longrightarrow> D x (fst v)) \<and> (errors \<noteq> [] \<longrightarrow> B))
        (\<lambda>_ v. ?I v \<and> (\<forall>y\<in>set ops - {x}. y \<in> S \<longrightarrow> D y (fst v)) \<and> False) (\<lambda>v. ?I v \<and> \<not> calm h)"
      by (rule triple_among [OF assms(1) x(1) assms(4,5) footprint_local_imp [OF assms(6)]], rule triple_conseq [OF op [OF x(1)]]) auto
    then show ?thesis by (rule triple_conseq) (use x in blast)+
  qed
  from triple_for_each [where I = ?I and D = "\<lambda>y v. D y (fst v)" and B = B and C = "trouble h ?I", OF _ assms(3)] one assms(2)
  show ?thesis by simp
qed

text \<open>All operations rolled back, each from whatever state it is in.\<close>

lemma sound_opsD:
  assumes "sound_ops h ts ops d"
  shows "apart ops" "distinct ops"
    and "x \<in> set ops \<Longrightarrow> setting h x (contents_of ts x) d" "x \<in> set ops \<Longrightarrow> \<forall>p\<in>footprint x. butlast p = butlast (jo_target x)"
  using assms by (auto simp: sound_ops_def apart_def)

lemma triple_rollback_operations:
  assumes "sound_ops h ts ops d" "local_outside (footprints ops) G"
  shows "triple h (among G d (undoable_in h early ts) ops) (rollback_operations ops)
    (\<lambda>errors v. among G d (undoable_in h early ts) ops v \<and> (errors = [] \<longrightarrow> (\<forall>y\<in>set ops. untouched y (original_of ts y) (fst v))) \<and>
       (errors \<noteq> [] \<longrightarrow> \<not> (calm h \<and> (\<forall>y\<in>set ops. revertible h y (contents_of ts y) (original_of ts y) d)))) E
    (trouble h (among G d (undoable_in h early ts) ops))"
  unfolding rollback_operations_def
proof (rule triple_each [OF sound_opsD(1) [OF assms(1)] _ _ assms(2) footprint_local_undoable footprint_local_untouched])
  fix x and start :: view assume x: "x \<in> set ops" and "snd start = d"
  moreover have "\<And>p. jo_stage x = Some p \<Longrightarrow> butlast p = butlast (jo_target x)" using sound_opsD(4) [OF assms(1) x] by (auto simp: footprint_def)
  ultimately show "triple h (within x (undoable_in h early ts x) start) (noted ''rollback'' (rollback_operation x))
      (\<lambda>errors v. within x (undoable_in h early ts x) start v \<and> (errors = [] \<longrightarrow> untouched x (original_of ts x) (fst v)) \<and>
         (errors \<noteq> [] \<longrightarrow> \<not> (calm h \<and> (\<forall>y\<in>set ops. revertible h y (contents_of ts y) (original_of ts y) d))))
      (\<lambda>_ _. False) (trouble h (within x (undoable_in h early ts x) start))"
    unfolding undoing_within [symmetric]
    by (intro triple_noted triple_conseq [OF triple_rollback_operation [where h = h and o' = x and start = start]])
      (use sound_opsD(3) [OF assms(1) x] x in blast)+
qed (use sound_opsD(2) [OF assms(1)] in auto)

section \<open>Applying one operation\<close>

text \<open>Staged and not yet applied, and applied.\<close>

definition staged :: "JournalOperation \<Rightarrow> bytes option \<Rightarrow> (path \<Rightarrow> fs_node option) \<Rightarrow> bool" where
  "staged o' c f = (c \<noteq> None \<longrightarrow> jo_installed o' \<noteq> None \<and> value_at f (jo_stage o') = new_node o' c)"

definition applied :: "Journal host \<Rightarrow> JournalOperation \<Rightarrow> bytes option \<Rightarrow> fs_node option \<Rightarrow> (path \<Rightarrow> fs_node option) \<Rightarrow> bool" where
  "applied h o' c t0 f =
     (f (jo_target o') = new_node o' c \<and> (c \<noteq> None \<longrightarrow> jo_installed o' \<noteq> None) \<and> value_at f (jo_stage o') = None \<and>
      value_at f (jo_backup o') = t0 \<and> regular_or_none t0 \<and> matches_original h o' (snap t0))"

definition cleared :: "Journal host \<Rightarrow> JournalOperation \<Rightarrow> bytes option \<Rightarrow> fs_node option \<Rightarrow> (path \<Rightarrow> fs_node option) \<Rightarrow> bool" where
  "cleared h o' c t0 f =
     (f (jo_target o') = None \<and> staged o' c f \<and> value_at f (jo_backup o') = t0 \<and> regular_or_none t0 \<and> matches_original h o' (snap t0))"

lemma triple_sync_parent:
  assumes "reads_ok h" "normal_path p" "\<And>v. P v \<Longrightarrow> dirs_ok (snd v) p"
  shows "triple h P (sync_parent p) (\<lambda>_. P) (\<lambda>_. trouble h P) (trouble h P)"
  unfolding sync_parent_def
  by (rule triple_bind [where R = "\<lambda>_. P"], rule triple_conseq [OF triple_open_parent [where P = P and C = "trouble h P"]])
    (use assms triple_fsync [of h P] in auto)

lemma new_node_None: "op_wf h o' c \<Longrightarrow> c = None \<Longrightarrow> new_node o' c = None"
  by (simp add: new_node_def split: option.splits)

text \<open>Moving the original to the backup, and the staged file to the target.\<close>

lemma undoing_displace:
  assumes "op_wf h o' c" "undoing h False o' c t0 start (f, d)" "jo_backup o' = Some p" "f (jo_target o') = Some n" "f p = None"
    and "pending o' t0 f" "staged o' c f" "regular_or_none t0" "matches_original h o' (snap t0)"
  shows "undoing h False o' c t0 start (f(jo_target o' := None, p := Some n), d) \<and> cleared h o' c t0 (f(jo_target o' := None, p := Some n))"
  using assms footprint_paths [OF assms(1)]
  by (auto simp: undoing_def op_state_defs footprint_def cleared_def staged_def split: option.splits)

lemma undoing_install:
  assumes "op_wf h o' c" "undoing h False o' c t0 start (f, d)" "jo_stage o' = Some p" "f p = Some n" "cleared h o' c t0 f"
  shows "undoing h False o' c t0 start (f(p := None, jo_target o' := Some n), d) \<and> applied h o' c t0 (f(p := None, jo_target o' := Some n))"
proof -
  have c: "c \<noteq> None" using assms(1,3) by (auto simp: op_wf_def)
  then have n: "jo_installed o' \<noteq> None" "new_node o' c = Some n" using assms(3-5) by (auto simp: cleared_def staged_def value_at_def)
  let ?f = "f(p := None, jo_target o' := Some n)"
  have b: "value_at ?f (jo_backup o') = value_at f (jo_backup o')"
    using footprint_paths [OF assms(1)] assms(3) by (auto simp: value_at_def split: option.splits)
  have a: "applied h o' c t0 ?f"
    using assms(3,5) n c b footprint_paths(2) [OF assms(1,3)] by (auto simp: applied_def cleared_def value_at_def)
  then have "undoable h False o' c t0 ?f"
    using assms(2) n by (auto simp: applied_def undoing_def undoable_def replaced_def stage_owned_def)
  then show ?thesis using a assms(2,3) by (auto simp: undoing_def footprint_def)
qed

lemma triple_apply_backup:
  assumes "setting h o' c (snd start)" "regular_or_none t0" "matches_original h o' (snap t0)"
  shows "triple h (\<lambda>v. undoing h False o' c t0 start v \<and> pending o' t0 (fst v) \<and> staged o' c (fst v)) (apply_backup o' (handle_of (jo_target o')))
    (\<lambda>_ v. undoing h False o' c t0 start v \<and> cleared h o' c t0 (fst v)) (\<lambda>_. undoing h False o' c t0 start) (undoing h False o' c t0 start)"
proof (cases "jo_backup o'")
  note wf = setting_facts(2) [OF assms(1)]
  case None
  then have "t0 = None" using assms(2,3) wf by (cases t0) (auto simp: op_wf_def snapshot_matches_def regular_or_none_def split: option.splits)
  then show ?thesis using None assms(2,3) by (auto simp: apply_backup_def cleared_def pending_def value_at_def intro!: triple_pure)
next
  note wf = setting_facts(2) [OF assms(1)] and facts = setting_facts [OF assms(1)]
  case (Some p)
  let ?U = "undoing h False o' c t0 start" and ?t = "jo_target o'"
  have dirs: "snd v = snd start" if "?U v" for v using that by (rule undoing_dirs)
  let ?P = "\<lambda>v. ?U v \<and> pending o' t0 (fst v) \<and> staged o' c (fst v)" and ?R = "\<lambda>v. ?U v \<and> cleared h o' c t0 (fst v)"
  have path: "normal_path p" "normal_path ?t" using footprint_paths(1) [OF wf] footprint_paths(3) [OF wf Some] by auto
  have move: "triple h ?P (rename_noclobber (handle_of ?t) (handle_of p)) (\<lambda>_. ?R) (\<lambda>_. ?U) ?U"
  proof (rule triple_conseq [OF triple_rename_noclobber [where P = ?P and Q = ?R]])
    fix f d n assume "?P (f, d)" "f ?t = Some n" "f p = None"
    then show "?R (f(?t := None, p := Some n), d)" using undoing_displace [OF wf _ Some _ _ _ _ assms(2,3), of start f d n] by simp
  qed (use path in blast)+
  have kept: "snap (fst v p) = snap t0" if "?R v" for v using that Some by (simp add: cleared_def value_at_def)
  show ?thesis
    unfolding apply_backup_def Some option.case
    apply (rule triple_ask)
    apply (rule triple_bind [where R = "\<lambda>a v. a = handle_of p \<and> ?P v"])
     apply (rule triple_conseq [OF triple_open_parent [where P = ?P and C = ?U]])
            apply (use facts(1) facts(5) [OF Some] path in \<open>simp_all add: dirs\<close>)[8]
    apply (rule triple_assume, hypsubst, rule triple_bind [OF move])
    apply (rule triple_bind [where R = "\<lambda>s v. s = snap t0 \<and> ?R v"])
     apply (rule triple_conseq [OF triple_read [where P = ?R]])
           apply (use facts(1) facts(5) [OF Some] path kept in \<open>simp_all add: dirs\<close>)[7]
    apply (rule triple_assume, simp only: assms(3) not_True_eq_False if_False)
    apply (rule triple_conseq [OF triple_sync_parent [where P = ?R]])
          apply (use facts(1,3) path in \<open>simp_all add: dirs\<close>)
    done
qed

lemma triple_apply_stage:
  assumes "setting h o' c (snd start)"
  shows "triple h (\<lambda>v. undoing h False o' c t0 start v \<and> cleared h o' c t0 (fst v)) (apply_stage o' (handle_of (jo_target o')))
    (\<lambda>_ v. undoing h False o' c t0 start v \<and> applied h o' c t0 (fst v)) (\<lambda>_. undoing h False o' c t0 start) (undoing h False o' c t0 start)"
proof (cases "jo_stage o'")
  note wf = setting_facts(2) [OF assms(1)]
  case None
  then have "c = None" using wf by (simp add: op_wf_def)
  then show ?thesis
    using None new_node_None [OF wf] by (auto simp: apply_stage_def applied_def cleared_def value_at_def intro!: triple_pure)
next
  note wf = setting_facts(2) [OF assms(1)] and facts = setting_facts [OF assms(1)]
  case (Some p)
  let ?U = "undoing h False o' c t0 start" and ?t = "jo_target o'"
  have dirs: "snd v = snd start" if "?U v" for v using that by (rule undoing_dirs)
  let ?R = "\<lambda>v. ?U v \<and> cleared h o' c t0 (fst v)" and ?Q = "\<lambda>v. ?U v \<and> applied h o' c t0 (fst v)"
  have path: "normal_path p" "normal_path ?t" using footprint_paths(1) [OF wf] footprint_paths(2) [OF wf Some] by auto
  have c: "c \<noteq> None" using wf Some by (auto simp: op_wf_def)
  have move: "triple h ?R (rename_noclobber (handle_of p) (handle_of ?t)) (\<lambda>_. ?Q) (\<lambda>_. ?U) ?U"
  proof (rule triple_conseq [OF triple_rename_noclobber [where P = ?R and Q = ?Q]])
    fix f d n assume "?R (f, d)" "f p = Some n" "f ?t = None"
    then show "?Q (f(p := None, ?t := Some n), d)" using undoing_install [OF wf _ Some, of t0 start f d n] by simp
  qed (use path in blast)+
  show ?thesis
    unfolding apply_stage_def Some option.case
    apply (rule triple_ask)
    apply (rule triple_bind [where R = "\<lambda>s. ?R"])
     apply (rule triple_conseq [OF triple_read [where P = ?R]])
           apply (use facts(1) facts(4) [OF Some] path in \<open>simp_all add: dirs\<close>)[7]
    apply (rule triple_ensure)
     apply (rule triple_bind [where R = "\<lambda>a v. a = handle_of p \<and> ?R v"])
      apply (rule triple_conseq [OF triple_open_parent [where P = ?R and C = ?U]])
             apply (use facts(1) facts(4) [OF Some] path in \<open>simp_all add: dirs\<close>)[8]
     apply (rule triple_assume, hypsubst, rule triple_bind [OF move])
     apply (rule triple_bind [where R = "\<lambda>s. ?Q"])
      apply (rule triple_conseq [OF triple_read [where P = ?Q]])
            apply (use facts(1,3) path in \<open>simp_all add: dirs\<close>)[7]
     apply (rule triple_ensure)
      apply (rule triple_conseq [OF triple_sync_parent [where P = ?Q]])
            apply (use facts(1,3) path in \<open>simp_all add: dirs\<close>)
    done
qed

lemma triple_apply_operation:
  assumes "setting h o' c (snd start)"
  shows "triple h (\<lambda>v. undoing h False o' c t0 start v \<and> pending o' t0 (fst v) \<and> staged o' c (fst v)) (apply_operation o')
    (\<lambda>_ v. undoing h False o' c t0 start v \<and> applied h o' c t0 (fst v)) (\<lambda>_. undoing h False o' c t0 start) (undoing h False o' c t0 start)"
proof -
  note wf = setting_facts(2) [OF assms(1)] and facts = setting_facts [OF assms(1)]
  let ?U = "undoing h False o' c t0 start" and ?t = "jo_target o'"
  let ?P = "\<lambda>v. ?U v \<and> pending o' t0 (fst v) \<and> staged o' c (fst v)"
  have dirs: "snd v = snd start" if "?U v" for v using that by (rule undoing_dirs)
  have parent: "snd start (butlast ?t) \<noteq> None"
  proof -
    obtain names leaf where "?t = RootDir # map Normal names @ [Normal leaf]" using normal_path_parts [OF footprint_paths(1) [OF wf]] .
    then show ?thesis using facts(3) by (auto simp: dirs_ok_def butlast_append dest!: spec [of _ "length ?t - 1"])
  qed
  have rest: "triple h (\<lambda>v. (regular_or_none t0 \<and> s = snap t0) \<and> ?P v)
      (pensure (matches_original h o' s) (IoError OtherKind)
        (pbind (apply_backup o' (handle_of ?t)) (\<lambda>_. apply_stage o' (handle_of ?t))))
      (\<lambda>_ v. ?U v \<and> applied h o' c t0 (fst v)) (\<lambda>_. ?U) ?U" for s
  proof (rule triple_assume, rule triple_ensure)
    assume "regular_or_none t0 \<and> s = snap t0" "matches_original h o' s"
    then show "triple h ?P (pbind (apply_backup o' (handle_of ?t)) (\<lambda>_. apply_stage o' (handle_of ?t)))
        (\<lambda>_ v. ?U v \<and> applied h o' c t0 (fst v)) (\<lambda>_. ?U) ?U"
      using triple_bind [OF triple_apply_backup [OF assms] triple_apply_stage [OF assms]] by blast
  qed blast
  have known: "regular_or_none t0 \<and> s = snap t0" if "?P v" "plain v ?t" "s = snap (fst v ?t)" for v s
    using that by (auto simp: pending_def plain_def regular_or_none_def split: option.splits fs_node.splits)
  show ?thesis
    unfolding apply_operation_def
    apply (rule triple_ask)
    apply (rule triple_bind [where R = "\<lambda>a v. a = handle_of ?t \<and> ?P v"])
     apply (rule triple_conseq [OF triple_open_parent [where P = ?P and C = ?U]])
            apply (use facts(1,3) footprint_paths(1) [OF wf] in \<open>simp_all add: dirs\<close>)[8]
    apply (rule triple_assume, hypsubst, unfold handle_path)
    apply (rule triple_bind [where R = "\<lambda>i. ?P"])
     apply (rule triple_conseq [OF triple_fstat_dir [where P = ?P and C = ?U and p = "butlast ?t"]])
           apply (use facts(1) parent in \<open>simp_all add: dirs\<close>)[7]
    apply (rule triple_ensure)
     apply (rule triple_bind [where R = "\<lambda>s v. (regular_or_none t0 \<and> s = snap t0) \<and> ?P v"])
      apply (rule triple_conseq [OF triple_read [where P = ?P]])
            apply (use facts(1,3) footprint_paths(1) [OF wf] in \<open>simp_all add: dirs\<close>)[4]
    subgoal using known by blast
       apply simp_all[2]
     apply (rule rest)
    apply simp
    done
qed


section \<open>Applying all operations\<close>

definition ready_in :: "targets \<Rightarrow> JournalOperation \<Rightarrow> (path \<Rightarrow> fs_node option) \<Rightarrow> bool" where
  "ready_in ts y f = (pending y (original_of ts y) f \<and> staged y (contents_of ts y) f)"

definition applied_in :: "Journal host \<Rightarrow> targets \<Rightarrow> JournalOperation \<Rightarrow> (path \<Rightarrow> fs_node option) \<Rightarrow> bool" where
  "applied_in h ts y = applied h y (contents_of ts y) (original_of ts y)"

lemma footprint_values:
  "\<forall>p\<in>footprint y. f p = g p \<Longrightarrow> f (jo_target y) = g (jo_target y)"
  "\<forall>p\<in>footprint y. f p = g p \<Longrightarrow> value_at f (jo_stage y) = value_at g (jo_stage y)"
  "\<forall>p\<in>footprint y. f p = g p \<Longrightarrow> value_at f (jo_backup y) = value_at g (jo_backup y)"
  by (auto simp: footprint_def value_at_def split: option.splits)

lemma footprint_local_progress: "footprint_local (\<lambda>y f. if y \<in> S then ready_in ts y f else applied_in h ts y f)"
  unfolding footprint_local_def
  by (auto simp: ready_in_def applied_in_def pending_def staged_def applied_def dest: footprint_values)

text \<open>The operations in \<open>xs\<close> are still to be applied, the others have been.\<close>

lemma triple_apply_operations:
  assumes "sound_ops h ts ops d" "local_outside (footprints ops) G"
  shows "set xs \<subseteq> set ops \<Longrightarrow> distinct xs \<Longrightarrow>
    triple h (\<lambda>v. among G d (undoable_in h False ts) ops v \<and> (\<forall>y\<in>set ops. if y \<in> set xs then ready_in ts y (fst v) else applied_in h ts y (fst v)))
      (apply_operations xs)
      (\<lambda>_ v. among G d (undoable_in h False ts) ops v \<and> (\<forall>y\<in>set ops. applied_in h ts y (fst v)))
      (\<lambda>_. among G d (undoable_in h False ts) ops) (among G d (undoable_in h False ts) ops)"
proof (induction xs)
  case Nil
  show ?case by (auto intro!: triple_pure)
next
  case (Cons x xs)
  let ?I = "among G d (undoable_in h False ts) ops"
  let ?D = "\<lambda>y f. if y \<in> set xs then ready_in ts y f else applied_in h ts y f"
  have set: "setting h x (contents_of ts x) d" and ap: "apart ops" and x: "x \<in> set ops"
    using assms(1) Cons.prems by (auto simp: sound_ops_def)
  have "triple h (\<lambda>v. ?I v \<and> (\<forall>y\<in>set ops - {x}. ?D y (fst v)) \<and> ready_in ts x (fst v)) (apply_operation x)
      (\<lambda>_ v. ?I v \<and> (\<forall>y\<in>set ops - {x}. ?D y (fst v)) \<and> applied_in h ts x (fst v))
      (\<lambda>_ v. ?I v \<and> (\<forall>y\<in>set ops - {x}. ?D y (fst v)) \<and> True) (\<lambda>v. ?I v \<and> True)"
  proof (rule triple_among [OF ap x assms(2) footprint_local_undoable footprint_local_progress])
    fix start :: view assume "snd start = d"
    then show "triple h (\<lambda>v. within x (undoable_in h False ts x) start v \<and> ready_in ts x (fst v)) (apply_operation x)
        (\<lambda>_ v. within x (undoable_in h False ts x) start v \<and> applied_in h ts x (fst v))
        (\<lambda>_ v. within x (undoable_in h False ts x) start v \<and> True) (\<lambda>v. within x (undoable_in h False ts x) start v \<and> True)"
      unfolding undoing_within [symmetric] ready_in_def applied_in_def
      by (intro triple_conseq [OF triple_apply_operation [where h = h and o' = x and start = start]]) (use set in blast)+
  qed
  then have first: "triple h (\<lambda>v. ?I v \<and> (\<forall>y\<in>set ops. if y \<in> set (x # xs) then ready_in ts y (fst v) else applied_in h ts y (fst v))) (apply_operation x)
      (\<lambda>_ v. ?I v \<and> (\<forall>y\<in>set ops. ?D y (fst v))) (\<lambda>_. ?I) ?I"
  proof (rule triple_conseq)
    fix v assume "?I v \<and> (\<forall>y\<in>set ops. if y \<in> set (x # xs) then ready_in ts y (fst v) else applied_in h ts y (fst v))"
    then show "?I v \<and> (\<forall>y\<in>set ops - {x}. ?D y (fst v)) \<and> ready_in ts x (fst v)" using x by auto
  next
    fix v assume "?I v \<and> (\<forall>y\<in>set ops - {x}. ?D y (fst v)) \<and> applied_in h ts x (fst v)"
    moreover from this have "?D y (fst v)" if "y \<in> set ops" for y using that Cons.prems by (cases "y = x") auto
    ultimately show "?I v \<and> (\<forall>y\<in>set ops. ?D y (fst v))" by blast
  qed blast+
  show ?case unfolding apply_operations.simps by (rule triple_bind [OF first]) (use Cons in simp)
qed

section \<open>Cleaning up after a commit\<close>

definition settled :: "Journal host \<Rightarrow> JournalOperation \<Rightarrow> bytes option \<Rightarrow> fs_node option \<Rightarrow> (path \<Rightarrow> fs_node option) \<Rightarrow> bool" where
  "settled h o' c t0 f =
     (f (jo_target o') = new_node o' c \<and> (c \<noteq> None \<longrightarrow> jo_installed o' \<noteq> None) \<and> value_at f (jo_stage o') = None \<and>
      value_at f (jo_backup o') \<in> {None, t0} \<and> regular_or_none t0 \<and> matches_original h o' (snap t0))"

definition finished :: "JournalOperation \<Rightarrow> bytes option \<Rightarrow> (path \<Rightarrow> fs_node option) \<Rightarrow> bool" where
  "finished o' c f =
     (f (jo_target o') = new_node o' c \<and> (c \<noteq> None \<longrightarrow> jo_installed o' \<noteq> None) \<and> value_at f (jo_stage o') = None \<and> value_at f (jo_backup o') = None)"

definition settled_in :: "Journal host \<Rightarrow> targets \<Rightarrow> JournalOperation \<Rightarrow> (path \<Rightarrow> fs_node option) \<Rightarrow> bool" where
  "settled_in h ts y = settled h y (contents_of ts y) (original_of ts y)"

definition tidy :: "JournalOperation \<Rightarrow> (path \<Rightarrow> FileIdentity option) \<Rightarrow> bool" where
  "tidy o' d = (d (butlast (jo_target o')) = Some (jo_parent_identity o') \<and> (\<forall>p\<in>footprint o'. d p = None))"

lemma plainI: "regular_or_none (fst v p) \<Longrightarrow> snd v p = None \<Longrightarrow> plain v p"
  by (cases "fst v p" rule: snap.cases) (auto simp: regular_or_none_def plain_def)

lemma footprint_local_settled: "footprint_local (settled_in h ts)"
  unfolding footprint_local_def by (auto simp: settled_in_def settled_def dest: footprint_values)

lemma footprint_local_finished: "footprint_local (\<lambda>y f. value_at f (jo_backup y) = None)"
  unfolding footprint_local_def by (auto dest: footprint_values)

lemma triple_cleanup_stage:
  fixes t0 :: "fs_node option"
  assumes "setting h o' c (snd start)" "\<forall>p\<in>footprint o'. butlast p = butlast (jo_target o')"
  defines "P \<equiv> within o' (settled h o' c t0) start"
  shows "triple h P (case jo_stage o' of None \<Rightarrow> pure [] | Some stage \<Rightarrow> noted ''stage'' (remove_owned_stage o' stage))
    (\<lambda>errors v. P v \<and> (errors \<noteq> [] \<longrightarrow> \<not> (calm h \<and> tidy o' (snd start)))) E (trouble h P)"
proof (cases "jo_stage o'")
  case (Some p)
  have p: "p \<in> footprint o'" using Some by (simp add: footprint_def)
  have "triple h P (remove_owned_stage o' p) (\<lambda>_ v. P v \<and> fst v p = None)
      (\<lambda>_ v. P v \<and> (calm h \<longrightarrow> snd start (butlast p) \<noteq> Some (jo_parent_identity o') \<or> snd start p \<noteq> None)) (trouble h P)"
  proof (rule triple_remove_owned_stage [OF assms(1) Some])
    fix v assume "P v"
    then show "stage_owned o' c (fst v p)" using Some by (simp add: P_def within_def settled_def value_at_def stage_owned_def)
  next
    fix f d assume "P (f, d)"
    moreover from this have "f p = None" using Some by (simp add: P_def within_def settled_def value_at_def)
    ultimately show "P (f(p := None), d)" by (metis fun_upd_triv)
  qed (simp add: P_def within_def)
  then show ?thesis
    unfolding Some option.case
  proof (intro triple_noted, elim triple_conseq)
    fix v assume "P v \<and> (calm h \<longrightarrow> snd start (butlast p) \<noteq> Some (jo_parent_identity o') \<or> snd start p \<noteq> None)"
    then show "P v \<and> ([''stage''] \<noteq> [] \<longrightarrow> \<not> (calm h \<and> tidy o' (snd start)))"
      using assms(2) p by (auto simp: tidy_def)
  qed blast+
qed (auto intro!: triple_pure)

lemma triple_cleanup_backup:
  fixes t0 :: "fs_node option"
  assumes "setting h o' c (snd start)" "\<forall>p\<in>footprint o'. butlast p = butlast (jo_target o')"
  defines "P \<equiv> within o' (settled h o' c t0) start"
  shows "triple h P (cleanup_backup o')
    (\<lambda>errors v. P v \<and> (errors = [] \<longrightarrow> value_at (fst v) (jo_backup o') = None) \<and> (errors \<noteq> [] \<longrightarrow> \<not> (calm h \<and> tidy o' (snd start)))) E (trouble h P)"
proof (cases "jo_backup o'")
  case None
  then show ?thesis by (auto intro!: triple_pure simp: cleanup_backup_def value_at_def)
next
  note wf = setting_facts(2) [OF assms(1)] and facts = setting_facts [OF assms(1)]
  case (Some p)
  have p: "p \<in> footprint o'" "normal_path p" "dirs_ok (snd start) p" "p \<noteq> jo_target o'" "jo_stage o' \<noteq> Some p"
    using facts(5) [OF Some] footprint_paths(3) [OF wf Some] Some by (auto simp: footprint_def)
  obtain i where i: "jo_original o' = Some i" using wf Some by (auto simp: op_wf_def)
  have exact: "jo_original_digest o' = Some dg \<Longrightarrow> exact_node h i dg (jo_original_mode o') (fst v p)" if "P v" for v dg
  proof -
    assume dg: "jo_original_digest o' = Some dg"
    have "fst v p = None \<or> fst v p = t0" "matches_original h o' (snap t0)" using that Some by (auto simp: P_def within_def settled_def value_at_def)
    then show ?thesis using i dg by (cases "snap t0") (auto simp: exact_node_def snapshot_matches_simps)
  qed
  have digest: "jo_original_digest o' \<noteq> None" if "P v" for v
    using that i by (cases "snap t0") (auto simp: P_def within_def settled_def snapshot_matches_simps)
  let ?E = "\<lambda>v. P v \<and> \<not> (calm h \<and> tidy o' (snd start))"
  have remove: "triple h P (remove_operation_aux_exact o' p i dg (jo_original_mode o')) (\<lambda>_ v. P v \<and> fst v p = None) (\<lambda>_. ?E) (trouble h P)"
    if dg: "jo_original_digest o' = Some dg" for dg
    unfolding remove_operation_aux_exact_def
  proof (rule triple_bind [where R = "\<lambda>a v. a = handle_of p \<and> P v"])
    show "triple h P (check_aux_parent o' p) (\<lambda>a v. a = handle_of p \<and> P v) (\<lambda>_. ?E) (trouble h P)"
      by (rule triple_conseq [OF triple_check_aux_parent [OF assms(1) p(1), where P = P]])
        (use assms(2) p(1) in \<open>auto simp: P_def within_def tidy_def\<close>)
  next
    fix a
    have "triple h P (remove_at_exact_mode (handle_of p) i dg (jo_original_mode o')) (\<lambda>_ v. P v \<and> fst v p = None) (\<lambda>_. ?E) (trouble h P)"
    proof (rule triple_conseq [OF triple_remove_exact [where P = P]])
      fix f d assume "P (f, d)"
      then show "P (f(p := None), d)"
        using p Some by (auto simp: P_def within_def settled_def value_at_def split: option.splits)
    next
      fix v assume v: "P v \<and> (calm h \<longrightarrow> \<not> (plain v p \<and> exact_node h i dg (jo_original_mode o') (fst v p)))"
      have "regular_or_none (fst v p)" "snd v = snd start"
        using v Some by (auto simp: P_def within_def settled_def value_at_def regular_or_none_def)
      then have "plain v p" if "tidy o' (snd start)" using that p(1) by (auto simp: tidy_def intro: plainI)
      then show "?E v" using v exact [OF _ dg] by blast
    qed (use facts(1) p in \<open>simp_all add: P_def within_def\<close>)
    then show "triple h (\<lambda>v. a = handle_of p \<and> P v) (remove_at_exact_mode a i dg (jo_original_mode o')) (\<lambda>_ v. P v \<and> fst v p = None) (\<lambda>_. ?E) (trouble h P)"
      by (intro triple_assume) simp
  qed
  show ?thesis
  proof (cases "jo_original_digest o'")
    case None
    then show ?thesis using digest by (auto intro!: triple_pure simp: cleanup_backup_def Some i)
  next
    case (Some dg)
    show ?thesis
      unfolding cleanup_backup_def \<open>jo_backup o' = Some p\<close> i Some option.case prod.case
      by (intro triple_noted triple_conseq [OF remove [OF Some]]) (auto simp: value_at_def)
  qed
qed


lemma triple_cleanup_stages:
  assumes "sound_ops h ts ops d" "local_outside (footprints ops) G"
  shows "triple h (among G d (settled_in h ts) ops) (cleanup_stages ops)
    (\<lambda>errors v. among G d (settled_in h ts) ops v \<and> (errors \<noteq> [] \<longrightarrow> \<not> (calm h \<and> (\<forall>y\<in>set ops. tidy y d)))) E
    (trouble h (among G d (settled_in h ts) ops))"
  unfolding cleanup_stages_def
proof (rule triple_conseq [OF triple_each [OF sound_opsD(1) [OF assms(1)] refl sound_opsD(2) [OF assms(1)] assms(2) footprint_local_settled]])
  fix x and start :: view assume x: "x \<in> set ops" and d: "snd start = d"
  show "triple h (within x (settled_in h ts x) start) (case jo_stage x of None \<Rightarrow> pure [] | Some stage \<Rightarrow> noted ''stage'' (remove_owned_stage x stage))
      (\<lambda>errors v. within x (settled_in h ts x) start v \<and> (errors = [] \<longrightarrow> True) \<and> (errors \<noteq> [] \<longrightarrow> \<not> (calm h \<and> (\<forall>y\<in>set ops. tidy y d))))
      (\<lambda>_ _. False) (trouble h (within x (settled_in h ts x) start))"
    unfolding settled_in_def
    by (rule triple_conseq [OF triple_cleanup_stage [where E = "\<lambda>_ _. False"]]) (use sound_opsD(3,4) [OF assms(1) x] d x in auto)
qed (simp_all add: footprint_local_def)

lemma triple_cleanup_backups:
  assumes "sound_ops h ts ops d" "local_outside (footprints ops) G"
  shows "triple h (among G d (settled_in h ts) ops) (for_each cleanup_backup ops)
    (\<lambda>errors v. among G d (settled_in h ts) ops v \<and> (errors = [] \<longrightarrow> (\<forall>y\<in>set ops. value_at (fst v) (jo_backup y) = None)) \<and>
       (errors \<noteq> [] \<longrightarrow> \<not> (calm h \<and> (\<forall>y\<in>set ops. tidy y d)))) E (trouble h (among G d (settled_in h ts) ops))"
proof (rule triple_each [OF sound_opsD(1) [OF assms(1)] refl sound_opsD(2) [OF assms(1)] assms(2) footprint_local_settled footprint_local_finished])
  fix x and start :: view assume x: "x \<in> set ops" and d: "snd start = d"
  show "triple h (within x (settled_in h ts x) start) (cleanup_backup x)
      (\<lambda>errors v. within x (settled_in h ts x) start v \<and> (errors = [] \<longrightarrow> value_at (fst v) (jo_backup x) = None) \<and>
         (errors \<noteq> [] \<longrightarrow> \<not> (calm h \<and> (\<forall>y\<in>set ops. tidy y d)))) (\<lambda>_ _. False) (trouble h (within x (settled_in h ts x) start))"
    unfolding settled_in_def
    by (rule triple_conseq [OF triple_cleanup_backup [where E = "\<lambda>_ _. False"]]) (use sound_opsD(3,4) [OF assms(1) x] d x in auto)
qed

lemma triple_cleanup_committed:
  assumes "sound_ops h ts ops d" "local_outside (footprints ops) G"
  shows "triple h (among G d (settled_in h ts) ops) (cleanup_committed ops)
    (\<lambda>errors v. among G d (settled_in h ts) ops v \<and> (errors = [] \<longrightarrow> (\<forall>y\<in>set ops. finished y (contents_of ts y) (fst v))) \<and>
       (errors \<noteq> [] \<longrightarrow> \<not> (calm h \<and> (\<forall>y\<in>set ops. tidy y d)))) E (trouble h (among G d (settled_in h ts) ops))"
  unfolding cleanup_committed_def
proof (rule triple_bind [OF triple_cleanup_stages [OF assms]])
  fix first :: "string list"
  let ?I = "among G d (settled_in h ts) ops" and ?B = "\<not> (calm h \<and> (\<forall>y\<in>set ops. tidy y d))"
  have fin: "finished y (contents_of ts y) (fst v)" if "?I v" "y \<in> set ops" "value_at (fst v) (jo_backup y) = None" for y v
    using that by (auto simp: among_def settled_in_def settled_def finished_def)
  have "triple h (\<lambda>v. (first \<noteq> [] \<longrightarrow> ?B) \<and> ?I v) (pbind (for_each cleanup_backup ops) (\<lambda>rest. pure (first @ rest)))
      (\<lambda>errors v. ?I v \<and> (errors = [] \<longrightarrow> (\<forall>y\<in>set ops. finished y (contents_of ts y) (fst v))) \<and> (errors \<noteq> [] \<longrightarrow> ?B)) E (trouble h ?I)"
  proof (rule triple_assume, rule triple_bind [OF triple_cleanup_backups [OF assms]])
    fix rest :: "string list" assume first: "first \<noteq> [] \<longrightarrow> ?B"
    show "triple h (\<lambda>v. ?I v \<and> (rest = [] \<longrightarrow> (\<forall>y\<in>set ops. value_at (fst v) (jo_backup y) = None)) \<and> (rest \<noteq> [] \<longrightarrow> ?B)) (pure (first @ rest))
        (\<lambda>errors v. ?I v \<and> (errors = [] \<longrightarrow> (\<forall>y\<in>set ops. finished y (contents_of ts y) (fst v))) \<and> (errors \<noteq> [] \<longrightarrow> ?B)) E (trouble h ?I)"
      by (rule triple_pure) (use first fin in auto)
  qed
  then show "triple h (\<lambda>v. ?I v \<and> (first \<noteq> [] \<longrightarrow> ?B)) (pbind (for_each cleanup_backup ops) (\<lambda>rest. pure (first @ rest)))
      (\<lambda>errors v. ?I v \<and> (errors = [] \<longrightarrow> (\<forall>y\<in>set ops. finished y (contents_of ts y) (fst v))) \<and> (errors \<noteq> [] \<longrightarrow> ?B)) E (trouble h ?I)"
    by (rule triple_pre) blast
qed

end
