(* ===== verification/Pub_Commit.thy ===== *)
theory Pub_Commit
  imports Pub_Apply
begin

text \<open>
  The journal file of a transaction, and the commit: which journal is in place at each moment, and
  what a crash, an error or success leaves behind.
\<close>

section \<open>The journal file\<close>

definition aux_path :: "Journal host \<Rightarrow> path \<Rightarrow> string \<Rightarrow> u64 \<Rightarrow> path" where
  "aux_path h p purpose nonce = butlast p @ [Normal (sibling_name h (ph_leaf (handle_of p)) purpose nonce)]"

definition journal_stage :: "Journal host \<Rightarrow> path \<Rightarrow> path" where
  "journal_stage h jp = aux_path h jp ''journal-stage'' 0"

definition holds_journal :: "Journal host \<Rightarrow> fs_node option \<Rightarrow> Journal option \<Rightarrow> bool" where
  "holds_journal h n j =
     (case j of None \<Rightarrow> n = None | Some j' \<Rightarrow> \<exists>i bs m. n = Some (Regular i bs m) \<and> parse_journal h bs = Inr j')"

definition stage_file_ok :: "fs_node option \<Rightarrow> bool" where
  "stage_file_ok n = (n = None \<or> (\<exists>i bs m. n = Some (Regular i bs m) \<and> owned_stage bs))"

text \<open>One of the journals \<open>A\<close> is in place, or none when \<open>A\<close> has \<^term>\<open>None\<close>.\<close>

definition journal_in :: "Journal host \<Rightarrow> path \<Rightarrow> Journal option set \<Rightarrow> view \<Rightarrow> bool" where
  "journal_in h jp A v = ((\<exists>j\<in>A. holds_journal h (fst v jp) j) \<and> stage_file_ok (fst v (journal_stage h jp)))"

definition journal_place :: "Journal host \<Rightarrow> path \<Rightarrow> (path \<Rightarrow> FileIdentity option) \<Rightarrow> bool" where
  "journal_place h jp d = (normal_path jp \<and> jp \<noteq> journal_stage h jp \<and> dirs_ok d jp \<and> d jp = None \<and> d (journal_stage h jp) = None)"

definition journal_paths :: "Journal host \<Rightarrow> path \<Rightarrow> path set" where
  "journal_paths h jp = {jp, journal_stage h jp}"

definition journal_roundtrip :: "Journal host \<Rightarrow> bool" where
  "journal_roundtrip h = (\<forall>j bs. ho_encode h j = Some bs \<longrightarrow> ho_decode h bs = Some j)"

lemma normal_sibling: "normal_path p \<Longrightarrow> normal_path (butlast p @ [Normal name])"
proof -
  assume "normal_path p"
  then obtain names leaf where "butlast p = RootDir # map Normal names" by (rule normal_path_parts)
  then have "butlast p @ [Normal name] = RootDir # map Normal (names @ [name])" by simp
  then show ?thesis unfolding normal_path_def by blast
qed

lemma dirs_ok_sibling: "dirs_ok d p \<Longrightarrow> normal_path p \<Longrightarrow> dirs_ok d (butlast p @ [Normal name])"
proof (cases p rule: rev_cases)
  case (snoc q x)
  assume "dirs_ok d p"
  then show ?thesis by (auto simp: snoc dirs_ok_def less_Suc_eq_le)
qed (simp add: normal_path_def)

lemma journal_placeD:
  assumes "journal_place h jp d"
  shows "normal_path jp" "normal_path (journal_stage h jp)" "jp \<noteq> journal_stage h jp" "dirs_ok d jp" "dirs_ok d (journal_stage h jp)"
    and "d jp = None" "d (journal_stage h jp) = None"
  using assms normal_sibling dirs_ok_sibling unfolding journal_place_def journal_stage_def aux_path_def by blast+

lemma owned_prefix: "owned_stage (take n (JOURNAL_STAGE_MAGIC @ bs))"
proof (cases "n \<le> length JOURNAL_STAGE_MAGIC")
  case True
  then have "take n (JOURNAL_STAGE_MAGIC @ bs) @ drop n JOURNAL_STAGE_MAGIC = JOURNAL_STAGE_MAGIC" by simp
  then show ?thesis unfolding owned_stage_def starts_with_iff by metis
next
  case False
  then show ?thesis by (simp add: owned_stage_def starts_with_iff)
qed

lemma outside_upd: "local_outside S P \<Longrightarrow> p \<in> S \<Longrightarrow> P (f, d) \<Longrightarrow> P (f(p := x), d)"
  by (erule local_outsideD) auto

text \<open>The journal primitives change the two journal paths only; \<open>P\<close> is whatever else is the case.\<close>

definition journalling :: "Journal host \<Rightarrow> path \<Rightarrow> (path \<Rightarrow> FileIdentity option) \<Rightarrow> (view \<Rightarrow> bool) \<Rightarrow> bool" where
  "journalling h jp d P =
     (reads_ok h \<and> journal_place h jp d \<and> local_outside (journal_paths h jp) P \<and> (\<forall>v. P v \<longrightarrow> snd v = d))"

lemma journallingD:
  assumes "journalling h jp d P"
  shows "reads_ok h" "journal_place h jp d" "P v \<Longrightarrow> snd v = d"
    "P (f, d') \<Longrightarrow> P (f(jp := x), d')" "P (f, d') \<Longrightarrow> P (f(journal_stage h jp := x), d')"
proof -
  have "local_outside (journal_paths h jp) P" using assms by (simp add: journalling_def)
  note upd = outside_upd [OF this]
  show "reads_ok h" "journal_place h jp d" "P v \<Longrightarrow> snd v = d" using assms unfolding journalling_def by blast+
  show "P (f, d') \<Longrightarrow> P (f(jp := x), d')" "P (f, d') \<Longrightarrow> P (f(journal_stage h jp := x), d')"
    using upd by (auto simp: journal_paths_def)
qed

lemma triple_journal_stage_path:
  assumes "journalling h jp d P" "\<And>v. P' v \<Longrightarrow> P v"
  shows "triple h P' (journal_stage_path jp) (\<lambda>s v. s = journal_stage h jp \<and> P' v) (\<lambda>_ _. False) (trouble h P')"
proof -
  note jd = journallingD [OF assms(1)] and place = journal_placeD [OF journallingD(2) [OF assms(1)]]
  show ?thesis
    unfolding journal_stage_path_def
    apply (rule triple_ask)
    apply (rule triple_bind [where R = "\<lambda>a v. a = handle_of jp \<and> P' v"])
     apply (rule triple_conseq [OF triple_open_parent [where P = P' and C = "trouble h P'"]])
            apply (use jd(1) place(1,4) assms(2) jd(3) in \<open>auto\<close>)[8]
    apply (rule triple_assume)
    apply (auto intro!: triple_pure simp: journal_stage_def aux_path_def handle_of_def)
    done
qed

lemma triple_cleanup_journal_stage:
  fixes A :: "Journal option set"
  assumes "journalling h jp d P"
  defines "K \<equiv> (\<lambda>v. journal_in h jp A v \<and> P v)"
  shows "triple h K (cleanup_journal_stage jp) (\<lambda>_ v. K v \<and> fst v (journal_stage h jp) = None) (\<lambda>_. trouble h K) (trouble h K)"
proof -
  note jd = journallingD [OF assms(1)] and place = journal_placeD [OF journallingD(2) [OF assms(1)]]
  let ?s = "journal_stage h jp"
  have dirs: "dirs_ok (snd v) ?s" if "K v" for v using that jd(3) place(5) by (simp add: K_def)
  have plain: "plain v ?s" if "K v" for v
    using that jd(3) [of v] place(7) by (auto simp: K_def journal_in_def stage_file_ok_def plain_def)
  have upd: "K (f(?s := None), d')" if "K (f, d')" for f d'
    using that jd(5) place(3) by (auto simp: K_def journal_in_def stage_file_ok_def)
  have remove: "triple h (\<lambda>v. K v \<and> plain v ?s \<and> s = map_option (\<lambda>(i, bs, _). (i, bs)) (snap (fst v ?s)))
      (case s of None \<Rightarrow> pure () | Some (identity, bytes) \<Rightarrow>
         pensure (owned_stage bytes) rollback_error (remove_regular_exact ?s identity (digest_of h bytes)))
      (\<lambda>_ v. K v \<and> fst v ?s = None) (\<lambda>_. trouble h K) (trouble h K)" for s
  proof (cases s)
    case None
    then show ?thesis by (auto intro!: triple_pure dest: plain_snap_None [THEN iffD1])
  next
    case (Some x)
    obtain i bs where x: "x = (i, bs)" by (cases x)
    let ?P = "\<lambda>v. K v \<and> (fst v ?s = None \<or> (\<exists>m. fst v ?s = Some (Regular i bs m)))"
    have here: "?P v \<and> owned_stage bs" if v: "K v \<and> plain v ?s \<and> s = map_option (\<lambda>(i, bs, _). (i, bs)) (snap (fst v ?s))" for v
    proof -
      obtain m where m: "fst v ?s = Some (Regular i bs m)"
        using v Some x by (cases "snap (fst v ?s)") (auto simp: snap_eq_Some)
      moreover from this have "owned_stage bs" using v by (auto simp: K_def journal_in_def stage_file_ok_def)
      ultimately show ?thesis using v by blast
    qed
    have "triple h ?P (remove_regular_exact ?s i (digest_of h bs)) (\<lambda>_ v. K v \<and> fst v ?s = None) (\<lambda>_. trouble h K) (trouble h K)"
    proof (rule triple_conseq [OF triple_remove_regular [where P = ?P]])
      fix v assume v: "?P v \<and> (calm h \<longrightarrow> \<not> (plain v ?s \<and> exact_node h i (digest_of h bs) None (fst v ?s)))"
      then have "exact_node h i (digest_of h bs) None (fst v ?s)" by (auto simp: exact_node_def)
      then show "trouble h K v" using v plain by blast
    qed (use jd(1) place(2) dirs upd in auto)
    then show ?thesis
      unfolding Some x option.case prod.case
      by (intro triple_ensure; (elim triple_pre)?) (use here [unfolded Some x] in blast)+
  qed
  show ?thesis
    unfolding cleanup_journal_stage_def
    apply (rule triple_ask)
    apply (rule triple_bind [where R = "\<lambda>s v. s = ?s \<and> K v"])
     apply (rule triple_conseq [OF triple_journal_stage_path [OF assms(1), where P' = K]])
         apply (simp_all add: K_def)[5]
    apply (rule triple_assume, hypsubst)
    apply (rule triple_bind [OF _ remove])
    apply (rule triple_conseq [OF triple_read_regular [where P = K and p = "?s"]])
          apply (use jd(1) place(2) dirs plain in blast)+
    done
qed


lemma triple_rename:
  assumes "\<And>f d n. P (f, d) \<Longrightarrow> f a = Some n \<Longrightarrow> Q (f(a := None, b := Some n), d)"
  shows "triple h P (sys_rename a b) (\<lambda>_. Q) (\<lambda>_. P) P"
  unfolding sys_rename_def
  by (rule triple_sys_changing) (use assms in \<open>auto simp: view_def split: option.splits\<close>)

lemma triple_identity_at:
  assumes "reads_ok h"
  shows "triple h P (identity_at parent) (\<lambda>_. P) (\<lambda>_. P) P"
  unfolding identity_at_def sys_stat_def
  by (rule triple_sys_reading) (use assms in \<open>auto simp: view_def split: option.splits fs_node.splits\<close>)

lemma parse_encoded: "journal_roundtrip h \<Longrightarrow> ho_encode h j = Some bs \<Longrightarrow> parse_journal h (JOURNAL_STAGE_MAGIC @ bs) = Inr j"
  by (simp add: parse_journal_def strip_prefix_def starts_with_iff ok_or_def journal_roundtrip_def)

lemma triple_install_journal:
  assumes "journalling h jp d P" "parse_journal h bs = Inr j"
  shows "triple h (\<lambda>v. (journal_in h jp A v \<and> P v) \<and> (\<exists>m. fst v (journal_stage h jp) = Some (Regular i bs m)))
    (install_journal (journal_stage h jp) (handle_of jp)) (\<lambda>_ v. journal_in h jp {Some j} v \<and> P v)
    (\<lambda>_ v. journal_in h jp (insert (Some j) A) v \<and> P v) (\<lambda>v. journal_in h jp (insert (Some j) A) v \<and> P v)"
proof -
  note jd = journallingD [OF assms(1)] and place = journal_placeD [OF journallingD(2) [OF assms(1)]]
  let ?s = "journal_stage h jp"
  let ?B = "\<lambda>v. (journal_in h jp A v \<and> P v) \<and> (\<exists>m. fst v ?s = Some (Regular i bs m))"
  let ?N = "\<lambda>v. journal_in h jp {Some j} v \<and> P v" and ?E = "\<lambda>v. journal_in h jp (insert (Some j) A) v \<and> P v"
  have done': "?N (f(?s := None, jp := Some n), d')" if "?B (f, d')" "f ?s = Some n" for f d' n
    using that jd(4,5) place(3) assms(2) by (auto simp: journal_in_def holds_journal_def stage_file_ok_def)
  have weak: "?E v" if "?B v \<or> ?N v" for v using that by (auto simp: journal_in_def)
  show ?thesis
    unfolding install_journal_def
    apply (rule triple_bind [where R = "\<lambda>a v. a = handle_of ?s \<and> ?B v"])
     apply (rule triple_conseq [OF triple_open_parent [where P = ?B and C = ?B]])
            apply (use jd(1,3) place(2,5) weak in auto)[8]
    apply (rule triple_assume, hypsubst, unfold handle_of_target [OF place(1)] handle_of_target [OF place(2)])
    apply (rule triple_bind [where R = "\<lambda>_. ?B"])
     apply (rule triple_conseq [OF triple_identity_at [OF jd(1), where P = ?B]])
        apply (use weak in blast)+
    apply (rule triple_bind [where R = "\<lambda>_. ?N"])
    subgoal for a existing
      apply (cases "existing \<noteq> None")
       apply (simp only: if_True not_False_eq_True)
       apply (rule triple_conseq [OF triple_rename [where P = ?B and Q = ?N]])
           apply (use weak done' in blast)+
      apply (simp only: if_False not_True_eq_False)
      apply (rule triple_conseq [OF triple_rename_noclobber [where P = ?B and Q = ?N]])
            apply (use place(1,2) weak done' in blast)+
      done
    apply (rule triple_conseq [OF triple_fsync [where P = ?N]])
       apply (use weak in blast)+
    done
qed

text \<open>Writing a journal leaves it, or what was there before, in place.\<close>

lemma triple_write_journal:
  assumes "journalling h jp d P" "journal_roundtrip h" "fresh_identities h"
  shows "triple h (\<lambda>v. journal_in h jp A v \<and> P v) (write_journal jp j) (\<lambda>_ v. journal_in h jp {Some j} v \<and> P v)
    (\<lambda>_ v. journal_in h jp (insert (Some j) A) v \<and> P v) (\<lambda>v. journal_in h jp (insert (Some j) A) v \<and> P v)"
proof -
  note jd = journallingD [OF assms(1)] and place = journal_placeD [OF journallingD(2) [OF assms(1)]]
  let ?s = "journal_stage h jp" and ?K = "\<lambda>v. journal_in h jp A v \<and> P v" and ?E = "\<lambda>v. journal_in h jp (insert (Some j) A) v \<and> P v"
  have weak: "?E v" if "?K v" for v using that by (auto simp: journal_in_def)
  have clear: "?E (f(?s := None), d')" if "?E (f, d')" for f d'
    using that jd(5) place(3) by (auto simp: journal_in_def stage_file_ok_def)
  have dirs: "dirs_ok (snd v) jp" "dirs_ok (snd v) ?s" if "P v" for v using jd(3) [OF that] place(4,5) by auto
  have cleanup: "triple h ?E (attempt (remove_regular_exact ?s i dg)) (\<lambda>_. ?E) (\<lambda>_. ?E) ?E" for i dg
    by (rule triple_attempt, rule triple_conseq [OF triple_remove_regular [where P = ?E]]) (use jd(1) place(2) dirs clear in blast)+
  show ?thesis
  proof (cases "ho_encode h j")
    case None
    show ?thesis
      unfolding write_journal_def encode_journal_def
      apply (rule triple_ask, rule triple_bind [where R = "\<lambda>_ _. False"])
       apply (rule triple_ask, simp only: None option.case, rule triple_pfail, use weak in blast)
      apply (simp add: triple_def)
      done
  next
    case (Some json)
    let ?bs = "JOURNAL_STAGE_MAGIC @ json"
    have fill: "?K (f(?s := Some (Regular i (take n ?bs) m)), d')" if "?K (f, d')" for f d' i n m
      using that jd(5) place(3) owned_prefix [of n json] by (auto simp: journal_in_def stage_file_ok_def)
    have empty: "?K (f(?s := None), d')" if "?K (f, d')" for f d'
      using that jd(5) place(3) by (auto simp: journal_in_def stage_file_ok_def)
    show ?thesis
      unfolding write_journal_def encode_journal_def
      apply (rule triple_ask)
      apply (rule triple_bind [where R = "\<lambda>bs v. bs = ?bs \<and> ?K v"])
       apply (rule triple_ask, simp only: Some option.case, rule triple_pure, blast)
      apply (rule triple_assume, hypsubst)
      apply (rule triple_bind [where R = "\<lambda>a v. a = handle_of jp \<and> ?K v"])
       apply (rule triple_conseq [OF triple_open_parent [where P = ?K and C = ?K]])
              apply (use jd(1) place(1) dirs weak in blast)+
      apply (rule triple_assume, hypsubst)
      apply (rule triple_bind [where R = "\<lambda>s v. s = ?s \<and> ?K v"])
       apply (rule triple_conseq [OF triple_journal_stage_path [OF assms(1), where P' = ?K]])
           apply (use weak in blast)+
      apply (rule triple_assume, hypsubst)
      apply (rule triple_bind [where R = "\<lambda>_. ?K"])
       apply (rule triple_conseq [OF triple_cleanup_journal_stage [OF assms(1), where A = A]])
          apply (use weak in blast)+
      apply (rule triple_bind [where R = "\<lambda>i v. ?K v \<and> (\<exists>m. fst v ?s = Some (Regular i ?bs m))"])
       apply (rule triple_conseq [OF triple_write_new_file [where P = ?K and p = ?s and bs = ?bs and mode = "0x180"]])
                apply (use jd(1) assms(3) place(2) dirs fill empty weak in blast)+
      subgoal for bs a s u i
        apply (rule triple_bind [where R = "\<lambda>r v. if is_ok r then journal_in h jp {Some j} v \<and> P v else ?E v"])
         apply (rule triple_attempt)
         apply (rule triple_conseq [OF triple_install_journal [OF assms(1) parse_encoded [OF assms(2) Some], of A i]])
            apply (simp_all)[4]
        subgoal for r
          apply (cases r)
           apply (simp only: sum.case is_ok_simps if_False)
           apply (rule triple_bind [OF cleanup])
           apply (rule triple_pfail, blast)
          apply (auto intro!: triple_pure)
          done
        done
      done
  qed
qed

text \<open>Removing the journal with the identity that was read.\<close>

lemma triple_remove_journal:
  assumes "journalling h jp d P"
  shows "triple h (\<lambda>v. (journal_in h jp A v \<and> P v) \<and> fst v jp = Some (Regular i bs m)) (remove_journal jp i)
    (\<lambda>_ v. journal_in h jp {None} v \<and> P v)
    (\<lambda>_. trouble h (\<lambda>v. journal_in h jp (insert None A) v \<and> P v)) (trouble h (\<lambda>v. journal_in h jp (insert None A) v \<and> P v))"
proof -
  note jd = journallingD [OF assms(1)] and place = journal_placeD [OF journallingD(2) [OF assms(1)]]
  let ?K = "\<lambda>v. (journal_in h jp A v \<and> P v) \<and> fst v jp = Some (Regular i bs m)" and ?E = "\<lambda>v. journal_in h jp (insert None A) v \<and> P v"
  let ?R = "\<lambda>v. ?E v \<and> (fst v jp = None \<or> fst v jp = Some (Regular i bs m))"
  have dirs: "dirs_ok (snd v) jp" if "P v" for v using jd(3) [OF that] place(4) by auto
  have plain: "plain v jp" if "?R v" for v using that jd(3) [of v] place(6) by (auto simp: plain_def)
  have weak: "?R v" if "?K v" for v using that by (auto simp: journal_in_def)
  have gone: "?R (f(jp := None), d')" if "?R (f, d')" for f d'
    using that jd(4) place(3) by (auto simp: journal_in_def holds_journal_def)
  have remove: "triple h ?R (remove_regular_exact jp i (digest_of h bs)) (\<lambda>_ v. journal_in h jp {None} v \<and> P v) (\<lambda>_. trouble h ?E) (trouble h ?E)"
  proof (rule triple_conseq [OF triple_remove_regular [where P = ?R]])
    fix v assume "?R v \<and> fst v jp = None"
    then show "journal_in h jp {None} v \<and> P v" by (auto simp: journal_in_def holds_journal_def)
  next
    fix v assume v: "?R v \<and> (calm h \<longrightarrow> \<not> (plain v jp \<and> exact_node h i (digest_of h bs) None (fst v jp)))"
    then have "exact_node h i (digest_of h bs) None (fst v jp)" by (auto simp: exact_node_def)
    then show "trouble h ?E v" using v plain by blast
  qed (use jd(1) place(1) dirs gone in blast)+
  have reading: "triple h ?K (read_regular jp) (\<lambda>s v. s = Some (i, bs) \<and> ?K v) (\<lambda>_. trouble h ?E) (trouble h ?E)"
  proof (rule triple_conseq [OF triple_read_regular [where P = ?K and p = jp]])
    fix s v assume "?K v \<and> plain v jp \<and> s = map_option (\<lambda>(i, bs, _). (i, bs)) (snap (fst v jp))"
    then show "s = Some (i, bs) \<and> ?K v" by simp
  qed (use jd(1) place(1) dirs weak plain in blast)+
  show ?thesis
    unfolding remove_journal_def
    apply (rule triple_ask, rule triple_bind [OF reading])
    apply (rule triple_assume, simp only: option.case prod.case)
    apply (rule triple_pre [OF remove], use weak in blast)
    done
qed

end
