(* ===== verification/Pub_Plan.thy ===== *)
theory Pub_Plan
  imports Pub_Commit
begin

text \<open>
  Planning a transaction: the operations and the names of their auxiliary files, with the missing
  parent directories created on the way.
\<close>

section \<open>The operations of a plan\<close>

fun change_contents :: "PlannedChange \<Rightarrow> bytes option" where
  "change_contents c = (case pc_desired c of Write bs mode \<Rightarrow> Some bs | Remove \<Rightarrow> None)"

definition planned_op :: "Journal host \<Rightarrow> (path \<Rightarrow> FileIdentity option) \<Rightarrow> u64 \<Rightarrow> PlannedChange \<Rightarrow> JournalOperation" where
  "planned_op h d nonce c =
     \<lparr>jo_target = pc_path c,
      jo_stage = (case pc_desired c of Write _ _ \<Rightarrow> Some (aux_path h (pc_path c) ''stage'' nonce) | Remove \<Rightarrow> None),
      jo_backup = map_option (\<lambda>_. aux_path h (pc_path c) ''backup'' nonce) (pc_original c),
      jo_parent_identity = the (d (butlast (pc_path c))),
      jo_original = pc_original c, jo_original_digest = pc_original_digest c, jo_original_mode = pc_original_mode c,
      jo_desired_digest = map_option (digest_of h) (change_contents c),
      jo_desired_mode = (case pc_desired c of Write _ mode \<Rightarrow> Some mode | Remove \<Rightarrow> None), jo_installed = None\<rparr>"

fun planned_ops :: "Journal host \<Rightarrow> (path \<Rightarrow> FileIdentity option) \<Rightarrow> u64 \<Rightarrow> PlannedChange list \<Rightarrow> JournalOperation list" where
  "planned_ops h d nonce [] = []"
| "planned_ops h d nonce (c # cs) = planned_op h d nonce c # planned_ops h d (nonce + 1) cs"

section \<open>Directories created on the way\<close>

text \<open>Files stay, directories stay, and new directories are among \<open>S\<close>.\<close>

definition grows :: "path set \<Rightarrow> view \<Rightarrow> view \<Rightarrow> bool" where
  "grows S v v' = (fst v' = fst v \<and> (\<forall>p. snd v' p = snd v p \<or> snd v p = None \<and> p \<in> S))"

definition ancestors :: "path \<Rightarrow> path set" where
  "ancestors p = {take k p | k. 0 < k \<and> k < length p}"

lemma ancestorsI: "0 < k \<Longrightarrow> k < length p \<Longrightarrow> take k p \<in> ancestors p"
  unfolding ancestors_def by blast

lemma grows_refl: "grows S v v"
  by (simp add: grows_def)

lemma grows_trans: "grows S u v \<Longrightarrow> grows S v w \<Longrightarrow> grows S u w"
  unfolding grows_def by metis

lemma grows_dir: "grows S v v' \<Longrightarrow> snd v p = Some i \<Longrightarrow> snd v' p = Some i"
  unfolding grows_def by (metis option.distinct(1))

lemma grows_dirs_ok: "grows S v v' \<Longrightarrow> dirs_ok (snd v) p \<Longrightarrow> dirs_ok (snd v') p"
  unfolding dirs_ok_def using grows_dir by (metis not_None_eq)

lemma triple_if:
  "(c \<Longrightarrow> triple h P a Q E C) \<Longrightarrow> (\<not> c \<Longrightarrow> triple h P b Q E C) \<Longrightarrow> triple h P (if c then a else b) Q E C"
  by simp

lemma grows_mkdir:
  assumes "grows S u (f, d)" "d p = None" "p \<in> S"
  shows "grows S u (f, d(p := Some i))"
proof -
  have "snd u p = None" using assms(1,2) unfolding grows_def by (metis snd_conv)
  then show ?thesis using assms(1,3) by (auto simp: grows_def)
qed

lemma triple_open_next_create:
  assumes "reads_ok h" "p \<in> S"
  shows "triple h (grows S u) (open_next create p) (\<lambda>_ v. grows S u v \<and> snd v p \<noteq> None) (\<lambda>_. grows S u) (grows S u)"
proof -
  have look: "triple h (grows S u) (sys_open_dir p) (\<lambda>_ v. grows S u v \<and> snd v p \<noteq> None) (\<lambda>_. grows S u) (grows S u)"
    unfolding sys_open_dir_def by (rule triple_sys_reading) (use assms(1) in \<open>auto simp: view_def\<close>)
  have make: "triple h (grows S u) (sys_mkdir p) (\<lambda>_. grows S u) (\<lambda>_. grows S u) (grows S u)"
    unfolding sys_mkdir_def
    by (rule triple_sys_changing) (use assms(2) in \<open>auto simp: view_def exists_at_def intro: grows_mkdir split: option.splits\<close>)
  have sync: "triple h (grows S u) sys_fsync (\<lambda>_. grows S u) (\<lambda>_. grows S u) (grows S u)"
    by (rule triple_conseq [OF triple_fsync [where P = "grows S u"]]) blast+
  have fill: "triple h (grows S u) (pbind (attempt (sys_mkdir p)) (\<lambda>made.
      pbind (case made of Inr _ \<Rightarrow> sys_fsync | Inl e' \<Rightarrow> if e' = IoError AlreadyExists then pure () else pfail e') (\<lambda>_. sys_open_dir p)))
      (\<lambda>_ v. grows S u v \<and> snd v p \<noteq> None) (\<lambda>_. grows S u) (grows S u)"
  proof (rule triple_bind [OF triple_attempt [where Q = "\<lambda>_. grows S u"]])
    show "triple h (grows S u) (pbind (case made of Inr _ \<Rightarrow> sys_fsync | Inl e' \<Rightarrow> if e' = IoError AlreadyExists then pure () else pfail e')
        (\<lambda>_. sys_open_dir p)) (\<lambda>_ v. grows S u v \<and> snd v p \<noteq> None) (\<lambda>_. grows S u) (grows S u)" for made :: "(pub_error, unit) result"
      by (rule triple_bind [OF _ look], cases made) (auto intro!: triple_if triple_pure triple_pfail sync)
  qed (rule make)
  show ?thesis
    unfolding open_next_def
  proof (rule triple_bind [where R = "\<lambda>r v. grows S u v \<and> (is_ok r \<longrightarrow> snd v p \<noteq> None)"])
    fix r :: "(pub_error, unit) result"
    show "triple h (\<lambda>v. grows S u v \<and> (is_ok r \<longrightarrow> snd v p \<noteq> None))
      (case r of Inl e \<Rightarrow> if e = IoError NotFound \<and> create then pbind (attempt (sys_mkdir p)) (\<lambda>made.
          pbind (case made of Inl e' \<Rightarrow> if e' = IoError AlreadyExists then pure () else pfail e' | Inr _ \<Rightarrow> sys_fsync) (\<lambda>_. sys_open_dir p)) else pfail e
        | Inr _ \<Rightarrow> pure ()) (\<lambda>_ v. grows S u v \<and> snd v p \<noteq> None) (\<lambda>_. grows S u) (grows S u)"
      by (cases r, simp_all only: sum.case is_ok_simps, rule triple_pre [OF triple_if [OF fill triple_pfail]])
        (auto intro: triple_pure)
  qed (rule triple_attempt, rule triple_conseq [OF look], simp_all)
qed

lemma triple_open_components_create:
  assumes "reads_ok h"
  shows "(\<And>k. 0 < k \<Longrightarrow> k \<le> length names \<Longrightarrow> at @ map Normal (take k names) \<in> S) \<Longrightarrow>
    triple h (grows S u) (open_components create at (map Normal names))
      (\<lambda>t v. grows S u v \<and> t = at @ map Normal names \<and> (\<forall>k. 0 < k \<and> k \<le> length names \<longrightarrow> snd v (at @ map Normal (take k names)) \<noteq> None))
      (\<lambda>_. grows S u) (grows S u)"
proof (induction names arbitrary: at u)
  case Nil
  show ?case by (auto intro: triple_pure)
next
  case (Cons n ns)
  let ?at = "at @ [Normal n]"
  have "?at \<in> S" using Cons.prems [of 1] by simp
  note first = triple_open_next_create [OF assms this, of u create]
  have mem: "?at @ map Normal (take k ns) \<in> S" if "0 < k" "k \<le> length ns" for k using Cons.prems [of "Suc k"] that by simp
  show ?case
    unfolding open_components.simps list.map
  proof (rule triple_bind [OF first], rule triple_case)
    fix x v assume v: "grows S u v \<and> snd v ?at \<noteq> None"
    show "triple h (\<lambda>v'. v' = v) (open_components create ?at (map Normal ns))
      (\<lambda>t v. grows S u v \<and> t = at @ Normal n # map Normal ns \<and> (\<forall>k. 0 < k \<and> k \<le> length (n # ns) \<longrightarrow> snd v (at @ map Normal (take k (n # ns))) \<noteq> None))
      (\<lambda>_. grows S u) (grows S u)"
    proof (rule triple_conseq [OF Cons.IH [OF mem, of v]])
      fix t v' assume v': "grows S v v' \<and> t = ?at @ map Normal ns \<and> (\<forall>k. 0 < k \<and> k \<le> length ns \<longrightarrow> snd v' (?at @ map Normal (take k ns)) \<noteq> None)"
      have "snd v' (at @ map Normal (take k (n # ns))) \<noteq> None" if "0 < k" "k \<le> length (n # ns)" for k
      proof (cases k)
        case (Suc j)
        then show ?thesis using v v' that grows_dir [of S v v' ?at] by (cases "j = 0") auto
      qed (use that in simp)
      then show "grows S u v' \<and> t = at @ Normal n # map Normal ns \<and> (\<forall>k. 0 < k \<and> k \<le> length (n # ns) \<longrightarrow> snd v' (at @ map Normal (take k (n # ns))) \<noteq> None)"
        using v v' grows_trans [of S u v v'] by auto
    qed (use v grows_refl grows_trans in blast)+
  qed
qed


lemma triple_open_parent_create:
  assumes "reads_ok h" "normal_path p" "ancestors p \<subseteq> S"
  shows "triple h (grows S u) (open_parent p create) (\<lambda>a v. a = handle_of p \<and> grows S u v \<and> dirs_ok (snd v) p) (\<lambda>_. grows S u) (grows S u)"
proof -
  obtain names leaf where p: "p = RootDir # map Normal names @ [Normal leaf]" and b: "butlast p = RootDir # map Normal names"
    using normal_path_parts [OF assms(2)] .
  have mem: "[RootDir] @ map Normal (take k names) \<in> S" if "k \<le> length names" for k
  proof -
    have "take (Suc k) p = [RootDir] @ map Normal (take k names)" using that by (simp add: p take_map)
    moreover have "Suc k < length p" using that by (simp add: p)
    then have "take (Suc k) p \<in> S" using assms(3) ancestorsI [of "Suc k" p] by (simp add: subset_iff)
    ultimately show ?thesis by simp
  qed
  let ?G = "grows S u"
  have root: "triple h ?G (sys_open_dir [RootDir]) (\<lambda>_ v. ?G v \<and> snd v [RootDir] \<noteq> None) (\<lambda>_. ?G) ?G"
    unfolding sys_open_dir_def by (rule triple_sys_reading) (use assms(1) in \<open>auto simp: view_def\<close>)
  let ?W = "\<lambda>v. ?G v \<and> dirs_ok (snd v) p"
  have walk: "triple h (\<lambda>v. ?G v \<and> snd v [RootDir] \<noteq> None) (open_components create [RootDir] (map Normal names))
      (\<lambda>t v. t = [RootDir] @ map Normal names \<and> ?W v) (\<lambda>_. ?G) ?G"
  proof (rule triple_case)
    fix v assume v: "?G v \<and> snd v [RootDir] \<noteq> None"
    show "triple h (\<lambda>v'. v' = v) (open_components create [RootDir] (map Normal names))
      (\<lambda>t v. t = [RootDir] @ map Normal names \<and> ?W v) (\<lambda>_. ?G) ?G"
    proof (rule triple_conseq [OF triple_open_components_create [OF assms(1) mem, where u = v]])
      fix t v' assume v': "grows S v v' \<and> t = [RootDir] @ map Normal names \<and>
        (\<forall>k. 0 < k \<and> k \<le> length names \<longrightarrow> snd v' ([RootDir] @ map Normal (take k names)) \<noteq> None)"
      have "snd v' (take k p) \<noteq> None" if k: "0 < k" "k < length p" for k
      proof (cases k)
        case (Suc j)
        then have "take k p = [RootDir] @ map Normal (take j names)" using k by (simp add: p take_map)
        then show ?thesis using v v' k Suc grows_dir [of S v v' "[RootDir]"] by (cases "j = 0") (auto simp: p)
      qed (use k in simp)
      then show "t = [RootDir] @ map Normal names \<and> ?W v'" using v v' grows_trans [of S u v v'] by (auto simp: dirs_ok_def)
    qed (use v grows_refl grows_trans in blast)+
  qed
  have at: "snd v ([RootDir] @ map Normal names) \<noteq> None" if "?W v" for v
    using that by (auto simp: dirs_ok_def p dest!: conjunct2 spec [of _ "Suc (length names)"])
  have look: "triple h ?W (sys_open_dir ([RootDir] @ map Normal names)) (\<lambda>_. ?W) (\<lambda>_. ?G) ?G"
    by (rule triple_conseq [OF triple_open_dir [where P = ?W and C = ?W]]) (use assms(1) at in blast)+
  have stat: "triple h (\<lambda>v. ?W v \<and> X v) (sys_fstat_dir ([RootDir] @ map Normal names))
      (\<lambda>i v. (?W v \<and> X v) \<and> snd v ([RootDir] @ map Normal names) = Some i) (\<lambda>_. ?G) ?G" for X
    by (rule triple_conseq [OF triple_fstat_dir [where P = "\<lambda>v. ?W v \<and> X v" and C = ?W]]) (use assms(1) at in blast)+
  show ?thesis
    unfolding open_parent_def absolute_path_def
    apply (rule triple_bind [where R = "\<lambda>a v. a = p \<and> ?G v"])
     apply (simp add: p is_absolute_path_def, rule triple_pure, simp add: p)
    apply (rule triple_assume)
    apply (simp add: p file_name_def path_parent_def butlast_append)
    apply (rule triple_bind [OF root], rule triple_bind [OF walk], rule triple_assume, hypsubst)
    apply (rule triple_bind [OF triple_pre [OF stat [where X = "\<lambda>_. True"]]], blast)
    apply (rule triple_bind [where R = "\<lambda>_. ?W"])
     apply (rule triple_conseq [OF look], blast, blast, blast, blast)
    apply (rule triple_bind [OF triple_pre [OF stat [where X = "\<lambda>_. True"]]], blast)
    apply (rule triple_ensure, rule triple_pure)
     apply (simp add: handle_of_def p butlast_append)
    apply blast
    done
qed

section \<open>Planning\<close>

definition plan_ancestors :: "PlannedChange list \<Rightarrow> path set" where
  "plan_ancestors cs = (\<Union>c\<in>set cs. ancestors (pc_path c))"

lemma planned_op_grows: "grows S v v' \<Longrightarrow> dirs_ok (snd v) (pc_path c) \<Longrightarrow> normal_path (pc_path c) \<Longrightarrow>
    planned_op h (snd v') nonce c = planned_op h (snd v) nonce c"
proof -
  assume g: "grows S v v'" and ok: "dirs_ok (snd v) (pc_path c)" and "normal_path (pc_path c)"
  then obtain names leaf where "pc_path c = RootDir # map Normal names @ [Normal leaf]" by (blast elim: normal_path_parts)
  then have "snd v (butlast (pc_path c)) \<noteq> None"
    using ok by (auto simp: dirs_ok_def butlast_append dest!: spec [of _ "length (pc_path c) - 1"])
  then have "snd v' (butlast (pc_path c)) = snd v (butlast (pc_path c))" using grows_dir [OF g] by fastforce
  then show ?thesis by (simp add: planned_op_def)
qed

lemma triple_plan_operation:
  assumes "reads_ok h" "normal_path (pc_path c)" "ancestors (pc_path c) \<subseteq> S"
  shows "triple h (grows S u) (plan_operation nonce c)
    (\<lambda>r v. grows S u v \<and> dirs_ok (snd v) (pc_path c) \<and> r = (planned_op h (snd v) nonce c, change_contents c)) (\<lambda>_. grows S u) (grows S u)"
proof -
  let ?W = "\<lambda>v. grows S u v \<and> dirs_ok (snd v) (pc_path c)" and ?p = "butlast (pc_path c)"
  obtain names leaf where p: "pc_path c = RootDir # map Normal names @ [Normal leaf]" using normal_path_parts [OF assms(2)] .
  have at: "snd v ?p \<noteq> None" if "?W v" for v
    using that by (auto simp: dirs_ok_def p butlast_append dest!: conjunct2 spec [of _ "Suc (length names)"])
  have stat: "triple h ?W (sys_fstat_dir ?p) (\<lambda>i v. ?W v \<and> snd v ?p = Some i) (\<lambda>_. grows S u) (grows S u)"
    by (rule triple_conseq [OF triple_fstat_dir [where P = ?W and C = ?W]]) (use assms(1) at in blast)+
  show ?thesis
    unfolding plan_operation_def
    apply (rule triple_ask, simp only: id_apply)
    apply (rule triple_bind [OF triple_open_parent_create [OF assms]])
    apply (rule triple_assume, hypsubst)
    apply (cases "pc_desired c")
     apply (simp_all only: DesiredState.case Let_def prod.case handle_path)
     apply (rule triple_bind [OF stat], rule triple_pure, simp add: planned_op_def aux_path_def)
    apply (rule triple_bind [OF stat], rule triple_pure, simp add: planned_op_def aux_path_def)
    done
qed

lemma triple_plan_operations:
  assumes "reads_ok h"
  shows "(\<And>c. c \<in> set cs \<Longrightarrow> normal_path (pc_path c)) \<Longrightarrow> plan_ancestors cs \<subseteq> S \<Longrightarrow>
    triple h (grows S u) (plan_operations nonce cs)
      (\<lambda>r v. grows S u v \<and> (\<forall>c\<in>set cs. dirs_ok (snd v) (pc_path c)) \<and> r = zip (planned_ops h (snd v) nonce cs) (map change_contents cs))
      (\<lambda>_. grows S u) (grows S u)"
proof (induction cs arbitrary: u nonce)
  case Nil
  show ?case by (auto intro: triple_pure)
next
  case (Cons c cs)
  have c: "normal_path (pc_path c)" "ancestors (pc_path c) \<subseteq> S" and rest: "plan_ancestors cs \<subseteq> S"
    using Cons.prems by (auto simp: plan_ancestors_def)
  show ?case
    unfolding plan_operations.simps
  proof (rule triple_bind [OF triple_plan_operation [OF assms c]], rule triple_case)
    fix first v assume v: "grows S u v \<and> dirs_ok (snd v) (pc_path c) \<and> first = (planned_op h (snd v) nonce c, change_contents c)"
    show "triple h (\<lambda>v'. v' = v) (pbind (plan_operations (nonce + 1) cs) (\<lambda>others. pure (first # others)))
        (\<lambda>r v. grows S u v \<and> (\<forall>c\<in>set (c # cs). dirs_ok (snd v) (pc_path c)) \<and>
           r = zip (planned_ops h (snd v) nonce (c # cs)) (map change_contents (c # cs))) (\<lambda>_. grows S u) (grows S u)"
    proof (rule triple_bind [where R = "\<lambda>r v'. grows S v v' \<and> (\<forall>c\<in>set cs. dirs_ok (snd v') (pc_path c)) \<and>
          r = zip (planned_ops h (snd v') (nonce + 1) cs) (map change_contents cs)"])
      show "triple h (\<lambda>v'. v' = v) (plan_operations (nonce + 1) cs) (\<lambda>r v'. grows S v v' \<and> (\<forall>c\<in>set cs. dirs_ok (snd v') (pc_path c)) \<and>
          r = zip (planned_ops h (snd v') (nonce + 1) cs) (map change_contents cs)) (\<lambda>_. grows S u) (grows S u)"
        by (rule triple_conseq [OF Cons.IH [OF _ rest, of v "nonce + 1"]]) (use v grows_refl grows_trans Cons.prems(1) list.set_intros(2) in metis)+
    next
      fix others
      show "triple h (\<lambda>v'. grows S v v' \<and> (\<forall>c\<in>set cs. dirs_ok (snd v') (pc_path c)) \<and> others = zip (planned_ops h (snd v') (nonce + 1) cs) (map change_contents cs))
        (pure (first # others))
        (\<lambda>r v. grows S u v \<and> (\<forall>c\<in>set (c # cs). dirs_ok (snd v) (pc_path c)) \<and>
           r = zip (planned_ops h (snd v) nonce (c # cs)) (map change_contents (c # cs))) (\<lambda>_. grows S u) (grows S u)"
      proof (rule triple_pure)
        fix v' assume "grows S v v' \<and> (\<forall>c\<in>set cs. dirs_ok (snd v') (pc_path c)) \<and> others = zip (planned_ops h (snd v') (nonce + 1) cs) (map change_contents cs)"
        moreover from this v have "grows S u v'" "dirs_ok (snd v') (pc_path c)" "planned_op h (snd v') nonce c = planned_op h (snd v) nonce c"
          using grows_trans [of S u v v'] grows_dirs_ok [of S v v'] planned_op_grows [of S v v' c h nonce] c(1) by blast+
        ultimately show "grows S u v' \<and> (\<forall>c\<in>set (c # cs). dirs_ok (snd v') (pc_path c)) \<and>
           first # others = zip (planned_ops h (snd v') nonce (c # cs)) (map change_contents (c # cs))" using v by simp
      qed
    qed
  qed
qed

end
