(* ===== verification/Pub_Transaction.thy ===== *)
theory Pub_Transaction
  imports Pub_Plan
begin

text \<open>
  A transaction as a whole: its paths, the journals it writes, the states it can be found in, and
  what \<open>commit\<close> and \<open>recover_if_needed\<close> do to them.
\<close>

section \<open>Transactions\<close>

record transaction =
  tx_journal :: path
  tx_nonce :: u64
  tx_changes :: "PlannedChange list"
  tx_files :: "path \<Rightarrow> fs_node option"

definition tx_targets :: "transaction \<Rightarrow> targets" where
  "tx_targets tx =
     \<lparr>ts_contents = (\<lambda>p. case find (\<lambda>c. pc_path c = p) (tx_changes tx) of None \<Rightarrow> None | Some c \<Rightarrow> change_contents c),
      ts_original = tx_files tx\<rparr>"

definition tx_ops :: "Journal host \<Rightarrow> transaction \<Rightarrow> (path \<Rightarrow> FileIdentity option) \<Rightarrow> JournalOperation list" where
  "tx_ops h tx d = planned_ops h d (tx_nonce tx) (tx_changes tx)"

fun change_paths :: "Journal host \<Rightarrow> u64 \<Rightarrow> PlannedChange list \<Rightarrow> path list" where
  "change_paths h nonce [] = []"
| "change_paths h nonce (c # cs) =
     pc_path c # aux_path h (pc_path c) ''stage'' nonce # aux_path h (pc_path c) ''backup'' nonce # change_paths h (nonce + 1) cs"

definition tx_paths :: "Journal host \<Rightarrow> transaction \<Rightarrow> path list" where
  "tx_paths h tx = tx_journal tx # journal_stage h (tx_journal tx) # change_paths h (tx_nonce tx) (tx_changes tx)"

text \<open>
  A transaction that can start: all its paths are different, nothing is in the way of its journal
  and its auxiliary files, and none of its paths is a directory above one of its targets.
\<close>

definition tx_ok :: "Journal host \<Rightarrow> transaction \<Rightarrow> (path \<Rightarrow> FileIdentity option) \<Rightarrow> bool" where
  "tx_ok h tx d =
     (normal_path (tx_journal tx) \<and> (\<forall>c\<in>set (tx_changes tx). normal_path (pc_path c)) \<and> distinct (tx_paths h tx) \<and>
      dirs_ok d (tx_journal tx) \<and> (\<forall>p\<in>set (tx_paths h tx). d p = None \<and> p \<notin> plan_ancestors (tx_changes tx)) \<and>
      (\<forall>p\<in>set (tx_paths h tx) - pc_path ` set (tx_changes tx). tx_files tx p = None))"

text \<open>The identities of the staged files are recorded in the operations.\<close>

definition blank :: "JournalOperation \<Rightarrow> JournalOperation" where
  "blank y = y\<lparr>jo_installed := None\<rparr>"

definition tx_installed :: "Journal host \<Rightarrow> transaction \<Rightarrow> (path \<Rightarrow> FileIdentity option) \<Rightarrow> JournalOperation list \<Rightarrow> bool" where
  "tx_installed h tx d ops =
     (map blank ops = tx_ops h tx d \<and> (\<forall>y\<in>set ops. jo_installed y = None \<longleftrightarrow> contents_of (tx_targets tx) y = None))"

definition tx_journal_of :: "transaction \<Rightarrow> JournalState \<Rightarrow> JournalOperation list \<Rightarrow> Journal" where
  "tx_journal_of tx state ops =
     \<lparr>jn_schema = ascii ''aros-publication-journal-v3'', jn_nonce = tx_nonce tx, jn_state = state, jn_operations = ops\<rparr>"

section \<open>The operations of a transaction are sound\<close>

lemma aux_path_normal: "normal_path p \<Longrightarrow> normal_path (aux_path h p purpose nonce)"
  unfolding aux_path_def by (rule normal_sibling)

lemma footprint_planned:
  "footprint (planned_op h d n c) \<subseteq> {pc_path c, aux_path h (pc_path c) ''stage'' n, aux_path h (pc_path c) ''backup'' n}"
  by (auto simp: footprint_def planned_op_def split: DesiredState.splits)

lemma footprints_planned: "footprints (planned_ops h d n cs) \<subseteq> set (change_paths h n cs)"
proof (induction cs arbitrary: n)
  case (Cons c cs)
  then show ?case using footprint_planned [of h d n c] by (fastforce simp: footprints_def)
qed (simp add: footprints_def)

lemma apart_Cons: "footprint x \<inter> footprints xs = {} \<Longrightarrow> apart xs \<Longrightarrow> apart (x # xs)"
proof -
  assume dis: "footprint x \<inter> footprints xs = {}" and xs: "apart xs"
  have "jo_target x \<in> footprint x" by (simp add: footprint_def)
  then have "x \<notin> set xs" using dis by (auto simp: footprints_def)
  moreover have "footprint a \<inter> footprint b = {}" if "a \<in> set (x # xs)" "b \<in> set (x # xs)" "a \<noteq> b" for a b
    using that dis xs by (auto simp: footprints_def apart_def)
  ultimately show ?thesis using xs by (simp add: apart_def)
qed

lemma apart_planned: "distinct (change_paths h n cs) \<Longrightarrow> apart (planned_ops h d n cs)"
proof (induction cs arbitrary: n)
  case Nil
  show ?case by (simp add: apart_def)
next
  case (Cons c cs)
  have "footprint (planned_op h d n c) \<inter> footprints (planned_ops h d (n + 1) cs) = {}"
    using Cons.prems footprint_planned [of h d n c] footprints_planned [of h d "n + 1" cs] by fastforce
  then show ?case unfolding planned_ops.simps by (rule apart_Cons) (use Cons in simp)
qed

lemma planned_opsE:
  "y \<in> set (planned_ops h d n cs) \<Longrightarrow> distinct (change_paths h n cs) \<Longrightarrow>
    \<exists>c m. c \<in> set cs \<and> y = planned_op h d m c \<and> distinct [pc_path c, aux_path h (pc_path c) ''stage'' m, aux_path h (pc_path c) ''backup'' m]"
proof (induction cs arbitrary: n)
  case (Cons c cs)
  show ?case
  proof (cases "y = planned_op h d n c")
    case True
    then show ?thesis using Cons.prems by (intro exI [of _ c] exI [of _ n]) simp
  next
    case False
    then show ?thesis using Cons.IH [of "n + 1"] Cons.prems by auto
  qed
qed simp

lemma change_paths_targets: "c \<in> set cs \<Longrightarrow> pc_path c \<in> set (change_paths h n cs)"
  by (induction cs arbitrary: n) auto

lemma find_change: "distinct (change_paths h n cs) \<Longrightarrow> c \<in> set cs \<Longrightarrow> find (\<lambda>x. pc_path x = pc_path c) cs = Some c"
proof (induction cs arbitrary: n)
  case (Cons x cs)
  have "x = c" if "pc_path x = pc_path c" using that Cons.prems change_paths_targets [of c cs h "n + 1"] by auto
  then show ?case using Cons by auto
qed simp

lemma planned_op_wf:
  assumes "normal_path (pc_path c)" "distinct [pc_path c, aux_path h (pc_path c) ''stage'' n, aux_path h (pc_path c) ''backup'' n]"
  shows "op_wf h (planned_op h d n c) (change_contents c)"
  using assms aux_path_normal [OF assms(1)]
  by (cases "pc_desired c"; cases "pc_original c") (auto simp: op_wf_def planned_op_def footprint_def map_filter_simps)

lemma tx_op_facts:
  assumes "tx_ok h tx d0" "y \<in> set (tx_ops h tx d)"
  obtains c n where "c \<in> set (tx_changes tx)" "y = planned_op h d n c" "contents_of (tx_targets tx) y = change_contents c"
    and "op_wf h y (change_contents c)"
proof -
  have dis: "distinct (change_paths h (tx_nonce tx) (tx_changes tx))" using assms(1) by (simp add: tx_ok_def tx_paths_def)
  obtain c n where c: "c \<in> set (tx_changes tx)" "y = planned_op h d n c"
    "distinct [pc_path c, aux_path h (pc_path c) ''stage'' n, aux_path h (pc_path c) ''backup'' n]"
    using planned_opsE [OF _ dis] assms(2) unfolding tx_ops_def by blast
  moreover have "contents_of (tx_targets tx) y = change_contents c"
    using find_change [OF dis c(1)] by (simp add: tx_targets_def c(2) planned_op_def)
  moreover have "op_wf h y (change_contents c)"
    unfolding c(2) by (rule planned_op_wf [OF _ c(3)]) (use assms(1) c(1) in \<open>simp add: tx_ok_def\<close>)
  ultimately show thesis using that by blast
qed

lemma tx_sound:
  assumes "tx_ok h tx d0" "reads_ok h" "\<forall>c\<in>set (tx_changes tx). dirs_ok d (pc_path c)"
  shows "sound_ops h (tx_targets tx) (tx_ops h tx d) d"
  unfolding sound_ops_def
proof (intro conjI ballI)
  show "apart (tx_ops h tx d)"
    unfolding tx_ops_def by (rule apart_planned) (use assms(1) in \<open>simp add: tx_ok_def tx_paths_def\<close>)
next
  fix y assume "y \<in> set (tx_ops h tx d)"
  then obtain c n where c: "c \<in> set (tx_changes tx)" "y = planned_op h d n c" "contents_of (tx_targets tx) y = change_contents c"
    "op_wf h y (change_contents c)" by (rule tx_op_facts [OF assms(1)])
  have path: "normal_path (pc_path c)" "dirs_ok d (pc_path c)" using assms(1,3) c(1) by (auto simp: tx_ok_def)
  have "dirs_ok d p \<and> butlast p = butlast (pc_path c)" if "p \<in> footprint y" for p
    using subsetD [OF footprint_planned, of p h d n c] that path dirs_ok_sibling [OF path(2,1)] by (auto simp: c(2) aux_path_def)
  then show "setting h y (contents_of (tx_targets tx) y) d"
    and "\<And>p. p \<in> footprint y \<Longrightarrow> butlast p = butlast (jo_target y)"
    using assms(2) c by (auto simp: setting_def planned_op_def)
qed

text \<open>Recording identities keeps operations sound.\<close>

lemma blank_simps [simp]:
  "jo_target (blank y) = jo_target y" "jo_stage (blank y) = jo_stage y" "jo_backup (blank y) = jo_backup y"
  "jo_installed (blank y) = None" "footprint (blank y) = footprint y" "blank (blank y) = blank y"
  "blank (y\<lparr>jo_installed := i\<rparr>) = blank y"
  by (simp_all add: blank_def footprint_def)

lemma footprints_blank: "footprints (map blank ops) = footprints ops"
  by (simp add: footprints_def)

lemma op_wf_blank: "op_wf h y c \<longleftrightarrow> op_wf h (blank y) c \<and> (jo_installed y \<noteq> None \<longrightarrow> c \<noteq> None)"
  by (auto simp: op_wf_def) (auto simp: blank_def)

lemma sound_blank:
  assumes "sound_ops h ts (map blank ops) d" "\<forall>y\<in>set ops. jo_installed y \<noteq> None \<longrightarrow> contents_of ts y \<noteq> None"
  shows "sound_ops h ts ops d"
proof -
  have dis: "distinct (map blank ops)" using assms(1) by (simp add: sound_ops_def apart_def)
  have "footprint a \<inter> footprint b = {}" if "a \<in> set ops" "b \<in> set ops" "a \<noteq> b" for a b
  proof -
    have "blank a \<noteq> blank b" using dis that by (auto simp: distinct_map inj_on_def)
    moreover have "blank a \<in> set (map blank ops)" "blank b \<in> set (map blank ops)" using that by auto
    ultimately have "footprint (blank a) \<inter> footprint (blank b) = {}" using assms(1) unfolding sound_ops_def apart_def by blast
    then show ?thesis by simp
  qed
  then have "apart ops" using dis by (auto simp: apart_def distinct_map)
  moreover have "setting h y (contents_of ts y) d \<and> (\<forall>p\<in>footprint y. butlast p = butlast (jo_target y))" if "y \<in> set ops" for y
  proof -
    have "setting h (blank y) (contents_of ts (blank y)) d \<and> (\<forall>p\<in>footprint (blank y). butlast p = butlast (jo_target (blank y)))"
      using assms(1) that unfolding sound_ops_def by auto
    then show ?thesis using op_wf_blank [of h y "contents_of ts y"] assms(2) that by (auto simp: setting_def)
  qed
  ultimately show ?thesis by (simp add: sound_ops_def)
qed


section \<open>States of a transaction\<close>

text \<open>Files that are not the transaction's are as they were.\<close>

definition tx_frame :: "Journal host \<Rightarrow> transaction \<Rightarrow> view \<Rightarrow> bool" where
  "tx_frame h tx v =
     (\<forall>p. p \<notin> footprints (tx_ops h tx (snd v)) \<longrightarrow> p \<notin> journal_paths h (tx_journal tx) \<longrightarrow> fst v p = tx_files tx p)"

definition tx_at ::
  "Journal host \<Rightarrow> transaction \<Rightarrow> (path \<Rightarrow> FileIdentity option) \<Rightarrow> Journal option set \<Rightarrow>
   (JournalOperation \<Rightarrow> (path \<Rightarrow> fs_node option) \<Rightarrow> bool) \<Rightarrow> JournalOperation list \<Rightarrow> view \<Rightarrow> bool" where
  "tx_at h tx d J A ops = among (\<lambda>v. journal_in h (tx_journal tx) J v \<and> tx_frame h tx v) d A ops"

definition tx_rest ::
  "Journal host \<Rightarrow> transaction \<Rightarrow> (path \<Rightarrow> FileIdentity option) \<Rightarrow>
   (JournalOperation \<Rightarrow> (path \<Rightarrow> fs_node option) \<Rightarrow> bool) \<Rightarrow> JournalOperation list \<Rightarrow> view \<Rightarrow> bool" where
  "tx_rest h tx d A ops v = (tx_frame h tx v \<and> snd v = d \<and> (\<forall>y\<in>set ops. A y (fst v)))"

lemma tx_at_rest: "tx_at h tx d J A ops v \<longleftrightarrow> journal_in h (tx_journal tx) J v \<and> tx_rest h tx d A ops v"
  by (auto simp: tx_at_def tx_rest_def among_def)

text \<open>What a running commit or recovery knows: its operations are sound and away from the journal.\<close>

definition tx_run ::
  "Journal host \<Rightarrow> transaction \<Rightarrow> (path \<Rightarrow> FileIdentity option) \<Rightarrow> JournalOperation list \<Rightarrow> bool" where
  "tx_run h tx d ops =
     (reads_ok h \<and> journal_place h (tx_journal tx) d \<and> map blank ops = tx_ops h tx d \<and> sound_ops h (tx_targets tx) (tx_ops h tx d) d \<and>
      (\<forall>y\<in>set ops. jo_installed y \<noteq> None \<longrightarrow> contents_of (tx_targets tx) y \<noteq> None) \<and>
      footprints (tx_ops h tx d) \<inter> journal_paths h (tx_journal tx) = {})"

lemma tx_runD:
  assumes "tx_run h tx d ops"
  shows "reads_ok h" "journal_place h (tx_journal tx) d" "sound_ops h (tx_targets tx) ops d" "footprints (tx_ops h tx d) = footprints ops"
    "footprints ops \<inter> journal_paths h (tx_journal tx) = {}" "map blank ops = tx_ops h tx d"
proof -
  show "sound_ops h (tx_targets tx) ops d" by (rule sound_blank) (use assms in \<open>auto simp: tx_run_def\<close>)
qed (use assms footprints_blank [of ops] in \<open>auto simp: tx_run_def\<close>)

lemma tx_local:
  assumes "tx_run h tx d ops"
  shows "local_outside (footprints ops) (\<lambda>v. journal_in h (tx_journal tx) J v \<and> tx_frame h tx v \<and> snd v = d)"
  unfolding local_outside_def
proof (intro allI impI)
  fix v v' :: view
  assume v: "journal_in h (tx_journal tx) J v \<and> tx_frame h tx v \<and> snd v = d"
    and same: "\<forall>p. p \<notin> footprints ops \<longrightarrow> fst v' p = fst v p" "snd v' = snd v"
  have "fst v' (tx_journal tx) = fst v (tx_journal tx)" "fst v' (journal_stage h (tx_journal tx)) = fst v (journal_stage h (tx_journal tx))"
    using tx_runD(5) [OF assms] same(1) by (auto simp: journal_paths_def)
  moreover have "tx_frame h tx v'"
    using v same tx_runD(4) [OF assms] by (auto simp: tx_frame_def)
  ultimately show "journal_in h (tx_journal tx) J v' \<and> tx_frame h tx v' \<and> snd v' = d" using v same(2) by (simp add: journal_in_def)
qed

lemma tx_at_among: "tx_at h tx d J A ops = among (\<lambda>v. journal_in h (tx_journal tx) J v \<and> tx_frame h tx v \<and> snd v = d) d A ops"
  by (auto simp: tx_at_def among_def fun_eq_iff)

lemma tx_journalling:
  assumes "tx_run h tx d ops" "footprint_local A"
  shows "journalling h (tx_journal tx) d (tx_rest h tx d A ops)"
  unfolding journalling_def
proof (intro conjI allI impI)
  show "local_outside (journal_paths h (tx_journal tx)) (tx_rest h tx d A ops)"
    unfolding local_outside_def
  proof (intro allI impI)
    fix v v' :: view
    assume v: "tx_rest h tx d A ops v" and same: "\<forall>p. p \<notin> journal_paths h (tx_journal tx) \<longrightarrow> fst v' p = fst v p" "snd v' = snd v"
    have "A y (fst v')" if y: "y \<in> set ops" for y
    proof -
      have "\<forall>p\<in>footprint y. fst v p = fst v' p"
        using tx_runD(5) [OF assms(1)] same(1) y by (fastforce simp: footprints_def)
      then show ?thesis using footprint_localD [OF assms(2)] v y unfolding tx_rest_def by blast
    qed
    moreover have "tx_frame h tx v'" using v same by (auto simp: tx_rest_def tx_frame_def)
    ultimately show "tx_rest h tx d A ops v'" using v same(2) by (simp add: tx_rest_def)
  qed
qed (use tx_runD [OF assms(1)] in \<open>simp_all add: tx_rest_def\<close>)

text \<open>The journal steps on such states.\<close>

lemma tx_cleanup_journal_stage:
  assumes "tx_run h tx d ops" "footprint_local A"
  shows "triple h (tx_at h tx d J A ops) (cleanup_journal_stage (tx_journal tx))
    (\<lambda>_. tx_at h tx d J A ops) (\<lambda>_. trouble h (tx_at h tx d J A ops)) (trouble h (tx_at h tx d J A ops))"
  unfolding tx_at_rest
  by (rule triple_conseq [OF triple_cleanup_journal_stage [OF tx_journalling [OF assms], where A = J]]) blast+

lemma tx_write_journal:
  assumes "tx_run h tx d ops" "footprint_local A" "journal_roundtrip h" "fresh_identities h"
  shows "triple h (tx_at h tx d J A ops) (write_journal (tx_journal tx) j)
    (\<lambda>_. tx_at h tx d {Some j} A ops) (\<lambda>_. tx_at h tx d (insert (Some j) J) A ops) (tx_at h tx d (insert (Some j) J) A ops)"
  unfolding tx_at_rest by (rule triple_write_journal [OF tx_journalling [OF assms(1,2)] assms(3,4)])

lemma tx_remove_journal:
  assumes "tx_run h tx d ops" "footprint_local A"
  shows "triple h (\<lambda>v. tx_at h tx d J A ops v \<and> fst v (tx_journal tx) = Some (Regular i bs m)) (remove_journal (tx_journal tx) i)
    (\<lambda>_. tx_at h tx d {None} A ops) (\<lambda>_. trouble h (tx_at h tx d (insert None J) A ops)) (trouble h (tx_at h tx d (insert None J) A ops))"
  unfolding tx_at_rest by (rule triple_remove_journal [OF tx_journalling [OF assms]])

lemma journal_in_plain:
  assumes "journal_place h jp d" "journal_in h jp J v" "snd v = d"
  shows "plain v jp"
  using assms by (auto simp: journal_in_def holds_journal_def plain_def journal_place_def split: option.splits)

lemma tx_read_journal:
  assumes "tx_run h tx d ops"
  shows "triple h (tx_at h tx d J A ops) (read_regular (tx_journal tx))
    (\<lambda>s v. tx_at h tx d J A ops v \<and>
       (case s of None \<Rightarrow> fst v (tx_journal tx) = None | Some (i, bs) \<Rightarrow> \<exists>m. fst v (tx_journal tx) = Some (Regular i bs m)))
    (\<lambda>_ _. False) (trouble h (tx_at h tx d J A ops))"
proof -
  let ?P = "tx_at h tx d J A ops" and ?jp = "tx_journal tx"
  note place = journal_placeD [OF tx_runD(2) [OF assms]]
  have d: "snd v = d" "plain v ?jp" if "?P v" for v
    using that journal_in_plain [OF tx_runD(2) [OF assms], of J v] by (auto simp: tx_at_def among_def)
  show ?thesis
  proof (rule triple_conseq [OF triple_read_regular [where P = ?P and p = ?jp]])
    fix v assume "?P v"
    then show "dirs_ok (snd v) ?jp" using d(1) place(4) by simp
  next
    fix s v assume v: "?P v \<and> plain v ?jp \<and> s = map_option (\<lambda>(i, bs, _). (i, bs)) (snap (fst v ?jp))"
    then show "?P v \<and> (case s of None \<Rightarrow> fst v ?jp = None | Some (i, bs) \<Rightarrow> \<exists>m. fst v ?jp = Some (Regular i bs m))"
      using plain_snap_None [of v ?jp] by (cases "snap (fst v ?jp)") (auto simp: snap_eq_Some)
  qed (use tx_runD(1) [OF assms] place(1) d in blast)+
qed


section \<open>Rolling back and finishing\<close>

lemma footprint_local_conj: "footprint_local A \<Longrightarrow> footprint_local B \<Longrightarrow> footprint_local (\<lambda>y f. A y f \<and> B y f)"
  unfolding footprint_local_def by blast

definition untouched_in :: "targets \<Rightarrow> JournalOperation \<Rightarrow> (path \<Rightarrow> fs_node option) \<Rightarrow> bool" where
  "untouched_in ts y = untouched y (original_of ts y)"

lemma footprint_local_untouched_in: "footprint_local (untouched_in ts)"
  unfolding untouched_in_def by (rule footprint_local_untouched)

lemma tx_at_mono:
  "tx_at h tx d J A ops v \<Longrightarrow> J \<subseteq> J' \<Longrightarrow> (\<And>y f. y \<in> set ops \<Longrightarrow> A y f \<Longrightarrow> B y f) \<Longrightarrow> tx_at h tx d J' B ops v"
  by (auto simp: tx_at_def among_def journal_in_def)

lemma tx_at_conj: "tx_at h tx d J (\<lambda>y f. A y f \<and> B y f) ops v \<longleftrightarrow> tx_at h tx d J A ops v \<and> (\<forall>y\<in>set ops. B y (fst v))"
  by (auto simp: tx_at_def among_def)

text \<open>
  The states while undoing with a journal \<open>J\<close>: once the journal is gone everything is as it was.
\<close>

definition tx_undoing ::
  "Journal host \<Rightarrow> transaction \<Rightarrow> (path \<Rightarrow> FileIdentity option) \<Rightarrow> Journal option set \<Rightarrow> bool \<Rightarrow> JournalOperation list \<Rightarrow> view \<Rightarrow> bool" where
  "tx_undoing h tx d J early ops v =
     (tx_at h tx d (insert None J) (undoable_in h early (tx_targets tx)) ops v \<and>
      (fst v (tx_journal tx) = None \<longrightarrow> (\<forall>y\<in>set ops. untouched_in (tx_targets tx) y (fst v))))"

lemma tx_at_present: "tx_at h tx d J A ops v \<Longrightarrow> None \<notin> J \<Longrightarrow> fst v (tx_journal tx) \<noteq> None"
  by (auto simp: tx_at_def among_def journal_in_def holds_journal_def split: option.splits)

lemma tx_undoing_weaken:
  assumes "tx_at h tx d J (undoable_in h early (tx_targets tx)) ops v" "None \<notin> J"
  shows "tx_undoing h tx d J early ops v"
  using tx_at_mono [OF assms(1), of "insert None J"] tx_at_present [OF assms] by (auto simp: tx_undoing_def)

lemma tx_undoing_untouched:
  assumes "tx_at h tx d (insert None J) (\<lambda>y f. undoable_in h early (tx_targets tx) y f \<and> untouched_in (tx_targets tx) y f) ops v"
  shows "tx_undoing h tx d J early ops v"
  using assms by (auto simp: tx_undoing_def tx_at_conj)

lemma tx_rollback:
  assumes "tx_run h tx d ops"
  shows "triple h (tx_at h tx d J (undoable_in h early (tx_targets tx)) ops) (rollback_operations ops)
    (\<lambda>errors v. tx_at h tx d J (undoable_in h early (tx_targets tx)) ops v \<and> (errors = [] \<longrightarrow> (\<forall>y\<in>set ops. untouched_in (tx_targets tx) y (fst v))) \<and>
       (errors \<noteq> [] \<longrightarrow> \<not> (calm h \<and> (\<forall>y\<in>set ops. revertible h y (contents_of (tx_targets tx) y) (original_of (tx_targets tx) y) d)))) E
    (trouble h (tx_at h tx d J (undoable_in h early (tx_targets tx)) ops))"
  unfolding tx_at_among untouched_in_def by (rule triple_rollback_operations [OF tx_runD(3) [OF assms] tx_local [OF assms]])

text \<open>The journal found is removed; \<open>A\<close> holds throughout.\<close>

lemma tx_finish_failed:
  assumes "tx_run h tx d ops" "footprint_local A" "None \<notin> J"
  shows "triple h (\<lambda>v. tx_at h tx d J A ops v) (finish_failed_transaction (tx_journal tx) primary [])
    (\<lambda>_ _. False)
    (\<lambda>e v. tx_at h tx d (insert None J) A ops v \<and> (\<not> is_rollback_incomplete e \<longrightarrow> tx_at h tx d {None} A ops v))
    (tx_at h tx d (insert None J) A ops)"
proof -
  let ?K = "tx_at h tx d J A ops" and ?C = "tx_at h tx d (insert None J) A ops" and ?jp = "tx_journal tx"
  let ?E = "\<lambda>e v. ?C v \<and> (\<not> is_rollback_incomplete e \<longrightarrow> tx_at h tx d {None} A ops v)"
  have weak: "?C v" if "?K v \<or> tx_at h tx d {None} A ops v" for v using that by (auto elim!: tx_at_mono)
  have roll: "?E rollback_error v" if "?C v" for v using that by (simp add: rollback_error_def)
  have remove: "triple h (\<lambda>v. ?K v \<and> fst v ?jp = Some (Regular i bs m))
      (pbind (attempt (remove_journal ?jp i)) (\<lambda>removed. pensure (is_ok removed) rollback_error (pfail primary))) (\<lambda>_ _. False) ?E ?C" for i bs m
  proof (rule triple_bind [where R = "\<lambda>r v. ?C v \<and> (is_ok r \<longrightarrow> tx_at h tx d {None} A ops v)"])
    show "triple h (\<lambda>v. ?K v \<and> fst v ?jp = Some (Regular i bs m)) (attempt (remove_journal ?jp i))
        (\<lambda>r v. ?C v \<and> (is_ok r \<longrightarrow> tx_at h tx d {None} A ops v)) ?E ?C"
      by (rule triple_attempt, rule triple_conseq [OF tx_remove_journal [OF assms(1,2), of J]]) (use weak in \<open>simp_all\<close>)
  qed (rule triple_ensure, rule triple_pfail, use roll in simp_all)
  have found: "triple h (\<lambda>v. ?K v \<and> (case s of None \<Rightarrow> fst v ?jp = None | Some (i, bs) \<Rightarrow> \<exists>m. fst v ?jp = Some (Regular i bs m)))
      (case s of Some (identity, _) \<Rightarrow> pbind (attempt (remove_journal ?jp identity)) (\<lambda>removed. pensure (is_ok removed) rollback_error (pfail primary))
        | None \<Rightarrow> pfail rollback_error) (\<lambda>_ _. False) ?E ?C" for s
  proof (cases s)
    case None
    then show ?thesis using roll weak by (auto intro!: triple_pfail)
  next
    case (Some x)
    obtain i bs where x: "x = (i, bs)" by (cases x)
    show ?thesis
      unfolding Some x option.case prod.case
    proof (rule triple_case)
      fix v assume v: "?K v \<and> (\<exists>m. fst v ?jp = Some (Regular i bs m))"
      then obtain m where "?K v \<and> fst v ?jp = Some (Regular i bs m)" by blast
      then show "triple h (\<lambda>u. u = v) (pbind (attempt (remove_journal ?jp i)) (\<lambda>removed. pensure (is_ok removed) rollback_error (pfail primary))) (\<lambda>_ _. False) ?E ?C"
        by (intro triple_pre [OF remove [of i bs m]]) simp
    qed
  qed
  show ?thesis
    unfolding finish_failed_transaction_def
    apply (rule triple_ensure)
     apply (rule triple_bind [where R = "\<lambda>r. ?K"])
      apply (rule triple_attempt, rule triple_conseq [OF tx_cleanup_journal_stage [OF assms(1,2), of J]])
         apply (use weak in simp_all)[4]
     apply (rule triple_ensure)
      apply (rule triple_bind [where R = "\<lambda>r v. case r of Inl _ \<Rightarrow> False | Inr s \<Rightarrow>
          ?K v \<and> (case s of None \<Rightarrow> fst v ?jp = None | Some (i, bs) \<Rightarrow> \<exists>m. fst v ?jp = Some (Regular i bs m))"])
       apply (rule triple_attempt, rule triple_conseq [OF tx_read_journal [OF assms(1), of J A]])
          apply (use weak in simp_all)[4]
    subgoal for r s
      apply (cases s)
       apply (simp add: triple_def)
      apply (simp only: sum.case)
      apply (rule triple_conseq [OF found], assumption)
         apply simp_all
      done
     apply (use roll weak in blast)
    apply simp
    done
qed

lemma tx_roll_back_and_finish:
  assumes "tx_run h tx d ops" "None \<notin> J"
  shows "triple h (tx_at h tx d J (undoable_in h early (tx_targets tx)) ops) (roll_back_and_finish (tx_journal tx) ops error)
    (\<lambda>_ _. False)
    (\<lambda>e v. tx_undoing h tx d J early ops v \<and> (\<not> is_rollback_incomplete e \<longrightarrow> fst v (tx_journal tx) = None))
    (tx_undoing h tx d J early ops)"
proof -
  let ?U = "undoable_in h early (tx_targets tx)" and ?T = "\<lambda>y f. undoable_in h early (tx_targets tx) y f \<and> untouched_in (tx_targets tx) y f"
  let ?E = "\<lambda>e v. tx_undoing h tx d J early ops v \<and> (\<not> is_rollback_incomplete e \<longrightarrow> fst v (tx_journal tx) = None)"
  have local: "footprint_local ?T" by (rule footprint_local_conj [OF footprint_local_undoable footprint_local_untouched_in])
  have gone: "fst v (tx_journal tx) = None" if "tx_at h tx d {None} A ops v" for A v
    using that by (simp add: tx_at_def among_def journal_in_def holds_journal_def)
  have first: "triple h (tx_at h tx d J ?U ops) (rollback_operations ops)
      (\<lambda>rollback v. tx_at h tx d J ?U ops v \<and> (rollback = [] \<longrightarrow> (\<forall>y\<in>set ops. untouched_in (tx_targets tx) y (fst v)))) ?E (tx_undoing h tx d J early ops)"
    by (rule triple_conseq [OF tx_rollback [OF assms(1), of J early, where E = ?E]]) (use tx_undoing_weaken [OF _ assms(2)] in auto)
  show ?thesis
    unfolding roll_back_and_finish_def
  proof (rule triple_bind [OF first])
    fix rollback :: "string list"
    show "triple h (\<lambda>v. tx_at h tx d J ?U ops v \<and> (rollback = [] \<longrightarrow> (\<forall>y\<in>set ops. untouched_in (tx_targets tx) y (fst v))))
        (finish_failed_transaction (tx_journal tx) error rollback) (\<lambda>_ _. False) ?E (tx_undoing h tx d J early ops)"
    proof (cases "rollback = []")
      case True
      show ?thesis
        unfolding True
        by (rule triple_conseq [OF tx_finish_failed [OF assms(1) local assms(2)]])
          (use tx_undoing_untouched gone in \<open>auto simp only: tx_at_conj\<close>)
    next
      case False
      then show ?thesis
        using tx_undoing_weaken [OF _ assms(2)]
        by (auto simp: finish_failed_transaction_def pensure_def rollback_error_def intro!: triple_pfail)
    qed
  qed
qed

end
