(* ===== verification/Pub_Stage.thy ===== *)
theory Pub_Stage
  imports Pub_Transaction
begin

text \<open>
  Staging: the new files are written beside their targets and their identities recorded.
\<close>

section \<open>One staged file\<close>

lemma among_upd:
  assumes "among G d A ops (f, d')" "apart ops" "x \<in> set ops" "p \<in> footprint x" "local_outside (footprints ops) G" "footprint_local A" "A x (f(p := n))"
  shows "among G d A ops (f(p := n), d')"
proof -
  have "A y (f(p := n))" if y: "y \<in> set ops" for y
  proof (cases "y = x")
    case False
    then have "p \<notin> footprint y" using assms(2-4) y by (auto simp: apart_def)
    then have "\<forall>q\<in>footprint y. f q = (f(p := n)) q" by auto
    moreover have "A y f" using assms(1) y by (simp add: among_def)
    ultimately show ?thesis by (rule footprint_localD [OF assms(6)])
  qed (use assms(7) in simp)
  moreover have "G (f(p := n), d')"
    by (rule local_outsideD [OF assms(5), of "(f, d')"]) (use assms(1,3,4) in \<open>auto simp: among_def footprints_def\<close>)
  ultimately show ?thesis using assms(1) by (simp add: among_def)
qed

lemma tx_at_upd:
  assumes "tx_run h tx d ops" "tx_at h tx d J A ops (f, d')" "x \<in> set ops" "p \<in> footprint x" "footprint_local A" "A x (f(p := n))"
  shows "tx_at h tx d J A ops (f(p := n), d')"
  using assms(2) unfolding tx_at_among
  by (rule among_upd) (use assms sound_opsD(1) [OF tx_runD(3) [OF assms(1)]] tx_local [OF assms(1)] in auto)

lemma footprint_local_ready: "footprint_local (ready_in ts)"
  unfolding footprint_local_def by (auto simp: ready_in_def pending_def staged_def dest: footprint_values)

text \<open>Before any target is touched, an operation can be undone without its identity.\<close>

lemma undoable_blank: "undoable_in h True ts y f \<Longrightarrow> undoable_in h True ts (blank y) f"
  by (auto simp: undoable_in_def undoable_def pending_def stage_owned_def)

lemma untouched_blank: "untouched_in ts (blank y) f \<longleftrightarrow> untouched_in ts y f"
  by (simp add: untouched_in_def untouched_def)

lemma tx_undoing_blank:
  assumes "tx_run h tx d ops" "tx_undoing h tx d J True ops v"
  shows "tx_undoing h tx d J True (tx_ops h tx d) v"
  using assms(2) undoable_blank
  by (auto simp: tx_runD(6) [OF assms(1), symmetric] tx_undoing_def tx_at_def among_def untouched_blank)

lemma undoable_pending: "undoable_in h True ts y f \<Longrightarrow> pending y (original_of ts y) f"
  by (simp add: undoable_in_def undoable_def)

lemma undoable_writing:
  assumes "undoable_in h True ts x f" "jo_installed x = None" "jo_stage x = Some p" "op_wf h x (contents_of ts x)" "n = None \<or> snap n \<noteq> None"
  shows "undoable_in h True ts x (f(p := n))"
  using assms footprint_paths(2) [OF assms(4,3)]
  by (auto simp: undoable_in_def undoable_def pending_def stage_owned_def value_at_def split: option.splits)

lemma undoable_identified:
  assumes "undoable_in h True ts x (fst v)" "jo_stage x = Some p" "op_wf h x (contents_of ts x)" "contents_of ts x = Some bs"
    and "jo_desired_mode x = Some m" "fst v p = Some (Regular i bs m)" "only_at p i v"
  shows "undoable_in h True ts (x\<lparr>jo_installed := Some i\<rparr>) (fst v) \<and> ready_in ts (x\<lparr>jo_installed := Some i\<rparr>) (fst v)"
proof -
  have "fst v (jo_target x) \<noteq> Some (Regular i bs' m')" for bs' m'
    using assms(7) footprint_paths(2) [OF assms(3,2)] by (auto simp: only_at_def)
  then show ?thesis
    using assms(1,2,4-6)
    by (auto simp: undoable_in_def undoable_def pending_def stage_owned_def value_at_def new_node_def ready_in_def staged_def)
qed

lemma tx_run_identified:
  assumes "tx_run h tx d (before @ x # after)" "contents_of (tx_targets tx) x \<noteq> None"
  shows "tx_run h tx d (before @ x\<lparr>jo_installed := Some i\<rparr> # after)"
  using assms by (simp add: tx_run_def)


section \<open>All staged files\<close>

definition staging_error :: "Journal host \<Rightarrow> transaction \<Rightarrow> (path \<Rightarrow> FileIdentity option) \<Rightarrow> Journal option set \<Rightarrow> pub_error \<Rightarrow> view \<Rightarrow> bool" where
  "staging_error h tx d J e v =
     (tx_undoing h tx d J True (tx_ops h tx d) v \<and> (\<not> is_rollback_incomplete e \<longrightarrow> fst v (tx_journal tx) = None))"

lemma tx_roll_back_early:
  assumes "tx_run h tx d ops" "None \<notin> J"
  shows "triple h (tx_at h tx d J (undoable_in h True (tx_targets tx)) ops) (roll_back_and_finish (tx_journal tx) ops error)
    (\<lambda>_ _. False) (staging_error h tx d J) (tx_undoing h tx d J True (tx_ops h tx d))"
  unfolding staging_error_def
  by (rule triple_conseq [OF tx_roll_back_and_finish [OF assms]]) (use tx_undoing_blank [OF assms(1)] in blast)+

lemma triple_stage_file:
  fixes J :: "Journal option set"
  assumes "tx_run h tx d (before @ x # after)" "fresh_identities h" "jo_installed x = None" "jo_stage x = Some p"
    "contents_of (tx_targets tx) x = Some bs" "jo_desired_mode x = Some m"
  defines "P \<equiv> \<lambda>v. tx_at h tx d J (undoable_in h True (tx_targets tx)) (before @ x # after) v \<and> (\<forall>y\<in>set before. ready_in (tx_targets tx) y (fst v))"
  shows "triple h P (write_new_file_mode p bs m)
    (\<lambda>i v. tx_at h tx d J (undoable_in h True (tx_targets tx)) (before @ x\<lparr>jo_installed := Some i\<rparr> # after) v \<and>
       (\<forall>y\<in>set (before @ [x\<lparr>jo_installed := Some i\<rparr>]). ready_in (tx_targets tx) y (fst v)))
    (\<lambda>_. P) P"
proof -
  let ?ts = "tx_targets tx" and ?ops = "before @ x # after"
  let ?A = "\<lambda>y f. undoable_in h True ?ts y f \<and> (y \<in> set before \<longrightarrow> ready_in ?ts y f)"
  note run = tx_runD [OF assms(1)]
  have x: "x \<in> set ?ops" "x \<notin> set before" using sound_opsD(2) [OF run(3)] by auto
  have wf: "op_wf h x (contents_of ?ts x)" and dirs: "dirs_ok d p"
    using sound_opsD(3) [OF run(3) x(1)] assms(4) by (auto simp: setting_def footprint_def)
  have P: "P v \<longleftrightarrow> tx_at h tx d J ?A ?ops v" for v by (auto simp: P_def tx_at_def among_def)
  have local: "footprint_local ?A"
    by (rule footprint_local_conj [OF footprint_local_undoable footprint_local_imp [OF footprint_local_ready]])
  have closed: "P (f(p := n), d')" if f: "P (f, d')" and n: "n = None \<or> snap n \<noteq> None" for f d' n
  proof -
    have "undoable_in h True ?ts x f" using f x(1) by (auto simp: P_def tx_at_def among_def)
    then have "?A x (f(p := n))" using undoable_writing [OF _ assms(3,4) wf n] x(2) by blast
    then show ?thesis using tx_at_upd [OF assms(1) _ x(1) _ local] f assms(4) by (auto simp: P footprint_def)
  qed
  show ?thesis
  proof (rule triple_conseq [OF triple_write_new_file [where P = P and p = p and bs = bs and mode = m]])
    fix v assume "P v"
    then show "dirs_ok (snd v) p" using dirs by (simp add: P_def tx_at_def among_def)
  next
    fix i v assume v: "P v \<and> only_at p i v \<and> fst v p = Some (Regular i bs m)"
    then have "undoable_in h True ?ts x (fst v)" using x(1) by (auto simp: P_def tx_at_def among_def)
    from undoable_identified [OF this assms(4) wf assms(5,6)] v
    show "tx_at h tx d J (undoable_in h True ?ts) (before @ x\<lparr>jo_installed := Some i\<rparr> # after) v \<and>
        (\<forall>y\<in>set (before @ [x\<lparr>jo_installed := Some i\<rparr>]). ready_in ?ts y (fst v))"
      by (auto simp: P_def tx_at_def among_def)
  qed (use run(1) assms(2) footprint_paths(2) [OF wf assms(4)] closed in auto)
qed

definition staged_all :: "Journal host \<Rightarrow> transaction \<Rightarrow> (path \<Rightarrow> FileIdentity option) \<Rightarrow> Journal option set \<Rightarrow> JournalOperation list \<Rightarrow> view \<Rightarrow> bool" where
  "staged_all h tx d J ops v =
     (tx_run h tx d ops \<and> tx_installed h tx d ops \<and> tx_at h tx d J (undoable_in h True (tx_targets tx)) ops v \<and>
      (\<forall>y\<in>set ops. ready_in (tx_targets tx) y (fst v)))"

lemma tx_stage_operations:
  assumes "fresh_identities h" "None \<notin> J"
  shows "tx_run h tx d (before @ map fst rest) \<Longrightarrow>
    (\<And>y c. (y, c) \<in> set rest \<Longrightarrow> c = contents_of (tx_targets tx) y \<and> jo_installed y = None) \<Longrightarrow>
    (\<And>y. y \<in> set before \<Longrightarrow> jo_installed y = None \<longleftrightarrow> contents_of (tx_targets tx) y = None) \<Longrightarrow>
    triple h (\<lambda>v. tx_at h tx d J (undoable_in h True (tx_targets tx)) (before @ map fst rest) v \<and> (\<forall>y\<in>set before. ready_in (tx_targets tx) y (fst v)))
      (stage_operations (tx_journal tx) before rest) (staged_all h tx d J) (staging_error h tx d J) (tx_undoing h tx d J True (tx_ops h tx d))"
proof (induction rest arbitrary: before)
  case Nil
  then show ?case by (auto intro!: triple_pure simp: staged_all_def tx_installed_def tx_runD(6))
next
  case (Cons r rest)
  obtain x c where r: "r = (x, c)" by (cases r)
  let ?ts = "tx_targets tx" and ?ops = "before @ map fst (r # rest)"
  have ops: "?ops = before @ x # map fst rest" by (simp add: r)
  note run = tx_runD [OF Cons.prems(1)]
  have x: "c = contents_of ?ts x" "jo_installed x = None" using Cons.prems(2) [of x c] r by auto
  have wf: "op_wf h x (contents_of ?ts x)" using sound_opsD(3) [OF run(3), of x] r by (simp add: setting_def)
  have weak: "tx_undoing h tx d J True (tx_ops h tx d) v" if "tx_at h tx d J (undoable_in h True ?ts) ?ops v" for v
    using tx_undoing_blank [OF Cons.prems(1) tx_undoing_weaken [OF that assms(2)]] .
  show ?case
  proof (cases c)
    case None
    have "triple h (\<lambda>v. tx_at h tx d J (undoable_in h True ?ts) ((before @ [x]) @ map fst rest) v \<and> (\<forall>y\<in>set (before @ [x]). ready_in ?ts y (fst v)))
      (stage_operations (tx_journal tx) (before @ [x]) rest) (staged_all h tx d J) (staging_error h tx d J) (tx_undoing h tx d J True (tx_ops h tx d))"
      by (rule Cons.IH) (use Cons.prems None x r in auto)
    then show ?thesis
      unfolding r None stage_operations.simps
    proof (rule triple_pre)
      fix v assume v: "tx_at h tx d J (undoable_in h True ?ts) (before @ map fst ((x, None) # rest)) v \<and> (\<forall>y\<in>set before. ready_in ?ts y (fst v))"
      then have "undoable_in h True ?ts x (fst v)" by (auto simp: tx_at_def among_def)
      then have "ready_in ?ts x (fst v)" using undoable_pending x None by (simp add: ready_in_def staged_def)
      then show "tx_at h tx d J (undoable_in h True ?ts) ((before @ [x]) @ map fst rest) v \<and> (\<forall>y\<in>set (before @ [x]). ready_in ?ts y (fst v))"
        using v by simp
    qed
  next
    case (Some bs)
    obtain p m where p: "jo_stage x = Some p" "jo_desired_mode x = Some m" using wf x(1) Some by (auto simp: op_wf_def)
    have cx: "contents_of ?ts x = Some bs" using x(1) Some by simp
    note one = triple_stage_file [OF Cons.prems(1) [unfolded ops] assms(1) x(2) p(1) cx p(2), of J]
    let ?P = "\<lambda>v. tx_at h tx d J (undoable_in h True ?ts) (before @ x # map fst rest) v \<and> (\<forall>y\<in>set before. ready_in ?ts y (fst v))"
    let ?R = "\<lambda>i v. tx_at h tx d J (undoable_in h True ?ts) (before @ x\<lparr>jo_installed := Some i\<rparr> # map fst rest) v \<and>
       (\<forall>y\<in>set (before @ [x\<lparr>jo_installed := Some i\<rparr>]). ready_in ?ts y (fst v))"
    have go: "triple h (?R i) (stage_operations (tx_journal tx) (before @ [x\<lparr>jo_installed := Some i\<rparr>]) rest)
        (staged_all h tx d J) (staging_error h tx d J) (tx_undoing h tx d J True (tx_ops h tx d))" for i
    proof (rule triple_pre [OF Cons.IH [of "before @ [x\<lparr>jo_installed := Some i\<rparr>]"]])
      show "tx_run h tx d ((before @ [x\<lparr>jo_installed := Some i\<rparr>]) @ map fst rest)"
        using tx_run_identified [OF Cons.prems(1) [unfolded ops]] cx by simp
    qed (use Cons.prems(2,3) cx in auto)
    show ?thesis
      unfolding ops unfolding r Some stage_operations.simps p option.case prod.case
    proof (rule triple_bind [where R = "\<lambda>r. case r of Inl _ \<Rightarrow> ?P | Inr i \<Rightarrow> ?R i"])
      show "triple h ?P (attempt (write_new_file_mode p bs m)) (\<lambda>r. case r of Inl _ \<Rightarrow> ?P | Inr i \<Rightarrow> ?R i)
          (staging_error h tx d J) (tx_undoing h tx d J True (tx_ops h tx d))"
        by (rule triple_attempt, rule triple_conseq [OF one]) (use weak [unfolded ops] in auto)
    next
      fix r :: "(pub_error, FileIdentity) result"
      show "triple h (case r of Inl _ \<Rightarrow> ?P | Inr i \<Rightarrow> ?R i)
          (case r of Inl error \<Rightarrow> roll_back_and_finish (tx_journal tx) (before @ x # map fst rest) error
           | Inr identity \<Rightarrow> stage_operations (tx_journal tx) (before @ [x\<lparr>jo_installed := Some identity\<rparr>]) rest)
          (staged_all h tx d J) (staging_error h tx d J) (tx_undoing h tx d J True (tx_ops h tx d))"
      proof (cases r)
        case (Inl e)
        show ?thesis
          unfolding Inl sum.case
          by (rule triple_conseq [OF tx_roll_back_early [OF Cons.prems(1) [unfolded ops] assms(2)]]) simp_all
      next
        case (Inr i)
        then show ?thesis using go [of i] by simp
      qed
    qed
  qed
qed

end
