(* ===== verification/Pub_Atomic.thy ===== *)
theory Pub_Atomic
  imports Pub_Stage
begin

text \<open>
  Commit and recovery as a whole: whatever happens, the transaction stays recoverable, and a
  recovery that succeeds leaves every target as it was or every target as it was to become.
\<close>

section \<open>Recoverable states\<close>

definition finished_in :: "targets \<Rightarrow> JournalOperation \<Rightarrow> (path \<Rightarrow> fs_node option) \<Rightarrow> bool" where
  "finished_in ts y = finished y (contents_of ts y)"

definition tx_old :: "Journal host \<Rightarrow> transaction \<Rightarrow> view \<Rightarrow> bool" where
  "tx_old h tx v = (\<forall>y\<in>set (tx_ops h tx (snd v)). untouched_in (tx_targets tx) y (fst v))"

definition tx_new :: "Journal host \<Rightarrow> transaction \<Rightarrow> view \<Rightarrow> bool" where
  "tx_new h tx v = (\<exists>ops. tx_installed h tx (snd v) ops \<and> (\<forall>y\<in>set ops. finished_in (tx_targets tx) y (fst v)))"

definition journal0 :: "Journal host \<Rightarrow> transaction \<Rightarrow> (path \<Rightarrow> FileIdentity option) \<Rightarrow> Journal option" where
  "journal0 h tx d = Some (tx_journal_of tx Prepared (tx_ops h tx d))"

definition journal_phase :: "Journal host \<Rightarrow> transaction \<Rightarrow> view \<Rightarrow> bool" where
  "journal_phase h tx v =
     (holds_journal h (fst v (tx_journal tx)) (journal0 h tx (snd v)) \<and> (\<forall>y\<in>set (tx_ops h tx (snd v)). undoable_in h True (tx_targets tx) y (fst v)) \<or>
      (\<exists>ops. tx_installed h tx (snd v) ops \<and>
        (holds_journal h (fst v (tx_journal tx)) (Some (tx_journal_of tx Prepared ops)) \<and> (\<forall>y\<in>set ops. undoable_in h False (tx_targets tx) y (fst v)) \<or>
         holds_journal h (fst v (tx_journal tx)) (Some (tx_journal_of tx Committed ops)) \<and> (\<forall>y\<in>set ops. settled_in h (tx_targets tx) y (fst v)))))"

definition recoverable :: "Journal host \<Rightarrow> transaction \<Rightarrow> view \<Rightarrow> bool" where
  "recoverable h tx v =
     (journal_place h (tx_journal tx) (snd v) \<and> tx_frame h tx v \<and> stage_file_ok (fst v (journal_stage h (tx_journal tx))) \<and>
      footprints (tx_ops h tx (snd v)) \<inter> journal_paths h (tx_journal tx) = {} \<and>
      (fst v (tx_journal tx) = None \<and> (tx_old h tx v \<or> tx_new h tx v) \<or>
       sound_ops h (tx_targets tx) (tx_ops h tx (snd v)) (snd v) \<and> journal_phase h tx v))"

lemma tx_at_dirs: "tx_at h tx d J A ops v \<Longrightarrow> snd v = d"
  by (simp add: tx_at_def among_def)

lemma tx_atD:
  assumes "tx_at h tx d J A ops v"
  shows "snd v = d" "tx_frame h tx v" "stage_file_ok (fst v (journal_stage h (tx_journal tx)))" "y \<in> set ops \<Longrightarrow> A y (fst v)"
    "\<exists>j\<in>J. holds_journal h (fst v (tx_journal tx)) j"
  using assms by (auto simp: tx_at_def among_def journal_in_def)

lemma holds_None: "holds_journal h n None \<longleftrightarrow> n = None"
  by (simp add: holds_journal_def)

lemma phase_prepared:
  "tx_installed h tx (snd v) ops \<Longrightarrow> holds_journal h (fst v (tx_journal tx)) (Some (tx_journal_of tx Prepared ops)) \<Longrightarrow>
    (\<And>y. y \<in> set ops \<Longrightarrow> undoable_in h False (tx_targets tx) y (fst v)) \<Longrightarrow> journal_phase h tx v"
  unfolding journal_phase_def by blast

lemma phase_committed:
  "tx_installed h tx (snd v) ops \<Longrightarrow> holds_journal h (fst v (tx_journal tx)) (Some (tx_journal_of tx Committed ops)) \<Longrightarrow>
    (\<And>y. y \<in> set ops \<Longrightarrow> settled_in h (tx_targets tx) y (fst v)) \<Longrightarrow> journal_phase h tx v"
  unfolding journal_phase_def by blast

text \<open>The states of a commit are recoverable.\<close>

lemma recoverable_old:
  assumes "tx_at h tx d {None} (untouched_in (tx_targets tx)) (tx_ops h tx d) v" "journal_place h (tx_journal tx) d"
    and "footprints (tx_ops h tx d) \<inter> journal_paths h (tx_journal tx) = {}"
  shows "recoverable h tx v \<and> tx_old h tx v"
  using tx_atD [OF assms(1)] assms(2,3) by (auto simp: recoverable_def tx_old_def holds_None)

lemma tx_run_recoverable:
  assumes "tx_run h tx d ops" "tx_at h tx d J A ops' v"
    and "journal_phase h tx v \<or> fst v (tx_journal tx) = None \<and> (tx_old h tx v \<or> tx_new h tx v)"
  shows "recoverable h tx v"
  using assms(3) tx_atD(1-3) [OF assms(2)] tx_runD [OF assms(1)] assms(1) by (auto simp: recoverable_def tx_run_def)

lemma undoable_late: "undoable_in h early ts y f \<Longrightarrow> undoable_in h False ts y f"
  by (auto simp: undoable_in_def undoable_def)

lemma tx_old_blank: "tx_run h tx d ops \<Longrightarrow> snd v = d \<Longrightarrow> (\<forall>y\<in>set ops. untouched_in (tx_targets tx) y (fst v)) \<longleftrightarrow> tx_old h tx v"
  using tx_runD(6) [of h tx d ops] by (metis (no_types, lifting) imageE imageI set_map tx_old_def untouched_blank)

lemma recoverable_undoing_early:
  assumes "tx_run h tx d ops" "tx_undoing h tx d J True ops v" "J \<subseteq> {journal0 h tx d} \<union> (if tx_installed h tx d ops then {Some (tx_journal_of tx Prepared ops)} else {})"
  shows "recoverable h tx v \<and> (fst v (tx_journal tx) = None \<longrightarrow> tx_old h tx v)"
proof -
  have at: "tx_at h tx d (insert None J) (undoable_in h True (tx_targets tx)) ops v" using assms(2) by (simp add: tx_undoing_def)
  note facts = tx_atD [OF at]
  have old: "tx_old h tx v" if "fst v (tx_journal tx) = None"
    using assms(2) that tx_old_blank [OF assms(1) facts(1)] by (auto simp: tx_undoing_def)
  have zero: "\<forall>y\<in>set (tx_ops h tx d). undoable_in h True (tx_targets tx) y (fst v)"
    using facts(4) undoable_blank tx_runD(6) [OF assms(1)] by (metis imageE set_map)
  obtain j where "j \<in> insert None J" "holds_journal h (fst v (tx_journal tx)) j" using facts(5) by blast
  then consider "fst v (tx_journal tx) = None" | "holds_journal h (fst v (tx_journal tx)) (journal0 h tx d)"
    | "tx_installed h tx d ops" "holds_journal h (fst v (tx_journal tx)) (Some (tx_journal_of tx Prepared ops))"
    using assms(3) holds_None by (auto split: if_splits)
  then have "recoverable h tx v"
  proof cases
    case 1
    then show ?thesis using tx_run_recoverable [OF assms(1) at] old by blast
  next
    case 2
    then show ?thesis using tx_run_recoverable [OF assms(1) at] zero facts(1) by (auto simp: journal_phase_def)
  next
    case 3
    then have "journal_phase h tx v" by (intro phase_prepared) (use facts(1,4) in \<open>auto intro: undoable_late\<close>)
    then show ?thesis using tx_run_recoverable [OF assms(1) at] by blast
  qed
  then show ?thesis using old by blast
qed

lemma recoverable_undoing_late:
  assumes "tx_run h tx d ops" "tx_installed h tx d ops" "tx_undoing h tx d {Some (tx_journal_of tx Prepared ops)} False ops v"
  shows "recoverable h tx v \<and> (fst v (tx_journal tx) = None \<longrightarrow> tx_old h tx v)"
proof -
  have at: "tx_at h tx d (insert None {Some (tx_journal_of tx Prepared ops)}) (undoable_in h False (tx_targets tx)) ops v"
    using assms(3) by (simp add: tx_undoing_def)
  note facts = tx_atD [OF at]
  have old: "tx_old h tx v" if "fst v (tx_journal tx) = None"
    using assms(3) that tx_old_blank [OF assms(1) facts(1)] by (auto simp: tx_undoing_def)
  have "journal_phase h tx v" if "fst v (tx_journal tx) \<noteq> None"
    by (rule phase_prepared) (use facts assms(2) that in \<open>auto simp: holds_None\<close>)
  then show ?thesis using tx_run_recoverable [OF assms(1) at] old by (cases "fst v (tx_journal tx) = None") auto
qed

lemma recoverable_committed:
  assumes "tx_run h tx d ops" "tx_installed h tx d ops"
    "tx_at h tx d {Some (tx_journal_of tx Committed ops)} (settled_in h (tx_targets tx)) ops v"
  shows "recoverable h tx v"
proof -
  note facts = tx_atD [OF assms(3)]
  have "journal_phase h tx v" by (rule phase_committed) (use facts assms(2) in auto)
  then show ?thesis using tx_run_recoverable [OF assms(1,3)] by blast
qed

lemma recoverable_finished:
  assumes "tx_run h tx d ops" "tx_installed h tx d ops"
    "tx_at h tx d {Some (tx_journal_of tx Committed ops), None} (\<lambda>y f. settled_in h (tx_targets tx) y f \<and> finished_in (tx_targets tx) y f) ops v"
  shows "recoverable h tx v \<and> tx_new h tx v"
proof -
  note facts = tx_atD [OF assms(3)]
  have new: "tx_new h tx v" using facts(1,4) assms(2) unfolding tx_new_def by blast
  have "journal_phase h tx v" if "fst v (tx_journal tx) \<noteq> None"
    by (rule phase_committed) (use facts assms(2) that in \<open>auto simp: holds_None\<close>)
  then show ?thesis using tx_run_recoverable [OF assms(1,3)] new by (cases "fst v (tx_journal tx) = None") auto
qed

lemma applied_settled: "applied_in h ts y f \<Longrightarrow> settled_in h ts y f"
  by (auto simp: applied_in_def applied_def settled_in_def settled_def)


section \<open>Commit\<close>

text \<open>An error is plain when it reports neither an incomplete rollback nor an uncertain commit.\<close>

definition plain_error :: "pub_error \<Rightarrow> bool" where
  "plain_error e = (\<not> is_rollback_incomplete e \<and> e \<noteq> uncertain_error)"

definition commit_failed :: "Journal host \<Rightarrow> transaction \<Rightarrow> pub_error \<Rightarrow> view \<Rightarrow> bool" where
  "commit_failed h tx e v = (recoverable h tx v \<and> (plain_error e \<longrightarrow> tx_old h tx v))"

definition commit_done :: "Journal host \<Rightarrow> transaction \<Rightarrow> view \<Rightarrow> bool" where
  "commit_done h tx v = (recoverable h tx v \<and> fst v (tx_journal tx) = None \<and> tx_new h tx v)"

lemma tx_cleanup_committed:
  assumes "tx_run h tx d ops"
  shows "triple h (tx_at h tx d J (settled_in h (tx_targets tx)) ops) (cleanup_committed ops)
    (\<lambda>errors v. tx_at h tx d J (settled_in h (tx_targets tx)) ops v \<and> (errors = [] \<longrightarrow> (\<forall>y\<in>set ops. finished_in (tx_targets tx) y (fst v))) \<and>
       (errors \<noteq> [] \<longrightarrow> \<not> (calm h \<and> (\<forall>y\<in>set ops. tidy y d)))) E (trouble h (tx_at h tx d J (settled_in h (tx_targets tx)) ops))"
  unfolding tx_at_among finished_in_def by (rule triple_cleanup_committed [OF tx_runD(3) [OF assms] tx_local [OF assms]])

lemma footprint_local_finished_in: "footprint_local (finished_in ts)"
  unfolding footprint_local_def by (auto simp: finished_in_def finished_def dest: footprint_values)

text \<open>The journal that was read is removed at the end.\<close>

lemma tx_found_journal:
  assumes "tx_run h tx d ops" "footprint_local A" "None \<notin> J"
    and "\<And>v. tx_at h tx d {None} A ops v \<Longrightarrow> Q v" "\<And>v. \<not> calm h \<Longrightarrow> tx_at h tx d (insert None J) A ops v \<Longrightarrow> E rollback_error v \<and> C v"
  shows "triple h (\<lambda>v. tx_at h tx d J A ops v \<and>
       (case s of None \<Rightarrow> fst v (tx_journal tx) = None | Some (i, bs) \<Rightarrow> \<exists>m. fst v (tx_journal tx) = Some (Regular i bs m)))
     (case s of None \<Rightarrow> pfail rollback_error
      | Some (identity, _) \<Rightarrow> pbind (attempt (remove_journal (tx_journal tx) identity)) (\<lambda>removed. pensure (is_ok removed) rollback_error (pure a)))
     (\<lambda>_. Q) E C"
proof (cases s)
  case None
  show ?thesis unfolding None option.case by (rule triple_pfail) (use tx_at_present [OF _ assms(3)] in blast)
next
  case (Some x)
  obtain i bs where x: "x = (i, bs)" by (cases x)
  let ?K = "tx_at h tx d J A ops" and ?jp = "tx_journal tx"
  show ?thesis
    unfolding Some x option.case prod.case
  proof (rule triple_case)
    fix u assume "?K u \<and> (\<exists>m. fst u ?jp = Some (Regular i bs m))"
    then obtain m where u: "?K u \<and> fst u ?jp = Some (Regular i bs m)" by blast
    show "triple h (\<lambda>v. v = u) (pbind (attempt (remove_journal ?jp i)) (\<lambda>removed. pensure (is_ok removed) rollback_error (pure a))) (\<lambda>_. Q) E C"
    proof (rule triple_bind [where R = "\<lambda>r v. if is_ok r then tx_at h tx d {None} A ops v else trouble h (tx_at h tx d (insert None J) A ops) v"])
      show "triple h (\<lambda>v. v = u) (attempt (remove_journal ?jp i))
          (\<lambda>r v. if is_ok r then tx_at h tx d {None} A ops v else trouble h (tx_at h tx d (insert None J) A ops) v) E C"
        by (rule triple_attempt, rule triple_conseq [OF tx_remove_journal [OF assms(1,2), of J]]) (use u assms(5) in simp_all)
    next
      fix r :: "(pub_error, unit) result"
      show "triple h (\<lambda>v. if is_ok r then tx_at h tx d {None} A ops v else trouble h (tx_at h tx d (insert None J) A ops) v)
          (pensure (is_ok r) rollback_error (pure a)) (\<lambda>_. Q) E C"
        by (rule triple_ensure, rule triple_pure) (use assms(4,5) in simp_all)
    qed
  qed
qed

lemma tx_finish_committed:
  assumes "tx_run h tx d ops" "tx_installed h tx d ops"
  shows "triple h (tx_at h tx d {Some (tx_journal_of tx Committed ops)} (settled_in h (tx_targets tx)) ops) (finish_committed (tx_journal tx) ops)
    (\<lambda>_. commit_done h tx) (commit_failed h tx) (recoverable h tx)"
proof -
  let ?J = "{Some (tx_journal_of tx Committed ops)}" and ?S = "settled_in h (tx_targets tx)"
  let ?F = "\<lambda>y f. settled_in h (tx_targets tx) y f \<and> finished_in (tx_targets tx) y f"
  have local: "footprint_local ?F" by (rule footprint_local_conj [OF footprint_local_settled footprint_local_finished_in])
  have roll: "commit_failed h tx rollback_error v" if "recoverable h tx v" for v
    using that by (simp add: commit_failed_def plain_error_def rollback_error_def)
  have rec: "recoverable h tx v" if "tx_at h tx d ?J ?S ops v" for v using recoverable_committed [OF assms that] .
  have fin: "recoverable h tx v \<and> tx_new h tx v" if "tx_at h tx d (insert None ?J) ?F ops v" for v
    using recoverable_finished [OF assms] that by (simp add: insert_commute)
  have fin': "commit_done h tx v" if "tx_at h tx d {None} ?F ops v" for v
    using fin [OF tx_at_mono [OF that]] tx_atD(5) [OF that] by (simp add: commit_done_def holds_None)
  have reading: "triple h (tx_at h tx d ?J ?F ops) (read_regular (tx_journal tx))
      (\<lambda>s v. tx_at h tx d ?J ?F ops v \<and>
         (case s of None \<Rightarrow> fst v (tx_journal tx) = None | Some (i, bs) \<Rightarrow> \<exists>m. fst v (tx_journal tx) = Some (Regular i bs m)))
      (commit_failed h tx) (recoverable h tx)"
    by (rule triple_conseq [OF tx_read_journal [OF assms(1), of ?J ?F]]) (use fin [OF tx_at_mono] in blast)+
  have first: "triple h (tx_at h tx d ?J ?S ops) (cleanup_committed ops)
      (\<lambda>errors v. tx_at h tx d ?J ?S ops v \<and> (errors = [] \<longrightarrow> tx_at h tx d ?J ?F ops v)) (commit_failed h tx) (recoverable h tx)"
    by (rule triple_conseq [OF tx_cleanup_committed [OF assms(1), where E = "commit_failed h tx"]]) (use rec in \<open>auto simp: tx_at_conj\<close>)
  show ?thesis
    unfolding finish_committed_def
    apply (rule triple_bind [OF first], rule triple_ensure)
     apply (rule triple_bind)
      apply (rule triple_pre [OF reading], blast)
     apply (rule tx_found_journal [OF assms(1) local])
    subgoal by simp
    subgoal by (rule fin')
    subgoal using fin roll by blast
    subgoal using rec roll by blast
    done
qed

end
