(* ===== verification/Pub_Recovery.thy ===== *)
theory Pub_Recovery
  imports Pub_Atomic
begin

text \<open>
  \<open>unix_commit\<close> and \<open>recover_if_needed\<close> over the states of a transaction.
\<close>

section \<open>The end of a commit\<close>

lemma triple_then:
  assumes "triple h P m R E' C'" "\<And>e v. E' e v \<Longrightarrow> E e v" "\<And>v. C' v \<Longrightarrow> C v" "\<And>a. triple h (R a) (f a) Q E C"
  shows "triple h P (pbind m f) Q E C"
  by (rule triple_bind [OF triple_conseq [OF assms(1)] assms(4)]) (use assms(2,3) in blast)+

lemma holds_journal_eq: "holds_journal h n (Some a) \<Longrightarrow> holds_journal h n (Some b) \<Longrightarrow> a = b"
  by (auto simp: holds_journal_def)

lemma tx_at_narrow: "tx_at h tx d J A ops v \<Longrightarrow> holds_journal h (fst v (tx_journal tx)) j \<Longrightarrow> tx_at h tx d {j} A ops v"
  by (auto simp: tx_at_def among_def journal_in_def)

lemma tx_committed_visible:
  assumes "tx_run h tx d ops"
  shows "triple h (tx_at h tx d {Some j2, Some j1} A ops) (committed_visible (tx_journal tx) j2)
    (\<lambda>visible. tx_at h tx d {Some (if visible then j2 else j1)} A ops) (\<lambda>_ _. False) (tx_at h tx d {Some j2, Some j1} A ops)"
proof -
  let ?K = "tx_at h tx d {Some j2, Some j1} A ops" and ?jp = "tx_journal tx"
  let ?R = "\<lambda>s v. ?K v \<and> (case s of None \<Rightarrow> fst v ?jp = None | Some (i, bs) \<Rightarrow> \<exists>m. fst v ?jp = Some (Regular i bs m))"
  have known: "tx_at h tx d {Some (if case s of Some (_, bs) \<Rightarrow> parse_journal h bs = Inr j2 | None \<Rightarrow> False then j2 else j1)} A ops v" if r: "?R s v" for s v
  proof -
    obtain j where j: "holds_journal h (fst v ?jp) (Some j)" "j = j2 \<or> j = j1" using tx_atD(5) [of h tx d "{Some j2, Some j1}" A ops v] r by blast
    then obtain i bs m where n: "fst v ?jp = Some (Regular i bs m)" "parse_journal h bs = Inr j" by (auto simp: holds_journal_def)
    then have "s = Some (i, bs)" using r by (auto split: option.splits)
    then show ?thesis using n(2) j tx_at_narrow [of h tx d _ A ops v "Some j"] r by auto
  qed
  show ?thesis
    unfolding committed_visible_def
    apply (rule triple_ask)
    apply (rule triple_bind [where R = "\<lambda>r v. case r of Inl _ \<Rightarrow> False | Inr s \<Rightarrow> ?R s v"])
     apply (rule triple_attempt, rule triple_conseq [OF tx_read_journal [OF assms, of "{Some j2, Some j1}" A]])
        apply (simp, simp, simp, simp)
    subgoal for r
      apply (cases r)
       apply (simp add: triple_def)
      apply (rule triple_pure)
      subgoal for s v using known [where s = s and v = v] by (cases s) auto
      done
    done
qed

lemma commit_failed_roll: "recoverable h tx v \<Longrightarrow> commit_failed h tx rollback_error v"
  by (simp add: commit_failed_def plain_error_def rollback_error_def)

lemma tx_roll_back_late:
  assumes "tx_run h tx d ops" "tx_installed h tx d ops"
  shows "triple h (tx_at h tx d {Some (tx_journal_of tx Prepared ops)} (undoable_in h False (tx_targets tx)) ops) (roll_back_and_finish (tx_journal tx) ops error)
    (\<lambda>_. commit_done h tx) (commit_failed h tx) (recoverable h tx)"
  by (rule triple_conseq [OF tx_roll_back_and_finish [OF assms(1), of "{Some (tx_journal_of tx Prepared ops)}" False]])
    (use recoverable_undoing_late [OF assms] in \<open>auto simp: commit_failed_def plain_error_def\<close>)

lemma recoverable_prepared:
  assumes "tx_run h tx d ops" "tx_installed h tx d ops" "tx_at h tx d {Some (tx_journal_of tx Prepared ops)} (undoable_in h False (tx_targets tx)) ops v"
  shows "recoverable h tx v"
  using recoverable_undoing_late [OF assms(1,2) tx_undoing_weaken [OF assms(3)]] by simp

lemma tx_commit_applied:
  assumes "tx_run h tx d ops" "tx_installed h tx d ops" "journal_roundtrip h" "fresh_identities h"
  shows "triple h (tx_at h tx d {Some (tx_journal_of tx Prepared ops)} (\<lambda>y f. undoable_in h False (tx_targets tx) y f \<and> applied_in h (tx_targets tx) y f) ops)
    (commit_applied (tx_journal tx) (tx_journal_of tx Prepared ops)) (\<lambda>_. commit_done h tx) (commit_failed h tx) (recoverable h tx)"
proof -
  let ?j1 = "tx_journal_of tx Prepared ops" and ?j2 = "tx_journal_of tx Committed ops"
  let ?A = "\<lambda>y f. undoable_in h False (tx_targets tx) y f \<and> applied_in h (tx_targets tx) y f"
  have local: "footprint_local ?A"
    by (rule footprint_local_conj [OF footprint_local_undoable]) (use footprint_local_progress [of "{}"] in simp)
  have j2: "?j1\<lparr>jn_state := Committed\<rparr> = ?j2" "jn_operations ?j1 = ops" by (simp_all add: tx_journal_of_def)
  have settled: "tx_at h tx d {Some ?j2} (settled_in h (tx_targets tx)) ops v" if "tx_at h tx d {Some ?j2} ?A ops v" for v
    using that by (rule tx_at_mono) (auto intro: applied_settled)
  have prepared: "tx_at h tx d {Some ?j1} (undoable_in h False (tx_targets tx)) ops v" if "tx_at h tx d {Some ?j1} ?A ops v" for v
    using that by (simp add: tx_at_conj)
  have either: "recoverable h tx v" if v: "tx_at h tx d {Some ?j2, Some ?j1} ?A ops v" for v
  proof -
    obtain j where j: "j \<in> {Some ?j2, Some ?j1}" "holds_journal h (fst v (tx_journal tx)) j" using tx_atD(5) [OF v] by blast
    from tx_at_narrow [OF v j(2)] j(1) show ?thesis
      using recoverable_committed [OF assms(1,2) settled [of v]] recoverable_prepared [OF assms(1,2) prepared [of v]] by blast
  qed
  have fallback: "triple h (tx_at h tx d {Some ?j2, Some ?j1} ?A ops)
      (pbind (committed_visible (tx_journal tx) ?j2) (\<lambda>visible. if \<not> visible then roll_back_and_finish (tx_journal tx) ops error else pfail uncertain_error))
      (\<lambda>_. commit_done h tx) (commit_failed h tx) (recoverable h tx)" for error
  proof (rule triple_then [OF tx_committed_visible [OF assms(1), of ?j2 ?j1 ?A]])
    fix visible
    show "triple h (tx_at h tx d {Some (if visible then ?j2 else ?j1)} ?A ops)
        (if \<not> visible then roll_back_and_finish (tx_journal tx) ops error else pfail uncertain_error) (\<lambda>_. commit_done h tx) (commit_failed h tx) (recoverable h tx)"
    proof (cases visible)
      case True
      then show ?thesis
        using recoverable_committed [OF assms(1,2) settled] by (auto intro!: triple_pfail simp: commit_failed_def plain_error_def)
    next
      case False
      then show ?thesis using triple_pre [OF tx_roll_back_late [OF assms(1,2)] prepared] by simp
    qed
  qed (use either in blast)+
  show ?thesis
    unfolding commit_applied_def Let_def j2
  proof (rule triple_bind [where R = "\<lambda>r. tx_at h tx d (if is_ok r then {Some ?j2} else {Some ?j2, Some ?j1}) ?A ops"])
    show "triple h (tx_at h tx d {Some ?j1} ?A ops) (attempt (write_journal (tx_journal tx) ?j2))
        (\<lambda>r. tx_at h tx d (if is_ok r then {Some ?j2} else {Some ?j2, Some ?j1}) ?A ops) (commit_failed h tx) (recoverable h tx)"
      by (rule triple_attempt, rule triple_conseq [OF tx_write_journal [OF assms(1) local assms(3,4), of "{Some ?j1}"]]) (use either in auto)
  next
    fix r :: "(pub_error, unit) result"
    show "triple h (tx_at h tx d (if is_ok r then {Some ?j2} else {Some ?j2, Some ?j1}) ?A ops)
        (case r of Inl error \<Rightarrow> pbind (committed_visible (tx_journal tx) ?j2) (\<lambda>visible.
             if \<not> visible then roll_back_and_finish (tx_journal tx) ops error else pfail uncertain_error)
         | Inr _ \<Rightarrow> finish_committed (tx_journal tx) ops) (\<lambda>_. commit_done h tx) (commit_failed h tx) (recoverable h tx)"
      using fallback triple_pre [OF tx_finish_committed [OF assms(1,2)] settled] by (cases r) simp_all
  qed
qed


section \<open>The whole commit\<close>

lemma tx_apply_operations:
  assumes "tx_run h tx d ops"
  shows "triple h (\<lambda>v. tx_at h tx d J (undoable_in h False (tx_targets tx)) ops v \<and> (\<forall>y\<in>set ops. ready_in (tx_targets tx) y (fst v))) (apply_operations ops)
    (\<lambda>_. tx_at h tx d J (\<lambda>y f. undoable_in h False (tx_targets tx) y f \<and> applied_in h (tx_targets tx) y f) ops)
    (\<lambda>_. tx_at h tx d J (undoable_in h False (tx_targets tx)) ops) (tx_at h tx d J (undoable_in h False (tx_targets tx)) ops)"
  unfolding tx_at_conj unfolding tx_at_among
  by (rule triple_conseq [OF triple_apply_operations [OF tx_runD(3) [OF assms] tx_local [OF assms] subset_refl sound_opsD(2) [OF tx_runD(3) [OF assms]]]])
    simp_all

lemma tx_commit_staged:
  assumes "tx_run h tx d ops" "tx_installed h tx d ops" "journal_roundtrip h" "fresh_identities h"
  shows "triple h (\<lambda>v. tx_at h tx d {journal0 h tx d} (undoable_in h True (tx_targets tx)) ops v \<and> (\<forall>y\<in>set ops. ready_in (tx_targets tx) y (fst v)))
    (commit_staged (tx_journal tx) (tx_journal_of tx Prepared ops)) (\<lambda>_. commit_done h tx) (commit_failed h tx) (recoverable h tx)"
proof -
  let ?j1 = "tx_journal_of tx Prepared ops" and ?U = "undoable_in h True (tx_targets tx)" and ?V = "undoable_in h False (tx_targets tx)"
  let ?A = "\<lambda>y f. undoable_in h True (tx_targets tx) y f \<and> ready_in (tx_targets tx) y f"
  let ?J = "{Some ?j1, journal0 h tx d}"
  have local: "footprint_local ?A" by (rule footprint_local_conj [OF footprint_local_undoable footprint_local_ready])
  have none: "None \<notin> ?J" by (simp add: journal0_def)
  have sub: "?J \<subseteq> {journal0 h tx d} \<union> (if tx_installed h tx d ops then {Some ?j1} else {})" using assms(2) by simp
  have j1: "jn_operations ?j1 = ops" by (simp add: tx_journal_of_def)
  have early: "triple h (tx_at h tx d ?J ?A ops) (roll_back_and_finish (tx_journal tx) ops error) (\<lambda>_. commit_done h tx) (commit_failed h tx) (recoverable h tx)" for error
    by (rule triple_conseq [OF tx_roll_back_and_finish [OF assms(1) none, of True]])
      (use recoverable_undoing_early [OF assms(1) _ sub] in \<open>auto simp: tx_at_conj commit_failed_def plain_error_def\<close>)
  have crash: "recoverable h tx v" if "tx_at h tx d ?J ?A ops v" for v
    using recoverable_undoing_early [OF assms(1) tx_undoing_weaken [OF _ none] sub] that by (simp add: tx_at_conj)
  have applying: "triple h (tx_at h tx d {Some ?j1} ?A ops) (pbind (attempt (apply_operations ops)) (\<lambda>applied. case applied of
           Inl error \<Rightarrow> roll_back_and_finish (tx_journal tx) ops error | Inr _ \<Rightarrow> commit_applied (tx_journal tx) ?j1))
      (\<lambda>_. commit_done h tx) (commit_failed h tx) (recoverable h tx)"
  proof (rule triple_bind [where R = "\<lambda>r. tx_at h tx d {Some ?j1} (\<lambda>y f. ?V y f \<and> (is_ok r \<longrightarrow> applied_in h (tx_targets tx) y f)) ops"])
    show "triple h (tx_at h tx d {Some ?j1} ?A ops) (attempt (apply_operations ops))
        (\<lambda>r. tx_at h tx d {Some ?j1} (\<lambda>y f. ?V y f \<and> (is_ok r \<longrightarrow> applied_in h (tx_targets tx) y f)) ops) (commit_failed h tx) (recoverable h tx)"
    proof (rule triple_attempt, rule triple_conseq [OF tx_apply_operations [OF assms(1), of "{Some ?j1}"]])
      fix v assume "tx_at h tx d {Some ?j1} ?A ops v"
      then show "tx_at h tx d {Some ?j1} ?V ops v \<and> (\<forall>y\<in>set ops. ready_in (tx_targets tx) y (fst v))"
        using undoable_late by (auto simp: tx_at_def among_def)
    qed (use recoverable_prepared [OF assms(1,2)] in simp_all)
  next
    fix r :: "(pub_error, unit) result"
    show "triple h (tx_at h tx d {Some ?j1} (\<lambda>y f. ?V y f \<and> (is_ok r \<longrightarrow> applied_in h (tx_targets tx) y f)) ops)
        (case r of Inl error \<Rightarrow> roll_back_and_finish (tx_journal tx) ops error | Inr _ \<Rightarrow> commit_applied (tx_journal tx) ?j1)
        (\<lambda>_. commit_done h tx) (commit_failed h tx) (recoverable h tx)"
      using tx_roll_back_late [OF assms(1,2)] tx_commit_applied [OF assms] by (cases r) simp_all
  qed
  show ?thesis
    unfolding commit_staged_def j1
  proof (rule triple_bind [where R = "\<lambda>r. tx_at h tx d (if is_ok r then {Some ?j1} else ?J) ?A ops"])
    show "triple h (\<lambda>v. tx_at h tx d {journal0 h tx d} ?U ops v \<and> (\<forall>y\<in>set ops. ready_in (tx_targets tx) y (fst v)))
        (attempt (write_journal (tx_journal tx) ?j1)) (\<lambda>r. tx_at h tx d (if is_ok r then {Some ?j1} else ?J) ?A ops) (commit_failed h tx) (recoverable h tx)"
      by (rule triple_attempt, rule triple_conseq [OF tx_write_journal [OF assms(1) local assms(3,4), of "{journal0 h tx d}"]])
        (use crash in \<open>auto simp: tx_at_conj\<close>)
  next
    fix r :: "(pub_error, unit) result"
    show "triple h (tx_at h tx d (if is_ok r then {Some ?j1} else ?J) ?A ops)
        (case r of Inl error \<Rightarrow> roll_back_and_finish (tx_journal tx) ops error
         | Inr _ \<Rightarrow> pbind (attempt (apply_operations ops)) (\<lambda>applied. case applied of
             Inl error \<Rightarrow> roll_back_and_finish (tx_journal tx) ops error | Inr _ \<Rightarrow> commit_applied (tx_journal tx) ?j1))
        (\<lambda>_. commit_done h tx) (commit_failed h tx) (recoverable h tx)"
      using early applying by (cases r) simp_all
  qed
qed

lemma tx_commit_planned:
  assumes "tx_run h tx d (tx_ops h tx d)" "journal_roundtrip h" "fresh_identities h" "map fst planned = tx_ops h tx d"
    and "\<And>y c. (y, c) \<in> set planned \<Longrightarrow> c = contents_of (tx_targets tx) y \<and> jo_installed y = None"
  shows "triple h (tx_at h tx d {None} (\<lambda>y f. undoable_in h True (tx_targets tx) y f \<and> untouched_in (tx_targets tx) y f) (tx_ops h tx d))
    (commit_planned (tx_journal tx) (tx_nonce tx) planned) (\<lambda>_. commit_done h tx) (commit_failed h tx) (recoverable h tx)"
proof -
  let ?ops = "tx_ops h tx d" and ?J = "{journal0 h tx d}"
  let ?A = "\<lambda>y f. undoable_in h True (tx_targets tx) y f \<and> untouched_in (tx_targets tx) y f"
  have local: "footprint_local ?A" by (rule footprint_local_conj [OF footprint_local_undoable footprint_local_untouched_in])
  have none: "None \<notin> ?J" by (simp add: journal0_def)
  have sub: "?J \<subseteq> {journal0 h tx d} \<union> (if tx_installed h tx d ?ops then {Some (tx_journal_of tx Prepared ?ops)} else {})" by simp
  have failed: "recoverable h tx v \<and> tx_old h tx v" if v: "tx_at h tx d {journal0 h tx d, None} ?A ?ops v" for v
    using recoverable_undoing_early [OF assms(1) tx_undoing_untouched sub, of v] v tx_old_blank [OF assms(1) tx_at_dirs [OF v]] v
    by (auto simp: insert_commute tx_at_conj)
  have staging: "commit_failed h tx e v" if "staging_error h tx d ?J e v" for e v
    using recoverable_undoing_early [OF assms(1) _ sub, of v] that by (auto simp: staging_error_def commit_failed_def plain_error_def)
  have journal: "journal0 h tx d = Some \<lparr>jn_schema = ascii ''aros-publication-journal-v3'', jn_nonce = tx_nonce tx, jn_state = Prepared, jn_operations = map fst planned\<rparr>"
    by (simp add: journal0_def tx_journal_of_def assms(4))
  have stage: "triple h (tx_at h tx d ?J ?A ?ops) (stage_operations (tx_journal tx) [] planned) (staged_all h tx d ?J) (commit_failed h tx) (recoverable h tx)"
    by (rule triple_conseq [OF tx_stage_operations [OF assms(3) none, of tx d "[]" planned]])
      (use assms(1,4,5) staging recoverable_undoing_early [OF assms(1) _ sub] in \<open>auto simp: tx_at_conj\<close>)
  show ?thesis
    unfolding commit_planned_def Let_def
  proof (rule triple_bind [where R = "\<lambda>_. tx_at h tx d ?J ?A ?ops"])
    show "triple h (tx_at h tx d {None} ?A ?ops) (write_journal (tx_journal tx)
        \<lparr>jn_schema = ascii ''aros-publication-journal-v3'', jn_nonce = tx_nonce tx, jn_state = Prepared, jn_operations = map fst planned\<rparr>)
        (\<lambda>_. tx_at h tx d ?J ?A ?ops) (commit_failed h tx) (recoverable h tx)"
      by (rule triple_conseq [OF tx_write_journal [OF assms(1) local assms(2,3), of "{None}"]])
        (use failed in \<open>auto simp: journal [symmetric] commit_failed_def\<close>)
  next
    fix x :: unit
    show "triple h (tx_at h tx d ?J ?A ?ops) (pbind (stage_operations (tx_journal tx) [] planned) (\<lambda>ops. commit_staged (tx_journal tx)
        (\<lparr>jn_schema = ascii ''aros-publication-journal-v3'', jn_nonce = tx_nonce tx, jn_state = Prepared, jn_operations = map fst planned\<rparr>
          \<lparr>jn_operations := ops\<rparr>))) (\<lambda>_. commit_done h tx) (commit_failed h tx) (recoverable h tx)"
    proof (rule triple_bind [OF stage], rule triple_case)
      fix ops v assume v: "staged_all h tx d ?J ops v"
      then have "tx_run h tx d ops" "tx_installed h tx d ops" by (auto simp: staged_all_def)
      from triple_pre [OF tx_commit_staged [OF this assms(2,3)], of "\<lambda>u. u = v"] v
      show "triple h (\<lambda>u. u = v) (commit_staged (tx_journal tx) (\<lparr>jn_schema = ascii ''aros-publication-journal-v3'', jn_nonce = tx_nonce tx,
          jn_state = Prepared, jn_operations = map fst planned\<rparr>\<lparr>jn_operations := ops\<rparr>)) (\<lambda>_. commit_done h tx) (commit_failed h tx) (recoverable h tx)"
        by (simp add: staged_all_def tx_journal_of_def)
    qed
  qed
qed

end
