(* ===== verification/Pub_History.thy ===== *)
theory Pub_History
  imports Pub_Recovery
begin

text \<open>
  Histories of a transaction: a commit on some host, then any number of recoveries, each of which
  may fail or be cut off at any system call.
\<close>

section \<open>The start of a commit\<close>

lemma blank_planned: "map blank (planned_ops h d n cs) = planned_ops h d n cs"
  by (induction cs arbitrary: n) (auto simp: planned_op_def blank_def)

lemma planned_installed: "y \<in> set (planned_ops h d n cs) \<Longrightarrow> jo_installed y = None"
  by (induction cs arbitrary: n) (auto simp: planned_op_def)

lemma planned_zip:
  "(y, c) \<in> set (zip (planned_ops h d n cs) (map change_contents cs)) \<Longrightarrow> \<exists>x m. x \<in> set cs \<and> y = planned_op h d m x \<and> c = change_contents x"
  by (induction cs arbitrary: n) (auto, blast)

lemma length_planned [simp]: "length (planned_ops h d n cs) = length cs"
  by (induction cs arbitrary: n) auto

lemma tx_footprints:
  assumes "tx_ok h tx d0"
  shows "footprints (tx_ops h tx d) \<inter> journal_paths h (tx_journal tx) = {}" "footprints (tx_ops h tx d) \<subseteq> set (tx_paths h tx)"
  using assms footprints_planned [of h d "tx_nonce tx" "tx_changes tx"]
  by (auto simp: tx_ok_def tx_paths_def tx_ops_def journal_paths_def)

lemma change_paths_aux:
  "y \<in> set (planned_ops h d n cs) \<Longrightarrow> distinct (change_paths h n cs) \<Longrightarrow> p \<in> footprint y \<Longrightarrow> p \<noteq> jo_target y \<Longrightarrow>
    p \<in> set (change_paths h n cs) - pc_path ` set cs"
proof (induction cs arbitrary: n)
  case (Cons c cs)
  have targets: "pc_path x \<in> set (change_paths h (n + 1) cs)" if "x \<in> set cs" for x using change_paths_targets [OF that] .
  show ?case
  proof (cases "y = planned_op h d n c")
    case True
    then have "p \<in> {aux_path h (pc_path c) ''stage'' n, aux_path h (pc_path c) ''backup'' n}"
      using Cons.prems(3,4) footprint_planned [of h d n c] by (auto simp: planned_op_def)
    then show ?thesis using Cons.prems(2) targets by auto
  next
    case False
    then have y: "y \<in> set (planned_ops h d (n + 1) cs)" using Cons.prems(1) by simp
    then have "p \<in> set (change_paths h (n + 1) cs) - pc_path ` set cs" using Cons by simp
    then show ?thesis using Cons.prems(2) by auto
  qed
qed simp

text \<open>Until the journal is written, only directories are new.\<close>

lemma tx_started:
  assumes "tx_ok h tx d0" "grows (plan_ancestors (tx_changes tx)) (tx_files tx, d0) v"
  shows "journal_place h (tx_journal tx) (snd v)"
    and "tx_at h tx (snd v) {None} (\<lambda>y f. undoable_in h True (tx_targets tx) y f \<and> untouched_in (tx_targets tx) y f) (tx_ops h tx (snd v)) v"
proof -
  let ?jp = "tx_journal tx" and ?ts = "tx_targets tx"
  have files: "fst v = tx_files tx" using assms(2) by (simp add: grows_def)
  have dirs: "snd v p = d0 p" if "p \<in> set (tx_paths h tx)" for p
    using assms that unfolding grows_def tx_ok_def by (metis snd_conv)
  have mem: "?jp \<in> set (tx_paths h tx)" "journal_stage h ?jp \<in> set (tx_paths h tx)" by (simp_all add: tx_paths_def)
  have targets: "?jp \<notin> pc_path ` set (tx_changes tx)" "journal_stage h ?jp \<notin> pc_path ` set (tx_changes tx)"
    using assms(1) change_paths_targets [of _ "tx_changes tx" h "tx_nonce tx"] by (auto simp: tx_ok_def tx_paths_def)
  show "journal_place h ?jp (snd v)"
    using assms(1) grows_dirs_ok [OF assms(2)] dirs [OF mem(1)] dirs [OF mem(2)] mem by (auto simp: journal_place_def tx_ok_def tx_paths_def)
  have absent: "fst v ?jp = None" "fst v (journal_stage h ?jp) = None"
    using assms(1) mem targets files by (auto simp: tx_ok_def)
  have clear: "fst v p = None" if y: "y \<in> set (tx_ops h tx (snd v))" and p: "p \<in> footprint y" "p \<noteq> jo_target y" for y p
  proof -
    have "p \<in> set (change_paths h (tx_nonce tx) (tx_changes tx)) - pc_path ` set (tx_changes tx)"
      by (rule change_paths_aux [OF _ _ p]) (use y assms(1) in \<open>auto simp: tx_ops_def tx_ok_def tx_paths_def\<close>)
    then show ?thesis using assms(1) files by (auto simp: tx_ok_def tx_paths_def)
  qed
  have ops: "undoable_in h True ?ts y (fst v) \<and> untouched_in ?ts y (fst v)" if y: "y \<in> set (tx_ops h tx (snd v))" for y
  proof -
    obtain c n where c: "y = planned_op h (snd v) n c" "op_wf h y (change_contents c)" using tx_op_facts [OF assms(1) y] by metis
    have "value_at (fst v) (jo_stage y) = None" "value_at (fst v) (jo_backup y) = None"
      using clear [OF y] footprint_paths(2,3) [OF c(2)] by (auto simp: value_at_def footprint_def split: option.splits)
    moreover have "jo_installed y = None" by (simp add: c(1) planned_op_def)
    ultimately show ?thesis
      using files by (auto simp: undoable_in_def undoable_def pending_def stage_owned_def untouched_in_def untouched_def tx_targets_def)
  qed
  show "tx_at h tx (snd v) {None} (\<lambda>y f. undoable_in h True ?ts y f \<and> untouched_in ?ts y f) (tx_ops h tx (snd v)) v"
    using ops absent files by (auto simp: tx_at_def among_def journal_in_def holds_None stage_file_ok_def tx_frame_def)
qed

lemma tx_planned:
  assumes "tx_ok h tx d0" "reads_ok h" "grows (plan_ancestors (tx_changes tx)) (tx_files tx, d0) v" "\<forall>c\<in>set (tx_changes tx). dirs_ok (snd v) (pc_path c)"
  shows "tx_run h tx (snd v) (tx_ops h tx (snd v))"
  using tx_sound [OF assms(1,2,4)] tx_footprints(1) [OF assms(1)] tx_started(1) [OF assms(1,3)] assms(2) planned_installed
  by (auto simp: tx_run_def tx_ops_def blank_planned)

text \<open>The transaction a call of \<open>commit\<close> carries out.\<close>

definition tx_start :: "Journal host \<Rightarrow> path \<Rightarrow> PlannedChange list \<Rightarrow> world \<Rightarrow> transaction" where
  "tx_start h jp changes w =
     \<lparr>tx_journal = jp, tx_nonce = xor (push_bit 32 (ucast (ho_pid h))) (w_sequence w), tx_changes = changes, tx_files = file_at w\<rparr>"

definition faithful :: "Journal host \<Rightarrow> bool" where
  "faithful h = (reads_ok h \<and> fresh_identities h \<and> journal_roundtrip h)"

lemma commit_result:
  assumes "faithful h" "tx_ok h (tx_start h jp changes w) (dir_at w)" "unix_commit jp changes h w = (r, w')"
  shows "case r of Done _ \<Rightarrow> commit_done h (tx_start h jp changes w) (view w')
    | Failed e \<Rightarrow> commit_failed h (tx_start h jp changes w) e (view w') | Crashed \<Rightarrow> recoverable h (tx_start h jp changes w) (view w')"
proof -
  let ?tx = "tx_start h jp changes w" and ?w = "w\<lparr>w_sequence := w_sequence w + 1\<rparr>"
  let ?S = "plan_ancestors changes" and ?u = "(file_at w, dir_at w)"
  have tx: "tx_journal ?tx = jp" "tx_changes ?tx = changes" "tx_files ?tx = file_at w" by (simp_all add: tx_start_def)
  have host: "reads_ok h" "fresh_identities h" "journal_roundtrip h" using assms(1) by (auto simp: faithful_def)
  note started = tx_started [OF assms(2), unfolded tx] and planned = tx_planned [OF assms(2) host(1), unfolded tx]
  have early: "recoverable h ?tx v \<and> tx_old h ?tx v" if "grows ?S ?u v" for v
    by (rule recoverable_old [OF tx_at_mono [OF started(2) [OF that]] _ tx_footprints(1) [OF assms(2)]])
      (use started(1) [OF that] in \<open>auto simp: tx\<close>)
  have plan: "triple h (grows ?S ?u) (pbind (plan_operations (tx_nonce ?tx) changes) (commit_planned jp (tx_nonce ?tx)))
      (\<lambda>_. commit_done h ?tx) (commit_failed h ?tx) (recoverable h ?tx)"
  proof (rule triple_then [OF triple_plan_operations [OF host(1)]])
    fix p :: "(JournalOperation \<times> bytes option) list"
    show "triple h (\<lambda>v. grows ?S ?u v \<and> (\<forall>c\<in>set changes. dirs_ok (snd v) (pc_path c)) \<and>
        p = zip (planned_ops h (snd v) (tx_nonce ?tx) changes) (map change_contents changes))
        (commit_planned jp (tx_nonce ?tx) p) (\<lambda>_. commit_done h ?tx) (commit_failed h ?tx) (recoverable h ?tx)"
    proof (rule triple_case)
      fix v assume v: "grows ?S ?u v \<and> (\<forall>c\<in>set changes. dirs_ok (snd v) (pc_path c)) \<and>
        p = zip (planned_ops h (snd v) (tx_nonce ?tx) changes) (map change_contents changes)"
      have ops: "map fst p = tx_ops h ?tx (snd v)" using v by (simp add: tx_ops_def tx)
      have contents: "c = contents_of (tx_targets ?tx) y \<and> jo_installed y = None" if yc: "(y, c) \<in> set p" for y c
      proof -
        have y: "y \<in> set (tx_ops h ?tx (snd v))" unfolding ops [symmetric] using yc by force
        obtain x m where x: "x \<in> set changes" "y = planned_op h (snd v) m x" "c = change_contents x"
          using planned_zip yc v by blast
        obtain x' m' where x': "x' \<in> set changes" "y = planned_op h (snd v) m' x'" "contents_of (tx_targets ?tx) y = change_contents x'"
          using tx_op_facts [OF assms(2) y] unfolding tx by metis
        have "distinct (change_paths h (tx_nonce ?tx) changes)" using assms(2) by (simp add: tx_ok_def tx_paths_def tx)
        moreover have "pc_path x = pc_path x'" using x(2) x'(2) by (simp add: planned_op_def)
        ultimately have "x = x'" using find_change x(1) x'(1) by (metis option.inject)
        then show ?thesis using x x' by (simp add: planned_op_def)
      qed
      show "triple h (\<lambda>u. u = v) (commit_planned jp (tx_nonce ?tx) p) (\<lambda>_. commit_done h ?tx) (commit_failed h ?tx) (recoverable h ?tx)"
        by (rule triple_pre [OF tx_commit_planned [OF planned host(3,2) ops contents, unfolded tx]]) (use v started(2) in auto)
    qed
  qed (use early assms(2) in \<open>auto simp: commit_failed_def tx_ok_def tx\<close>)
  have "unix_commit jp changes h w = pbind (plan_operations (tx_nonce ?tx) changes) (commit_planned jp (tx_nonce ?tx)) h ?w"
    by (simp add: unix_commit_def take_nonce_def pbind_def tx_start_def)
  then have "pbind (plan_operations (tx_nonce ?tx) changes) (commit_planned jp (tx_nonce ?tx)) h ?w = (r, w')" using assms(3) by simp
  moreover have "grows ?S ?u (view ?w)" unfolding view_simps(2) by (simp add: grows_def view_def)
  ultimately show ?thesis using triple_result [OF plan] by blast
qed


section \<open>Recovery\<close>

definition recovered :: "Journal host \<Rightarrow> transaction \<Rightarrow> RecoveryOutcome \<Rightarrow> view \<Rightarrow> bool" where
  "recovered h tx r v =
     (recoverable h tx v \<and> fst v (tx_journal tx) = None \<and> (r = RolledBack \<longrightarrow> tx_old h tx v) \<and> (r = CompletedCleanup \<longrightarrow> tx_new h tx v))"

text \<open>When a recovery cannot be refused.\<close>

definition live :: "Journal host \<Rightarrow> transaction \<Rightarrow> (path \<Rightarrow> FileIdentity option) \<Rightarrow> bool" where
  "live h tx d =
     (validate_journal h (tx_journal_of tx Prepared (tx_ops h tx d)) (tx_journal tx) = Inr () \<and>
      (\<forall>y\<in>set (tx_ops h tx d). revertible h y (contents_of (tx_targets tx) y) (original_of (tx_targets tx) y) d))"

lemma validate_v3:
  "validate_journal h (tx_journal_of tx state ops) jp =
    (case path_parent jp of None \<Rightarrow> reject | Some scope \<Rightarrow> validate_operations h True scope {} {} (tx_nonce tx) ops)"
proof -
  have "ascii ''aros-publication-journal-v3'' \<noteq> ascii ''aros-publication-journal-v2''" by code_simp
  then show ?thesis by (simp add: validate_journal_def tx_journal_of_def split: option.split)
qed

lemma blank_fields [simp]:
  "jo_original (blank y) = jo_original y" "jo_original_digest (blank y) = jo_original_digest y" "jo_original_mode (blank y) = jo_original_mode y"
  "jo_desired_digest (blank y) = jo_desired_digest y" "jo_desired_mode (blank y) = jo_desired_mode y" "jo_parent_identity (blank y) = jo_parent_identity y"
  by (simp_all add: blank_def)

lemma validate_blank:
  "(\<And>y. y \<in> set ops \<Longrightarrow> jo_installed y \<noteq> None \<Longrightarrow> jo_stage y \<noteq> None) \<Longrightarrow>
    validate_operations h mode scope T K n (map blank ops) = validate_operations h mode scope T K n ops"
proof (induction ops arbitrary: T K n)
  case (Cons y ops)
  have aux: "auxiliary_inconsistent mode a b (blank y) = auxiliary_inconsistent mode a b y" for a b
    using Cons.prems [of y] by (cases "jo_installed y") (simp_all add: auxiliary_inconsistent_def is_some_def)
  have proof': "original_proof_incomplete mode (blank y) = original_proof_incomplete mode y" by (simp add: original_proof_incomplete_def)
  have rest: "validate_operations h mode scope T K n (map blank ops) = validate_operations h mode scope T K n ops" for T K n
    using Cons.IH Cons.prems by simp
  show ?case unfolding list.map validate_operations.simps blank_simps blank_fields aux proof' rest by (rule refl)
qed simp

lemma revertible_blank: "revertible h (blank y) c t0 d \<longleftrightarrow> revertible h y c t0 d"
  by (simp add: revertible_def)

lemma liveD:
  assumes "live h tx d" "tx_run h tx d ops"
  shows "validate_journal h (tx_journal_of tx state ops) (tx_journal tx) = Inr ()"
    and "\<forall>y\<in>set ops. revertible h y (contents_of (tx_targets tx) y) (original_of (tx_targets tx) y) d" "\<forall>y\<in>set ops. tidy y d"
proof -
  note run = tx_runD [OF assms(2)]
  have "jo_stage y \<noteq> None" if "y \<in> set ops" "jo_installed y \<noteq> None" for y
    using sound_opsD(3) [OF run(3) that(1)] that(2) by (auto simp: setting_def op_wf_def)
  from validate_blank [of ops h True] this
  show "validate_journal h (tx_journal_of tx state ops) (tx_journal tx) = Inr ()"
    using assms(1) run(6) by (cases "path_parent (tx_journal tx)") (simp_all add: live_def validate_v3)
  have "revertible h (blank y) (contents_of (tx_targets tx) y) (original_of (tx_targets tx) y) d" if "y \<in> set ops" for y
  proof -
    have "blank y \<in> set (tx_ops h tx d)" unfolding run(6) [symmetric] using that by simp
    then show ?thesis using assms(1) by (fastforce simp: live_def)
  qed
  then show rev: "\<forall>y\<in>set ops. revertible h y (contents_of (tx_targets tx) y) (original_of (tx_targets tx) y) d"
    by (simp add: revertible_blank)
  then show "\<forall>y\<in>set ops. tidy y d" by (auto simp: revertible_def tidy_def)
qed

lemma recoverable_cases:
  assumes "recoverable h tx v" "reads_ok h"
  obtains (none) "fst v (tx_journal tx) = None" "tx_old h tx v \<or> tx_new h tx v"
  | (prepared) ops early where "tx_run h tx (snd v) ops" "if early then ops = tx_ops h tx (snd v) else tx_installed h tx (snd v) ops"
      "tx_at h tx (snd v) {Some (tx_journal_of tx Prepared ops)} (undoable_in h early (tx_targets tx)) ops v"
  | (committed) ops where "tx_run h tx (snd v) ops" "tx_installed h tx (snd v) ops"
      "tx_at h tx (snd v) {Some (tx_journal_of tx Committed ops)} (settled_in h (tx_targets tx)) ops v"
proof -
  let ?d = "snd v"
  have run0: "tx_run h tx ?d (tx_ops h tx ?d)" if "sound_ops h (tx_targets tx) (tx_ops h tx ?d) ?d"
    using assms that planned_installed by (auto simp: tx_run_def recoverable_def tx_ops_def blank_planned)
  have run1: "tx_run h tx ?d ops" if "sound_ops h (tx_targets tx) (tx_ops h tx ?d) ?d" "tx_installed h tx ?d ops" for ops
    using assms that by (auto simp: tx_run_def recoverable_def tx_installed_def)
  have at: "tx_at h tx ?d {Some j} A ops v" if "holds_journal h (fst v (tx_journal tx)) (Some j)" "\<And>y. y \<in> set ops \<Longrightarrow> A y (fst v)" for j A ops
    using assms(1) that by (auto simp: tx_at_def among_def journal_in_def recoverable_def)
  have "(fst v (tx_journal tx) = None \<and> (tx_old h tx v \<or> tx_new h tx v)) \<or> sound_ops h (tx_targets tx) (tx_ops h tx ?d) ?d \<and> journal_phase h tx v"
    using assms(1) by (auto simp: recoverable_def)
  then show thesis
    unfolding journal_phase_def journal0_def
  proof (elim disjE conjE exE)
    assume "sound_ops h (tx_targets tx) (tx_ops h tx ?d) ?d" "holds_journal h (fst v (tx_journal tx)) (Some (tx_journal_of tx Prepared (tx_ops h tx ?d)))"
      "\<forall>y\<in>set (tx_ops h tx ?d). undoable_in h True (tx_targets tx) y (fst v)"
    then show thesis using prepared [of "tx_ops h tx ?d" True] run0 at by auto
  next
    fix ops assume "sound_ops h (tx_targets tx) (tx_ops h tx ?d) ?d" "tx_installed h tx ?d ops"
      "holds_journal h (fst v (tx_journal tx)) (Some (tx_journal_of tx Prepared ops))" "\<forall>y\<in>set ops. undoable_in h False (tx_targets tx) y (fst v)"
    then show thesis using prepared [of ops False] run1 at by auto
  next
    fix ops assume "sound_ops h (tx_targets tx) (tx_ops h tx ?d) ?d" "tx_installed h tx ?d ops"
      "holds_journal h (fst v (tx_journal tx)) (Some (tx_journal_of tx Committed ops))" "\<forall>y\<in>set ops. settled_in h (tx_targets tx) y (fst v)"
    then show thesis using committed [of ops] run1 at by auto
  qed (use none in blast)+
qed


lemma tx_local_node:
  assumes "tx_run h tx d ops"
  shows "local_outside (footprints ops) (\<lambda>v. (journal_in h (tx_journal tx) J v \<and> tx_frame h tx v \<and> snd v = d) \<and> fst v (tx_journal tx) = n)"
proof -
  have jp: "tx_journal tx \<notin> footprints ops" using tx_runD(5) [OF assms] by (auto simp: journal_paths_def)
  show ?thesis
    unfolding local_outside_def using local_outsideD [OF tx_local [OF assms, of J]] jp by blast
qed

text \<open>What happens to a journal that is found, whichever of the two kinds it is.\<close>

lemma tx_recover:
  assumes run: "tx_run h tx d ops" and j: "jn_operations j = ops"
    and step: "\<And>G. local_outside (footprints ops) G \<Longrightarrow> triple h (among G d A ops)
      (if jn_state j = Committed then cleanup_committed ops else rollback_operations ops)
      (\<lambda>errors v. among G d A ops v \<and> (errors = [] \<longrightarrow> (\<forall>y\<in>set ops. B y (fst v))) \<and> (errors \<noteq> [] \<longrightarrow> \<not> (calm h \<and> live h tx d)))
      (\<lambda>_ _. False) (trouble h (among G d A ops))"
    and local: "footprint_local A" "footprint_local B"
    and valid: "live h tx d \<Longrightarrow> validate_journal h j (tx_journal tx) = Inr ()"
    and before: "\<And>v. tx_at h tx d {Some j} A ops v \<Longrightarrow> recoverable h tx v"
    and after: "\<And>v. tx_at h tx d {None, Some j} (\<lambda>y f. A y f \<and> B y f) ops v \<Longrightarrow> recoverable h tx v"
    and finished: "\<And>v. tx_at h tx d {None} (\<lambda>y f. A y f \<and> B y f) ops v \<Longrightarrow>
      recovered h tx (if jn_state j = Committed then CompletedCleanup else RolledBack) v"
  shows "triple h (tx_at h tx d {Some j} A ops) (recover_if_needed (tx_journal tx)) (recovered h tx)
    (\<lambda>_ v. recoverable h tx v \<and> \<not> (calm h \<and> live h tx d)) (trouble h (recoverable h tx))"
proof -
  let ?J = "{Some j}" and ?jp = "tx_journal tx" and ?AB = "\<lambda>y f. A y f \<and> B y f"
  let ?E = "\<lambda>(_ :: pub_error) v. recoverable h tx v \<and> \<not> (calm h \<and> live h tx d)" and ?C = "trouble h (recoverable h tx)"
  let ?step = "if jn_state j = Committed then cleanup_committed ops else rollback_operations ops"
  let ?r = "if jn_state j = Committed then CompletedCleanup else RolledBack"
  have remove: "triple h (\<lambda>v. tx_at h tx d ?J ?AB ops v \<and> fst v ?jp = Some (Regular i bs m))
      (pbind (attempt (remove_journal ?jp i)) (\<lambda>removed. pensure (is_ok removed) rollback_error (pure ?r))) (recovered h tx) ?E ?C" for i bs m
  proof (rule triple_bind [where R = "\<lambda>r v. if is_ok r then tx_at h tx d {None} ?AB ops v else trouble h (tx_at h tx d {None, Some j} ?AB ops) v"])
    show "triple h (\<lambda>v. tx_at h tx d ?J ?AB ops v \<and> fst v ?jp = Some (Regular i bs m)) (attempt (remove_journal ?jp i))
        (\<lambda>r v. if is_ok r then tx_at h tx d {None} ?AB ops v else trouble h (tx_at h tx d {None, Some j} ?AB ops) v) ?E ?C"
      by (rule triple_attempt, rule triple_conseq [OF tx_remove_journal [OF run footprint_local_conj [OF local], of ?J]]) (use after in simp_all)
  next
    fix r :: "(pub_error, unit) result"
    show "triple h (\<lambda>v. if is_ok r then tx_at h tx d {None} ?AB ops v else trouble h (tx_at h tx d {None, Some j} ?AB ops) v)
        (pensure (is_ok r) rollback_error (pure ?r)) (recovered h tx) ?E ?C"
      by (rule triple_ensure, rule triple_pure) (use finished after in simp_all)
  qed
  have parsed: "triple h (\<lambda>v. tx_at h tx d ?J A ops v \<and> fst v ?jp = Some (Regular i bs m))
      (case validate_journal h j ?jp of Inl e \<Rightarrow> pfail e | Inr _ \<Rightarrow> pbind ?step (\<lambda>errors. pensure (errors = []) rollback_error
         (pbind (attempt (remove_journal ?jp i)) (\<lambda>removed. pensure (is_ok removed) rollback_error (pure ?r))))) (recovered h tx) ?E ?C" for i bs m
  proof (cases "validate_journal h j ?jp")
    case (Inl e)
    then show ?thesis using valid before by (auto intro!: triple_pfail)
  next
    case (Inr u)
    let ?G = "\<lambda>v. (journal_in h ?jp ?J v \<and> tx_frame h tx v \<and> snd v = d) \<and> fst v ?jp = Some (Regular i bs m)"
    have G: "among ?G d A ops v \<longleftrightarrow> tx_at h tx d ?J A ops v \<and> fst v ?jp = Some (Regular i bs m)" for v A
      by (auto simp: among_def tx_at_def)
    have one: "triple h (\<lambda>v. tx_at h tx d ?J A ops v \<and> fst v ?jp = Some (Regular i bs m)) ?step
        (\<lambda>errors v. (tx_at h tx d ?J A ops v \<and> fst v ?jp = Some (Regular i bs m)) \<and> (errors = [] \<longrightarrow> (\<forall>y\<in>set ops. B y (fst v))) \<and>
           (errors \<noteq> [] \<longrightarrow> \<not> (calm h \<and> live h tx d))) ?E ?C"
      by (rule triple_conseq [OF step [OF tx_local_node [OF run, of ?J "Some (Regular i bs m)"], unfolded G]]) (use before in blast)+
    show ?thesis
      unfolding Inr sum.case
    proof (rule triple_bind [OF one], rule triple_ensure)
      fix errors :: "string list" assume "errors = []"
      then show "triple h (\<lambda>v. (tx_at h tx d ?J A ops v \<and> fst v ?jp = Some (Regular i bs m)) \<and> (errors = [] \<longrightarrow> (\<forall>y\<in>set ops. B y (fst v))) \<and>
           (errors \<noteq> [] \<longrightarrow> \<not> (calm h \<and> live h tx d)))
          (pbind (attempt (remove_journal ?jp i)) (\<lambda>removed. pensure (is_ok removed) rollback_error (pure ?r))) (recovered h tx) ?E ?C"
        by (intro triple_pre [OF remove [of i bs m]]) (simp add: tx_at_conj)
    qed (use before in blast)
  qed
  show ?thesis
    unfolding recover_if_needed_def
  proof (rule triple_ask, rule triple_then [OF tx_cleanup_journal_stage [OF run local(1)]], goal_cases)
    case (3 a)
    show ?case
    proof (rule triple_then [OF tx_read_journal [OF run]], goal_cases)
      case (3 s)
      show ?case
      proof (rule triple_case)
        fix v assume v: "tx_at h tx d ?J A ops v \<and> (case s of None \<Rightarrow> fst v ?jp = None | Some (i, bs) \<Rightarrow> \<exists>m. fst v ?jp = Some (Regular i bs m))"
        obtain i bs m where n: "fst v ?jp = Some (Regular i bs m)" "parse_journal h bs = Inr j"
          using v tx_atD(5) [of h tx d ?J A ops v] by (auto simp: holds_journal_def)
        then have s: "s = Some (i, bs)" using v by (auto split: option.splits)
        show "triple h (\<lambda>u. u = v)
          (case s of None \<Rightarrow> pure NoRecovery | Some (journal_identity, bytes) \<Rightarrow>
             (case parse_journal (id h) bytes of Inl _ \<Rightarrow> pfail rollback_error | Inr journal \<Rightarrow>
                (case validate_journal (id h) journal ?jp of Inl e \<Rightarrow> pfail e | Inr _ \<Rightarrow>
                   pbind (if jn_state journal = Committed then cleanup_committed (jn_operations journal) else rollback_operations (jn_operations journal)) (\<lambda>errors.
                   pensure (errors = []) rollback_error (pbind (attempt (remove_journal ?jp journal_identity)) (\<lambda>removed.
                    pensure (is_ok removed) rollback_error (pure (if jn_state journal = Committed then CompletedCleanup else RolledBack))))))))
          (recovered h tx) ?E ?C"
          unfolding s option.case prod.case id_apply n(2) sum.case j by (rule triple_pre [OF parsed]) (use v n in simp)
      qed
    qed (use before in blast)+
  qed (use before in blast)+
qed


lemma tx_recover_prepared:
  assumes "tx_run h tx d ops" "if early then ops = tx_ops h tx d else tx_installed h tx d ops"
  shows "triple h (tx_at h tx d {Some (tx_journal_of tx Prepared ops)} (undoable_in h early (tx_targets tx)) ops) (recover_if_needed (tx_journal tx))
    (recovered h tx) (\<lambda>_ v. recoverable h tx v \<and> \<not> (calm h \<and> live h tx d)) (trouble h (recoverable h tx))"
proof -
  let ?j = "tx_journal_of tx Prepared ops" and ?U = "undoable_in h early (tx_targets tx)"
  have j: "jn_operations ?j = ops" "jn_state ?j = Prepared" by (simp_all add: tx_journal_of_def)
  have undoing: "recoverable h tx v \<and> (fst v (tx_journal tx) = None \<longrightarrow> tx_old h tx v)" if "tx_undoing h tx d {Some ?j} early ops v" for v
  proof (cases early)
    case True
    then show ?thesis using recoverable_undoing_early [OF assms(1), of "{Some ?j}" v] that assms(2) by (simp add: journal0_def)
  next
    case False
    then show ?thesis using recoverable_undoing_late [OF assms(1), of v] that assms(2) by simp
  qed
  show ?thesis
  proof (rule tx_recover [OF assms(1) j(1), where A = ?U and B = "untouched_in (tx_targets tx)"], goal_cases)
    case (1 G)
    show ?case
      unfolding j(2) untouched_in_def using triple_rollback_operations [OF tx_runD(3) [OF assms(1)] 1, of early "\<lambda>_ _. False"] liveD(2) [OF _ assms(1)]
      by simp (erule triple_conseq, auto)
  next
    case (4)
    then show ?case by (rule liveD(1) [OF _ assms(1)])
  next
    case (5 v)
    then show ?case using undoing tx_undoing_weaken by blast
  next
    case (6 v)
    then show ?case using undoing tx_undoing_untouched by blast
  next
    case (7 v)
    then have "tx_undoing h tx d {Some ?j} early ops v" by (intro tx_undoing_untouched) (auto elim: tx_at_mono)
    moreover have "fst v (tx_journal tx) = None" using tx_atD(5) [OF 7] by (simp add: holds_None)
    ultimately show ?case using undoing by (simp add: recovered_def j(2))
  qed (rule footprint_local_undoable footprint_local_untouched_in)+
qed

lemma tx_recover_committed:
  assumes "tx_run h tx d ops" "tx_installed h tx d ops"
  shows "triple h (tx_at h tx d {Some (tx_journal_of tx Committed ops)} (settled_in h (tx_targets tx)) ops) (recover_if_needed (tx_journal tx))
    (recovered h tx) (\<lambda>_ v. recoverable h tx v \<and> \<not> (calm h \<and> live h tx d)) (trouble h (recoverable h tx))"
proof -
  let ?j = "tx_journal_of tx Committed ops"
  have j: "jn_operations ?j = ops" "jn_state ?j = Committed" by (simp_all add: tx_journal_of_def)
  have fin: "recoverable h tx v \<and> tx_new h tx v"
    if "tx_at h tx d {None, Some ?j} (\<lambda>y f. settled_in h (tx_targets tx) y f \<and> finished_in (tx_targets tx) y f) ops v" for v
    using recoverable_finished [OF assms] that by (simp add: insert_commute)
  show ?thesis
  proof (rule tx_recover [OF assms(1) j(1), where A = "settled_in h (tx_targets tx)" and B = "finished_in (tx_targets tx)"], goal_cases)
    case (1 G)
    show ?case
      unfolding j(2) finished_in_def using triple_cleanup_committed [OF tx_runD(3) [OF assms(1)] 1, of "\<lambda>_ _. False"] liveD(3) [OF _ assms(1)]
      by simp (erule triple_conseq, auto)
  next
    case (4)
    then show ?case by (rule liveD(1) [OF _ assms(1)])
  next
    case (5 v)
    then show ?case by (rule recoverable_committed [OF assms])
  next
    case (6 v)
    then show ?case using fin by blast
  next
    case (7 v)
    then have "recoverable h tx v \<and> tx_new h tx v" by (intro fin) (auto elim: tx_at_mono)
    moreover have "fst v (tx_journal tx) = None" using tx_atD(5) [OF 7] by (simp add: holds_None)
    ultimately show ?case by (simp add: recovered_def j(2))
  qed (rule footprint_local_settled footprint_local_finished_in)+
qed

text \<open>With no journal there is nothing to do but to remove a staged journal.\<close>

lemma tx_old_local:
  assumes "footprints (tx_ops h tx d) \<inter> S = {}" "snd v = d" "snd u = d" "\<forall>p. p \<notin> S \<longrightarrow> fst u p = fst v p"
  shows "tx_old h tx v \<Longrightarrow> tx_old h tx u" "tx_new h tx v \<Longrightarrow> tx_new h tx u"
proof -
  have same: "\<forall>p\<in>footprint y. fst v p = fst u p" if "footprint y \<subseteq> footprints (tx_ops h tx d)" for y
    using that assms(1,4) by (metis IntI disjoint_iff subsetD)
  show "tx_old h tx v \<Longrightarrow> tx_old h tx u"
    unfolding tx_old_def assms(2,3) using footprint_localD [OF footprint_local_untouched_in same] by (auto simp: footprints_def)
  show "tx_new h tx v \<Longrightarrow> tx_new h tx u"
    unfolding tx_new_def assms(2,3)
  proof (elim exE conjE, intro exI conjI ballI)
    fix ops y assume ops: "tx_installed h tx d ops" "\<forall>y\<in>set ops. finished_in (tx_targets tx) y (fst v)" and y: "y \<in> set ops"
    have "footprint y \<subseteq> footprints (tx_ops h tx d)"
      using y ops(1) footprints_blank [of ops] by (auto simp: tx_installed_def footprints_def)
    then show "finished_in (tx_targets tx) y (fst u)" using footprint_localD [OF footprint_local_finished_in same] ops(2) y by blast
  qed
qed

lemma tx_recover_none:
  assumes "reads_ok h" "recoverable h tx v" "fst v (tx_journal tx) = None" "tx_old h tx v \<or> tx_new h tx v"
  shows "triple h (\<lambda>u. u = v) (recover_if_needed (tx_journal tx)) (recovered h tx) (\<lambda>_ u. recoverable h tx u \<and> \<not> calm h) (trouble h (recoverable h tx))"
proof -
  let ?jp = "tx_journal tx" and ?S = "journal_paths h (tx_journal tx)"
  let ?P = "\<lambda>u. snd u = snd v \<and> (\<forall>p. p \<notin> ?S \<longrightarrow> fst u p = fst v p)"
  let ?K = "\<lambda>u. journal_in h ?jp {None} u \<and> ?P u"
  have place: "journal_place h ?jp (snd v)" "footprints (tx_ops h tx (snd v)) \<inter> ?S = {}" "tx_frame h tx v"
    using assms(2) by (auto simp: recoverable_def)
  have P: "journalling h ?jp (snd v) ?P"
    using assms(1) place(1) by (auto simp: journalling_def local_outside_def)
  have K: "?K v" using assms(2,3) by (auto simp: journal_in_def holds_None recoverable_def)
  have good: "recoverable h tx u \<and> fst u ?jp = None" if u: "?K u" for u
  proof -
    have "tx_old h tx u \<or> tx_new h tx u" using tx_old_local [OF place(2), of v u] u assms(4) by blast
    moreover have "tx_frame h tx u" using u place(3) by (auto simp: tx_frame_def)
    ultimately show ?thesis using u place by (auto simp: recoverable_def journal_in_def holds_None)
  qed
  have read: "triple h ?K (read_regular ?jp) (\<lambda>s u. s = None \<and> ?K u) (\<lambda>_ _. False) (trouble h ?K)"
  proof (rule triple_conseq [OF triple_read_regular [where P = ?K and p = ?jp]])
    fix s u assume "?K u \<and> plain u ?jp \<and> s = map_option (\<lambda>(i, bs, _). (i, bs)) (snap (fst u ?jp))"
    then show "s = None \<and> ?K u" using good [of u] by simp
  next
    fix u assume "?K u \<and> \<not> plain u ?jp"
    then show False using journal_in_plain [OF place(1), of "{None}" u] by blast
  next
    fix u assume "?K u"
    then show "dirs_ok (snd u) ?jp" using journal_placeD(4) [OF place(1)] by simp
  qed (use assms(1) journal_placeD(1) [OF place(1)] in simp_all)
  show ?thesis
    unfolding recover_if_needed_def
  proof (rule triple_ask, rule triple_pre [of h ?K], rule triple_then [OF triple_cleanup_journal_stage [OF P, of "{None}"]], goal_cases)
    case (3 a)
    show ?case
    proof (rule triple_then [OF triple_pre [OF read]], goal_cases)
      case (4 s)
      show ?case by (rule triple_assume) (use good in \<open>auto intro!: triple_pure simp: recovered_def\<close>)
    qed (use good in blast)+
  qed (use good K in blast)+
qed

lemma triple_recover:
  assumes "reads_ok h"
  shows "triple h (recoverable h tx) (recover_if_needed (tx_journal tx)) (recovered h tx) (\<lambda>_. recoverable h tx) (recoverable h tx)"
    and "calm h \<Longrightarrow> triple h (\<lambda>v. recoverable h tx v \<and> live h tx (snd v)) (recover_if_needed (tx_journal tx)) (recovered h tx) (\<lambda>_ _. False) (\<lambda>_. False)"
proof -
  have both: "triple h (\<lambda>u. u = v) (recover_if_needed (tx_journal tx)) (recovered h tx)
      (\<lambda>_ u. recoverable h tx u \<and> \<not> (calm h \<and> live h tx (snd v))) (trouble h (recoverable h tx))" if "recoverable h tx v" for v
    using that assms
  proof (cases rule: recoverable_cases)
    case none
    then show ?thesis using tx_recover_none [OF assms that] by (auto elim: triple_conseq)
  next
    case (prepared ops early)
    then show ?thesis using triple_pre [OF tx_recover_prepared [OF prepared(1,2)], of "\<lambda>u. u = v"] by simp
  next
    case (committed ops)
    then show ?thesis using triple_pre [OF tx_recover_committed [OF committed(1,2)], of "\<lambda>u. u = v"] by simp
  qed
  show "triple h (recoverable h tx) (recover_if_needed (tx_journal tx)) (recovered h tx) (\<lambda>_. recoverable h tx) (recoverable h tx)"
    by (rule triple_case, rule triple_conseq [OF both]) auto
  show "calm h \<Longrightarrow> triple h (\<lambda>v. recoverable h tx v \<and> live h tx (snd v)) (recover_if_needed (tx_journal tx)) (recovered h tx) (\<lambda>_ _. False) (\<lambda>_. False)"
    by (rule triple_case, rule triple_conseq [OF both]) auto
qed

end
