(* ===== verification/Pub_Outcome.thy ===== *)
theory Pub_Outcome
  imports Pub_History
begin

text \<open>
  Histories of a transaction across processes, and what they mean for the files a caller sees.
\<close>

section \<open>Hosts\<close>

text \<open>
  Two processes on the same system: they may differ in everything but the digest and the form of
  a journal.
\<close>

definition same_formats :: "Journal host \<Rightarrow> Journal host \<Rightarrow> bool" where
  "same_formats h h' = (ho_sha256 h = ho_sha256 h' \<and> ho_decode h = ho_decode h')"

lemma format_cong:
  assumes "same_formats h h'"
  shows "digest_of h = digest_of h'" "sibling_name h = sibling_name h'" "aux_path h = aux_path h'" "parse_journal h = parse_journal h'"
    and "snapshot_matches h = snapshot_matches h'"
proof -
  have same: "ho_sha256 h = ho_sha256 h'" "ho_decode h = ho_decode h'" using assms by (auto simp: same_formats_def)
  show 1: "digest_of h = digest_of h'" by (intro ext) (unfold digest_of_def same, rule refl)
  show 2: "sibling_name h = sibling_name h'" by (intro ext) (unfold sibling_name_def 1, rule refl)
  show "aux_path h = aux_path h'" by (intro ext) (unfold aux_path_def 2, rule refl)
  show "parse_journal h = parse_journal h'" by (intro ext) (unfold parse_journal_def same, rule refl)
  show "snapshot_matches h = snapshot_matches h'" by (intro ext) (unfold snapshot_matches_def 1, rule refl)
qed

lemma state_cong:
  assumes "same_formats h h'"
  shows "journal_stage h = journal_stage h'" "holds_journal h = holds_journal h'" "op_wf h = op_wf h'" "planned_op h = planned_op h'"
    and "undoable_in h = undoable_in h'" "settled_in h = settled_in h'"
  by (unfold journal_stage_def holds_journal_def op_wf_def planned_op_def undoable_in_def undoable_def displaced_def
      replaced_def settled_in_def settled_def format_cong [OF assms]) (rule refl)+

lemma planned_ops_cong: "same_formats h h' \<Longrightarrow> planned_ops h d n cs = planned_ops h' d n cs"
  using state_cong(4) [of h h'] by (induction cs arbitrary: n) auto

lemma tx_cong:
  assumes "same_formats h h'"
  shows "tx_ops h = tx_ops h'" "journal_paths h = journal_paths h'" "journal_place h = journal_place h'" "tx_frame h = tx_frame h'"
    and "tx_old h = tx_old h'" "tx_new h = tx_new h'" "journal_phase h = journal_phase h'"
proof -
  show 1: "tx_ops h = tx_ops h'" using planned_ops_cong [OF assms] by (simp add: fun_eq_iff tx_ops_def)
  show 2: "journal_paths h = journal_paths h'" "journal_place h = journal_place h'"
    by (unfold journal_paths_def journal_place_def state_cong [OF assms]) (rule refl)+
  show "tx_frame h = tx_frame h'" by (intro ext) (unfold tx_frame_def 1 2, rule refl)
  have 3: "tx_installed h = tx_installed h'" by (intro ext) (unfold tx_installed_def 1, rule refl)
  show "tx_old h = tx_old h'" "tx_new h = tx_new h'" by (unfold tx_old_def tx_new_def 1 3) (rule refl)+
  show "journal_phase h = journal_phase h'"
    by (intro ext) (unfold journal_phase_def journal0_def state_cong [OF assms] 1 3, rule refl)
qed

lemma recoverable_host:
  assumes "same_formats h h'" "reads_ok h'" "recoverable h tx v"
  shows "recoverable h' tx v"
proof -
  have "sound_ops h' ts ops d" if "sound_ops h ts ops d" for ts ops d
    using that assms(2) state_cong(3) [OF assms(1)] by (auto simp: sound_ops_def setting_def)
  then show ?thesis using assms(3) tx_cong [OF assms(1)] state_cong(1) [OF assms(1)] by (auto simp: recoverable_def)
qed

section \<open>Histories\<close>

text \<open>What has happened last: the commit, or a recovery in a later process.\<close>

datatype event = CommitEnded "unit outcome" | RecoveryEnded "RecoveryOutcome outcome"

inductive history :: "Journal host \<Rightarrow> path \<Rightarrow> PlannedChange list \<Rightarrow> world \<Rightarrow> event \<Rightarrow> world \<Rightarrow> bool"
  for h :: "Journal host" and jp :: path and changes :: "PlannedChange list" and w :: world where
  commit: "unix_commit jp changes h w = (r, w1) \<Longrightarrow> history h jp changes w (CommitEnded r) w1"
| recover: "history h jp changes w e w1 \<Longrightarrow> same_formats h h' \<Longrightarrow> reads_ok h' \<Longrightarrow> recover_if_needed jp h' w1 = (r, w2) \<Longrightarrow>
    history h jp changes w (RecoveryEnded r) w2"

text \<open>The outcome a caller sees: files and the journal.\<close>

definition change_done :: "world \<Rightarrow> PlannedChange \<Rightarrow> bool" where
  "change_done w c =
     (case pc_desired c of
        Write bs mode \<Rightarrow> (\<exists>i. file_at w (pc_path c) = Some (Regular i bs mode))
      | Remove \<Rightarrow> file_at w (pc_path c) = None)"

definition change_undone :: "world \<Rightarrow> world \<Rightarrow> PlannedChange \<Rightarrow> bool" where
  "change_undone w0 w c = (file_at w (pc_path c) = file_at w0 (pc_path c))"

text \<open>All files but the targets and the staged journal are as they were; no auxiliary file and no journal is left.\<close>

definition nothing_else :: "Journal host \<Rightarrow> path \<Rightarrow> PlannedChange list \<Rightarrow> world \<Rightarrow> world \<Rightarrow> bool" where
  "nothing_else h jp changes w0 w =
     (\<forall>p. p \<notin> pc_path ` set changes \<longrightarrow> p \<noteq> journal_stage h jp \<longrightarrow> file_at w p = file_at w0 p)"

definition publication_start :: "Journal host \<Rightarrow> path \<Rightarrow> PlannedChange list \<Rightarrow> world \<Rightarrow> bool" where
  "publication_start h jp changes w = (faithful h \<and> tx_ok h (tx_start h jp changes w) (dir_at w))"

lemma history_recoverable:
  assumes "history h jp changes w e w1" "publication_start h jp changes w"
  shows "recoverable h (tx_start h jp changes w) (view w1) \<and>
    (case e of CommitEnded (Done _) \<Rightarrow> commit_done h (tx_start h jp changes w) (view w1)
     | CommitEnded (Failed x) \<Rightarrow> commit_failed h (tx_start h jp changes w) x (view w1)
     | RecoveryEnded (Done r) \<Rightarrow> recovered h (tx_start h jp changes w) r (view w1) | _ \<Rightarrow> True)"
  using assms
proof (induction rule: history.induct)
  case (commit r w1)
  then show ?case
    using commit_result [of h jp changes w r w1]
    by (auto simp: publication_start_def commit_done_def commit_failed_def split: outcome.splits)
next
  case (recover e w1 h' r w2)
  let ?tx = "tx_start h jp changes w"
  have jp: "tx_journal ?tx = jp" by (simp add: tx_start_def)
  have back': "same_formats h' h" "reads_ok h" using recover.hyps(2) recover.prems by (auto simp: same_formats_def publication_start_def faithful_def)
  have "recoverable h' ?tx (view w1)" using recoverable_host [OF recover.hyps(2,3)] recover by blast
  from triple_result [OF triple_recover(1) [OF recover.hyps(3), of ?tx, unfolded jp] this recover.hyps(4)]
  have "(case r of Done a \<Rightarrow> recovered h' ?tx a (view w2) | _ \<Rightarrow> recoverable h' ?tx (view w2))" by (simp split: outcome.splits)
  then show ?case
    using recoverable_host [OF back', of ?tx "view w2"] tx_cong(5,6) [OF back'(1)] by (auto simp: recovered_def split: outcome.splits)
qed


section \<open>What a caller sees\<close>

lemma planned_covers: "c \<in> set cs \<Longrightarrow> \<exists>m. planned_op h d m c \<in> set (planned_ops h d n cs)"
  by (induction cs arbitrary: n) auto

lemma tx_aux_absent:
  assumes "tx_ok h tx d0" "p \<in> footprints (tx_ops h tx d)" "p \<notin> pc_path ` set (tx_changes tx)"
  shows "tx_files tx p = None"
  using assms tx_footprints(2) [OF assms(1), of d] by (auto simp: tx_ok_def)

lemma tx_old_files:
  assumes "tx_ok h tx d0" "tx_frame h tx v" "tx_old h tx v" "p \<notin> journal_paths h (tx_journal tx)"
  shows "fst v p = tx_files tx p"
proof (cases "p \<in> footprints (tx_ops h tx (snd v))")
  case True
  then obtain y where y: "y \<in> set (tx_ops h tx (snd v))" "p \<in> footprint y" by (auto simp: footprints_def)
  then have u: "untouched y (tx_files tx (jo_target y)) (fst v)" using assms(3) by (auto simp: tx_old_def untouched_in_def tx_targets_def)
  show ?thesis
  proof (cases "p = jo_target y")
    case False
    have "p \<in> set (change_paths h (tx_nonce tx) (tx_changes tx)) - pc_path ` set (tx_changes tx)"
      by (rule change_paths_aux [OF _ _ y(2) False]) (use y(1) assms(1) in \<open>auto simp: tx_ops_def tx_ok_def tx_paths_def\<close>)
    moreover have "fst v p = None" using u y(2) False by (auto simp: untouched_def footprint_def value_at_def)
    ultimately show ?thesis using tx_aux_absent [OF assms(1) True] by auto
  qed (use u in \<open>simp add: untouched_def\<close>)
next
  case False
  then show ?thesis using assms(2,4) by (auto simp: tx_frame_def)
qed

lemma tx_installed_set: "tx_installed h tx d ops \<Longrightarrow> set (tx_ops h tx d) = blank ` set ops"
  unfolding tx_installed_def by (metis set_map)

lemma tx_new_change:
  assumes "tx_ok h tx d0" "tx_new h tx v" "c \<in> set (tx_changes tx)"
  shows "case pc_desired c of Write bs mode \<Rightarrow> \<exists>i. fst v (pc_path c) = Some (Regular i bs mode) | Remove \<Rightarrow> fst v (pc_path c) = None"
proof -
  obtain ops where ops: "tx_installed h tx (snd v) ops" "\<forall>y\<in>set ops. finished_in (tx_targets tx) y (fst v)" using assms(2) by (auto simp: tx_new_def)
  obtain m where m: "planned_op h (snd v) m c \<in> set (tx_ops h tx (snd v))" using planned_covers [OF assms(3)] unfolding tx_ops_def by blast
  then obtain y where y: "y \<in> set ops" "blank y = planned_op h (snd v) m c" using tx_installed_set [OF ops(1)] by auto
  have target: "jo_target y = pc_path c" "jo_desired_mode y = (case pc_desired c of Write _ mode \<Rightarrow> Some mode | Remove \<Rightarrow> None)"
    using arg_cong [OF y(2), of jo_target] arg_cong [OF y(2), of jo_desired_mode] by (simp_all add: planned_op_def)
  have "distinct (change_paths h (tx_nonce tx) (tx_changes tx))" using assms(1) by (simp add: tx_ok_def tx_paths_def)
  then have contents: "contents_of (tx_targets tx) y = change_contents c" using find_change [OF _ assms(3)] by (simp add: tx_targets_def target)
  have "finished y (change_contents c) (fst v)" using ops(2) y(1) contents by (auto simp: finished_in_def)
  then show ?thesis using target by (auto simp: finished_def new_node_def split: DesiredState.splits option.splits)
qed

lemma tx_new_files:
  assumes "tx_ok h tx d0" "tx_frame h tx v" "tx_new h tx v" "fst v (tx_journal tx) = None" "p \<notin> pc_path ` set (tx_changes tx)" "p \<noteq> journal_stage h (tx_journal tx)"
  shows "fst v p = tx_files tx p"
proof (cases "p \<in> footprints (tx_ops h tx (snd v))")
  case True
  obtain ops where ops: "tx_installed h tx (snd v) ops" "\<forall>y\<in>set ops. finished_in (tx_targets tx) y (fst v)" using assms(3) by (auto simp: tx_new_def)
  then obtain y where y: "y \<in> set ops" "p \<in> footprint y" using True tx_installed_set [OF ops(1)] by (auto simp: footprints_def)
  have "blank y \<in> set (tx_ops h tx (snd v))" using y(1) tx_installed_set [OF ops(1)] by simp
  then obtain c n where c: "c \<in> set (tx_changes tx)" "blank y = planned_op h (snd v) n c" using tx_op_facts [OF assms(1)] by metis
  have "jo_target y = pc_path c" using arg_cong [OF c(2), of jo_target] by (simp add: planned_op_def)
  then have "p \<noteq> jo_target y" using assms(5) c(1) by auto
  then have "fst v p = None" using ops(2) y by (auto simp: finished_in_def finished_def footprint_def value_at_def)
  then show ?thesis using tx_aux_absent [OF assms(1) True assms(5)] by simp
next
  case False
  have "tx_files tx (tx_journal tx) = None" if "p = tx_journal tx" using assms(1,5) that by (auto simp: tx_ok_def tx_paths_def)
  then show ?thesis using assms(2,4,6) False by (cases "p = tx_journal tx") (auto simp: tx_frame_def journal_paths_def)
qed

lemma publication_views:
  assumes "publication_start h jp changes w" "recoverable h (tx_start h jp changes w) (view w1)"
  shows "tx_old h (tx_start h jp changes w) (view w1) \<Longrightarrow> p \<noteq> jp \<Longrightarrow> p \<noteq> journal_stage h jp \<Longrightarrow> file_at w1 p = file_at w p"
    and "tx_new h (tx_start h jp changes w) (view w1) \<Longrightarrow> c \<in> set changes \<Longrightarrow> change_done w1 c"
    and "tx_new h (tx_start h jp changes w) (view w1) \<Longrightarrow> file_at w1 jp = None \<Longrightarrow> nothing_else h jp changes w w1"
proof -
  let ?tx = "tx_start h jp changes w"
  have tx: "tx_journal ?tx = jp" "tx_changes ?tx = changes" "tx_files ?tx = file_at w" "fst (view w1) = file_at w1" by (simp_all add: tx_start_def view_def)
  have ok: "tx_ok h ?tx (dir_at w)" and frame: "tx_frame h ?tx (view w1)" using assms by (auto simp: publication_start_def recoverable_def)
  show "file_at w1 p = file_at w p" if "tx_old h ?tx (view w1)" "p \<noteq> jp" "p \<noteq> journal_stage h jp"
    using tx_old_files [OF ok frame that(1), of p] that(2,3) by (simp add: tx journal_paths_def)
  show "change_done w1 c" if "tx_new h ?tx (view w1)" "c \<in> set changes"
    using tx_new_change [OF ok that(1), of c] that(2) unfolding change_done_def tx by blast
  show "nothing_else h jp changes w w1" if "tx_new h ?tx (view w1)" "file_at w1 jp = None"
    unfolding nothing_else_def using tx_new_files [OF ok frame that(1)] that(2) by (simp add: tx)
qed

end
