(* ===== verification/Pub_Theorems.thy ===== *)
theory Pub_Theorems
  imports Pub_Outcome
begin

text \<open>
  The guarantees of durable publication, stated on the files a caller sees, and a small disk on
  which commits, crashes and recoveries are run.
\<close>

section \<open>What a caller sees, from a view\<close>



section \<open>The guarantees\<close>




section \<open>A transaction on a small disk\<close>

definition dV :: rstring where "dV = ascii ''v''"
definition nA :: rstring where "nA = ascii ''a''"
definition nJ :: rstring where "nJ = ascii ''j''"

definition fid :: "u64 \<Rightarrow> FileIdentity" where "fid n = \<lparr>fid_device = 1, fid_inode = n\<rparr>"

definition toy_sha :: "bytes \<Rightarrow> bytes" where "toy_sha bs = take 32 (bs @ replicate 32 0)"

definition toy_digest :: "bytes \<Rightarrow> Sha256Digest" where "toy_digest bs = sha256_bytes toy_sha bs"

definition toy_sibling :: "rstring \<Rightarrow> string \<Rightarrow> rstring" where
  "toy_sibling leaf purpose = ascii ''.aros-'' @ ascii purpose @ ascii ''-'' @ take 16 (as_str (toy_digest leaf)) @ ascii ''-'' @
     concat (map hex_byte (be_bytes 8 0))"

definition nS :: rstring where "nS = toy_sibling nA ''stage''"
definition nB :: rstring where "nB = toy_sibling nA ''backup''"
definition nK :: rstring where "nK = toy_sibling nJ ''journal-stage''"

abbreviation inV :: "rstring \<Rightarrow> path" where "inV n \<equiv> [RootDir, Normal dV, Normal n]"

lemma names_distinct: "distinct [nA, nJ, nS, nB, nK]"
  by (simp add: nA_def nJ_def nS_def nB_def nK_def toy_sibling_def ascii_def)

lemma names_neq [simp]:
  "nA \<noteq> nJ" "nA \<noteq> nS" "nA \<noteq> nB" "nA \<noteq> nK" "nJ \<noteq> nA" "nJ \<noteq> nS" "nJ \<noteq> nB" "nJ \<noteq> nK" "nS \<noteq> nA" "nS \<noteq> nJ" "nS \<noteq> nB" "nS \<noteq> nK"
  "nB \<noteq> nA" "nB \<noteq> nJ" "nB \<noteq> nS" "nB \<noteq> nK" "nK \<noteq> nA" "nK \<noteq> nJ" "nK \<noteq> nS" "nK \<noteq> nB"
  using names_distinct by auto

definition the_write :: PlannedChange where
  "the_write =
     \<lparr>pc_path = inV nA, pc_original = Some (fid 1), pc_original_digest = Some (toy_digest [1]), pc_original_mode = Some 0x1a4,
      pc_desired = Write [2, 3] 0x1ed\<rparr>"

definition the_op :: "FileIdentity option \<Rightarrow> JournalOperation" where
  "the_op installed =
     \<lparr>jo_target = inV nA, jo_stage = Some (inV nS), jo_backup = Some (inV nB), jo_parent_identity = fid 21,
      jo_original = Some (fid 1), jo_original_digest = Some (toy_digest [1]), jo_original_mode = Some 0x1a4,
      jo_desired_digest = Some (toy_digest [2, 3]), jo_desired_mode = Some 0x1ed, jo_installed = installed\<rparr>"

definition the_journal :: "JournalState \<Rightarrow> FileIdentity option \<Rightarrow> Journal" where
  "the_journal state installed =
     \<lparr>jn_schema = ascii ''aros-publication-journal-v3'', jn_nonce = 0, jn_state = state, jn_operations = [the_op installed]\<rparr>"

definition the_removal :: PlannedChange where
  "the_removal = the_write\<lparr>pc_desired := Remove\<rparr>"

definition removal_journal :: "JournalState \<Rightarrow> Journal" where
  "removal_journal state =
     \<lparr>jn_schema = ascii ''aros-publication-journal-v3'', jn_nonce = 0, jn_state = state,
      jn_operations =
        [\<lparr>jo_target = inV nA, jo_stage = None, jo_backup = Some (inV nB), jo_parent_identity = fid 21,
          jo_original = Some (fid 1), jo_original_digest = Some (toy_digest [1]), jo_original_mode = Some 0x1a4,
          jo_desired_digest = None, jo_desired_mode = None, jo_installed = None\<rparr>]\<rparr>"

definition toy_encode :: "Journal \<Rightarrow> bytes option" where
  "toy_encode j =
     (if j = the_journal Prepared None then Some [0] else if j = the_journal Prepared (Some (fid 3)) then Some [1]
      else if j = the_journal Committed (Some (fid 3)) then Some [2] else if j = removal_journal Prepared then Some [3]
      else if j = removal_journal Committed then Some [4] else None)"

definition toy_decode :: "bytes \<Rightarrow> Journal option" where
  "toy_decode bs =
     (if bs = [0] then Some (the_journal Prepared None) else if bs = [1] then Some (the_journal Prepared (Some (fid 3)))
      else if bs = [2] then Some (the_journal Committed (Some (fid 3))) else if bs = [3] then Some (removal_journal Prepared)
      else if bs = [4] then Some (removal_journal Committed) else None)"

definition has_identity :: "FileIdentity \<Rightarrow> fs_node \<Rightarrow> bool" where
  "has_identity i n = (case n of Regular i' _ _ \<Rightarrow> i' = i | _ \<Rightarrow> False)"

definition unused :: "world \<Rightarrow> FileIdentity option" where
  "unused w = find (\<lambda>i. list_all (\<lambda>x. \<not> has_identity i (snd x)) (w_files w)) [fid 2, fid 3, fid 4, fid 5]"

definition toy_host :: "(sys_kind \<Rightarrow> nat \<Rightarrow> fate) \<Rightarrow> Journal host" where
  "toy_host fates =
     \<lparr>ho_fate = fates, ho_identity = unused, ho_sha256 = toy_sha, ho_encode = toy_encode, ho_decode = toy_decode,
      ho_pid = 0, ho_umask = 0x12, ho_cwd = None\<rparr>"

definition disk :: world where
  "disk = \<lparr>w_files = [(inV nA, Regular (fid 1) [1] 0x1a4)], w_dirs = [([RootDir], fid 20), ([RootDir, Normal dV], fid 21)],
     w_sequence = 0, w_tick = 0\<rparr>"

lemma toy_fields [simp]:
  "ho_fate (toy_host f) = f" "ho_identity (toy_host f) = unused" "ho_sha256 (toy_host f) = toy_sha" "ho_encode (toy_host f) = toy_encode"
  "ho_decode (toy_host f) = toy_decode" "ho_pid (toy_host f) = 0" "ho_umask (toy_host f) = 0x12" "ho_cwd (toy_host f) = None"
  by (simp_all add: toy_host_def)

lemma toy_digest_of [simp]: "digest_of (toy_host f) = toy_digest"
  by (intro ext) (simp add: digest_of_def toy_digest_def)

lemma toy_names [simp]:
  "sibling_name (toy_host f) nA ''stage'' 0 = nS" "sibling_name (toy_host f) nA ''backup'' 0 = nB"
  "sibling_name (toy_host f) nJ ''journal-stage'' 0 = nK"
  by (simp_all add: sibling_name_def nS_def nB_def nK_def toy_sibling_def)

lemma fid_eq [simp]: "fid a = fid b \<longleftrightarrow> a = b"
  by (auto simp: fid_def)

text \<open>Programs run: one rule each.\<close>

lemma run_core:
  "pbind m f h w = (case m h w of (Done a, w') \<Rightarrow> f a h w' | (Failed e, w') \<Rightarrow> (Failed e, w') | (Crashed, w') \<Rightarrow> (Crashed, w'))"
  "attempt m2 h w = (case m2 h w of (Done a, w') \<Rightarrow> (Done (Inr a), w') | (Failed e, w') \<Rightarrow> (Done (Inl e), w') | (Crashed, w') \<Rightarrow> (Crashed, w'))"
  "pure a h w = (Done a, w)" "pfail e h w = (Failed e, w)" "ask g h w = (Done (g h), w)"
  "pensure c e k h w = (if c then k h w else (Failed e, w))"
  by (simp_all add: pbind_def attempt_def pure_def pfail_def ask_def pensure_def)

lemmas applied = HOL.fun_cong [THEN HOL.fun_cong]

lemmas run_sys = sys_def [THEN applied] sys_write_def [THEN applied]
lemmas run_calls =
  sys_open_dir_def [THEN applied] sys_fstat_dir_def [THEN applied] sys_mkdir_def [THEN applied] sys_fsync_def [THEN applied]
  sys_create_def [THEN applied] sys_fstat_def [THEN applied] sys_chmod_def [THEN applied] sys_stat_def [THEN applied] sys_read_def [THEN applied]
  sys_rename_noreplace_def [THEN applied] sys_rename_def [THEN applied] sys_unlink_def [THEN applied]
lemmas run_files =
  absolute_path_def [THEN applied] open_next_def [THEN applied] open_components.simps [THEN applied] open_parent_def [THEN applied]
  sync_parent_def [THEN applied] read_regular_with_mode_def [THEN applied] read_regular_def [THEN applied] identity_at_def [THEN applied]
  rename_noclobber_def [THEN applied] remove_at_def [THEN applied] remove_at_exact_mode_def [THEN applied] remove_at_exact_def [THEN applied]
  remove_regular_exact_def [THEN applied] write_contents_def [THEN applied] write_new_file_mode_def [THEN applied]
lemmas run_world = file_at_def dir_at_def exists_at_def del_file_def put_file_def put_dir_def tick_def set_contents_def move_file_def
  path_parent_def file_name_def is_absolute_path_def disk_def unused_def has_identity_def
lemmas runs = run_core run_sys run_calls run_files run_world

definition calm_fates :: "sys_kind \<Rightarrow> nat \<Rightarrow> fate" where "calm_fates k n = Succeeds"
lemma calm_fates_succeeds [simp]: "calm_fates k n = Succeeds" by (simp add: calm_fates_def)


lemmas run_journal =
  encode_journal_def [THEN applied] journal_stage_path_def [THEN applied] cleanup_journal_stage_def [THEN applied]
  install_journal_def [THEN applied] write_journal_def [THEN applied] remove_journal_def [THEN applied]
lemmas run_apply =
  apply_backup_def [THEN applied] apply_stage_def [THEN applied] apply_operation_def [THEN applied] apply_operations.simps [THEN applied]
lemmas run_rollback =
  check_aux_parent_def [THEN applied] remove_operation_aux_exact_def [THEN applied] remove_operation_aux_unidentified_def [THEN applied]
  remove_owned_stage_def [THEN applied] noted_def [THEN applied] rollback_target_def [THEN applied] verify_original_restored_def [THEN applied]
  restore_backup_def [THEN applied] rollback_without_backup_def [THEN applied] rollback_backup_def [THEN applied] rollback_operation_def [THEN applied]
  rollback_operations_def [THEN applied] cleanup_stages_def [THEN applied] cleanup_backup_def [THEN applied] cleanup_committed_def [THEN applied]
  for_each.simps [THEN applied]
lemmas run_commit =
  recover_if_needed_def [THEN applied] finish_failed_transaction_def [THEN applied] take_nonce_def [THEN applied] plan_operation_def [THEN applied]
  plan_operations.simps [THEN applied] roll_back_and_finish_def [THEN applied] stage_operations.simps [THEN applied] finish_committed_def [THEN applied]
  committed_visible_def [THEN applied] commit_applied_def [THEN applied] commit_staged_def [THEN applied] commit_planned_def [THEN applied]
  unix_commit_def [THEN applied]

lemma tick_counts: "Suc 0 = 1" "Suc 1 = 2" "Suc (numeral k) = numeral (k + num.One)"
  by (simp_all add: Suc_numeral)

lemma magic_facts [simp]: "strip_prefix (JOURNAL_STAGE_MAGIC @ bs) JOURNAL_STAGE_MAGIC = Some bs"
  by (simp add: strip_prefix_def starts_with_append)

lemmas run_all = runs run_journal run_apply run_rollback run_commit tick_counts snapshot_matches_def the_op_def the_write_def the_removal_def removal_journal_def Let_def
  parse_journal_def combine_primary_and_cleanup_def the_journal_def toy_encode_def toy_decode_def

definition crash_at :: "nat \<Rightarrow> sys_kind \<Rightarrow> nat \<Rightarrow> fate" where
  "crash_at k kind n = (if n = k then Crashes 0 else Succeeds)"

section \<open>Runs\<close>

lemma journal_valid:
  "validate_journal (toy_host f) (the_journal state installed) (inV nJ) = Inr ()"
proof -
  have "casefold_key [Normal nA] = Inr nA" unfolding nA_def by code_simp
  moreover have "ascii ''aros-publication-journal-v3'' \<noteq> ascii ''aros-publication-journal-v2''" by code_simp
  ultimately show ?thesis
    by (simp add: validate_journal_def the_journal_def the_op_def path_parent_def is_absolute_path_def starts_with_iff
        original_proof_incomplete_def auxiliary_inconsistent_def is_some_def file_name_def portable_mode_def)
qed















section \<open>Removals\<close>

text \<open>
  Rolling back a removal that has been applied restores the file and reports failure all the same: a
  missing target matches the desired state of a removal, which records neither an identity nor a
  digest that could prove the installed file. The recovery after a crash is refused with the file
  back in place, and the one after that succeeds.
\<close>

lemma removal_valid:
  "validate_journal (toy_host f) (removal_journal state) (inV nJ) = Inr ()"
proof -
  have "casefold_key [Normal nA] = Inr nA" unfolding nA_def by code_simp
  moreover have "ascii ''aros-publication-journal-v3'' \<noteq> ascii ''aros-publication-journal-v2''" by code_simp
  ultimately show ?thesis
    by (simp add: validate_journal_def removal_journal_def the_op_def path_parent_def is_absolute_path_def starts_with_iff
        original_proof_incomplete_def auxiliary_inconsistent_def is_some_def file_name_def portable_mode_def)
qed

definition removal_crashed :: world where
  "removal_crashed =
     disk\<lparr>w_files := [(inV nB, Regular (fid 1) [1] 0x1a4), (inV nJ, Regular (fid 3) (JOURNAL_STAGE_MAGIC @ [3]) 0x180)],
          w_sequence := 1, w_tick := 131\<rparr>"

definition removal_refused :: world where
  "removal_refused =
     disk\<lparr>w_files := [(inV nA, Regular (fid 1) [1] 0x1a4), (inV nJ, Regular (fid 3) (JOURNAL_STAGE_MAGIC @ [3]) 0x180)],
          w_sequence := 1, w_tick := 190\<rparr>"

lemma removal_crash_run:
  "unix_commit (inV nJ) [the_removal] (toy_host (crash_at 130)) disk = (Crashed, removal_crashed)"
  by (simp add: run_all crash_at_def removal_crashed_def del: One_nat_def)

lemma removal_recovery_refused:
  "recover_if_needed (inV nJ) (toy_host calm_fates) removal_crashed = (Failed rollback_error, removal_refused) \<and>
   file_at removal_refused (inV nA) = file_at disk (inV nA) \<and>
   fst (recover_if_needed (inV nJ) (toy_host calm_fates) removal_refused) = Done RolledBack"
proof (intro conjI)
  note valid = removal_valid [unfolded removal_journal_def]
  show "recover_if_needed (inV nJ) (toy_host calm_fates) removal_crashed = (Failed rollback_error, removal_refused)"
    by (simp add: run_all valid removal_crashed_def removal_refused_def del: One_nat_def)
  show "file_at removal_refused (inV nA) = file_at disk (inV nA)"
    by (simp add: file_at_def removal_refused_def disk_def)
  show "fst (recover_if_needed (inV nJ) (toy_host calm_fates) removal_refused) = Done RolledBack"
    by (simp add: run_all valid removal_refused_def del: One_nat_def)
qed

section \<open>An unreadable journal\<close>

text \<open>
  Why reads must not fail: here the sync after the committed journal has been put in place fails,
  and so does the read that asks whether it is in place. The commit then rolls the target back under
  a journal that says committed, and a process that ends before the journal is removed leaves a
  state that recovery takes for a finished transaction, although the target is the old one.
\<close>

definition journal_unreadable :: "sys_kind \<Rightarrow> nat \<Rightarrow> fate" where
  "journal_unreadable kind n =
     (if kind = Changing \<and> n = 218 \<or> kind = Reading \<and> n = 235 then Fails 0 else if n = 300 then Crashes 0 else Succeeds)"

definition misled_disk :: world where
  "misled_disk =
     disk\<lparr>w_files := [(inV nA, Regular (fid 1) [1] 0x1a4), (inV nJ, Regular (fid 2) (JOURNAL_STAGE_MAGIC @ [2]) 0x180)],
          w_sequence := 1, w_tick := 301\<rparr>"

lemma committed_journal_rolled_back:
  "unix_commit (inV nJ) [the_write] (toy_host journal_unreadable) disk = (Crashed, misled_disk) \<and>
   (\<exists>n. recover_if_needed (inV nJ) (toy_host calm_fates) misled_disk = (Done CompletedCleanup, disk\<lparr>w_sequence := 1, w_tick := n\<rparr>))"
proof
  show "unix_commit (inV nJ) [the_write] (toy_host journal_unreadable) disk = (Crashed, misled_disk)"
    by (simp add: run_all journal_unreadable_def misled_disk_def del: One_nat_def)
  show "(\<exists>n. recover_if_needed (inV nJ) (toy_host calm_fates) misled_disk = (Done CompletedCleanup, disk\<lparr>w_sequence := 1, w_tick := n\<rparr>))"
    by (simp add: run_all journal_valid [unfolded the_journal_def the_op_def] misled_disk_def del: One_nat_def)
qed

end
