(* ===== verification/Spec2Isabelle.thy ===== *)
theory Spec2Isabelle
  imports Romtool_Pkg Elf_Arm Board_Dhcp Esp_Image Native_Media Collect_Libreq Media_Identity Pub_Theorems
begin

text \<open>
  Verification of parts of \<open>aros-tools\<close>, the Rust toolsuite that builds, verifies and deploys
  AROS. The suite is a workspace of crates under \<open>src/crates\<close>; this development models the
  parts that decide on bytes: container formats, object files, partition tables, flash layouts,
  network packets, the linker's symbol sets, and the contracts that bind media and toolchains to
  the bytes they name. Definitions follow the functions they
  translate, branch by branch, and keep their names where possible.

  \<^bold>\<open>Foundations.\<close>
  \<^item> \<open>Aros_Prelude\<close>: machine integers as words, byte strings, \<open>Result\<close> as a sum with its
    \<open>?\<close> operator (\<open>rbind\<close>, \<open>ensure\<close>), checked arithmetic and slicing of the standard library, the
    encodings of integers, and the interfaces \<open>prefix_reader\<close> and \<open>record_stream\<close> that the
    decoders share. \<open>usize\<close> is a natural number; every checked operation has its 64-bit limit.
  \<^item> \<open>Rust_Str\<close>, \<open>Rust_Text\<close>, \<open>Rust_Path\<close>: UTF-8, \<open>str\<close> operations, integer parsing and
    printing, \<open>std::path\<close>, and the portable names and collision keys of
    \<open>aros-common/src/publication.rs\<close>.
  \<^item> \<open>Rust_Url\<close>: the parts of a parsed URL and the credential-free HTTPS form that the locks
    accept.
  \<^item> \<open>Rust_Collections\<close>: \<open>BTreeMap\<close> as the interface \<open>ordered_map\<close>, implemented by
    association lists in key order.

  \<^bold>\<open>Components.\<close>
  \<^item> \<open>Romtool_Pkg\<close> (\<open>aros-romtool/src/pkg.rs\<close>): kickstart packages. Serializing and parsing are
    inverse; every container of the documented format is read, and the one respect in which the
    reader is more lenient is stated; creation publishes exactly the verified serialization of
    the files read, and a failure before publication changes nothing.
  \<^item> \<open>Elf_Reader\<close>, \<open>Elf_Attr\<close>, \<open>Elf_Arm\<close>, \<open>Elf_Riscv\<close>, \<open>Riscv_Contract\<close>
    (\<open>aros-common/src/elf.rs\<close> and \<open>elf/\<close>): object files, attribute sections, target contracts.
    Names stay under their budget; the sections returned are those of the structures the ELF
    specification lays out in the file; the ARM decoder accepts exactly its
    grammar; a verified artifact is what its contract says.
  \<^item> \<open>Board_Dhcp\<close> (\<open>aros-board/src/dhcp.rs\<close>): the laboratory DHCP service as a loop over
    explicit events. Every datagram it emits is confined to the configured link, client and
    lease.
  \<^item> \<open>Sha_Digest\<close> (\<open>aros-common/src/digest.rs\<close>): digest text and streaming.
  \<^item> \<open>Esp_Partition\<close>, \<open>Esp_Verify\<close>, \<open>Esp_Image\<close> (\<open>aros-common/src/esp_partition\<close>,
    \<open>aros-verify/src/esp_partition.rs\<close>, \<open>esp_image.rs\<close>): partition tables from their CSV source,
    the independent verifier that accepts exactly the tables the encoder writes, and images.
  \<^item> \<open>Flash_Plan\<close>, \<open>Native_Media\<close> (\<open>aros-common/src/flash_plan.rs\<close>, \<open>native_media.rs\<close>): flash
    layouts and plans, and the layout resolved from a media geometry and a partition table.
    Plans place one measured file per role with disjoint minimal erase spans, independently of
    the order of their inputs.
  \<^item> \<open>Collect_Sets\<close>, \<open>Collect_Libreq\<close> (\<open>aros-collect/src/sets.rs\<close>, \<open>libreq.rs\<close>, \<open>extra.rs\<close>):
    symbol sets, library version markers and extra inputs of the collecting linker. Every set
    section is laid out or reported, and the greatest stated version of a library is published.
  \<^item> \<open>Media_Profile\<close>, \<open>Media_Lock\<close>, \<open>Media_Tree\<close>, \<open>Media_Receipt\<close>, \<open>Media_Plan\<close>,
    \<open>Media_Identity\<close> (\<open>aros-common/src/media_profile.rs\<close>, \<open>media_input_lock.rs\<close>, \<open>media_tree.rs\<close>,
    \<open>media_receipt.rs\<close>, \<open>media_plan.rs\<close>): what a bootable medium must contain, the third-party
    inputs it is locked to, the measured directory trees, the receipt of its inputs and the plan
    that the media writer executes. Profiles, locks and receipts are accepted exactly when every
    rule of their format holds; a plan places every input of its profile once, at paths of which
    none is a directory of another, with the bytes the receipt measured; two trees with the same
    digest text have the same entries; and the source and toolchain identity of a receipt is that
    of a clean checkout and a remeasured installation.
  \<^item> \<open>Toolchain_Manifest\<close>, \<open>Toolchain_Inventory\<close> (\<open>aros-common/src/toolchain_manifest.rs\<close>,
    \<open>toolchain_inventory.rs\<close>): manifests and locks of prebuilt cross toolchains, and the measured
    inventory that an installed tree is compared with. Acceptance is characterized rule by rule;
    the links of an accepted inventory are judged one at a time, and a chain of two accepted
    links is shown that leaves the root.
  \<^item> \<open>Pub_World\<close>, \<open>Pub_Journal\<close> (\<open>aros-common/src/publication/unix\<close>): durable publication of a set
    of files. Programs run over a world of names, identities and contents in which every system
    call succeeds, fails or is the last one of the process; the journal, staging, commit, rollback
    and recovery are programs over it. \<open>Pub_Logic\<close> gives triples with separate conditions for
    success, failure and crash; \<open>Pub_Rollback\<close>, \<open>Pub_Apply\<close>, \<open>Pub_Commit\<close>, \<open>Pub_Plan\<close>,
    \<open>Pub_Transaction\<close>, \<open>Pub_Stage\<close>, \<open>Pub_Atomic\<close> and \<open>Pub_Recovery\<close> prove the parts of the code
    against one invariant, which \<open>Pub_History\<close> and \<open>Pub_Outcome\<close> carry through histories of
    commits and recoveries in different processes. \<open>Pub_Theorems\<close> states the guarantees (all or
    nothing, truthful reports, recovery gets through) and runs commits, crashes and recoveries on a
    small disk, two runs that fall short of the documentation among them.

  \<^bold>\<open>Parameters.\<close> SHA-256 and MD5 (crates \<open>sha2\<close>, \<open>md5\<close>) are functions from bytes to bytes;
  where their length matters it is a hypothesis. JSON readers and writers (\<open>serde_json\<close>), the
  files a path opens to, the network interfaces of the host and the publication primitive are
  parameters too, with the results of each call as values. So are the TOML reader (\<open>toml\<close>), the
  URL parser (\<open>url\<close>), and for trees and inventories the sequence of entries that the directory
  walk (\<open>walkdir\<close>) yields with the metadata and bytes of each. For durable publication the fate of
  each system call, the identities of new files and the JSON form of a journal are parameters;
  assumed are that a new identity is unused, that a journal that could be encoded decodes to itself,
  that reads do not fail by themselves, and that nobody else changes the files of a transaction.

  \<^bold>\<open>Loops and bounds.\<close> Loops over input are structural or have a termination proof on the bytes
  left. Reading a file of unknown length is the one loop that could run forever; it is proved
  to end because the code limits it to one byte more than the declared size. No operation of
  the program is modelled with fuel. Resolving symbolic links, which the kernel does and not the
  program, is the function \<open>follow\<close> with a bound on the links followed; the counterexample that
  uses it states the bound and reaches its result within it.

  \<^bold>\<open>Not modelled.\<close> Effects of the operating system (processes, raw disks,
  sockets, caches on disk; of durable publication the trees, single files and locks, and what a
  power failure does to unsynced data), the command lines, the Make transpiler, the toolchain producer, the
  module generator, the SDK manifests and build contracts, and the text of diagnostics: errors are values
  that carry what the message names.
\<close>

end
